(* ===== verification/Prelude.thy ===== *)
theory Prelude
  imports
    Main
    "HOL-Library.Word"
    "HOL-Library.Multiset"
    "HOL-Library.FSet"
    "HOL-Library.Finite_Map"
begin

text \<open>
  Shared ground of the development: the Go types of the source as HOL types, the results of
  fallible Go functions, Go maps as finite maps together with the order in which a
  \<^verbatim>\<open>range\<close> loop happens to visit them, big-endian byte encodings
  (\<^verbatim>\<open>encoding/binary\<close>), and the generic list, finite-map and word lemmas that the component
  theories use.
\<close>

unbundle bit_operations_syntax

section \<open>Go types\<close>

text \<open>
  Unsigned machine integers are words, so that \<open>+\<close> and \<open>-\<close> wrap around as in Go.
  A \<^verbatim>\<open>types.Hash\<close> is a Go array of 32 bytes; its bytes in order are the big-endian bytes of a
  256-bit word (\<open>hash_bytes\<close> below), and the lexicographic order of its hexadecimal text is
  the order of that word. Signatures and public keys are arrays of 64 and 32 bytes in the same way.
  A \<^verbatim>\<open>time.Time\<close> and a \<^verbatim>\<open>time.Duration\<close> are integers (nanoseconds); the clock is an
  argument \<open>now\<close> of every operation that reads it.
\<close>

type_synonym byte = "8 word"
type_synonym u16 = "16 word"
type_synonym u32 = "32 word"
type_synonym u64 = "64 word"
type_synonym hash = "256 word"
type_synonym signature = "512 word"
type_synonym pubkey = "256 word"
type_synonym time = int

section \<open>Collections of facts\<close>

named_theorems go_simps \<open>unfolding of the operations of the model\<close>
named_theorems inv_intros \<open>preservation of the invariants\<close>
named_theorems frame_simps \<open>what an operation leaves unchanged\<close>

section \<open>Go maps\<close>

text \<open>
  A Go map is a finite map. Go leaves the order of a \<^verbatim>\<open>range\<close> loop over a map unspecified:
  where the order is visible in the result, the operation takes the visiting order as an argument
  \<open>ks\<close>, and \<open>iter_order ks m\<close> says that \<open>ks\<close> is one of the orders Go may choose.
\<close>

abbreviation map_len :: "('k, 'v) fmap \<Rightarrow> nat" where
  "map_len m \<equiv> fcard (fmdom m)"

definition map_has :: "('k, 'v) fmap \<Rightarrow> 'k \<Rightarrow> bool" where
  "map_has m k \<longleftrightarrow> fmlookup m k \<noteq> None"

definition iter_order :: "'k list \<Rightarrow> ('k, 'v) fmap \<Rightarrow> bool" where
  "iter_order ks m \<longleftrightarrow> distinct ks \<and> fset_of_list ks = fmdom m"

text \<open>The values visited in the order \<open>ks\<close>, keys without a value skipped.\<close>

definition map_values :: "'k list \<Rightarrow> ('k, 'v) fmap \<Rightarrow> 'v list" where
  "map_values ks m = List.map_filter (fmlookup m) ks"

text \<open>Deleting a list of keys one after the other.\<close>

definition map_delete_all :: "'k list \<Rightarrow> ('k, 'v) fmap \<Rightarrow> ('k, 'v) fmap" where
  "map_delete_all ks m = fold fmdrop ks m"

text \<open>
  Loops whose result does not depend on the visiting order go through the keys in ascending order.
  The zero value of a slice or of a map is empty: \<open>map_slice\<close> and \<open>map_submap\<close> are Go's
  \<^verbatim>\<open>m[k]\<close> on a map of slices or of maps.
\<close>

definition map_keys :: "('k::linorder, 'v) fmap \<Rightarrow> 'k list" where
  "map_keys m = sorted_list_of_fset (fmdom m)"

definition map_slice :: "('k, 'v list) fmap \<Rightarrow> 'k \<Rightarrow> 'v list" where
  "map_slice m k = (case fmlookup m k of None \<Rightarrow> [] | Some vs \<Rightarrow> vs)"

definition map_submap :: "('k, ('i, 'v) fmap) fmap \<Rightarrow> 'k \<Rightarrow> ('i, 'v) fmap" where
  "map_submap m k = (case fmlookup m k of None \<Rightarrow> fmempty | Some n \<Rightarrow> n)"

lemma map_slice_simps [simp]:
  "map_slice fmempty k = []"
  "map_slice (fmupd k' vs m) k = (if k = k' then vs else map_slice m k)"
  "map_slice (fmdrop k' m) k = (if k = k' then [] else map_slice m k)"
  by (simp_all add: map_slice_def)

lemma map_slice_Some [simp]: "fmlookup m k = Some vs \<Longrightarrow> map_slice m k = vs"
  by (simp add: map_slice_def)

lemma map_submap_Some [simp]: "fmlookup m k = Some n \<Longrightarrow> map_submap m k = n"
  by (simp add: map_submap_def)

lemma map_submap_simps [simp]:
  "map_submap fmempty k = fmempty"
  "map_submap (fmupd k' n m) k = (if k = k' then n else map_submap m k)"
  "map_submap (fmdrop k' m) k = (if k = k' then fmempty else map_submap m k)"
  by (simp_all add: map_submap_def)

lemma map_has_simps [simp]:
  "map_has fmempty k \<longleftrightarrow> False"
  "map_has (fmupd k' v m) k \<longleftrightarrow> k = k' \<or> map_has m k"
  "map_has (fmdrop k' m) k \<longleftrightarrow> k \<noteq> k' \<and> map_has m k"
  "map_has (fmfilter P m) k \<longleftrightarrow> P k \<and> map_has m k"
  by (auto simp: map_has_def)

lemma map_has_fmdom: "map_has m k \<longleftrightarrow> k |\<in>| fmdom m"
  by (auto simp: map_has_def fmlookup_dom_iff)

lemma iter_orderD:
  assumes "iter_order ks m"
  shows "distinct ks" "k \<in> set ks \<longleftrightarrow> map_has m k" "length ks = map_len m"
proof -
  from assms show "distinct ks" by (simp add: iter_order_def)
  have dom: "fset (fmdom m) = set ks"
    using assms by (metis fset_of_list.rep_eq iter_order_def)
  then show "k \<in> set ks \<longleftrightarrow> map_has m k" by (simp add: map_has_fmdom)
  show "length ks = map_len m"
    using dom \<open>distinct ks\<close> by (simp add: fcard.rep_eq distinct_card)
qed

lemma iter_order_ex: "\<exists>ks. iter_order ks m"
proof -
  obtain ks where "distinct ks" "set ks = fset (fmdom m)"
    using finite_distinct_list finite_fset by metis
  then have "iter_order ks m"
    by (simp add: iter_order_def fset_inject[symmetric] fset_of_list.rep_eq)
  then show ?thesis ..
qed

lemma iter_order_map_keys: "iter_order (map_keys m) m"
proof -
  have "set (map_keys m) = fset (fmdom m)" "distinct (map_keys m)"
    by (simp_all add: map_keys_def sorted_list_of_fset.rep_eq)
  then show ?thesis
    by (simp add: iter_order_def fset_inject[symmetric] fset_of_list.rep_eq)
qed

lemmas map_keys_order [simp] = iter_orderD[OF iter_order_map_keys]

text \<open>A choice of a visiting order for every map.\<close>

definition go_order :: "(('k, 'v) fmap \<Rightarrow> 'k list) \<Rightarrow> bool" where
  "go_order ord \<longleftrightarrow> (\<forall>m. iter_order (ord m) m)"

lemma go_order_map_keys: "go_order (map_keys :: ('k::linorder, 'v) fmap \<Rightarrow> 'k list)"
  by (simp add: go_order_def iter_order_map_keys)

lemma iter_order_mset:
  assumes "iter_order ks m" and "iter_order ks' m"
  shows "mset ks = mset ks'"
  using assms by (simp add: set_eq_iff_mset_eq_distinct[symmetric] iter_orderD set_eq_iff)

lemma map_values_Nil [simp]: "map_values [] m = []"
  by (simp add: map_values_def)

lemma map_values_Cons:
  "map_values (k # ks) m =
     (case fmlookup m k of None \<Rightarrow> map_values ks m | Some v \<Rightarrow> v # map_values ks m)"
  by (simp add: map_values_def List.map_filter_simps split: option.split)

lemma set_map_values:
  "v \<in> set (map_values ks m) \<longleftrightarrow> (\<exists>k \<in> set ks. fmlookup m k = Some v)"
  by (force simp: map_values_def List.map_filter_def)

lemma map_values_order:
  assumes "iter_order ks m"
  shows "v \<in> set (map_values ks m) \<longleftrightarrow> (\<exists>k. fmlookup m k = Some v)"
  using iter_orderD(2)[OF assms] by (auto simp: set_map_values map_has_def)

lemma length_map_values_le: "length (map_values ks m) \<le> length ks"
  by (induction ks) (auto simp: map_values_Cons split: option.split)

lemma length_map_values_full:
  "(\<And>k. k \<in> set ks \<Longrightarrow> map_has m k) \<Longrightarrow> length (map_values ks m) = length ks"
  by (induction ks) (auto simp: map_values_Cons map_has_def split: option.split)

lemma length_map_values:
  assumes "iter_order ks m"
  shows "length (map_values ks m) = map_len m"
  using length_map_values_full[of ks m] iter_orderD(2,3)[OF assms] by simp

text \<open>Keys that the values themselves carry are visited without repetition.\<close>

lemma map_map_values_key:
  assumes "\<And>k v. fmlookup m k = Some v \<Longrightarrow> f v = k"
  shows "map f (map_values ks m) = filter (map_has m) ks"
  by (induction ks) (auto simp: map_values_Cons map_has_def assms split: option.split)

lemma distinct_map_values_key:
  assumes "\<And>k v. fmlookup m k = Some v \<Longrightarrow> f v = k" and "distinct ks"
  shows "distinct (map f (map_values ks m))"
  using assms by (simp add: map_map_values_key)

lemma fmlookup_map_delete_all [simp]:
  "fmlookup (map_delete_all ks m) k = (if k \<in> set ks then None else fmlookup m k)"
  unfolding map_delete_all_def by (induction ks arbitrary: m) auto

lemma map_delete_all_simps [simp]:
  "map_delete_all [] m = m"
  "map_delete_all (k # ks) m = map_delete_all ks (fmdrop k m)"
  by (simp_all add: map_delete_all_def)

lemma map_has_delete_all [simp]: "map_has (map_delete_all ks m) k \<longleftrightarrow> k \<notin> set ks \<and> map_has m k"
  by (simp add: map_has_def)

lemma fmap_eqI: "(\<And>k. fmlookup m k = fmlookup m' k) \<Longrightarrow> m = m'"
  by (rule fmap_ext)

lemma map_len_upd:
  "map_len (fmupd k v m) = (if map_has m k then map_len m else Suc (map_len m))"
  by (auto simp: map_has_fmdom fcard_finsert_disjoint finsert_absorb)

lemma map_len_drop:
  "map_len (fmdrop k m) = (if map_has m k then map_len m - 1 else map_len m)"
  by (simp add: map_has_fmdom fcard_fminus_fsingleton_if)

lemma map_len_empty [simp]: "map_len fmempty = 0"
  by simp

lemma map_len_pos: "map_has m k \<Longrightarrow> 0 < map_len m"
  by (metis fcard_0_eq fempty_iff gr0I map_has_fmdom)

section \<open>Lists\<close>

text \<open>
  \<^verbatim>\<open>sort.Slice\<close> with a comparison of integer keys: a permutation sorted by the key. Go's sort is
  not stable; with distinct keys the result is unique, and the statements that depend on the order
  ask for distinct keys.
\<close>

lemma sorted_key_unique:
  assumes "mset xs = mset ys" and "sorted (map f xs)" and "sorted (map f ys)"
    and "distinct (map f xs)"
  shows "xs = ys"
proof -
  have set: "set xs = set ys" using assms(1) by (rule mset_eq_setD)
  have "mset (map f xs) = mset (map f ys)" using assms(1) by simp
  then have "distinct (map f ys)" using assms(4) mset_eq_imp_distinct_iff by blast
  moreover have "inj_on f (set xs \<union> set ys)" using assms(4) set by (simp add: distinct_map)
  ultimately show ?thesis
    using assms(2-4) set by (intro map_sorted_distinct_set_unique)
qed

lemma sort_key_perm_unique:
  assumes "mset xs = mset ys" and "distinct (map f xs)"
  shows "sort_key f xs = sort_key f ys"
proof (rule sorted_key_unique)
  have "mset (map f (sort_key f xs)) = mset (map f xs)" by simp
  then show "distinct (map f (sort_key f xs))"
    using assms(2) mset_eq_imp_distinct_iff by blast
qed (simp_all add: assms(1))

lemma sum_list_mset_eq:
  fixes f :: "'a \<Rightarrow> 'b :: comm_monoid_add"
  assumes "mset xs = mset ys"
  shows "sum_list (map f xs) = sum_list (map f ys)"
  using assms by (metis mset_map sum_mset_sum_list)

lemma sorted_take: "sorted_wrt P xs \<Longrightarrow> sorted_wrt P (take n xs)"
  by (metis append_take_drop_id sorted_wrt_append)

section \<open>Quotients\<close>

text \<open>Go's integer division truncates towards zero.\<close>

definition go_div :: "int \<Rightarrow> int \<Rightarrow> int" where
  "go_div a b = sgn a * sgn b * (\<bar>a\<bar> div \<bar>b\<bar>)"

lemma go_div_nonneg: "0 \<le> a \<Longrightarrow> 0 < b \<Longrightarrow> go_div a b = a div b"
  by (cases "a = 0") (auto simp: go_div_def)

section \<open>Big-endian bytes\<close>

text \<open>
  \<open>be_bytes n w\<close> are the \<open>n\<close> low bytes of \<open>w\<close>, the most significant first:
  \<^verbatim>\<open>binary.BigEndian.PutUint16\<close> and \<^verbatim>\<open>PutUint64\<close> for \<open>n = 2\<close> and \<open>n = 8\<close>.
  \<open>be_word\<close> reads bytes back (\<^verbatim>\<open>binary.BigEndian.Uint64\<close>).
\<close>

definition be_bytes :: "nat \<Rightarrow> 'a::len word \<Rightarrow> byte list" where
  "be_bytes n w = map (\<lambda>i. ucast (drop_bit (8 * (n - 1 - i)) w)) [0..<n]"

definition be_word :: "byte list \<Rightarrow> 'a::len word" where
  "be_word bs = foldl (\<lambda>acc b. push_bit 8 acc OR ucast b) 0 bs"

definition hash_bytes :: "hash \<Rightarrow> byte list" where
  "hash_bytes h = be_bytes 32 h"

lemma length_be_bytes [simp]: "length (be_bytes n w) = n"
  by (simp add: be_bytes_def)

lemma length_hash_bytes [simp]: "length (hash_bytes h) = 32"
  by (simp add: hash_bytes_def)

lemma be_bytes_inj:
  fixes v w :: "'a::len word"
  assumes "LENGTH('a) = 8 * n" and eq: "be_bytes n v = be_bytes n w"
  shows "v = w"
proof (rule bit_word_eqI)
  fix k assume k: "k < LENGTH('a)"
  define i where "i = n - 1 - k div 8"
  have kn: "k div 8 < n" using k assms(1) by auto
  have i: "i < n" "n - 1 - i = k div 8" using kn by (auto simp: i_def)
  have "be_bytes n v ! i = be_bytes n w ! i" using eq by simp
  then have "ucast (drop_bit (8 * (k div 8)) v) = (ucast (drop_bit (8 * (k div 8)) w) :: byte)"
    using i by (simp add: be_bytes_def)
  then have "bit (ucast (drop_bit (8 * (k div 8)) v) :: byte) (k mod 8)
           = bit (ucast (drop_bit (8 * (k div 8)) w) :: byte) (k mod 8)"
    by simp
  then show "bit v k = bit w k"
    using k by (simp add: bit_simps)
qed

lemma hash_bytes_inj: "hash_bytes g = hash_bytes h \<longleftrightarrow> g = h"
  unfolding hash_bytes_def using be_bytes_inj[of 32 g h] by auto

lemma be_word_snoc: "be_word (bs @ [b]) = push_bit 8 (be_word bs) OR ucast b"
  by (simp add: be_word_def)

lemma be_word_bit:
  fixes bs :: "byte list"
  shows "k < LENGTH('a::len) \<Longrightarrow>
    bit (be_word bs :: 'a word) k \<longleftrightarrow>
      k div 8 < length bs \<and> bit (bs ! (length bs - 1 - k div 8)) (k mod 8)"
proof (induction bs arbitrary: k rule: rev_induct)
  case Nil
  then show ?case by (simp add: be_word_def)
next
  case (snoc b bs)
  show ?case
  proof (cases "k < 8")
    case True
    then show ?thesis using snoc.prems
      by (auto simp: be_word_snoc bit_simps nth_append)
  next
    case False
    then have low: "\<not> bit b k" using bit_imp_le_length[of b k] by auto
    have "bit (be_word (bs @ [b]) :: 'a word) k = bit (be_word bs :: 'a word) (k - 8)"
      using False snoc.prems low by (auto simp: be_word_snoc bit_simps)
    also have "\<dots> \<longleftrightarrow> (k - 8) div 8 < length bs \<and>
        bit (bs ! (length bs - 1 - (k - 8) div 8)) ((k - 8) mod 8)"
      using snoc.IH[of "k - 8"] snoc.prems by simp
    also have "\<dots> \<longleftrightarrow> k div 8 < length (bs @ [b]) \<and>
        bit ((bs @ [b]) ! (length (bs @ [b]) - 1 - k div 8)) (k mod 8)"
    proof -
      have d: "(k - 8) div 8 = k div 8 - 1" "(k - 8) mod 8 = k mod 8" "1 \<le> k div 8"
        using False by (auto simp: le_div_geq le_mod_geq)
      show ?thesis unfolding d using d(3)
        by (auto simp: nth_append)
    qed
    finally show ?thesis .
  qed
qed

lemma be_word_be_bytes:
  fixes w :: "'a::len word"
  assumes "LENGTH('a) = 8 * n"
  shows "be_word (be_bytes n w) = w"
proof (rule bit_word_eqI)
  fix k assume k: "k < LENGTH('a)"
  then have kn: "k div 8 < n" using assms by auto
  then have "be_bytes n w ! (n - 1 - k div 8) = ucast (drop_bit (8 * (k div 8)) w)"
    by (simp add: be_bytes_def)
  then show "bit (be_word (be_bytes n w) :: 'a word) k = bit w k"
    using k kn by (simp add: be_word_bit bit_simps)
qed

lemma be_bytes_be_word:
  assumes "8 * n \<le> LENGTH('a::len)" and "length bs = n"
  shows "be_bytes n (be_word bs :: 'a word) = bs"
proof (rule nth_equalityI)
  fix i assume "i < length (be_bytes n (be_word bs :: 'a word))"
  then have i: "i < n" by simp
  show "be_bytes n (be_word bs :: 'a word) ! i = bs ! i"
  proof (rule bit_word_eqI)
    fix j assume "j < LENGTH(8)"
    then have j: "j < 8" by simp
    have "8 * (n - 1 - i) + j < LENGTH('a)" using i j assms(1) by linarith
    moreover have "(8 * (n - 1 - i) + j) div 8 = n - 1 - i" "(8 * (n - 1 - i) + j) mod 8 = j"
      using j by simp_all
    ultimately have "bit (be_word bs :: 'a word) (8 * (n - 1 - i) + j) = bit (bs ! i) j"
      using i assms(2) by (simp add: be_word_bit)
    then show "bit (be_bytes n (be_word bs :: 'a word) ! i) j = bit (bs ! i) j"
      using i j by (simp add: be_bytes_def bit_simps)
  qed
qed (simp add: assms)

text \<open>Equal concatenations of equally long pieces have equal pieces.\<close>

lemma concat_map_inj:
  assumes "concat (map f xs) = concat (map f ys)"
    and "\<And>x. length (f x) = n" and "0 < n"
    and "\<And>x y. f x = f y \<Longrightarrow> g x = g y"
  shows "map g xs = map g ys"
  using assms(1)
proof (induction xs arbitrary: ys)
  case Nil
  then show ?case using assms(2,3) by (cases ys) (auto, metis length_greater_0_conv)
next
  case (Cons x xs)
  then obtain y ys' where ys: "ys = y # ys'"
    using assms(2,3) by (cases ys) (auto, metis length_greater_0_conv)
  have "f x = f y" "concat (map f xs) = concat (map f ys')"
    using Cons.prems assms(2) by (auto simp: ys append_eq_append_conv)
  then have "g x = g y" and "map g xs = map g ys'"
    using assms(4) Cons.IH by blast+
  then show ?case by (simp add: ys)
qed

end
