(* ===== verification/Bit_Set.thy ===== *)
theory Bit_Set
  imports Prelude
begin

text \<open>
  The bit set of \<^verbatim>\<open>types/certificate.go\<close>: a slice of 64-bit words, with
  \<^verbatim>\<open>Set\<close>, \<^verbatim>\<open>Clear\<close>, \<^verbatim>\<open>IsSet\<close> and \<^verbatim>\<open>Count\<close>. An index past the end is ignored by
  \<^verbatim>\<open>Set\<close> and \<^verbatim>\<open>Clear\<close> and reads as unset. \<^verbatim>\<open>Count\<close> sums Kernighan's bit count over
  the words; it is shown to terminate and to count the members of the set.
\<close>

section \<open>Definitions\<close>

type_synonym BitSet = "u64 list"

definition NewBitSet :: "nat \<Rightarrow> BitSet" where
  "NewBitSet n = replicate ((n + 63) div 64) 0"

definition BitSet_Set :: "BitSet \<Rightarrow> nat \<Rightarrow> BitSet" where
  "BitSet_Set bs i =
     (let w = i div 64; b = i mod 64
      in if w < length bs then bs[w := (bs ! w) OR push_bit b 1] else bs)"

definition BitSet_Clear :: "BitSet \<Rightarrow> nat \<Rightarrow> BitSet" where
  "BitSet_Clear bs i =
     (let w = i div 64; b = i mod 64
      in if w < length bs then bs[w := (bs ! w) AND NOT (push_bit b 1)] else bs)"

definition BitSet_IsSet :: "BitSet \<Rightarrow> nat \<Rightarrow> bool" where
  "BitSet_IsSet bs i =
     (let w = i div 64; b = i mod 64
      in if w \<ge> length bs then False else (bs ! w) AND push_bit b 1 \<noteq> 0)"

lemma and_minus_1_less:
  fixes x :: "'a::len word"
  assumes "x \<noteq> 0"
  shows "unat (x AND (x - 1)) < unat x"
proof -
  have "unat (x AND (x - 1)) \<le> unat (x - 1)"
    by (metis word_and_le1 word_le_nat_alt)
  also have "\<dots> < unat x" using assms by (simp add: unat_minus_one unat_gt_0)
  finally show ?thesis .
qed

function popCount :: "u64 \<Rightarrow> nat" where
  "popCount x = (if x \<noteq> 0 then Suc (popCount (x AND (x - 1))) else 0)"
  by pat_completeness auto
termination
  by (relation "measure unat") (simp_all add: and_minus_1_less)

declare popCount.simps [simp del]

definition BitSet_Count :: "BitSet \<Rightarrow> nat" where
  "BitSet_Count bs = fold (\<lambda>w count. count + popCount w) bs 0"

section \<open>The set a bit set stands for\<close>

definition bits_of :: "BitSet \<Rightarrow> nat set" where
  "bits_of bs = {i. BitSet_IsSet bs i}"

lemma BitSet_IsSet_bit:
  "BitSet_IsSet bs i \<longleftrightarrow> i div 64 < length bs \<and> bit (bs ! (i div 64)) (i mod 64)"
  by (auto simp: BitSet_IsSet_def Let_def bit_iff_and_push_bit_not_eq_0 not_le)

lemma BitSet_Set_IsSet:
  "BitSet_IsSet (BitSet_Set bs i) j \<longleftrightarrow> BitSet_IsSet bs j \<or> j = i \<and> i div 64 < length bs"
proof -
  have "j = i" if "j div 64 = i div 64" "j mod 64 = i mod 64"
    using that by (metis div_mult_mod_eq)
  then show ?thesis
    by (auto simp: BitSet_IsSet_bit BitSet_Set_def Let_def nth_list_update bit_simps)
qed

lemma BitSet_Clear_IsSet: "BitSet_IsSet (BitSet_Clear bs i) j \<longleftrightarrow> BitSet_IsSet bs j \<and> j \<noteq> i"
proof -
  have "j = i" if "j div 64 = i div 64" "j mod 64 = i mod 64"
    using that by (metis div_mult_mod_eq)
  then show ?thesis
    by (auto simp: BitSet_IsSet_bit BitSet_Clear_def Let_def nth_list_update bit_simps)
qed

lemma length_BitSet_Set [simp]: "length (BitSet_Set bs i) = length bs"
  by (simp add: BitSet_Set_def Let_def)

lemma NewBitSet_IsSet [simp]: "\<not> BitSet_IsSet (NewBitSet n) i"
  by (simp add: BitSet_IsSet_bit NewBitSet_def)

lemma fold_BitSet_Set:
  "BitSet_IsSet (fold (\<lambda>i bs. BitSet_Set bs i) is bs) j \<longleftrightarrow>
     BitSet_IsSet bs j \<or> j \<in> set is \<and> j div 64 < length bs"
  by (induction "is" arbitrary: bs) (auto simp: BitSet_Set_IsSet)

section \<open>Counting\<close>

text \<open>One step of Kernighan's loop clears the lowest set bit and nothing else.\<close>

lemma nat_and_pred_bits:
  fixes n :: nat
  assumes "n \<noteq> 0"
  shows "\<exists>l. bit n l \<and> {k. bit (n AND (n - 1)) k} = {k. bit n k} - {l}"
  using assms
proof (induction n rule: less_induct)
  case (less n)
  show ?case
  proof (cases "odd n")
    case True
    then have "bit (n - 1) k \<longleftrightarrow> bit n k" if "k \<noteq> 0" for k
      using that by (cases k) (auto simp: bit_Suc elim!: oddE)
    moreover have "\<not> bit (n - 1) 0" "bit n 0" using True by (auto simp: bit_0)
    ultimately have "{k. bit (n AND (n - 1)) k} = {k. bit n k} - {0}"
      by (auto simp: bit_and_iff)
    then show ?thesis using \<open>bit n 0\<close> by blast
  next
    case False
    then obtain m where m: "n = 2 * m" by (auto elim: evenE)
    then have m0: "m \<noteq> 0" "m < n" using less.prems by auto
    then obtain l where l: "bit m l" "{k. bit (m AND (m - 1)) k} = {k. bit m k} - {l}"
      using less.IH[of m] by auto
    have "n - 1 = 2 * (m - 1) + 1" using m m0 by auto
    then have b: "bit (n - 1) (Suc k) = bit (m - 1) k" for k by (simp add: bit_Suc del: One_nat_def)
    have n: "bit n (Suc k) = bit m k" "\<not> bit n 0" for k by (simp_all add: m bit_Suc bit_0)
    have "bit (n AND (n - 1)) k \<longleftrightarrow> bit n k \<and> k \<noteq> Suc l" for k
    proof (cases k)
      case 0
      then show ?thesis by (simp add: bit_and_iff n)
    next
      case (Suc j)
      have "bit (m AND (m - 1)) j \<longleftrightarrow> bit m j \<and> j \<noteq> l" using l(2) by blast
      then show ?thesis by (simp add: Suc bit_and_iff n b del: One_nat_def)
    qed
    then show ?thesis using l(1) n(1) by (intro exI[of _ "Suc l"]) auto
  qed
qed

lemma word_and_pred_bits:
  fixes x :: "'a::len word"
  assumes "x \<noteq> 0"
  shows "\<exists>l. bit x l \<and> {k. bit (x AND (x - 1)) k} = {k. bit x k} - {l}"
proof -
  have *: "bit y k = bit (unat y) k" for y :: "'a word" and k
    by (simp add: bit_unsigned_iff)
  have "unat (x - 1) = unat x - 1" using assms by (rule unat_minus_one)
  then have "unat (x AND (x - 1)) = unat x AND (unat x - 1)"
    by (simp add: unsigned_and_eq)
  moreover have "unat x \<noteq> 0" using assms by (simp add: unat_eq_zero)
  ultimately show ?thesis using nat_and_pred_bits[of "unat x"] by (simp add: *)
qed

lemma finite_word_bits [simp]: "finite {k. bit (x :: 'a::len word) k}"
proof (rule finite_subset)
  show "{k. bit x k} \<subseteq> {..<LENGTH('a)}" by (auto dest: bit_imp_le_length)
qed simp

lemma popCount_card: "popCount x = card {k. bit x k}"
proof (induction x rule: popCount.induct)
  case (1 x)
  show ?case
  proof (cases "x = 0")
    case True
    then show ?thesis by (simp add: popCount.simps)
  next
    case False
    then obtain l where l: "bit x l" "{k. bit (x AND (x - 1)) k} = {k. bit x k} - {l}"
      using word_and_pred_bits by blast
    have "popCount x = Suc (card ({k. bit x k} - {l}))"
      using False "1.IH" l(2) by (subst popCount.simps) simp
    also have "\<dots> = card {k. bit x k}"
      using l(1) by (intro card_Suc_Diff1) auto
    finally show ?thesis .
  qed
qed

lemma fold_count: "fold (\<lambda>w c. c + f w) ws (a::nat) = a + sum_list (map f ws)"
  by (induction ws arbitrary: a) auto

lemma bits_of_Cons:
  "bits_of (w # bs) = {k. bit w k} \<union> (\<lambda>i. i + 64) ` bits_of bs"
proof (intro set_eqI iffI)
  fix i assume "i \<in> bits_of (w # bs)"
  then have i: "i div 64 < Suc (length bs)" "bit ((w # bs) ! (i div 64)) (i mod 64)"
    by (auto simp: bits_of_def BitSet_IsSet_bit)
  show "i \<in> {k. bit w k} \<union> (\<lambda>i. i + 64) ` bits_of bs"
  proof (cases "i < 64")
    case True
    then show ?thesis using i by simp
  next
    case False
    then have d: "i div 64 = Suc ((i - 64) div 64)" "(i - 64) mod 64 = i mod 64"
      by (auto simp: le_div_geq le_mod_geq)
    then have "i - 64 \<in> bits_of bs" using i by (simp add: bits_of_def BitSet_IsSet_bit)
    moreover have "i = (i - 64) + 64" using False by simp
    ultimately show ?thesis by blast
  qed
next
  fix i assume "i \<in> {k. bit w k} \<union> (\<lambda>i. i + 64) ` bits_of bs"
  then consider "bit w i" | j where "i = j + 64" "j \<in> bits_of bs" by auto
  then show "i \<in> bits_of (w # bs)"
  proof cases
    case 1
    then have "i < 64" using bit_imp_le_length[of w i] by simp
    then show ?thesis using 1 by (simp add: bits_of_def BitSet_IsSet_bit)
  next
    case 2
    then show ?thesis by (auto simp: bits_of_def BitSet_IsSet_bit)
  qed
qed

lemma finite_bits_of [simp]: "finite (bits_of bs)"
proof (induction bs)
  case Nil
  then show ?case by (simp add: bits_of_def BitSet_IsSet_bit)
next
  case (Cons w bs)
  then show ?case by (simp add: bits_of_Cons)
qed

lemma sum_popCount: "sum_list (map popCount bs) = card (bits_of bs)"
proof (induction bs)
  case Nil
  then show ?case by (simp add: bits_of_def BitSet_IsSet_bit)
next
  case (Cons w bs)
  have disj: "{k. bit w k} \<inter> (\<lambda>i. i + 64) ` bits_of bs = {}"
    using bit_imp_le_length[of w] by fastforce
  have "card (bits_of (w # bs)) = card {k. bit w k} + card ((\<lambda>i. i + 64) ` bits_of bs)"
    unfolding bits_of_Cons using disj by (simp add: card_Un_disjoint)
  also have "card ((\<lambda>i. i + 64) ` bits_of bs) = card (bits_of bs)"
    by (rule card_image) simp
  finally show ?case using Cons by (simp add: popCount_card)
qed

lemma BitSet_Count_card: "BitSet_Count bs = card (bits_of bs)"
  by (simp add: BitSet_Count_def fold_count sum_popCount)

end
