(* ===== verification/Wire_Types.thy ===== *)
theory Wire_Types
  imports Prelude
begin

text \<open>
  The data of package \<^verbatim>\<open>types\<close>: sentinel errors and their classification
  (\<^verbatim>\<open>errors.go\<close>), transactions, batches, headers and votes (\<^verbatim>\<open>transaction.go\<close>,
  \<^verbatim>\<open>batch.go\<close>, \<^verbatim>\<open>header.go\<close>, \<^verbatim>\<open>vote.go\<close>), the signing and hashing they rest on, and
  what the digests of batches and headers bind.

  SHA-256 and Ed25519 are fields of a record \<open>crypto\<close>, an argument of every operation that
  hashes or verifies. Nothing is assumed of them but what a statement names: collision freedom on
  the finitely many byte strings it speaks of.
\<close>

section \<open>Errors\<close>

datatype err =
    ErrTxAlreadyExists | ErrTxValidationFailed
  | ErrMempoolFull | ErrWorkerBackpressure
  | ErrInvalidBatch | ErrBatchNotFound | ErrBatchTooLarge | ErrEmptyBatch | ErrBatchDigestMismatch
  | ErrInvalidHeader | ErrDuplicateHeader | ErrMissingParents | ErrInvalidParentRound
  | ErrHeaderTooFarAhead
  | ErrInvalidVote | ErrDuplicateVote | ErrVoteWrongHeader
  | ErrInvalidCertificate | ErrCertificateNotFound | ErrInsufficientQuorum
  | ErrInvalidSignature
  | ErrValidatorNotFound | ErrInvalidValidator | ErrEpochMismatch
  | ErrRoundMismatch | ErrRoundTooOld | ErrRoundNotAdvanced
  | ErrFlowControlPaused
  | ErrSyncRequired | ErrSyncTimeout | ErrSyncFailed
  | ErrNotRunning | ErrAlreadyRunning
  | ErrOther string

text \<open>A Go function returning \<^verbatim>\<open>error\<close> gives \<open>None\<close> for nil; one returning
  \<^verbatim>\<open>(T, error)\<close> gives a sum.\<close>

type_synonym 'a result = "err + 'a"

definition IsRetryable :: "err \<Rightarrow> bool" where
  "IsRetryable e = (if e = ErrWorkerBackpressure then True
     else if e = ErrMempoolFull then True
     else if e = ErrFlowControlPaused then True
     else if e = ErrSyncTimeout then True
     else False)"

definition IsByzantine :: "err \<Rightarrow> bool" where
  "IsByzantine e = (if e = ErrInvalidSignature then True
     else if e = ErrDuplicateHeader then True
     else if e = ErrDuplicateVote then True
     else if e = ErrInvalidBatch then True
     else if e = ErrInvalidHeader then True
     else if e = ErrInvalidVote then True
     else False)"

lemma IsRetryable_not_IsByzantine: "IsRetryable e \<Longrightarrow> \<not> IsByzantine e"
  by (auto simp: IsRetryable_def IsByzantine_def split: if_splits)

section \<open>Hashing and signing\<close>

record crypto =
  Sha256 :: "byte list \<Rightarrow> hash"
  EdVerify :: "pubkey \<Rightarrow> hash \<Rightarrow> signature \<Rightarrow> bool"

text \<open>The interface \<^verbatim>\<open>types.Signer\<close>; signing may fail.\<close>

record signer =
  sg_Sign :: "hash \<Rightarrow> signature result"
  sg_PublicKey :: pubkey
  sg_ValidatorIndex :: u16

definition EmptyHash :: hash where
  "EmptyHash = 0"

definition EmptySignature :: signature where
  "EmptySignature = 0"

definition HashBytes :: "crypto \<Rightarrow> byte list \<Rightarrow> hash" where
  "HashBytes C data = Sha256 C data"

definition HashConcat :: "crypto \<Rightarrow> hash \<Rightarrow> hash \<Rightarrow> hash" where
  "HashConcat C left right = Sha256 C (hash_bytes left @ hash_bytes right)"

definition HashFromBytes :: "byte list \<Rightarrow> hash result" where
  "HashFromBytes b = (if length b \<noteq> 32 then Inl (ErrOther ''invalid hash length'')
                      else Inr (be_word b))"

definition PublicKey_Verify :: "crypto \<Rightarrow> pubkey \<Rightarrow> hash \<Rightarrow> signature \<Rightarrow> bool" where
  "PublicKey_Verify C pk digest sig = EdVerify C pk digest sig"

section \<open>Transactions and batches\<close>

type_synonym transaction = "byte list"

definition Transaction_Hash :: "crypto \<Rightarrow> transaction \<Rightarrow> hash" where
  "Transaction_Hash C tx = HashBytes C tx"

definition Transaction_Size :: "transaction \<Rightarrow> int" where
  "Transaction_Size tx = int (length tx)"

definition Transaction_IsEmpty :: "transaction \<Rightarrow> bool" where
  "Transaction_IsEmpty tx \<longleftrightarrow> length tx = 0"

text \<open>\<^verbatim>\<open>Transaction.Equal\<close> compares the lengths first and then byte by byte.\<close>

fun bytes_equal_loop :: "transaction \<Rightarrow> transaction \<Rightarrow> bool" where
  "bytes_equal_loop (x # xs) (y # ys) = (if x \<noteq> y then False else bytes_equal_loop xs ys)"
| "bytes_equal_loop _ _ = True"

definition Transaction_Equal :: "transaction \<Rightarrow> transaction \<Rightarrow> bool" where
  "Transaction_Equal tx other =
     (if length tx \<noteq> length other then False else bytes_equal_loop tx other)"

record TxAdmission =
  ta_Priority :: int
  ta_Sender :: string

record BatchDigest =
  bd_Digest :: hash
  bd_WorkerID :: u16
  bd_ValidatorID :: u16

record Batch =
  b_WorkerID :: u16
  b_ValidatorID :: u16
  b_Round :: u64
  b_Transactions :: "transaction list"
  b_Digest :: hash
  b_Timestamp :: u64

text \<open>
  The bytes that \<^verbatim>\<open>Batch.ComputeDigest\<close> hashes. The timestamp is kept as the bits of the
  \<^verbatim>\<open>int64\<close>, which is what \<^verbatim>\<open>uint64(b.Timestamp)\<close> reads.
\<close>

definition Batch_digest_data :: "crypto \<Rightarrow> Batch \<Rightarrow> byte list" where
  "Batch_digest_data C b =
     be_bytes 2 (b_WorkerID b) @ be_bytes 2 (b_ValidatorID b) @
     be_bytes 8 (b_Round b) @ be_bytes 8 (b_Timestamp b) @
     concat (map (\<lambda>tx. hash_bytes (Transaction_Hash C tx)) (b_Transactions b))"

definition Batch_ComputeDigest :: "crypto \<Rightarrow> Batch \<Rightarrow> hash" where
  "Batch_ComputeDigest C b = HashBytes C (Batch_digest_data C b)"

definition NewBatch :: "crypto \<Rightarrow> time \<Rightarrow> u16 \<Rightarrow> u16 \<Rightarrow> u64 \<Rightarrow> transaction list \<Rightarrow> Batch" where
  "NewBatch C now workerID validatorID rnd txs =
     (let b = \<lparr>b_WorkerID = workerID, b_ValidatorID = validatorID, b_Round = rnd,
               b_Transactions = txs, b_Digest = EmptyHash, b_Timestamp = word_of_int now\<rparr>
      in b\<lparr>b_Digest := Batch_ComputeDigest C b\<rparr>)"

definition Batch_Size :: "Batch \<Rightarrow> int" where
  "Batch_Size b = fold (\<lambda>tx total. total + Transaction_Size tx) (b_Transactions b) 0"

definition Batch_TxCount :: "Batch \<Rightarrow> nat" where
  "Batch_TxCount b = length (b_Transactions b)"

definition Batch_IsEmpty :: "Batch \<Rightarrow> bool" where
  "Batch_IsEmpty b \<longleftrightarrow> length (b_Transactions b) = 0"

definition Batch_GetDigest :: "Batch \<Rightarrow> BatchDigest" where
  "Batch_GetDigest b = \<lparr>bd_Digest = b_Digest b, bd_WorkerID = b_WorkerID b,
                        bd_ValidatorID = b_ValidatorID b\<rparr>"

definition Batch_Verify :: "crypto \<Rightarrow> Batch \<Rightarrow> bool" where
  "Batch_Verify C b \<longleftrightarrow> b_Digest b = Batch_ComputeDigest C b"

section \<open>Headers\<close>

record CertificateRef =
  cr_Digest :: hash
  cr_Round :: u64

record Header =
  h_Author :: u16
  h_Round :: u64
  h_Epoch :: u64
  h_BatchRefs :: "BatchDigest list"
  h_Parents :: "CertificateRef list"
  h_Timestamp :: u64
  h_Digest :: hash
  h_Signature :: signature

definition batch_ref_bytes :: "BatchDigest \<Rightarrow> byte list" where
  "batch_ref_bytes ref =
     hash_bytes (bd_Digest ref) @ be_bytes 2 (bd_WorkerID ref) @ be_bytes 2 (bd_ValidatorID ref)"

definition cert_ref_bytes :: "CertificateRef \<Rightarrow> byte list" where
  "cert_ref_bytes ref = hash_bytes (cr_Digest ref) @ be_bytes 8 (cr_Round ref)"

text \<open>
  The bytes that \<^verbatim>\<open>Header.ComputeDigest\<close> hashes. Go compares the hexadecimal text of the
  digests, which orders them as the words are ordered.
\<close>

definition Header_digest_data :: "Header \<Rightarrow> byte list" where
  "Header_digest_data h =
     be_bytes 2 (h_Author h) @ be_bytes 8 (h_Round h) @ be_bytes 8 (h_Epoch h) @
     be_bytes 8 (h_Timestamp h) @
     concat (map batch_ref_bytes (sort_key bd_Digest (h_BatchRefs h))) @
     concat (map cert_ref_bytes (h_Parents h))"

definition Header_ComputeDigest :: "crypto \<Rightarrow> Header \<Rightarrow> hash" where
  "Header_ComputeDigest C h = HashBytes C (Header_digest_data h)"

definition NewHeader ::
  "crypto \<Rightarrow> time \<Rightarrow> u16 \<Rightarrow> u64 \<Rightarrow> u64 \<Rightarrow> BatchDigest list \<Rightarrow> CertificateRef list \<Rightarrow> Header" where
  "NewHeader C now author rnd epoch batchRefs parents =
     (let h = \<lparr>h_Author = author, h_Round = rnd, h_Epoch = epoch, h_BatchRefs = batchRefs,
               h_Parents = parents, h_Timestamp = word_of_int now, h_Digest = EmptyHash,
               h_Signature = EmptySignature\<rparr>
      in h\<lparr>h_Digest := Header_ComputeDigest C h\<rparr>)"

definition Header_Sign :: "signer \<Rightarrow> Header \<Rightarrow> Header result" where
  "Header_Sign sg h = (case sg_Sign sg (h_Digest h) of
       Inl e \<Rightarrow> Inl e
     | Inr sig \<Rightarrow> Inr (h\<lparr>h_Signature := sig\<rparr>))"

definition Header_Verify :: "crypto \<Rightarrow> Header \<Rightarrow> pubkey \<Rightarrow> bool" where
  "Header_Verify C h pk = PublicKey_Verify C pk (h_Digest h) (h_Signature h)"

definition Header_IsEmpty :: "Header \<Rightarrow> bool" where
  "Header_IsEmpty h \<longleftrightarrow> length (h_BatchRefs h) = 0"

section \<open>Votes\<close>

record Vote =
  v_HeaderDigest :: hash
  v_Validator :: u16
  v_Signature :: signature

definition NewVote :: "hash \<Rightarrow> u16 \<Rightarrow> Vote" where
  "NewVote headerDigest validator =
     \<lparr>v_HeaderDigest = headerDigest, v_Validator = validator, v_Signature = EmptySignature\<rparr>"

definition Vote_Sign :: "signer \<Rightarrow> Vote \<Rightarrow> Vote result" where
  "Vote_Sign sg v = (case sg_Sign sg (v_HeaderDigest v) of
       Inl e \<Rightarrow> Inl e
     | Inr sig \<Rightarrow> Inr (v\<lparr>v_Signature := sig\<rparr>))"

definition Vote_Verify :: "crypto \<Rightarrow> Vote \<Rightarrow> pubkey \<Rightarrow> bool" where
  "Vote_Verify C v pk = PublicKey_Verify C pk (v_HeaderDigest v) (v_Signature v)"

definition Vote_IsSigned :: "Vote \<Rightarrow> bool" where
  "Vote_IsSigned v \<longleftrightarrow> v_Signature v \<noteq> EmptySignature"

section \<open>Elementary facts\<close>

lemma bytes_equal_loop_eq: "length xs = length ys \<Longrightarrow> bytes_equal_loop xs ys \<longleftrightarrow> xs = ys"
  by (induction xs ys rule: list_induct2) auto

lemma Transaction_Equal_iff: "Transaction_Equal tx other \<longleftrightarrow> tx = other"
  by (auto simp: Transaction_Equal_def bytes_equal_loop_eq)

lemma fold_add_sum_list: "fold (\<lambda>x acc. acc + f x) xs (a::int) = a + sum_list (map f xs)"
  by (induction xs arbitrary: a) auto

lemma Batch_Size_sum: "Batch_Size b = sum_list (map Transaction_Size (b_Transactions b))"
  by (simp add: Batch_Size_def fold_add_sum_list)

lemma Transaction_Size_nonneg [simp]: "0 \<le> Transaction_Size tx"
  by (simp add: Transaction_Size_def)

lemma sum_Transaction_Size_nonneg [simp]: "0 \<le> sum_list (map Transaction_Size txs)"
  by (induction txs) auto

lemma Batch_Size_nonneg [simp]: "0 \<le> Batch_Size b"
  by (simp add: Batch_Size_sum)

lemma NewBatch_fields [simp]:
  "b_WorkerID (NewBatch C now w v r txs) = w"
  "b_ValidatorID (NewBatch C now w v r txs) = v"
  "b_Round (NewBatch C now w v r txs) = r"
  "b_Transactions (NewBatch C now w v r txs) = txs"
  by (simp_all add: NewBatch_def Let_def)

lemma NewBatch_Verify: "Batch_Verify C (NewBatch C now w v r txs)"
  by (simp add: NewBatch_def Batch_Verify_def Batch_ComputeDigest_def Batch_digest_data_def Let_def)

lemma NewHeader_fields [simp]:
  "h_Author (NewHeader C now a r e bs ps) = a"
  "h_Round (NewHeader C now a r e bs ps) = r"
  "h_Epoch (NewHeader C now a r e bs ps) = e"
  "h_BatchRefs (NewHeader C now a r e bs ps) = bs"
  "h_Parents (NewHeader C now a r e bs ps) = ps"
  "h_Signature (NewHeader C now a r e bs ps) = EmptySignature"
  by (simp_all add: NewHeader_def Let_def)

lemma NewHeader_Digest:
  "h_Digest (NewHeader C now a r e bs ps) = Header_ComputeDigest C (NewHeader C now a r e bs ps)"
  by (simp add: NewHeader_def Header_ComputeDigest_def Header_digest_data_def Let_def)

lemma Header_Sign_eq:
  "Header_Sign sg h = Inr h' \<Longrightarrow>
     \<exists>sig. sg_Sign sg (h_Digest h) = Inr sig \<and> h' = h\<lparr>h_Signature := sig\<rparr>"
  by (auto simp: Header_Sign_def split: sum.splits)

lemma Vote_Sign_eq:
  "Vote_Sign sg v = Inr v' \<Longrightarrow>
     \<exists>sig. sg_Sign sg (v_HeaderDigest v) = Inr sig \<and> v' = v\<lparr>v_Signature := sig\<rparr>"
  by (auto simp: Vote_Sign_def split: sum.splits)

lemma HashFromBytes_roundtrip: "HashFromBytes (hash_bytes h) = Inr h"
  by (simp add: HashFromBytes_def hash_bytes_def be_word_be_bytes)

section \<open>What a digest binds\<close>

lemma batch_data_inj:
  assumes eq: "Batch_digest_data C b = Batch_digest_data C b'"
  shows "b_WorkerID b = b_WorkerID b' \<and> b_ValidatorID b = b_ValidatorID b' \<and>
         b_Round b = b_Round b' \<and> b_Timestamp b = b_Timestamp b' \<and>
         map (Transaction_Hash C) (b_Transactions b) = map (Transaction_Hash C) (b_Transactions b')"
proof -
  let ?f = "\<lambda>tx. hash_bytes (Transaction_Hash C tx)"
  have parts: "be_bytes 2 (b_WorkerID b) = be_bytes 2 (b_WorkerID b')"
    "be_bytes 2 (b_ValidatorID b) = be_bytes 2 (b_ValidatorID b')"
    "be_bytes 8 (b_Round b) = be_bytes 8 (b_Round b')"
    "be_bytes 8 (b_Timestamp b) = be_bytes 8 (b_Timestamp b')"
    "concat (map ?f (b_Transactions b)) = concat (map ?f (b_Transactions b'))"
    using eq by (simp_all add: Batch_digest_data_def)
  have "map (Transaction_Hash C) (b_Transactions b) = map (Transaction_Hash C) (b_Transactions b')"
    by (rule concat_map_inj[OF parts(5), of 32]) (simp_all add: hash_bytes_inj)
  with parts(1-4) show ?thesis
    by (auto dest!: be_bytes_inj[rotated])
qed

lemma batch_ref_bytes_inj: "batch_ref_bytes r = batch_ref_bytes r' \<longleftrightarrow> r = r'"
  by (auto simp: batch_ref_bytes_def hash_bytes_inj intro: BatchDigest.equality
      dest!: be_bytes_inj[rotated])

lemma cert_ref_bytes_inj: "cert_ref_bytes r = cert_ref_bytes r' \<longleftrightarrow> r = r'"
  by (auto simp: cert_ref_bytes_def hash_bytes_inj intro: CertificateRef.equality
      dest!: be_bytes_inj[rotated])

lemma length_batch_ref_bytes [simp]: "length (batch_ref_bytes r) = 36"
  by (simp add: batch_ref_bytes_def)

lemma length_cert_ref_bytes [simp]: "length (cert_ref_bytes r) = 40"
  by (simp add: cert_ref_bytes_def)

lemma length_concat_const:
  "(\<And>x. length (f x) = n) \<Longrightarrow> length (concat (map f xs)) = n * length xs"
  by (induction xs) auto

lemma header_data_inj:
  assumes eq: "Header_digest_data h = Header_digest_data h'"
    and len: "length (h_BatchRefs h) = length (h_BatchRefs h')"
  shows "h_Author h = h_Author h' \<and> h_Round h = h_Round h' \<and> h_Epoch h = h_Epoch h' \<and>
         h_Timestamp h = h_Timestamp h' \<and> mset (h_BatchRefs h) = mset (h_BatchRefs h') \<and>
         h_Parents h = h_Parents h'"
proof -
  let ?s = "\<lambda>h. sort_key bd_Digest (h_BatchRefs h)"
  have "length (concat (map batch_ref_bytes (?s h))) = length (concat (map batch_ref_bytes (?s h')))"
    using len by (simp add: length_concat_const[of batch_ref_bytes 36])
  then have parts: "be_bytes 2 (h_Author h) = be_bytes 2 (h_Author h')"
    "be_bytes 8 (h_Round h) = be_bytes 8 (h_Round h')"
    "be_bytes 8 (h_Epoch h) = be_bytes 8 (h_Epoch h')"
    "be_bytes 8 (h_Timestamp h) = be_bytes 8 (h_Timestamp h')"
    "concat (map batch_ref_bytes (?s h)) = concat (map batch_ref_bytes (?s h'))"
    "concat (map cert_ref_bytes (h_Parents h)) = concat (map cert_ref_bytes (h_Parents h'))"
    using eq by (simp_all add: Header_digest_data_def)
  have "map id (?s h) = map id (?s h')"
    by (rule concat_map_inj[OF parts(5), of 36]) (simp_all add: batch_ref_bytes_inj)
  then have "mset (h_BatchRefs h) = mset (h_BatchRefs h')"
    by (metis list.map_id mset_sort)
  moreover have "map id (h_Parents h) = map id (h_Parents h')"
    by (rule concat_map_inj[OF parts(6), of 40]) (simp_all add: cert_ref_bytes_inj)
  ultimately show ?thesis using parts(1-4)
    by (auto dest!: be_bytes_inj[rotated])
qed

lemma cert_ref_bytes_surj:
  assumes "length bs = 40"
  shows "\<exists>r. cert_ref_bytes r = bs"
proof -
  let ?r = "\<lparr>cr_Digest = be_word (take 32 bs), cr_Round = be_word (drop 32 bs)\<rparr>"
  have "be_bytes 32 (be_word (take 32 bs) :: hash) = take 32 bs"
    using assms by (intro be_bytes_be_word) simp_all
  moreover have "be_bytes 8 (be_word (drop 32 bs) :: u64) = drop 32 bs"
    using assms by (intro be_bytes_be_word) simp_all
  ultimately have "cert_ref_bytes ?r = bs"
    by (simp add: cert_ref_bytes_def hash_bytes_def)
  then show ?thesis by blast
qed

lemma cert_refs_surj:
  "length bs = 40 * k \<Longrightarrow> \<exists>rs. length rs = k \<and> concat (map cert_ref_bytes rs) = bs"
proof (induction k arbitrary: bs)
  case (Suc k)
  obtain r where r: "cert_ref_bytes r = take 40 bs"
    using cert_ref_bytes_surj[of "take 40 bs"] Suc.prems by auto
  obtain rs where "length rs = k" "concat (map cert_ref_bytes rs) = drop 40 bs"
    using Suc.IH[of "drop 40 bs"] Suc.prems by auto
  with r have "length (r # rs) = Suc k \<and> concat (map cert_ref_bytes (r # rs)) = bs" by simp
  then show ?case by blast
qed simp

section \<open>A concrete cryptography\<close>

text \<open>
  The cryptographic primitives are parameters of every definition. The instance below is one
  concrete choice at which the theorems with hypotheses on them are evaluated.
\<close>

definition demo_crypto :: crypto where
  "demo_crypto =
     \<lparr>Sha256 = (\<lambda>bs. fold (\<lambda>b acc. 257 * acc + ucast b + 1) bs 0),
      EdVerify = (\<lambda>pk d s. s = ucast d + ucast pk)\<rparr>"

definition demo_sign :: "pubkey \<Rightarrow> hash \<Rightarrow> signature" where
  "demo_sign pk d = ucast d + ucast pk"

lemma demo_verify [simp]: "PublicKey_Verify demo_crypto pk d (demo_sign pk d)"
  by (simp add: PublicKey_Verify_def demo_crypto_def demo_sign_def)

section \<open>Properties\<close>

text \<open>
  \<^bold>\<open>C7\<close>: a batch digest binds the batch. If a batch passes \<^verbatim>\<open>Batch.Verify\<close>, then no
  other batch with the same digest does, whichever field or transaction it differs in, provided
  SHA-256 has no collision among the two digest inputs and the transactions of the two batches.
\<close>

theorem batch_digest_binding:
  assumes "Batch_Verify C b" and "b' \<noteq> b" and "b_Digest b' = b_Digest b"
    and "inj_on (Sha256 C) ({Batch_digest_data C b, Batch_digest_data C b'} \<union>
           set (b_Transactions b) \<union> set (b_Transactions b'))"
  shows "\<not> Batch_Verify C b'"
proof
  assume "Batch_Verify C b'"
  then have "Sha256 C (Batch_digest_data C b) = Sha256 C (Batch_digest_data C b')"
    using assms(1-3) by (simp add: Batch_Verify_def Batch_ComputeDigest_def HashBytes_def)
  then have "Batch_digest_data C b = Batch_digest_data C b'"
    using assms(4) by (auto dest: inj_onD)
  note eqs = batch_data_inj[OF this]
  have "Transaction_Hash C = Sha256 C" by (simp add: fun_eq_iff Transaction_Hash_def HashBytes_def)
  then have "map (Sha256 C) (b_Transactions b) = map (Sha256 C) (b_Transactions b')"
    using eqs by simp
  then have "b_Transactions b = b_Transactions b'"
    by (rule map_inj_on) (rule inj_on_subset[OF assms(4)], blast)
  then have "b' = b" using eqs assms(3) by (intro Batch.equality) simp_all
  then show False using assms(2) by blast
qed

theorem batch_digest_binding_witness:
  "let C = demo_crypto\<lparr>Sha256 := \<lambda>bs. of_nat (length bs)\<rparr>; b = NewBatch C 7 1 2 3 [[5]]
   in Batch_Verify C b \<and> \<not> Batch_Verify C (b\<lparr>b_Transactions := [[5], [6, 6]]\<rparr>)"
proof -
  let ?C = "demo_crypto\<lparr>Sha256 := \<lambda>bs. of_nat (length bs)\<rparr>"
  let ?b = "NewBatch ?C 7 1 2 3 [[5]]"
  let ?b' = "?b\<lparr>b_Transactions := [[5], [6, 6]]\<rparr>"
  have "length (Batch_digest_data ?C ?b) = 52" "length (Batch_digest_data ?C ?b') = 84"
    by (simp_all add: Batch_digest_data_def)
  then have "inj_on (Sha256 ?C) ({Batch_digest_data ?C ?b, Batch_digest_data ?C ?b'} \<union>
           set (b_Transactions ?b) \<union> set (b_Transactions ?b'))"
    by (auto simp: inj_on_def)
  moreover have "?b' \<noteq> ?b"
  proof
    assume "?b' = ?b"
    then have "b_Transactions ?b' = b_Transactions ?b" by (rule arg_cong)
    then show False by simp
  qed
  ultimately show ?thesis
    using batch_digest_binding[of ?C ?b ?b'] NewBatch_Verify[of ?C 7 1 2 3 "[[5]]"] by simp
qed

text \<open>
  \<^bold>\<open>C8\<close>: a header digest binds the header. Two headers whose digest field is the one
  \<^verbatim>\<open>ComputeDigest\<close> gives, with equal digests and equally many batch references, agree on
  author, round, epoch, timestamp and parents and list the same batch references up to their
  order, provided SHA-256 does not collide on the two inputs.
\<close>

theorem header_digest_binding:
  assumes "h_Digest h = Header_ComputeDigest C h" and "h_Digest h' = Header_ComputeDigest C h'"
    and "h_Digest h = h_Digest h'" and "length (h_BatchRefs h) = length (h_BatchRefs h')"
    and "inj_on (Sha256 C) {Header_digest_data h, Header_digest_data h'}"
  shows "h_Author h = h_Author h' \<and> h_Round h = h_Round h' \<and> h_Epoch h = h_Epoch h' \<and>
         h_Timestamp h = h_Timestamp h' \<and> mset (h_BatchRefs h) = mset (h_BatchRefs h') \<and>
         h_Parents h = h_Parents h'"
proof -
  have "Sha256 C (Header_digest_data h) = Sha256 C (Header_digest_data h')"
    using assms(1-3) by (simp add: Header_ComputeDigest_def HashBytes_def)
  then have "Header_digest_data h = Header_digest_data h'"
    using assms(5) by (auto dest: inj_onD)
  then show ?thesis using assms(4) by (rule header_data_inj)
qed

theorem header_digest_binding_witness:
  "let r = \<lparr>bd_Digest = 2, bd_WorkerID = 0, bd_ValidatorID = 0\<rparr>; r' = r\<lparr>bd_Digest := 3\<rparr>;
       h = NewHeader demo_crypto 9 3 4 5 [r, r'] []; h' = h\<lparr>h_BatchRefs := [r', r]\<rparr>
   in h_Digest h' = Header_ComputeDigest demo_crypto h' \<and>
      mset (h_BatchRefs h) = mset (h_BatchRefs h') \<and> h_BatchRefs h \<noteq> h_BatchRefs h'"
proof -
  let ?r = "\<lparr>bd_Digest = 2, bd_WorkerID = 0, bd_ValidatorID = 0\<rparr>"
  let ?r' = "?r\<lparr>bd_Digest := 3\<rparr>"
  let ?h = "NewHeader demo_crypto 9 3 4 5 [?r, ?r'] []"
  let ?h' = "?h\<lparr>h_BatchRefs := [?r', ?r]\<rparr>"
  have eq: "Header_digest_data ?h' = Header_digest_data ?h"
    by (simp add: Header_digest_data_def)
  have d: "h_Digest ?h = Header_ComputeDigest demo_crypto ?h" by (rule NewHeader_Digest)
  then have d': "h_Digest ?h' = Header_ComputeDigest demo_crypto ?h'"
    using eq by (simp add: Header_ComputeDigest_def)
  show ?thesis
    using header_digest_binding[of ?h demo_crypto ?h'] d d' eq by simp
qed

text \<open>
  \<^bold>\<open>C9\<close>: without the assumption on the number of references the header digest is ambiguous. A
  batch reference is hashed as 36 bytes and a parent as 40, with no length prefix: for every
  header with ten batch references and no parent there is a header of the same author, round,
  epoch and timestamp with no batch reference and nine parents that has the same digest, for every
  hash function.
\<close>

theorem header_digest_ambiguous:
  assumes "length (h_BatchRefs h) = 10" and "h_Parents h = []"
  shows "\<exists>ps. length ps = 9 \<and>
     Header_ComputeDigest C (h\<lparr>h_BatchRefs := [], h_Parents := ps\<rparr>) = Header_ComputeDigest C h"
proof -
  let ?bs = "concat (map batch_ref_bytes (sort_key bd_Digest (h_BatchRefs h)))"
  have "length ?bs = 40 * 9"
    using assms(1) by (simp add: length_concat_const[of batch_ref_bytes 36])
  then obtain ps where "length ps = 9" "concat (map cert_ref_bytes ps) = ?bs"
    using cert_refs_surj by blast
  then show ?thesis using assms(2)
    by (intro exI[of _ ps]) (simp add: Header_ComputeDigest_def Header_digest_data_def)
qed

theorem header_digest_ambiguous_witness:
  "\<exists>ps. length ps = 9 \<and>
     (let r = (\<lambda>i. \<lparr>bd_Digest = i, bd_WorkerID = 0, bd_ValidatorID = 0\<rparr>);
          h = NewHeader demo_crypto 9 3 4 5 (map r [0, 1, 2, 3, 4, 5, 6, 7, 8, 9]) []
      in Header_ComputeDigest demo_crypto (h\<lparr>h_BatchRefs := [], h_Parents := ps\<rparr>) = h_Digest h)"
  using header_digest_ambiguous[of "NewHeader demo_crypto 9 3 4 5
      (map (\<lambda>i. \<lparr>bd_Digest = i, bd_WorkerID = 0, bd_ValidatorID = 0\<rparr>) [0, 1, 2, 3, 4, 5, 6, 7, 8, 9]) []"
      demo_crypto]
  by (simp add: NewHeader_Digest Let_def)

end
