(* ===== verification/Validators.thy ===== *)
theory Validators
  imports Wire_Types
begin

text \<open>
  The validator set (\<^verbatim>\<open>types/validator.go\<close>): lookup by index, the fault bound
  \<open>f = (n - 1) / 3\<close> and the quorum \<open>2f + 1\<close>. The quorum arithmetic is stated once as a
  locale of quorum systems and interpreted on \<^verbatim>\<open>SimpleValidatorSet\<close>.
\<close>

section \<open>Definitions\<close>

record Validator =
  val_Index :: u16
  val_PublicKey :: pubkey
  val_Power :: int
  val_Address :: string

record SimpleValidatorSet =
  svs_validators :: "Validator list"
  svs_byIndex :: "(u16, Validator) fmap"
  svs_epoch :: u64

definition NewSimpleValidatorSet :: "Validator list \<Rightarrow> u64 \<Rightarrow> SimpleValidatorSet" where
  "NewSimpleValidatorSet validators epoch =
     \<lparr>svs_validators = validators,
      svs_byIndex = fold (\<lambda>v m. fmupd (val_Index v) v m) validators fmempty,
      svs_epoch = epoch\<rparr>"

definition ValidatorSet_Count :: "SimpleValidatorSet \<Rightarrow> int" where
  "ValidatorSet_Count vs = int (length (svs_validators vs))"

definition ValidatorSet_GetByIndex :: "SimpleValidatorSet \<Rightarrow> u16 \<Rightarrow> Validator option" where
  "ValidatorSet_GetByIndex vs index = fmlookup (svs_byIndex vs) index"

definition ValidatorSet_Contains :: "SimpleValidatorSet \<Rightarrow> u16 \<Rightarrow> bool" where
  "ValidatorSet_Contains vs index = map_has (svs_byIndex vs) index"

definition ValidatorSet_F :: "SimpleValidatorSet \<Rightarrow> int" where
  "ValidatorSet_F vs = go_div (int (length (svs_validators vs)) - 1) 3"

definition ValidatorSet_Quorum :: "SimpleValidatorSet \<Rightarrow> int" where
  "ValidatorSet_Quorum vs = 2 * ValidatorSet_F vs + 1"

definition ValidatorSet_VerifySignature ::
  "crypto \<Rightarrow> SimpleValidatorSet \<Rightarrow> u16 \<Rightarrow> hash \<Rightarrow> signature \<Rightarrow> bool" where
  "ValidatorSet_VerifySignature C vs validatorIdx digest sig =
     (case ValidatorSet_GetByIndex vs validatorIdx of
        None \<Rightarrow> False
      | Some v \<Rightarrow> PublicKey_Verify C (val_PublicKey v) digest sig)"

section \<open>Well-formed validator sets\<close>

definition vs_members :: "SimpleValidatorSet \<Rightarrow> u16 set" where
  "vs_members vs = set (map val_Index (svs_validators vs))"

definition vs_wf :: "SimpleValidatorSet \<Rightarrow> bool" where
  "vs_wf vs \<longleftrightarrow> svs_validators vs \<noteq> [] \<and> distinct (map val_Index (svs_validators vs)) \<and>
     (\<forall>v \<in> set (svs_validators vs). fmlookup (svs_byIndex vs) (val_Index v) = Some v) \<and>
     fmdom (svs_byIndex vs) = fset_of_list (map val_Index (svs_validators vs))"

lemma fold_index_lookup:
  "distinct (map val_Index vals) \<Longrightarrow> v \<in> set vals \<Longrightarrow>
     fmlookup (fold (\<lambda>v m. fmupd (val_Index v) v m) vals m) (val_Index v) = Some v"
proof (induction vals arbitrary: m)
  case Nil
  then show ?case by simp
next
  case (Cons w vals)
  have other: "val_Index v \<notin> set (map val_Index vals) \<Longrightarrow>
      fmlookup (fold (\<lambda>v m. fmupd (val_Index v) v m) vals m') (val_Index v) = fmlookup m' (val_Index v)" for m'
    by (induction vals arbitrary: m') auto
  show ?case using Cons other by auto
qed

lemma fold_index_dom:
  "fmdom (fold (\<lambda>v m. fmupd (val_Index v) v m) vals m) =
     fset_of_list (map val_Index vals) |\<union>| fmdom m"
  by (induction vals arbitrary: m) auto

lemma NewSimpleValidatorSet_wf:
  "vals \<noteq> [] \<Longrightarrow> distinct (map val_Index vals) \<Longrightarrow> vs_wf (NewSimpleValidatorSet vals epoch)"
  by (simp add: vs_wf_def NewSimpleValidatorSet_def fold_index_lookup fold_index_dom)

lemma GetByIndex_Some_iff:
  assumes "vs_wf vs"
  shows "(\<exists>v. ValidatorSet_GetByIndex vs i = Some v) \<longleftrightarrow> i \<in> vs_members vs"
proof -
  have "(\<exists>v. ValidatorSet_GetByIndex vs i = Some v) \<longleftrightarrow> i |\<in>| fmdom (svs_byIndex vs)"
    by (simp add: ValidatorSet_GetByIndex_def fmlookup_dom_iff)
  also have "\<dots> \<longleftrightarrow> i \<in> vs_members vs"
    using assms by (simp add: vs_wf_def vs_members_def fset_of_list.rep_eq)
  finally show ?thesis .
qed

lemma GetByIndex_member: "vs_wf vs \<Longrightarrow> ValidatorSet_GetByIndex vs i = Some v \<Longrightarrow> i \<in> vs_members vs"
  using GetByIndex_Some_iff by blast

lemma card_vs_members: "vs_wf vs \<Longrightarrow> card (vs_members vs) = length (svs_validators vs)"
  unfolding vs_members_def vs_wf_def by (metis distinct_card length_map)

lemma ValidatorSet_F_div: "vs_wf vs \<Longrightarrow> ValidatorSet_F vs = (ValidatorSet_Count vs - 1) div 3"
  by (cases "svs_validators vs")
     (auto simp: ValidatorSet_F_def ValidatorSet_Count_def vs_wf_def go_div_nonneg)

lemma ValidatorSet_F_nonneg: "0 \<le> ValidatorSet_F vs"
  by (cases "svs_validators vs") (simp_all add: ValidatorSet_F_def go_div_def)

lemma ValidatorSet_Quorum_pos: "1 \<le> ValidatorSet_Quorum vs"
  using ValidatorSet_F_nonneg[of vs] by (simp add: ValidatorSet_Quorum_def)

lemma ValidatorSet_Quorum_le_Count:
  "vs_wf vs \<Longrightarrow> ValidatorSet_Quorum vs \<le> ValidatorSet_Count vs"
proof -
  assume "vs_wf vs"
  then have "ValidatorSet_F vs = (ValidatorSet_Count vs - 1) div 3" "1 \<le> ValidatorSet_Count vs"
    by (simp add: ValidatorSet_F_div)
       (use \<open>vs_wf vs\<close> in \<open>cases "svs_validators vs"; auto simp: ValidatorSet_Count_def vs_wf_def\<close>)
  then show ?thesis unfolding ValidatorSet_Quorum_def by simp
qed

section \<open>Quorum systems\<close>

text \<open>
  A quorum system over families of members: at most \<open>faults\<close> members are faulty, there are
  \<open>3 * faults + 1\<close> of them, and a quorum has \<open>2 * faults + 1\<close>.
\<close>

locale quorum_system =
  fixes members :: "'vs \<Rightarrow> 'a set"
    and faults :: "'vs \<Rightarrow> int"
    and quorum :: "'vs \<Rightarrow> int"
    and ok :: "'vs \<Rightarrow> bool"
  assumes finite_members: "finite (members s)"
    and members_card: "ok s \<Longrightarrow> int (card (members s)) = 3 * faults s + 1"
    and quorum_faults: "quorum s = 2 * faults s + 1"
begin

definition is_quorum :: "'vs \<Rightarrow> 'a set \<Rightarrow> bool" where
  "is_quorum s Q \<longleftrightarrow> Q \<subseteq> members s \<and> quorum s \<le> int (card Q)"

lemma quorum_overlap:
  assumes "ok s" and "is_quorum s P" and "is_quorum s Q"
  shows "faults s + 1 \<le> int (card (P \<inter> Q))"
proof -
  have sub: "P \<subseteq> members s" "Q \<subseteq> members s" using assms by (auto simp: is_quorum_def)
  then have fin: "finite P" "finite Q" using finite_members finite_subset by blast+
  have "card P + card Q = card (P \<union> Q) + card (P \<inter> Q)"
    using fin by (rule card_Un_Int)
  moreover have "card (P \<union> Q) \<le> card (members s)"
    using sub finite_members by (intro card_mono) auto
  ultimately show ?thesis
    using assms members_card[OF assms(1)] quorum_faults[of s] by (simp add: is_quorum_def)
qed

lemma quorum_common_correct:
  assumes "ok s" and "is_quorum s P" and "is_quorum s Q"
    and "int (card bad) \<le> faults s" and "finite bad"
  shows "\<exists>i. i \<in> P \<and> i \<in> Q \<and> i \<notin> bad"
proof (rule ccontr)
  assume "\<nexists>i. i \<in> P \<and> i \<in> Q \<and> i \<notin> bad"
  then have "P \<inter> Q \<subseteq> bad" by blast
  then have "card (P \<inter> Q) \<le> card bad" using assms(5) by (rule card_mono[rotated])
  then show False using quorum_overlap[OF assms(1-3)] assms(4) by simp
qed

end

interpretation svs: quorum_system vs_members ValidatorSet_F ValidatorSet_Quorum
  "\<lambda>vs. vs_wf vs \<and> ValidatorSet_Count vs mod 3 = 1"
proof unfold_locales
  have arith: "3 * ((n - 1) div 3) + 1 = n" if "n mod 3 = 1" for n :: int using that by presburger
  fix vs assume ok: "vs_wf vs \<and> ValidatorSet_Count vs mod 3 = 1"
  then have "ValidatorSet_F vs = (ValidatorSet_Count vs - 1) div 3" by (simp add: ValidatorSet_F_div)
  moreover have "int (card (vs_members vs)) = ValidatorSet_Count vs"
    using ok by (simp add: card_vs_members ValidatorSet_Count_def)
  ultimately show "int (card (vs_members vs)) = 3 * ValidatorSet_F vs + 1"
    using ok arith[of "ValidatorSet_Count vs"] by simp
qed (simp_all add: vs_members_def ValidatorSet_Quorum_def)

section \<open>Set sizes that are not of the form 3f + 1\<close>

lemma take_drop_overlap:
  assumes "distinct xs" and "q \<le> length xs"
  shows "card (set (take q xs) \<inter> set (drop (length xs - q) xs)) = 2 * q - length xs"
proof (cases "length xs - q \<le> q")
  case True
  let ?A = "set (take q xs)" and ?B = "set (drop (length xs - q) xs)"
  have "set xs = set (take q xs) \<union> set (drop q xs)"
    by (metis append_take_drop_id set_append)
  also have "\<dots> \<subseteq> ?A \<union> ?B" using True by (meson Un_mono order_refl set_drop_subset_set_drop)
  finally have "?A \<union> ?B = set xs" by (meson Un_least set_drop_subset set_take_subset subset_antisym)
  moreover have "card ?A + card ?B = card (?A \<union> ?B) + card (?A \<inter> ?B)"
    by (rule card_Un_Int) simp_all
  ultimately show ?thesis using assms by (simp add: distinct_card)
next
  case False
  then have "set (take q xs) \<inter> set (drop (length xs - q) xs) = {}"
    using assms by (intro set_take_disj_set_drop_if_distinct) simp_all
  then show ?thesis using False by simp
qed

section \<open>Properties\<close>

text \<open>
  With \<open>n = 3f + 1\<close> validators any two sets of \<^verbatim>\<open>Quorum()\<close> validators share a
  validator outside any given set of at most \<^verbatim>\<open>F()\<close> faulty ones, and the correct validators
  alone form a quorum.
\<close>

lemma quorum_intersection:
  assumes "vs_wf vs" and "ValidatorSet_Count vs mod 3 = 1"
    and "P \<subseteq> vs_members vs" and "Q \<subseteq> vs_members vs"
    and "ValidatorSet_Quorum vs \<le> int (card P)" and "ValidatorSet_Quorum vs \<le> int (card Q)"
    and "bad \<subseteq> vs_members vs" and "int (card bad) \<le> ValidatorSet_F vs"
  shows "(\<exists>i. i \<in> P \<and> i \<in> Q \<and> i \<notin> bad) \<and> ValidatorSet_Quorum vs \<le> int (card (vs_members vs - bad))"
proof
  have fin: "finite bad" using assms(7) svs.finite_members finite_subset by blast
  then show "\<exists>i. i \<in> P \<and> i \<in> Q \<and> i \<notin> bad"
    using svs.quorum_common_correct[of vs P Q bad] assms by (simp add: svs.is_quorum_def)
  have "int (card (vs_members vs)) = 3 * ValidatorSet_F vs + 1"
    using assms by (intro svs.members_card) simp
  then show "ValidatorSet_Quorum vs \<le> int (card (vs_members vs - bad))"
    using assms(7,8) fin by (simp add: card_Diff_subset ValidatorSet_Quorum_def)
qed

lemma four_validators:
  "let vs = NewSimpleValidatorSet (map (\<lambda>i. \<lparr>val_Index = i, val_PublicKey = 0, val_Power = 1,
              val_Address = []\<rparr>) [0, 1, 2, 3]) 1
   in vs_wf vs \<and> ValidatorSet_Count vs = 4 \<and> ValidatorSet_F vs = 1 \<and> ValidatorSet_Quorum vs = 3 \<and>
      vs_members vs = {0, 1, 2, 3}"
  using NewSimpleValidatorSet_wf[of "map (\<lambda>i. \<lparr>val_Index = i, val_PublicKey = 0, val_Power = 1,
              val_Address = []\<rparr>) [0, 1, 2, 3]" 1]
  by (simp add: Let_def NewSimpleValidatorSet_def ValidatorSet_Count_def ValidatorSet_F_def
      ValidatorSet_Quorum_def vs_members_def go_div_def)

lemma quorum_intersection_example:
  "\<exists>i. i \<in> {0, 1, 2 :: u16} \<and> i \<in> {1, 2, 3} \<and> i \<notin> {1}"
  using quorum_intersection[of "NewSimpleValidatorSet (map (\<lambda>i. \<lparr>val_Index = i, val_PublicKey = 0,
      val_Power = 1, val_Address = []\<rparr>) [0, 1, 2, 3]) 1" "{0, 1, 2}" "{1, 2, 3}" "{1}"]
    four_validators by (simp add: Let_def)

text \<open>
  For every other size of at least two the same quorum does not give this: there are
  two sets of \<^verbatim>\<open>Quorum()\<close> validators whose common members all fit into the \<^verbatim>\<open>F()\<close>
  faulty ones. (With six validators two quorums are three validators each and may be disjoint.)
\<close>

lemma quorum_intersection_fails:
  assumes "vs_wf vs" and "2 \<le> ValidatorSet_Count vs" and "ValidatorSet_Count vs mod 3 \<noteq> 1"
  shows "\<exists>P Q. P \<subseteq> vs_members vs \<and> Q \<subseteq> vs_members vs \<and>
     int (card P) = ValidatorSet_Quorum vs \<and> int (card Q) = ValidatorSet_Quorum vs \<and>
     int (card (P \<inter> Q)) \<le> ValidatorSet_F vs"
proof -
  define xs where "xs = map val_Index (svs_validators vs)"
  define q where "q = nat (ValidatorSet_Quorum vs)"
  have arith: "2 * (2 * ((n - 1) div 3) + 1) \<le> n + (n - 1) div 3" if "n mod 3 \<noteq> 1" "2 \<le> n" for n :: int
    using that by presburger
  have d: "distinct xs" and n: "int (length xs) = ValidatorSet_Count vs"
    using assms(1) by (simp_all add: xs_def vs_wf_def ValidatorSet_Count_def)
  have q: "int q = ValidatorSet_Quorum vs" "q \<le> length xs"
    using ValidatorSet_Quorum_pos[of vs] ValidatorSet_Quorum_le_Count[OF assms(1)] n
    by (simp_all add: q_def)
  let ?P = "set (take q xs)" and ?Q = "set (drop (length xs - q) xs)"
  have "2 * int q - int (length xs) \<le> ValidatorSet_F vs"
    using arith[of "ValidatorSet_Count vs"] assms q(1) n
    by (simp add: ValidatorSet_Quorum_def ValidatorSet_F_div)
  then have "int (card (?P \<inter> ?Q)) \<le> ValidatorSet_F vs"
    using take_drop_overlap[OF d q(2)] ValidatorSet_F_nonneg[of vs] by linarith
  moreover have "?P \<subseteq> vs_members vs" "?Q \<subseteq> vs_members vs"
    by (simp_all add: vs_members_def xs_def[symmetric] set_take_subset set_drop_subset del: set_map)
  moreover have "int (card ?P) = ValidatorSet_Quorum vs" "int (card ?Q) = ValidatorSet_Quorum vs"
    using d q by (simp_all add: distinct_card)
  ultimately show ?thesis by blast
qed

lemma quorum_intersection_fails_example:
  "let vs = NewSimpleValidatorSet (map (\<lambda>i. \<lparr>val_Index = i, val_PublicKey = 0, val_Power = 1,
              val_Address = []\<rparr>) [0, 1, 2, 3, 4, 5]) 1
   in \<exists>P Q. P \<subseteq> vs_members vs \<and> Q \<subseteq> vs_members vs \<and> int (card P) = ValidatorSet_Quorum vs \<and>
        int (card Q) = ValidatorSet_Quorum vs \<and> int (card (P \<inter> Q)) \<le> ValidatorSet_F vs"
  unfolding Let_def
  by (rule quorum_intersection_fails[OF NewSimpleValidatorSet_wf])
     (simp_all add: NewSimpleValidatorSet_def ValidatorSet_Count_def)

end
