(* ===== verification/Certificates.thy ===== *)
theory Certificates
  imports Bit_Set Validators
begin

text \<open>
  Certificates (\<^verbatim>\<open>types/certificate.go\<close>): construction from a header and its votes, the
  signer mask, the quorum test and the verification against a validator set.
\<close>

section \<open>Definitions\<close>

record Certificate =
  c_Header :: Header
  c_Votes :: "Vote list"
  c_SignerMask :: BitSet

definition NewCertificate :: "Header \<Rightarrow> Vote list \<Rightarrow> Certificate" where
  "NewCertificate header votes =
     (let sortedVotes = sort_key v_Validator votes;
          mask = fold (\<lambda>i bs. BitSet_Set bs i) (map (unat \<circ> v_Validator) sortedVotes) (NewBitSet 256)
      in \<lparr>c_Header = header, c_Votes = sortedVotes, c_SignerMask = mask\<rparr>)"

definition Certificate_Digest :: "Certificate \<Rightarrow> hash" where
  "Certificate_Digest c = h_Digest (c_Header c)"

definition Certificate_Round :: "Certificate \<Rightarrow> u64" where
  "Certificate_Round c = h_Round (c_Header c)"

definition Certificate_Author :: "Certificate \<Rightarrow> u16" where
  "Certificate_Author c = h_Author (c_Header c)"

definition Certificate_Epoch :: "Certificate \<Rightarrow> u64" where
  "Certificate_Epoch c = h_Epoch (c_Header c)"

definition Certificate_VoteCount :: "Certificate \<Rightarrow> int" where
  "Certificate_VoteCount c = int (length (c_Votes c))"

definition Certificate_HasQuorum :: "Certificate \<Rightarrow> int \<Rightarrow> bool" where
  "Certificate_HasQuorum c validatorCount =
     (let f = go_div (validatorCount - 1) 3; quorum = 2 * f + 1
      in int (length (c_Votes c)) \<ge> quorum)"

definition Certificate_HasVoteFrom :: "Certificate \<Rightarrow> u16 \<Rightarrow> bool" where
  "Certificate_HasVoteFrom c validatorIndex = BitSet_IsSet (c_SignerMask c) (unat validatorIndex)"

definition Certificate_GetRef :: "Certificate \<Rightarrow> CertificateRef" where
  "Certificate_GetRef c = \<lparr>cr_Digest = Certificate_Digest c, cr_Round = Certificate_Round c\<rparr>"

fun Certificate_Verify_votes ::
  "crypto \<Rightarrow> SimpleValidatorSet \<Rightarrow> hash \<Rightarrow> Vote list \<Rightarrow> err option" where
  "Certificate_Verify_votes C validators digest [] = None"
| "Certificate_Verify_votes C validators digest (vote # votes) =
     (if v_HeaderDigest vote \<noteq> digest then Some ErrInvalidVote
      else case ValidatorSet_GetByIndex validators (v_Validator vote) of
        None \<Rightarrow> Some ErrValidatorNotFound
      | Some validator \<Rightarrow>
          if \<not> Vote_Verify C vote (val_PublicKey validator) then Some ErrInvalidSignature
          else Certificate_Verify_votes C validators digest votes)"

definition Certificate_Verify :: "crypto \<Rightarrow> SimpleValidatorSet \<Rightarrow> Certificate \<Rightarrow> err option" where
  "Certificate_Verify C validators c =
     (if \<not> Certificate_HasQuorum c (ValidatorSet_Count validators) then Some ErrInsufficientQuorum
      else case ValidatorSet_GetByIndex validators (h_Author (c_Header c)) of
        None \<Rightarrow> Some ErrValidatorNotFound
      | Some author \<Rightarrow>
          if \<not> Header_Verify C (c_Header c) (val_PublicKey author) then Some ErrInvalidSignature
          else Certificate_Verify_votes C validators (h_Digest (c_Header c)) (c_Votes c))"

section \<open>Construction\<close>

abbreviation cert_voters :: "Certificate \<Rightarrow> u16 set" where
  "cert_voters c \<equiv> v_Validator ` set (c_Votes c)"

lemma NewCertificate_sel [simp]:
  "c_Header (NewCertificate h votes) = h"
  "c_Votes (NewCertificate h votes) = sort_key v_Validator votes"
  "Certificate_Digest (NewCertificate h votes) = h_Digest h"
  "Certificate_Round (NewCertificate h votes) = h_Round h"
  "Certificate_Author (NewCertificate h votes) = h_Author h"
  by (simp_all add: NewCertificate_def Let_def Certificate_Digest_def Certificate_Round_def
      Certificate_Author_def)

lemma Certificate_GetRef_sel [simp]:
  "cr_Digest (Certificate_GetRef c) = Certificate_Digest c"
  "cr_Round (Certificate_GetRef c) = Certificate_Round c"
  by (simp_all add: Certificate_GetRef_def)

lemma NewCertificate_mask:
  "BitSet_IsSet (c_SignerMask (NewCertificate h votes)) j \<longleftrightarrow>
     j < 256 \<and> j \<in> (unat \<circ> v_Validator) ` set votes"
  unfolding NewCertificate_def Let_def
  by (auto simp: fold_BitSet_Set) (auto simp: NewBitSet_def)

lemma HasVoteFrom_NewCertificate:
  "Certificate_HasVoteFrom (NewCertificate h votes) i \<longleftrightarrow>
     unat i < 256 \<and> i \<in> v_Validator ` set votes"
  by (auto simp: Certificate_HasVoteFrom_def NewCertificate_mask word_unat_eq_iff image_iff)

section \<open>Verification\<close>

definition vote_valid :: "crypto \<Rightarrow> SimpleValidatorSet \<Rightarrow> hash \<Rightarrow> Vote \<Rightarrow> bool" where
  "vote_valid C vs digest v \<longleftrightarrow> v_HeaderDigest v = digest \<and>
     (\<exists>val. ValidatorSet_GetByIndex vs (v_Validator v) = Some val \<and>
            PublicKey_Verify C (val_PublicKey val) digest (v_Signature v))"

lemma Certificate_Verify_votes_None:
  "Certificate_Verify_votes C vs digest votes = None \<longleftrightarrow> (\<forall>v \<in> set votes. vote_valid C vs digest v)"
  by (induction votes) (auto simp: vote_valid_def Vote_Verify_def split: option.splits)

lemma Certificate_HasQuorum_Count:
  "Certificate_HasQuorum c (ValidatorSet_Count vs) \<longleftrightarrow> ValidatorSet_Quorum vs \<le> int (length (c_Votes c))"
  by (simp add: Certificate_HasQuorum_def ValidatorSet_Quorum_def ValidatorSet_F_def
      ValidatorSet_Count_def Let_def)

lemma Certificate_Verify_None:
  "Certificate_Verify C vs c = None \<longleftrightarrow>
     ValidatorSet_Quorum vs \<le> int (length (c_Votes c)) \<and>
     (\<exists>a. ValidatorSet_GetByIndex vs (Certificate_Author c) = Some a \<and>
          Header_Verify C (c_Header c) (val_PublicKey a)) \<and>
     (\<forall>v \<in> set (c_Votes c). vote_valid C vs (Certificate_Digest c) v)"
  by (auto simp: Certificate_Verify_def Certificate_HasQuorum_Count Certificate_Verify_votes_None
      Certificate_Author_def Certificate_Digest_def split: option.splits)

lemma vote_valid_member: "vs_wf vs \<Longrightarrow> vote_valid C vs d v \<Longrightarrow> v_Validator v \<in> vs_members vs"
  by (auto simp: vote_valid_def dest: GetByIndex_member)

lemma verified_voters_quorum:
  assumes "vs_wf vs" and "Certificate_Verify C vs c = None"
    and "distinct (map v_Validator (c_Votes c))"
  shows "svs.is_quorum vs (cert_voters c)"
proof -
  have "card (cert_voters c) = length (c_Votes c)"
    using distinct_card[OF assms(3)] by simp
  then show ?thesis
    using assms vote_valid_member unfolding svs.is_quorum_def Certificate_Verify_None by fastforce
qed

section \<open>A concrete validator set\<close>

definition demo_vs :: SimpleValidatorSet where
  "demo_vs = NewSimpleValidatorSet
     (map (\<lambda>i. \<lparr>val_Index = i, val_PublicKey = 100 + ucast i, val_Power = 1, val_Address = []\<rparr>)
          [0, 1, 2, 3]) 1"

definition demo_vote :: "hash \<Rightarrow> u16 \<Rightarrow> Vote" where
  "demo_vote d i = \<lparr>v_HeaderDigest = d, v_Validator = i, v_Signature = demo_sign (100 + ucast i) d\<rparr>"

definition demo_header :: "u64 \<Rightarrow> u16 \<Rightarrow> Header" where
  "demo_header rnd author =
     (let h = NewHeader demo_crypto 9 author rnd 1 [] []
      in h\<lparr>h_Signature := demo_sign (100 + ucast author) (h_Digest h)\<rparr>)"

lemma demo_vs_wf [simp]: "vs_wf demo_vs"
  unfolding demo_vs_def by (rule NewSimpleValidatorSet_wf) simp_all

lemma demo_vs_sizes [simp]:
  "ValidatorSet_Count demo_vs = 4" "ValidatorSet_F demo_vs = 1" "ValidatorSet_Quorum demo_vs = 3"
  by (simp_all add: demo_vs_def NewSimpleValidatorSet_def ValidatorSet_Count_def ValidatorSet_F_def
      ValidatorSet_Quorum_def go_div_def)

lemma demo_vs_GetByIndex [simp]:
  "i \<in> {0, 1, 2, 3} \<Longrightarrow> ValidatorSet_GetByIndex demo_vs i =
     Some \<lparr>val_Index = i, val_PublicKey = 100 + ucast i, val_Power = 1, val_Address = []\<rparr>"
  by (auto simp: demo_vs_def NewSimpleValidatorSet_def ValidatorSet_GetByIndex_def)

lemma demo_vote_valid [simp]: "i \<in> {0, 1, 2, 3} \<Longrightarrow> vote_valid demo_crypto demo_vs d (demo_vote d i)"
  by (simp add: vote_valid_def demo_vote_def)

lemma demo_vote_sel [simp]:
  "v_Validator (demo_vote d i) = i" "v_HeaderDigest (demo_vote d i) = d"
  by (simp_all add: demo_vote_def)

lemma demo_header_sel [simp]:
  "h_Round (demo_header rnd a) = rnd" "h_Author (demo_header rnd a) = a"
  "h_Epoch (demo_header rnd a) = 1" "h_Parents (demo_header rnd a) = []"
  "h_BatchRefs (demo_header rnd a) = []"
  "Header_Verify demo_crypto (demo_header rnd a) (100 + ucast a)"
  by (simp_all add: demo_header_def Header_Verify_def Let_def)

lemma demo_certificate_verifies:
  assumes "a \<in> {0, 1, 2, 3}" and "set is \<subseteq> {0, 1, 2, 3}" and "3 \<le> length is"
  shows "Certificate_Verify demo_crypto demo_vs
           (NewCertificate (demo_header rnd a) (map (demo_vote (h_Digest (demo_header rnd a))) is)) = None"
proof -
  have "\<exists>v. ValidatorSet_GetByIndex demo_vs a = Some v \<and>
      Header_Verify demo_crypto (demo_header rnd a) (val_PublicKey v)"
    using assms(1) by simp
  moreover have "\<forall>i \<in> set is. vote_valid demo_crypto demo_vs d (demo_vote d i)" for d
    using assms(2) demo_vote_valid by blast
  ultimately show ?thesis using assms(3) by (simp add: Certificate_Verify_None)
qed

section \<open>Properties\<close>

text \<open>
  \<^bold>\<open>C1\<close>: certificate uniqueness. With \<open>n = 3f + 1\<close> validators of which at most \<open>f\<close> are
  faulty, two certificates that verify and have pairwise distinct voters certify the same header
  digest, if every correct validator voted for one digest among the two certificates.
\<close>

theorem certificate_uniqueness:
  assumes vs: "vs_wf vs" "ValidatorSet_Count vs mod 3 = 1"
    and ver: "Certificate_Verify C vs c1 = None" "Certificate_Verify C vs c2 = None"
    and dist: "distinct (map v_Validator (c_Votes c1))" "distinct (map v_Validator (c_Votes c2))"
    and bad: "finite bad" "int (card bad) \<le> ValidatorSet_F vs"
    and once: "\<And>v w. v \<in> set (c_Votes c1) \<Longrightarrow> w \<in> set (c_Votes c2) \<Longrightarrow>
        v_Validator v = v_Validator w \<Longrightarrow> v_Validator v \<notin> bad \<Longrightarrow>
        v_HeaderDigest v = v_HeaderDigest w"
  shows "Certificate_Digest c1 = Certificate_Digest c2"
proof -
  obtain i where i: "i \<in> cert_voters c1" "i \<in> cert_voters c2" "i \<notin> bad"
    using svs.quorum_common_correct[of vs "cert_voters c1" "cert_voters c2" bad] vs bad
      verified_voters_quorum[OF vs(1) ver(1) dist(1)] verified_voters_quorum[OF vs(1) ver(2) dist(2)]
    by blast
  then obtain v w where vw: "v \<in> set (c_Votes c1)" "w \<in> set (c_Votes c2)"
      "v_Validator v = i" "v_Validator w = i" by (metis imageE)
  moreover have "v_HeaderDigest v = Certificate_Digest c1" "v_HeaderDigest w = Certificate_Digest c2"
    using vw ver by (auto simp: Certificate_Verify_None vote_valid_def)
  ultimately show ?thesis using once[of v w] i(3) by simp
qed

theorem certificate_uniqueness_witness:
  "let h = demo_header 1 0; d = h_Digest h;
       c1 = NewCertificate h (map (demo_vote d) [0, 1, 2]);
       c2 = NewCertificate h (map (demo_vote d) [3, 2, 1])
   in Certificate_Digest c1 = Certificate_Digest c2"
proof -
  let ?c = "\<lambda>is. NewCertificate (demo_header 1 0) (map (demo_vote (h_Digest (demo_header 1 0))) is)"
  have ver: "Certificate_Verify demo_crypto demo_vs (?c [0, 1, 2]) = None"
    "Certificate_Verify demo_crypto demo_vs (?c [3, 2, 1]) = None"
    by (rule demo_certificate_verifies; simp)+
  show ?thesis
    using certificate_uniqueness[OF demo_vs_wf _ ver, of "{3}"] by auto
qed

text \<open>
  \<^bold>\<open>C6\<close>: exactly what \<^verbatim>\<open>Certificate.Verify\<close> accepts: at least a quorum of votes in the
  list, a known author whose key verifies the header signature, and in every vote the certified
  digest and a valid signature of a known validator. A certificate that verifies and whose voters
  are pairwise distinct is supported by a quorum of validators.
\<close>

theorem Certificate_Verify_correct:
  assumes "vs_wf vs"
  shows "(Certificate_Verify C vs c = None \<longleftrightarrow>
           ValidatorSet_Quorum vs \<le> Certificate_VoteCount c \<and>
           (\<exists>a. ValidatorSet_GetByIndex vs (Certificate_Author c) = Some a \<and>
                PublicKey_Verify C (val_PublicKey a) (Certificate_Digest c) (h_Signature (c_Header c))) \<and>
           (\<forall>v \<in> set (c_Votes c). v_HeaderDigest v = Certificate_Digest c \<and>
              (\<exists>w. ValidatorSet_GetByIndex vs (v_Validator v) = Some w \<and>
                   PublicKey_Verify C (val_PublicKey w) (Certificate_Digest c) (v_Signature v)))) \<and>
         (Certificate_Verify C vs c = None \<and> distinct (map v_Validator (c_Votes c)) \<longrightarrow>
           cert_voters c \<subseteq> vs_members vs \<and> ValidatorSet_Quorum vs \<le> int (card (cert_voters c)))"
  using verified_voters_quorum[OF assms, of C c]
  by (auto simp: Certificate_Verify_None vote_valid_def Certificate_VoteCount_def Header_Verify_def
      Certificate_Digest_def svs.is_quorum_def)

theorem Certificate_Verify_correct_witness:
  "let h = demo_header 1 0; c = NewCertificate h (map (demo_vote (h_Digest h)) [0, 2, 3])
   in Certificate_Verify demo_crypto demo_vs c = None \<and> cert_voters c \<subseteq> vs_members demo_vs \<and>
      3 \<le> int (card (cert_voters c))"
proof -
  let ?c = "NewCertificate (demo_header 1 0) (map (demo_vote (h_Digest (demo_header 1 0))) [0, 2, 3])"
  have "Certificate_Verify demo_crypto demo_vs ?c = None"
    by (rule demo_certificate_verifies; simp)
  then show ?thesis
    using Certificate_Verify_correct[OF demo_vs_wf, of demo_crypto ?c] unfolding Let_def by auto
qed

text \<open>
  \<^bold>\<open>C10\<close>: \<^verbatim>\<open>Verify\<close> counts votes, not voters. One valid vote repeated a quorum of times is
  a certificate that verifies, although a single validator supports it.
\<close>

theorem Certificate_Verify_repeated_vote:
  assumes "ValidatorSet_GetByIndex vs (h_Author h) = Some a" and "Header_Verify C h (val_PublicKey a)"
    and "ValidatorSet_GetByIndex vs i = Some val"
    and "PublicKey_Verify C (val_PublicKey val) (h_Digest h) sig"
  shows "let v = \<lparr>v_HeaderDigest = h_Digest h, v_Validator = i, v_Signature = sig\<rparr>;
             c = NewCertificate h (replicate (nat (ValidatorSet_Quorum vs)) v)
         in Certificate_Verify C vs c = None \<and> cert_voters c = {i}"
  using assms ValidatorSet_Quorum_pos[of vs]
  by (auto simp: Certificate_Verify_None vote_valid_def Let_def)

theorem Certificate_Verify_repeated_vote_witness:
  "let h = demo_header 1 0;
       c = NewCertificate h (replicate 3 (demo_vote (h_Digest h) 2))
   in Certificate_Verify demo_crypto demo_vs c = None \<and> cert_voters c = {2}"
  using Certificate_Verify_repeated_vote[of demo_vs "demo_header 1 0" _ demo_crypto 2 _
      "demo_sign 102 (h_Digest (demo_header 1 0))", OF demo_vs_GetByIndex _ demo_vs_GetByIndex]
    demo_header_sel(6)[of 1 0]
  by (simp add: demo_vote_def Let_def)

text \<open>
  A certificate built by \<^verbatim>\<open>NewCertificate\<close> holds exactly the given votes, sorted by
  validator, its mask has a bit for every voter with an index below 256 and for no other, and the
  number of its bits is the number of those voters. A voter with index 256 or more is not found by
  \<^verbatim>\<open>HasVoteFrom\<close>.
\<close>

lemma NewCertificate_correct:
  "mset (c_Votes (NewCertificate h votes)) = mset votes \<and>
   sorted (map v_Validator (c_Votes (NewCertificate h votes))) \<and>
   (Certificate_HasVoteFrom (NewCertificate h votes) i \<longleftrightarrow> unat i < 256 \<and> i \<in> v_Validator ` set votes) \<and>
   BitSet_Count (c_SignerMask (NewCertificate h votes)) = card {j \<in> v_Validator ` set votes. unat j < 256}"
proof -
  have "bits_of (c_SignerMask (NewCertificate h votes)) = unat ` {j \<in> v_Validator ` set votes. unat j < 256}"
    by (auto simp: bits_of_def NewCertificate_mask)
  then have "BitSet_Count (c_SignerMask (NewCertificate h votes)) = card {j \<in> v_Validator ` set votes. unat j < 256}"
    by (simp add: BitSet_Count_card) (rule card_image, simp add: inj_on_def word_unat_eq_iff)
  then show ?thesis by (simp add: HasVoteFrom_NewCertificate)
qed

end
