(* ===== verification/Vote_Tracker.thy ===== *)
theory Vote_Tracker
  imports Certificates
begin

text \<open>
  The vote tracker of the primary (\<^verbatim>\<open>primary/vote_tracker.go\<close>): pending headers, their votes,
  the detection of double votes and the formation of certificates.
\<close>

section \<open>State\<close>

record DoubleVoteEvidence =
  dve_ValidatorID :: u16
  dve_HeaderID :: hash
  dve_Vote1 :: Vote
  dve_Vote2 :: Vote
  dve_Timestamp :: time

record PendingHeader =
  ph_Header :: Header
  ph_Votes :: "(u16, Vote) fmap"
  ph_CreatedAt :: time

record VoteTracker =
  vt_pending :: "(hash, PendingHeader) fmap"
  vt_timeout :: int
  vt_closed :: bool
  vt_validatorVotes :: "(u16, (hash, Vote) fmap) fmap"
  vt_doubleVotes :: "DoubleVoteEvidence list"

text \<open>
  The order in which \<^verbatim>\<open>formCertificateLocked\<close> meets the votes decides which of them are in the
  certificate: it is an argument, the order Go chooses for each map.
\<close>

type_synonym vote_order = "(u16, Vote) fmap \<Rightarrow> u16 list"

section \<open>Operations\<close>

definition NewVoteTracker :: "int \<Rightarrow> VoteTracker" where
  "NewVoteTracker timeout =
     \<lparr>vt_pending = fmempty, vt_timeout = timeout, vt_closed = False, vt_validatorVotes = fmempty,
      vt_doubleVotes = []\<rparr>"

definition VoteTracker_TrackHeader :: "time \<Rightarrow> Header \<Rightarrow> VoteTracker \<Rightarrow> VoteTracker" where
  "VoteTracker_TrackHeader now header vt =
     (if vt_closed vt then vt
      else if map_has (vt_pending vt) (h_Digest header) then vt
      else vt\<lparr>vt_pending := fmupd (h_Digest header)
                \<lparr>ph_Header = header, ph_Votes = fmempty, ph_CreatedAt = now\<rparr> (vt_pending vt)\<rparr>)"

definition VoteTracker_HasHeader :: "hash \<Rightarrow> VoteTracker \<Rightarrow> bool" where
  "VoteTracker_HasHeader digest vt = map_has (vt_pending vt) digest"

definition VoteTracker_GetHeader :: "hash \<Rightarrow> VoteTracker \<Rightarrow> Header option" where
  "VoteTracker_GetHeader digest vt = map_option ph_Header (fmlookup (vt_pending vt) digest)"

text \<open>The loop appends a vote and then stops once there are enough: at least one is taken.\<close>

fun collect_votes :: "int \<Rightarrow> Vote list \<Rightarrow> Vote list \<Rightarrow> Vote list" where
  "collect_votes quorum votes [] = votes"
| "collect_votes quorum votes (vote # rest) =
     (let votes' = votes @ [vote]
      in if int (length votes') \<ge> quorum then votes' else collect_votes quorum votes' rest)"

definition VoteTracker_formCertificateLocked :: "vote_order \<Rightarrow> PendingHeader \<Rightarrow> int \<Rightarrow> Certificate" where
  "VoteTracker_formCertificateLocked ord pending quorum =
     NewCertificate (ph_Header pending)
       (collect_votes quorum [] (map_values (ord (ph_Votes pending)) (ph_Votes pending)))"

definition VoteTracker_RecordVote ::
  "vote_order \<Rightarrow> time \<Rightarrow> Vote \<Rightarrow> int \<Rightarrow> VoteTracker \<Rightarrow> VoteTracker \<times> Certificate option" where
  "VoteTracker_RecordVote ord now vote quorum vt =
     (if vt_closed vt then (vt, None)
      else case fmlookup (vt_pending vt) (v_HeaderDigest vote) of
        None \<Rightarrow> (vt, None)
      | Some pending \<Rightarrow>
          (let check = (\<lambda>p. if int (map_len (ph_Votes p)) \<ge> quorum
                            then Some (VoteTracker_formCertificateLocked ord p quorum) else None);
               add = (\<lambda>vt.
                 (if map_has (ph_Votes pending) (v_Validator vote) then (vt, check pending)
                  else let p' = pending\<lparr>ph_Votes := fmupd (v_Validator vote) vote (ph_Votes pending)\<rparr>
                       in (vt\<lparr>vt_pending := fmupd (v_HeaderDigest vote) p' (vt_pending vt),
                              vt_validatorVotes := fmupd (v_Validator vote)
                                (fmupd (v_HeaderDigest vote) vote
                                  (map_submap (vt_validatorVotes vt) (v_Validator vote)))
                                (vt_validatorVotes vt)\<rparr>, check p')))
           in case fmlookup (vt_validatorVotes vt) (v_Validator vote) of
                Some existingVotes \<Rightarrow>
                  (case fmlookup existingVotes (v_HeaderDigest vote) of
                     Some existingVote \<Rightarrow>
                       (let vt' = (if v_Signature existingVote \<noteq> v_Signature vote
                                   then vt\<lparr>vt_doubleVotes := vt_doubleVotes vt @
                                          [\<lparr>dve_ValidatorID = v_Validator vote,
                                            dve_HeaderID = v_HeaderDigest vote,
                                            dve_Vote1 = existingVote, dve_Vote2 = vote,
                                            dve_Timestamp = now\<rparr>]\<rparr>
                                   else vt)
                        in (vt', check pending))
                   | None \<Rightarrow> add vt)
              | None \<Rightarrow> add (vt\<lparr>vt_validatorVotes :=
                          fmupd (v_Validator vote) fmempty (vt_validatorVotes vt)\<rparr>)))"

definition VoteTracker_VoteCount :: "hash \<Rightarrow> VoteTracker \<Rightarrow> nat" where
  "VoteTracker_VoteCount digest vt =
     (case fmlookup (vt_pending vt) digest of None \<Rightarrow> 0 | Some pending \<Rightarrow> map_len (ph_Votes pending))"

definition remove_validator_vote ::
  "hash \<Rightarrow> u16 \<Rightarrow> (u16, (hash, Vote) fmap) fmap \<Rightarrow> (u16, (hash, Vote) fmap) fmap" where
  "remove_validator_vote digest validatorID vv =
     (let votes = fmdrop digest (map_submap vv validatorID)
      in if map_len votes = 0 then fmdrop validatorID vv else fmupd validatorID votes vv)"

definition VoteTracker_RemoveHeader :: "hash \<Rightarrow> VoteTracker \<Rightarrow> VoteTracker" where
  "VoteTracker_RemoveHeader digest vt =
     vt\<lparr>vt_validatorVotes := fold (remove_validator_vote digest) (map_keys (vt_validatorVotes vt))
                               (vt_validatorVotes vt),
        vt_pending := fmdrop digest (vt_pending vt)\<rparr>"

definition VoteTracker_PendingHeadersOlderThan ::
  "hash list \<Rightarrow> time \<Rightarrow> int \<Rightarrow> VoteTracker \<Rightarrow> Header list" where
  "VoteTracker_PendingHeadersOlderThan ks now minAge vt =
     (if vt_closed vt then []
      else map ph_Header (filter (\<lambda>p. ph_CreatedAt p < now - minAge) (map_values ks (vt_pending vt))))"

definition VoteTracker_GetPendingCount :: "VoteTracker \<Rightarrow> nat" where
  "VoteTracker_GetPendingCount vt = map_len (vt_pending vt)"

definition VoteTracker_GetTimedOut :: "hash list \<Rightarrow> time \<Rightarrow> VoteTracker \<Rightarrow> Header list" where
  "VoteTracker_GetTimedOut ks now vt =
     map ph_Header (filter (\<lambda>p. ph_CreatedAt p < now - vt_timeout vt) (map_values ks (vt_pending vt)))"

fun remove_timed_out ::
  "time \<Rightarrow> hash list \<Rightarrow> (hash, PendingHeader) fmap \<Rightarrow> (hash, PendingHeader) fmap \<times> Header list" where
  "remove_timed_out cutoff [] m = (m, [])"
| "remove_timed_out cutoff (digest # ks) m =
     (case fmlookup m digest of
        None \<Rightarrow> remove_timed_out cutoff ks m
      | Some pending \<Rightarrow>
          if ph_CreatedAt pending < cutoff
          then let (m', timedOut) = remove_timed_out cutoff ks (fmdrop digest m)
               in (m', ph_Header pending # timedOut)
          else remove_timed_out cutoff ks m)"

definition VoteTracker_RemoveTimedOut :: "hash list \<Rightarrow> time \<Rightarrow> VoteTracker \<Rightarrow> VoteTracker \<times> Header list" where
  "VoteTracker_RemoveTimedOut ks now vt =
     (let (pending, timedOut) = remove_timed_out (now - vt_timeout vt) ks (vt_pending vt)
      in (vt\<lparr>vt_pending := pending\<rparr>, timedOut))"

definition VoteTracker_Close :: "VoteTracker \<Rightarrow> VoteTracker" where
  "VoteTracker_Close vt = vt\<lparr>vt_closed := True, vt_pending := fmempty, vt_validatorVotes := fmempty,
                             vt_doubleVotes := []\<rparr>"

definition VoteTracker_GetDoubleVoteEvidence :: "VoteTracker \<Rightarrow> DoubleVoteEvidence list" where
  "VoteTracker_GetDoubleVoteEvidence vt = vt_doubleVotes vt"

definition VoteTracker_ClearDoubleVoteEvidence :: "VoteTracker \<Rightarrow> VoteTracker" where
  "VoteTracker_ClearDoubleVoteEvidence vt = vt\<lparr>vt_doubleVotes := []\<rparr>"

definition VoteTracker_HasDoubleVoteEvidence :: "VoteTracker \<Rightarrow> bool" where
  "VoteTracker_HasDoubleVoteEvidence vt = (0 < length (vt_doubleVotes vt))"

section \<open>Invariant\<close>

text \<open>
  Every pending header is filed under its digest, every vote of it is for that digest and filed
  under its validator, and is also known as a vote of that validator.
\<close>

definition pending_ok :: "(u16, (hash, Vote) fmap) fmap \<Rightarrow> hash \<Rightarrow> PendingHeader \<Rightarrow> bool" where
  "pending_ok vv d p \<longleftrightarrow> h_Digest (ph_Header p) = d \<and>
     (\<forall>i v. fmlookup (ph_Votes p) i = Some v \<longrightarrow>
        v_Validator v = i \<and> v_HeaderDigest v = d \<and> fmlookup (map_submap vv i) d = Some v)"

definition vt_ok :: "VoteTracker \<Rightarrow> bool" where
  "vt_ok vt \<longleftrightarrow> (\<forall>d p. fmlookup (vt_pending vt) d = Some p \<longrightarrow> pending_ok (vt_validatorVotes vt) d p)"

lemma pending_okD:
  assumes "vt_ok vt" and "fmlookup (vt_pending vt) d = Some p"
  shows "h_Digest (ph_Header p) = d"
    and "fmlookup (ph_Votes p) i = Some v \<Longrightarrow> v_Validator v = i \<and> v_HeaderDigest v = d"
    and "fmlookup (ph_Votes p) i = Some v \<Longrightarrow> fmlookup (map_submap (vt_validatorVotes vt) i) d = Some v"
  using assms unfolding vt_ok_def pending_ok_def by blast+

lemma NewVoteTracker_ok: "vt_ok (NewVoteTracker timeout)"
  by (simp add: vt_ok_def NewVoteTracker_def)

lemma TrackHeader_ok: "vt_ok vt \<Longrightarrow> vt_ok (VoteTracker_TrackHeader now h vt)"
  unfolding vt_ok_def VoteTracker_TrackHeader_def pending_ok_def by auto

text \<open>
  The three outcomes of \<^verbatim>\<open>RecordVote\<close>: the header is not tracked, the validator's vote for it
  is known, or the vote is added. The second check against double counting never applies.
\<close>

definition vote_added :: "Vote \<Rightarrow> PendingHeader \<Rightarrow> PendingHeader" where
  "vote_added v p = p\<lparr>ph_Votes := fmupd (v_Validator v) v (ph_Votes p)\<rparr>"

definition quorum_check :: "vote_order \<Rightarrow> int \<Rightarrow> PendingHeader \<Rightarrow> Certificate option" where
  "quorum_check ord quorum p =
     (if int (map_len (ph_Votes p)) \<ge> quorum then Some (VoteTracker_formCertificateLocked ord p quorum) else None)"

lemma RecordVote_untracked:
  "vt_closed vt \<or> fmlookup (vt_pending vt) (v_HeaderDigest v) = None \<Longrightarrow>
     VoteTracker_RecordVote ord now v q vt = (vt, None)"
  by (auto simp: VoteTracker_RecordVote_def)

lemma RecordVote_known:
  assumes "\<not> vt_closed vt" and "fmlookup (vt_pending vt) (v_HeaderDigest v) = Some p"
    and "fmlookup (map_submap (vt_validatorVotes vt) (v_Validator v)) (v_HeaderDigest v) = Some w"
  shows "\<exists>ev. VoteTracker_RecordVote ord now v q vt = (vt\<lparr>vt_doubleVotes := ev\<rparr>, quorum_check ord q p) \<and>
     (v_Signature w = v_Signature v \<longrightarrow> ev = vt_doubleVotes vt)"
proof -
  obtain es where es: "fmlookup (vt_validatorVotes vt) (v_Validator v) = Some es"
      "fmlookup es (v_HeaderDigest v) = Some w"
    using assms(3) by (cases "fmlookup (vt_validatorVotes vt) (v_Validator v)") (auto simp: map_submap_def)
  show ?thesis
    using assms(1,2) es
    by (cases "v_Signature w = v_Signature v")
       (auto simp: VoteTracker_RecordVote_def quorum_check_def Let_def)
qed

lemma RecordVote_added:
  assumes "vt_ok vt" and "\<not> vt_closed vt" and p: "fmlookup (vt_pending vt) (v_HeaderDigest v) = Some p"
    and new: "fmlookup (map_submap (vt_validatorVotes vt) (v_Validator v)) (v_HeaderDigest v) = None"
  shows "VoteTracker_RecordVote ord now v q vt =
     (vt\<lparr>vt_pending := fmupd (v_HeaderDigest v) (vote_added v p) (vt_pending vt),
         vt_validatorVotes := fmupd (v_Validator v)
           (fmupd (v_HeaderDigest v) v (map_submap (vt_validatorVotes vt) (v_Validator v))) (vt_validatorVotes vt)\<rparr>,
      quorum_check ord q (vote_added v p))"
    and "\<not> map_has (ph_Votes p) (v_Validator v)"
proof -
  show fresh: "\<not> map_has (ph_Votes p) (v_Validator v)"
    using pending_okD(3)[OF assms(1) p, of "v_Validator v"] new
    by (cases "fmlookup (ph_Votes p) (v_Validator v)") (auto simp: map_has_def)
  show "VoteTracker_RecordVote ord now v q vt =
     (vt\<lparr>vt_pending := fmupd (v_HeaderDigest v) (vote_added v p) (vt_pending vt),
         vt_validatorVotes := fmupd (v_Validator v)
           (fmupd (v_HeaderDigest v) v (map_submap (vt_validatorVotes vt) (v_Validator v))) (vt_validatorVotes vt)\<rparr>,
      quorum_check ord q (vote_added v p))"
  proof (cases "fmlookup (vt_validatorVotes vt) (v_Validator v)")
    case None
    then show ?thesis
      using assms(2) p fresh
      by (simp add: VoteTracker_RecordVote_def vote_added_def quorum_check_def Let_def map_submap_def)
  next
    case (Some es)
    then show ?thesis
      using assms(2) p fresh new
      by (simp add: VoteTracker_RecordVote_def vote_added_def quorum_check_def Let_def)
  qed
qed

lemma vote_cases:
  obtains (untracked) "vt_closed vt \<or> fmlookup (vt_pending vt) (v_HeaderDigest v) = None"
  | (known) p w where "\<not> vt_closed vt" "fmlookup (vt_pending vt) (v_HeaderDigest v) = Some p"
      "fmlookup (map_submap (vt_validatorVotes vt) (v_Validator v)) (v_HeaderDigest v) = Some w"
  | (added) p where "\<not> vt_closed vt" "fmlookup (vt_pending vt) (v_HeaderDigest v) = Some p"
      "fmlookup (map_submap (vt_validatorVotes vt) (v_Validator v)) (v_HeaderDigest v) = None"
  by (cases "vt_closed vt"; cases "fmlookup (vt_pending vt) (v_HeaderDigest v)";
      cases "fmlookup (map_submap (vt_validatorVotes vt) (v_Validator v)) (v_HeaderDigest v)") auto

lemma RecordVote_ok:
  assumes "vt_ok vt"
  shows "vt_ok (fst (VoteTracker_RecordVote ord now v q vt))"
proof (cases vt v rule: vote_cases)
  case untracked
  then show ?thesis using assms by (simp add: RecordVote_untracked)
next
  case (known p w)
  then show ?thesis
    using RecordVote_known[OF known, of ord now q] assms by (auto simp: vt_ok_def)
next
  case (added p)
  let ?vv = "fmupd (v_Validator v)
      (fmupd (v_HeaderDigest v) v (map_submap (vt_validatorVotes vt) (v_Validator v))) (vt_validatorVotes vt)"
  have "pending_ok ?vv d r"
    if "fmlookup (fmupd (v_HeaderDigest v) (vote_added v p) (vt_pending vt)) d = Some r" for d r
  proof (cases "d = v_HeaderDigest v")
    case True
    then have "r = vote_added v p" using that by simp
    then show ?thesis
      using True pending_okD[OF assms added(2)] by (auto simp: pending_ok_def vote_added_def)
  next
    case False
    then have r: "fmlookup (vt_pending vt) d = Some r" using that by simp
    show ?thesis
      using False pending_okD[OF assms r] by (auto simp: pending_ok_def)
  qed
  then show ?thesis by (simp add: RecordVote_added[OF assms added] vt_ok_def)
qed

lemma RemoveHeader_submap:
  assumes "distinct is"
  shows "map_submap (fold (remove_validator_vote digest) is vv) i =
     (if i \<in> set is then fmdrop digest (map_submap vv i) else map_submap vv i)"
proof -
  have step: "map_submap (remove_validator_vote digest j vv) i =
      (if i = j then fmdrop digest (map_submap vv i) else map_submap vv i)" for j vv
  proof -
    have "fmdrop digest (map_submap vv j) = fmempty" if "map_len (fmdrop digest (map_submap vv j)) = 0"
      using that by (metis fcard_0_eq fmrestrict_fset_dom fmrestrict_fset_null)
    then show ?thesis by (auto simp: remove_validator_vote_def Let_def simp del: fmdom_drop)
  qed
  show ?thesis using assms by (induction "is" arbitrary: vv) (auto simp: step)
qed

lemma RemoveHeader_votes:
  "map_submap (vt_validatorVotes (VoteTracker_RemoveHeader d vt)) i = fmdrop d (map_submap (vt_validatorVotes vt) i)"
proof (cases "map_has (vt_validatorVotes vt) i")
  case True
  then show ?thesis by (simp add: VoteTracker_RemoveHeader_def RemoveHeader_submap)
next
  case False
  then have "map_submap (vt_validatorVotes vt) i = fmempty" by (simp add: map_has_def map_submap_def)
  then show ?thesis using False by (simp add: VoteTracker_RemoveHeader_def RemoveHeader_submap)
qed

lemma RemoveHeader_ok: "vt_ok vt \<Longrightarrow> vt_ok (VoteTracker_RemoveHeader d vt)"
  using RemoveHeader_votes[of d vt] unfolding vt_ok_def pending_ok_def
  by (auto simp: VoteTracker_RemoveHeader_def split: if_splits)

lemma remove_timed_out_lookup:
  assumes "remove_timed_out cutoff ks m = (m', hs)"
  shows "fmlookup m' d = (case fmlookup m d of None \<Rightarrow> None
           | Some p \<Rightarrow> if d \<in> set ks \<and> ph_CreatedAt p < cutoff then None else Some p)"
  using assms
proof (induction cutoff ks m arbitrary: m' hs rule: remove_timed_out.induct)
  case (2 cutoff k ks m)
  show ?case
  proof (cases "fmlookup m k")
    case None
    then show ?thesis using 2 by (auto split: option.splits)
  next
    case (Some p)
    then show ?thesis
      using "2.IH" "2.prems" by (cases "ph_CreatedAt p < cutoff") (auto split: prod.splits option.splits)
  qed
qed (auto split: option.splits)

lemma RemoveTimedOut_ok: "vt_ok vt \<Longrightarrow> vt_ok (fst (VoteTracker_RemoveTimedOut ks now vt))"
proof -
  assume ok: "vt_ok vt"
  obtain m' hs where m': "remove_timed_out (now - vt_timeout vt) ks (vt_pending vt) = (m', hs)"
    by (cases "remove_timed_out (now - vt_timeout vt) ks (vt_pending vt)")
  have "fmlookup (vt_pending vt) d = Some p" if "fmlookup m' d = Some p" for d p
    using that remove_timed_out_lookup[OF m', of d] by (auto split: option.splits if_splits)
  then show ?thesis using ok m' by (auto simp: VoteTracker_RemoveTimedOut_def vt_ok_def)
qed

lemma Close_ok: "vt_ok (VoteTracker_Close vt)"
  by (simp add: vt_ok_def VoteTracker_Close_def)

lemma ClearDoubleVoteEvidence_ok: "vt_ok vt \<Longrightarrow> vt_ok (VoteTracker_ClearDoubleVoteEvidence vt)"
  by (simp add: vt_ok_def VoteTracker_ClearDoubleVoteEvidence_def)

lemmas vt_ok_intros [inv_intros] =
  NewVoteTracker_ok TrackHeader_ok RecordVote_ok RemoveHeader_ok RemoveTimedOut_ok Close_ok
  ClearDoubleVoteEvidence_ok

section \<open>Certificates of the tracker\<close>

lemma collect_votes_eq:
  assumes "int (length acc) < quorum"
  shows "collect_votes quorum acc vs = acc @ take (nat quorum - length acc) vs"
  using assms
proof (induction vs arbitrary: acc)
  case (Cons v vs)
  show ?case
  proof (cases "int (length acc) + 1 \<ge> quorum")
    case True
    then have "nat quorum - length acc = 1" using Cons.prems by linarith
    then show ?thesis using True by simp
  next
    case False
    then have "nat quorum - length acc = Suc (nat quorum - length (acc @ [v]))" by simp
    then show ?thesis using False Cons.IH[of "acc @ [v]"] by simp
  qed
qed simp

lemma formCertificate_votes:
  assumes ord: "go_order ord" and q: "1 \<le> quorum"
    and keys: "\<forall>i v. fmlookup (ph_Votes p) i = Some v \<longrightarrow> v_Validator v = i"
    and enough: "quorum \<le> int (map_len (ph_Votes p))"
  shows "c_Header (VoteTracker_formCertificateLocked ord p quorum) = ph_Header p"
    and "int (length (c_Votes (VoteTracker_formCertificateLocked ord p quorum))) = quorum"
    and "distinct (map v_Validator (c_Votes (VoteTracker_formCertificateLocked ord p quorum)))"
    and "v \<in> set (c_Votes (VoteTracker_formCertificateLocked ord p quorum)) \<Longrightarrow>
           fmlookup (ph_Votes p) (v_Validator v) = Some v"
proof -
  let ?m = "ph_Votes p"
  have it: "iter_order (ord ?m) ?m" using ord by (simp add: go_order_def)
  let ?vals = "map_values (ord ?m) ?m"
  have votes: "collect_votes quorum [] ?vals = take (nat quorum) ?vals"
    using q collect_votes_eq[of "[]" quorum ?vals] by simp
  have c: "VoteTracker_formCertificateLocked ord p quorum = NewCertificate (ph_Header p) (take (nat quorum) ?vals)"
    by (simp add: VoteTracker_formCertificateLocked_def votes)
  then show "c_Header (VoteTracker_formCertificateLocked ord p quorum) = ph_Header p" by simp
  have "length ?vals = map_len ?m" using it by (rule length_map_values)
  then show "int (length (c_Votes (VoteTracker_formCertificateLocked ord p quorum))) = quorum"
    using q enough by (simp add: c)
  have "distinct (map v_Validator ?vals)"
    using keys iter_orderD(1)[OF it] by (intro distinct_map_values_key) blast+
  then have "distinct (map v_Validator (take (nat quorum) ?vals))"
    by (simp add: take_map[symmetric])
  moreover have "mset (map v_Validator (c_Votes (VoteTracker_formCertificateLocked ord p quorum))) =
      mset (map v_Validator (take (nat quorum) ?vals))" by (simp add: c)
  ultimately show "distinct (map v_Validator (c_Votes (VoteTracker_formCertificateLocked ord p quorum)))"
    using mset_eq_imp_distinct_iff by metis
  show "fmlookup ?m (v_Validator v) = Some v"
    if "v \<in> set (c_Votes (VoteTracker_formCertificateLocked ord p quorum))"
  proof -
    from that have "v \<in> set ?vals" by (auto simp: c dest: in_set_takeD)
    then show ?thesis using keys map_values_order[OF it] by fastforce
  qed
qed

section \<open>Runs of the tracker\<close>

text \<open>The states of a tracker together with the votes that were given to \<^verbatim>\<open>RecordVote\<close>.\<close>

inductive vt_run :: "VoteTracker \<Rightarrow> Vote set \<Rightarrow> bool" where
  new: "vt_run (NewVoteTracker timeout) {}"
| track: "vt_run vt V \<Longrightarrow> vt_run (VoteTracker_TrackHeader now h vt) V"
| vote: "vt_run vt V \<Longrightarrow> vt_run (fst (VoteTracker_RecordVote ord now v q vt)) (insert v V)"
| remove: "vt_run vt V \<Longrightarrow> vt_run (VoteTracker_RemoveHeader d vt) V"
| timeout: "vt_run vt V \<Longrightarrow> vt_run (fst (VoteTracker_RemoveTimedOut ks now vt)) V"
| clear: "vt_run vt V \<Longrightarrow> vt_run (VoteTracker_ClearDoubleVoteEvidence vt) V"
| close: "vt_run vt V \<Longrightarrow> vt_run (VoteTracker_Close vt) V"

lemma vt_run_ok: "vt_run vt V \<Longrightarrow> vt_ok vt"
  by (induction rule: vt_run.induct) (simp_all add: vt_ok_intros)

definition votes_from :: "VoteTracker \<Rightarrow> Vote set \<Rightarrow> bool" where
  "votes_from vt V \<longleftrightarrow>
     (\<forall>d p i v. fmlookup (vt_pending vt) d = Some p \<longrightarrow> fmlookup (ph_Votes p) i = Some v \<longrightarrow> v \<in> V)"

lemma votes_fromD:
  "votes_from vt V \<Longrightarrow> fmlookup (vt_pending vt) d = Some p \<Longrightarrow> fmlookup (ph_Votes p) i = Some v \<Longrightarrow> v \<in> V"
  unfolding votes_from_def by blast

lemma RecordVote_votes_from:
  assumes "vt_ok vt" and V: "votes_from vt V"
  shows "votes_from (fst (VoteTracker_RecordVote ord now v q vt)) (insert v V)"
proof (cases vt v rule: vote_cases)
  case untracked
  then show ?thesis using V by (auto simp: RecordVote_untracked votes_from_def)
next
  case (known p w)
  then show ?thesis
    using RecordVote_known[OF known, of ord now q] V by (auto simp: votes_from_def)
next
  case (added p)
  then show ?thesis
    using votes_fromD[OF V] votes_fromD[OF V added(2)]
    by (auto simp: RecordVote_added[OF assms(1) added] votes_from_def vote_added_def split: if_splits)
qed

lemma vt_run_votes: "vt_run vt V \<Longrightarrow> votes_from vt V"
proof (induction rule: vt_run.induct)
  case (vote vt V ord now v q)
  then show ?case using RecordVote_votes_from vt_run_ok by blast
next
  case (timeout vt V ks now)
  obtain m' hs where m': "remove_timed_out (now - vt_timeout vt) ks (vt_pending vt) = (m', hs)"
    by (cases "remove_timed_out (now - vt_timeout vt) ks (vt_pending vt)")
  have "fmlookup (vt_pending vt) d = Some p" if "fmlookup m' d = Some p" for d p
    using that remove_timed_out_lookup[OF m', of d] by (auto split: option.splits if_splits)
  then show ?case
    using m' votes_fromD[OF timeout.IH] by (simp add: VoteTracker_RemoveTimedOut_def votes_from_def) blast
qed (auto simp: NewVoteTracker_def VoteTracker_TrackHeader_def VoteTracker_RemoveHeader_def
      VoteTracker_ClearDoubleVoteEvidence_def VoteTracker_Close_def votes_from_def split: if_splits)

lemma RecordVote_Some:
  assumes "vt_ok vt" and "VoteTracker_RecordVote ord now v q vt = (vt', Some c)"
  obtains p where "fmlookup (vt_pending vt') (v_HeaderDigest v) = Some p"
    and "q \<le> int (map_len (ph_Votes p))" and "c = VoteTracker_formCertificateLocked ord p q"
proof (cases vt v rule: vote_cases)
  case untracked
  then show ?thesis using assms(2) by (simp add: RecordVote_untracked)
next
  case (known p w)
  then show ?thesis
    using RecordVote_known[OF known, of ord now q] assms(2) that[of p]
    by (auto simp: quorum_check_def split: if_splits)
next
  case (added p)
  then show ?thesis
    using RecordVote_added(1)[OF assms(1) added, of ord now q] assms(2) that[of "vote_added v p"]
    by (auto simp: quorum_check_def split: if_splits)
qed

text \<open>A property of all tracked headers is kept by every operation but the tracking of a new one.\<close>

definition tracked_all :: "(Header \<Rightarrow> bool) \<Rightarrow> VoteTracker \<Rightarrow> bool" where
  "tracked_all Q vt \<longleftrightarrow> (\<forall>d p. fmlookup (vt_pending vt) d = Some p \<longrightarrow> Q (ph_Header p))"

lemma RecordVote_tracked_all:
  assumes "vt_ok vt" and Q: "tracked_all Q vt"
  shows "tracked_all Q (fst (VoteTracker_RecordVote ord now v q vt))"
proof (cases vt v rule: vote_cases)
  case untracked
  then show ?thesis using Q by (simp add: RecordVote_untracked)
next
  case (known p w)
  then show ?thesis
    using RecordVote_known[OF known, of ord now q] Q by (auto simp: tracked_all_def)
next
  case (added p)
  then show ?thesis using Q
    by (auto simp: RecordVote_added[OF assms(1) added] tracked_all_def vote_added_def)
qed

lemma RemoveTimedOut_tracked_all:
  assumes "tracked_all Q vt"
  shows "tracked_all Q (fst (VoteTracker_RemoveTimedOut ks now vt))"
proof -
  obtain m' hs where m': "remove_timed_out (now - vt_timeout vt) ks (vt_pending vt) = (m', hs)"
    by (cases "remove_timed_out (now - vt_timeout vt) ks (vt_pending vt)")
  have "fmlookup (vt_pending vt) d = Some p" if "fmlookup m' d = Some p" for d p
    using that remove_timed_out_lookup[OF m', of d] by (auto split: option.splits if_splits)
  then show ?thesis using assms m' unfolding tracked_all_def VoteTracker_RemoveTimedOut_def by auto
qed

lemma tracked_all_intros [inv_intros]:
  "tracked_all Q (NewVoteTracker timeout)"
  "tracked_all Q vt \<Longrightarrow> Q h \<Longrightarrow> tracked_all Q (VoteTracker_TrackHeader now h vt)"
  "tracked_all Q vt \<Longrightarrow> tracked_all Q (VoteTracker_RemoveHeader d vt)"
  "tracked_all Q (VoteTracker_Close vt)"
  by (auto simp: tracked_all_def NewVoteTracker_def VoteTracker_TrackHeader_def VoteTracker_RemoveHeader_def
      VoteTracker_Close_def split: if_splits)

lemma RecordVote_sound:
  assumes "vt_run vt V" and "go_order ord" and "1 \<le> q"
    and "VoteTracker_RecordVote ord now v q vt = (vt', Some c)"
  shows "VoteTracker_GetHeader (v_HeaderDigest v) vt' = Some (c_Header c) \<and>
    Certificate_Digest c = v_HeaderDigest v \<and> int (length (c_Votes c)) = q \<and>
    distinct (map v_Validator (c_Votes c)) \<and> sorted (map v_Validator (c_Votes c)) \<and>
    (\<forall>w \<in> set (c_Votes c). v_HeaderDigest w = Certificate_Digest c \<and> w \<in> insert v V)"
proof -
  have vt': "vt' = fst (VoteTracker_RecordVote ord now v q vt)" using assms(4) by simp
  have run: "vt_run vt' (insert v V)" unfolding vt' using assms(1) by (rule vt_run.vote)
  obtain p where p: "fmlookup (vt_pending vt') (v_HeaderDigest v) = Some p"
      "q \<le> int (map_len (ph_Votes p))" "c = VoteTracker_formCertificateLocked ord p q"
    using RecordVote_Some[OF vt_run_ok[OF assms(1)] assms(4)] .
  note pok = pending_okD[OF vt_run_ok[OF run] p(1)]
  have keys: "\<forall>i w. fmlookup (ph_Votes p) i = Some w \<longrightarrow> v_Validator w = i" using pok(2) by blast
  note form = formCertificate_votes[OF assms(2,3) keys p(2), folded p(3)]
  have dig: "Certificate_Digest c = v_HeaderDigest v"
    using form(1) pok(1) by (simp add: Certificate_Digest_def)
  moreover have "v_HeaderDigest w = v_HeaderDigest v \<and> w \<in> insert v V" if "w \<in> set (c_Votes c)" for w
    using form(4)[OF that] pok(2) votes_fromD[OF vt_run_votes[OF run] p(1)] by blast
  moreover have "sorted (map v_Validator (c_Votes c))"
    by (simp add: p(3) VoteTracker_formCertificateLocked_def)
  ultimately show ?thesis
    using form p(1) by (simp add: VoteTracker_GetHeader_def)
qed

section \<open>Votes that arrive one after the other\<close>

definition record_votes ::
  "vote_order \<Rightarrow> time \<Rightarrow> int \<Rightarrow> Vote list \<Rightarrow> VoteTracker \<Rightarrow> VoteTracker \<times> Certificate option" where
  "record_votes ord now q vs vt = fold (\<lambda>v (vt, _). VoteTracker_RecordVote ord now v q vt) vs (vt, None)"

lemma record_votes_simps [simp]:
  "record_votes ord now q [] vt = (vt, None)"
  "record_votes ord now q (vs @ [v]) vt = VoteTracker_RecordVote ord now v q (fst (record_votes ord now q vs vt))"
  by (simp_all add: record_votes_def case_prod_beta)

definition known_votes :: "VoteTracker \<Rightarrow> hash \<Rightarrow> u16 set" where
  "known_votes vt d = {i. fmlookup (map_submap (vt_validatorVotes vt) i) d \<noteq> None}"

lemma record_votes_count:
  assumes "vt_ok vt" and "\<not> vt_closed vt" and "fmlookup (vt_pending vt) d = Some p"
    and "map_len (ph_Votes p) = 0" and "known_votes vt d = {}"
    and "distinct (map v_Validator vs)" and "\<And>v. v \<in> set vs \<Longrightarrow> v_HeaderDigest v = d"
  shows "\<exists>p'. vt_ok (fst (record_votes ord now q vs vt)) \<and> \<not> vt_closed (fst (record_votes ord now q vs vt)) \<and>
    fmlookup (vt_pending (fst (record_votes ord now q vs vt))) d = Some p' \<and>
    map_len (ph_Votes p') = length vs \<and>
    known_votes (fst (record_votes ord now q vs vt)) d = v_Validator ` set vs \<and>
    (vs \<noteq> [] \<longrightarrow> snd (record_votes ord now q vs vt) = quorum_check ord q p')"
  using assms(6,7)
proof (induction vs rule: rev_induct)
  case Nil
  then show ?case using assms by simp
next
  case (snoc v vs)
  let ?vt = "fst (record_votes ord now q vs vt)"
  obtain p' where IH: "vt_ok ?vt" "\<not> vt_closed ?vt" "fmlookup (vt_pending ?vt) d = Some p'"
      "map_len (ph_Votes p') = length vs" "known_votes ?vt d = v_Validator ` set vs"
    using snoc by auto
  have d: "v_HeaderDigest v = d" and "v_Validator v \<notin> v_Validator ` set vs" using snoc.prems by auto
  then have new: "fmlookup (map_submap (vt_validatorVotes ?vt) (v_Validator v)) (v_HeaderDigest v) = None"
    using IH(5) unfolding known_votes_def by fastforce
  have p': "fmlookup (vt_pending ?vt) (v_HeaderDigest v) = Some p'" using IH(3) d by simp
  note step = RecordVote_added(1)[OF IH(1,2) p' new, of ord now q] RecordVote_added(2)[OF IH(1,2) p' new]
  have "known_votes (fst (VoteTracker_RecordVote ord now v q ?vt)) d = insert (v_Validator v) (known_votes ?vt d)"
    using d by (auto simp: step known_votes_def)
  moreover have "map_len (ph_Votes (vote_added v p')) = Suc (length vs)"
    using step(2) IH(4) by (simp add: vote_added_def map_len_upd del: fmdom_fmupd)
  ultimately show ?case
    using step IH RecordVote_ok[OF IH(1), of ord now v q] d by auto
qed

section \<open>Properties\<close>

text \<open>
  A certificate returned by \<^verbatim>\<open>RecordVote\<close> is sound in every reachable state and for
  every order in which Go visits the votes: it certifies the tracked header the vote is for, has
  exactly \<open>quorum\<close> votes of pairwise distinct validators, all for the digest of that header, and
  every one of them was given to \<^verbatim>\<open>RecordVote\<close> before or is the present one.
\<close>

lemma RecordVote_certificate_sound:
  assumes "vt_run vt V" and "go_order ord" and "1 \<le> q"
    and "VoteTracker_RecordVote ord now v q vt = (vt', Some c)"
  shows "VoteTracker_GetHeader (v_HeaderDigest v) vt' = Some (c_Header c) \<and>
    Certificate_Digest c = v_HeaderDigest v \<and> int (length (c_Votes c)) = q \<and>
    distinct (map v_Validator (c_Votes c)) \<and> sorted (map v_Validator (c_Votes c)) \<and>
    (\<forall>w \<in> set (c_Votes c). v_HeaderDigest w = Certificate_Digest c \<and> w \<in> insert v V)"
  using RecordVote_sound[OF assms] .

definition demo_tracker :: VoteTracker where
  "demo_tracker = VoteTracker_TrackHeader 0 (demo_header 1 0) (NewVoteTracker 10)"

lemma demo_tracker_simps:
  "vt_run demo_tracker {}" "\<not> vt_closed demo_tracker" "vt_validatorVotes demo_tracker = fmempty"
  "fmlookup (vt_pending demo_tracker) (h_Digest (demo_header 1 0)) =
     Some \<lparr>ph_Header = demo_header 1 0, ph_Votes = fmempty, ph_CreatedAt = 0\<rparr>"
  unfolding demo_tracker_def
  by (intro vt_run.intros) (simp_all add: VoteTracker_TrackHeader_def NewVoteTracker_def)

lemma RecordVote_certificate_sound_example:
  "\<exists>c. snd (VoteTracker_RecordVote map_keys 1 (demo_vote (h_Digest (demo_header 1 0)) 2) 1 demo_tracker) = Some c \<and>
       c_Header c = demo_header 1 0 \<and> length (c_Votes c) = 1"
proof -
  let ?v = "demo_vote (h_Digest (demo_header 1 0)) 2"
  let ?r = "VoteTracker_RecordVote map_keys 1 ?v 1 demo_tracker"
  have "snd ?r \<noteq> None"
    by (simp add: VoteTracker_RecordVote_def demo_tracker_simps Let_def map_len_upd del: fmdom_fmupd)
  then obtain c where c: "snd ?r = Some c" by blast
  then have r: "?r = (fst ?r, Some c)" by (metis prod.collapse)
  have "VoteTracker_GetHeader (h_Digest (demo_header 1 0)) (fst ?r) = Some (demo_header 1 0)"
    by (simp add: VoteTracker_RecordVote_def demo_tracker_simps Let_def VoteTracker_GetHeader_def)
  then show ?thesis
    using RecordVote_certificate_sound[OF demo_tracker_simps(1) go_order_map_keys _ r] c by simp
qed

text \<open>
  \<^bold>\<open>C11\<close>: votes of distinct validators for a freshly tracked header are all counted, whatever
  their order, and the call for a vote returns a certificate exactly when the votes so far are at
  least the quorum.
\<close>

theorem votes_reach_quorum:
  assumes "vt_run vt V" and "\<not> vt_closed vt" and "VoteTracker_HasHeader d vt"
    and "VoteTracker_VoteCount d vt = 0" and "known_votes vt d = {}"
    and "distinct (map v_Validator (vs @ [v]))" and "\<forall>w \<in> set (vs @ [v]). v_HeaderDigest w = d"
  shows "VoteTracker_VoteCount d (fst (record_votes ord now q (vs @ [v]) vt)) = Suc (length vs) \<and>
    (snd (record_votes ord now q (vs @ [v]) vt) \<noteq> None \<longleftrightarrow> q \<le> int (Suc (length vs)))"
proof -
  obtain p where p: "fmlookup (vt_pending vt) d = Some p"
    using assms(3) by (auto simp: VoteTracker_HasHeader_def map_has_def)
  then have "map_len (ph_Votes p) = 0" using assms(4) by (simp add: VoteTracker_VoteCount_def)
  then obtain p' where "fmlookup (vt_pending (fst (record_votes ord now q (vs @ [v]) vt))) d = Some p'"
      "map_len (ph_Votes p') = length (vs @ [v])"
      "snd (record_votes ord now q (vs @ [v]) vt) = quorum_check ord q p'"
    using record_votes_count[OF vt_run_ok[OF assms(1)] assms(2) p _ assms(5,6), of ord now q] assms(7)
    by blast
  then show ?thesis
    by (simp add: VoteTracker_VoteCount_def quorum_check_def del: record_votes_simps)
qed

theorem votes_reach_quorum_witness:
  "let d = h_Digest (demo_header 1 0)
   in snd (record_votes map_keys 1 3 [demo_vote d 2, demo_vote d 0] demo_tracker) = None \<and>
      snd (record_votes map_keys 1 3 [demo_vote d 2, demo_vote d 0, demo_vote d 1] demo_tracker) \<noteq> None"
proof -
  let ?d = "h_Digest (demo_header 1 0)"
  have pre: "VoteTracker_HasHeader ?d demo_tracker" "VoteTracker_VoteCount ?d demo_tracker = 0"
    "known_votes demo_tracker ?d = {}"
    by (simp_all add: VoteTracker_HasHeader_def VoteTracker_VoteCount_def map_has_def known_votes_def
        demo_tracker_simps)
  show ?thesis
    using votes_reach_quorum[OF demo_tracker_simps(1,2) pre, of "[demo_vote ?d 2]" "demo_vote ?d 0" map_keys 1 3]
      votes_reach_quorum[OF demo_tracker_simps(1,2) pre, of "[demo_vote ?d 2, demo_vote ?d 0]" "demo_vote ?d 1" map_keys 1 3]
    by simp
qed

lemma record_known_votes:
  assumes "\<not> vt_closed vt" and "fmlookup (vt_pending vt) d = Some p" and "int (map_len (ph_Votes p)) < q"
    and "\<forall>v \<in> set vs. v_HeaderDigest v = d \<and> v_Validator v \<in> known_votes vt d"
  shows "\<exists>ev. record_votes ord now q vs vt = (vt\<lparr>vt_doubleVotes := ev\<rparr>, None)"
  using assms(4)
proof (induction vs rule: rev_induct)
  case Nil
  have "record_votes ord now q [] vt = (vt\<lparr>vt_doubleVotes := vt_doubleVotes vt\<rparr>, None)" by simp
  then show ?case by blast
next
  case (snoc v vs)
  then obtain ev where IH: "record_votes ord now q vs vt = (vt\<lparr>vt_doubleVotes := ev\<rparr>, None)" by auto
  obtain w where "fmlookup (map_submap (vt_validatorVotes vt) (v_Validator v)) (v_HeaderDigest v) = Some w"
    using snoc.prems by (auto simp: known_votes_def)
  then show ?case
    using RecordVote_known[of "vt\<lparr>vt_doubleVotes := ev\<rparr>" v p w ord now q] snoc.prems assms(1-3) IH
    by (auto simp: quorum_check_def)
qed

text \<open>
  \<^verbatim>\<open>RemoveTimedOut\<close> forgets a header but not the votes its validators cast. If the
  same header is tracked again after it timed out, no vote of a validator that had voted for it
  before is counted: however many of them vote again, the count stays zero and no certificate forms.
\<close>

lemma stale_votes_not_counted:
  assumes "vt_run vt V" and "\<not> vt_closed vt" and "fmlookup (vt_pending vt) d = Some p"
    and "ph_CreatedAt p < now - vt_timeout vt" and "iter_order ks (vt_pending vt)"
    and "h_Digest h = d" and "1 \<le> q"
    and "\<forall>v \<in> set vs. v_HeaderDigest v = d \<and> map_has (ph_Votes p) (v_Validator v)"
  shows "let vt1 = fst (VoteTracker_RemoveTimedOut ks now vt);
             vt2 = VoteTracker_TrackHeader now' h vt1
         in \<not> VoteTracker_HasHeader d vt1 \<and> VoteTracker_HasHeader d vt2 \<and>
            VoteTracker_VoteCount d (fst (record_votes ord now' q vs vt2)) = 0 \<and>
            snd (record_votes ord now' q vs vt2) = None"
proof -
  define vt1 where "vt1 = fst (VoteTracker_RemoveTimedOut ks now vt)"
  define vt2 where "vt2 = VoteTracker_TrackHeader now' h vt1"
  obtain m' hs where m': "remove_timed_out (now - vt_timeout vt) ks (vt_pending vt) = (m', hs)"
    by (cases "remove_timed_out (now - vt_timeout vt) ks (vt_pending vt)")
  have "d \<in> set ks" using iter_orderD(2)[OF assms(5)] assms(3) by (simp add: map_has_def)
  then have gone: "\<not> VoteTracker_HasHeader d vt1"
    using remove_timed_out_lookup[OF m', of d] assms(3,4) m'
    by (simp add: vt1_def VoteTracker_RemoveTimedOut_def VoteTracker_HasHeader_def map_has_def)
  have vv: "vt_validatorVotes vt2 = vt_validatorVotes vt" "\<not> vt_closed vt1"
    using m' assms(2) by (simp_all add: vt2_def vt1_def VoteTracker_TrackHeader_def VoteTracker_RemoveTimedOut_def)
  have p2: "fmlookup (vt_pending vt2) d = Some \<lparr>ph_Header = h, ph_Votes = fmempty, ph_CreatedAt = now'\<rparr>"
    using gone vv(2) assms(6) by (simp add: vt2_def VoteTracker_TrackHeader_def VoteTracker_HasHeader_def)
  have c2: "\<not> vt_closed vt2" using vv(2) by (simp add: vt2_def VoteTracker_TrackHeader_def)
  have "\<forall>v \<in> set vs. v_HeaderDigest v = d \<and> v_Validator v \<in> known_votes vt2 d"
    using assms(8) pending_okD(3)[OF vt_run_ok[OF assms(1)] assms(3)]
    by (fastforce simp: known_votes_def vv map_has_def)
  then obtain ev where "record_votes ord now' q vs vt2 = (vt2\<lparr>vt_doubleVotes := ev\<rparr>, None)"
    using record_known_votes[OF c2 p2, of q vs ord now'] assms(7) by (auto simp: fcard.rep_eq)
  then show ?thesis
    using gone p2 unfolding Let_def vt1_def[symmetric] vt2_def[symmetric]
    by (simp add: VoteTracker_HasHeader_def map_has_def VoteTracker_VoteCount_def)
qed

lemma stale_votes_not_counted_example:
  "let d = h_Digest (demo_header 1 0);
       vt = fst (VoteTracker_RecordVote map_keys 1 (demo_vote d 2) 3 demo_tracker);
       vt1 = fst (VoteTracker_RemoveTimedOut (map_keys (vt_pending vt)) 100 vt);
       vt2 = VoteTracker_TrackHeader 101 (demo_header 1 0) vt1
   in VoteTracker_VoteCount d (fst (record_votes map_keys 101 3 [demo_vote d 2] vt2)) = 0"
proof -
  let ?d = "h_Digest (demo_header 1 0)"
  let ?vt = "fst (VoteTracker_RecordVote map_keys 1 (demo_vote ?d 2) 3 demo_tracker)"
  have run: "vt_run ?vt (insert (demo_vote ?d 2) {})" by (intro vt_run.vote demo_tracker_simps)
  have p: "fmlookup (vt_pending ?vt) ?d = Some \<lparr>ph_Header = demo_header 1 0,
      ph_Votes = fmupd 2 (demo_vote ?d 2) fmempty, ph_CreatedAt = 0\<rparr>" "\<not> vt_closed ?vt" "vt_timeout ?vt = 10"
    by (simp_all add: VoteTracker_RecordVote_def demo_tracker_simps Let_def)
       (simp add: demo_tracker_def VoteTracker_TrackHeader_def NewVoteTracker_def)
  show ?thesis
    using stale_votes_not_counted[OF run p(2,1), of 100 "map_keys (vt_pending ?vt)" "demo_header 1 0" 3
        "[demo_vote ?d 2]" 101 map_keys]
    by (simp add: p(3) iter_order_map_keys Let_def)
qed

end
