(* ===== verification/Pending_Heap.thy ===== *)
theory Pending_Heap
  imports Wire_Types "HOL-Library.Product_Lexorder"
begin

text \<open>
  The pending queue of a worker: the entries and the comparison of \<^verbatim>\<open>worker/worker.go\<close> under
  the array heap of Go's \<^verbatim>\<open>container/heap\<close> (\<^verbatim>\<open>up\<close>, \<^verbatim>\<open>down\<close>, \<^verbatim>\<open>Push\<close>,
  \<^verbatim>\<open>Pop\<close>), and the proof that it is a priority queue that drains in the order of priority
  and, at equal priority, of arrival.
\<close>

section \<open>Definitions\<close>

record pendingEntry =
  pe_tx :: transaction
  pe_priority :: int
  pe_sequence :: u64

type_synonym priorityQueue = "pendingEntry list"

definition priorityQueue_Len :: "priorityQueue \<Rightarrow> nat" where
  "priorityQueue_Len pq = length pq"

definition priorityQueue_Less :: "priorityQueue \<Rightarrow> nat \<Rightarrow> nat \<Rightarrow> bool" where
  "priorityQueue_Less pq i j =
     (if pe_priority (pq ! i) \<noteq> pe_priority (pq ! j)
      then pe_priority (pq ! i) > pe_priority (pq ! j)
      else pe_sequence (pq ! i) < pe_sequence (pq ! j))"

definition priorityQueue_Swap :: "priorityQueue \<Rightarrow> nat \<Rightarrow> nat \<Rightarrow> priorityQueue" where
  "priorityQueue_Swap pq i j = pq[i := pq ! j, j := pq ! i]"

definition priorityQueue_Push :: "pendingEntry \<Rightarrow> priorityQueue \<Rightarrow> priorityQueue" where
  "priorityQueue_Push x pq = pq @ [x]"

definition priorityQueue_Pop :: "priorityQueue \<Rightarrow> pendingEntry \<times> priorityQueue" where
  "priorityQueue_Pop old = (old ! (length old - 1), take (length old - 1) old)"

text \<open>\<^verbatim>\<open>container/heap\<close>; in \<open>up\<close> the parent of index 0 is 0, as Go's \<open>(j-1)/2\<close>.\<close>

function heap_up :: "priorityQueue \<Rightarrow> nat \<Rightarrow> priorityQueue" where
  "heap_up h j = (let i = (j - 1) div 2
                  in if i = j \<or> \<not> priorityQueue_Less h j i then h
                     else heap_up (priorityQueue_Swap h i j) i)"
  by pat_completeness auto
termination
  by (relation "measure snd") auto

function heap_down :: "priorityQueue \<Rightarrow> nat \<Rightarrow> nat \<Rightarrow> priorityQueue" where
  "heap_down h i n =
     (let j1 = 2 * i + 1
      in if j1 \<ge> n then h
         else let j2 = j1 + 1; j = (if j2 < n \<and> priorityQueue_Less h j2 j1 then j2 else j1)
              in if \<not> priorityQueue_Less h j i then h
                 else heap_down (priorityQueue_Swap h i j) j n)"
  by pat_completeness auto
termination
  by (relation "measure (\<lambda>(h, i, n). n - i)") (auto simp: Let_def split: if_splits)

declare heap_up.simps [simp del] heap_down.simps [simp del]

definition heap_Push :: "pendingEntry \<Rightarrow> priorityQueue \<Rightarrow> priorityQueue" where
  "heap_Push x h = (let h1 = priorityQueue_Push x h in heap_up h1 (priorityQueue_Len h1 - 1))"

definition heap_Pop :: "priorityQueue \<Rightarrow> pendingEntry \<times> priorityQueue" where
  "heap_Pop h = (let n = priorityQueue_Len h - 1;
                     h1 = priorityQueue_Swap h 0 n;
                     h2 = heap_down h1 0 n
                 in priorityQueue_Pop h2)"

section \<open>The order of the entries\<close>

text \<open>The comparison orders by descending priority and then by ascending sequence number.\<close>

definition entry_key :: "pendingEntry \<Rightarrow> int \<times> u64" where
  "entry_key e = (- pe_priority e, pe_sequence e)"

lemma Less_key: "priorityQueue_Less h i j \<longleftrightarrow> entry_key (h ! i) < entry_key (h ! j)"
  by (auto simp: priorityQueue_Less_def entry_key_def less_prod_def)

section \<open>The heap property\<close>

abbreviation hkey :: "priorityQueue \<Rightarrow> nat \<Rightarrow> int \<times> u64" where
  "hkey h i \<equiv> entry_key (h ! i)"

definition heap_to :: "nat \<Rightarrow> priorityQueue \<Rightarrow> bool" where
  "heap_to n h \<longleftrightarrow> (\<forall>k. 0 < k \<and> k < n \<longrightarrow> hkey h ((k - 1) div 2) \<le> hkey h k)"

definition is_heap :: "priorityQueue \<Rightarrow> bool" where
  "is_heap h \<longleftrightarrow> heap_to (length h) h"

text \<open>A heap except for the entry at \<open>j\<close>, which may be smaller than its parent, ...\<close>

definition heap_but_up :: "nat \<Rightarrow> nat \<Rightarrow> priorityQueue \<Rightarrow> bool" where
  "heap_but_up n j h \<longleftrightarrow>
     (\<forall>k. 0 < k \<and> k < n \<longrightarrow> (k \<noteq> j \<longrightarrow> hkey h ((k - 1) div 2) \<le> hkey h k) \<and>
        ((k - 1) div 2 = j \<and> 0 < j \<longrightarrow> hkey h ((j - 1) div 2) \<le> hkey h k))"

text \<open>... and one except for the entry at \<open>i\<close>, which may be larger than its children.\<close>

definition heap_but_down :: "nat \<Rightarrow> nat \<Rightarrow> priorityQueue \<Rightarrow> bool" where
  "heap_but_down n i h \<longleftrightarrow>
     (\<forall>k. 0 < k \<and> k < n \<longrightarrow> ((k - 1) div 2 \<noteq> i \<longrightarrow> hkey h ((k - 1) div 2) \<le> hkey h k) \<and>
        ((k - 1) div 2 = i \<and> 0 < i \<longrightarrow> hkey h ((i - 1) div 2) \<le> hkey h k))"

lemma parent_less: "0 < k \<Longrightarrow> (k - 1) div 2 < (k :: nat)"
  by auto

lemma Swap_length [simp]: "length (priorityQueue_Swap h i j) = length h"
  by (simp add: priorityQueue_Swap_def)

lemma Swap_nth:
  "i < length h \<Longrightarrow> j < length h \<Longrightarrow> priorityQueue_Swap h i j ! k = (if k = i then h ! j else if k = j then h ! i else h ! k)"
  by (auto simp: priorityQueue_Swap_def nth_list_update)

lemma Swap_mset: "i < length h \<Longrightarrow> j < length h \<Longrightarrow> mset (priorityQueue_Swap h i j) = mset h"
  by (simp add: priorityQueue_Swap_def mset_swap)

lemma heap_up_mset: "j < length h \<Longrightarrow> mset (heap_up h j) = mset h \<and> length (heap_up h j) = length h"
proof (induction h j rule: heap_up.induct)
  case (1 h j)
  then show ?case by (subst (1 2) heap_up.simps) (auto simp: Let_def Swap_mset)
qed

lemma heap_up_heap:
  "j < n \<Longrightarrow> n \<le> length h \<Longrightarrow> heap_but_up n j h \<Longrightarrow> heap_to n (heap_up h j)"
proof (induction h j rule: heap_up.induct)
  case (1 h j)
  let ?i = "(j - 1) div 2"
  show ?case
  proof (cases "?i = j \<or> \<not> priorityQueue_Less h j ?i")
    case True
    then have "j = 0 \<or> hkey h ?i \<le> hkey h j" by (auto simp: Less_key)
    then have "heap_to n h" using "1.prems"(3) unfolding heap_to_def heap_but_up_def by blast
    then show ?thesis using True by (subst heap_up.simps) (simp add: Let_def)
  next
    case False
    let ?h = "priorityQueue_Swap h ?i j"
    have j: "0 < j" "?i < j" "?i < length h" "j < length h" using False "1.prems" by auto
    have lt: "hkey h j < hkey h ?i" using False by (simp add: Less_key)
    note hb = "1.prems"(3)[unfolded heap_but_up_def, rule_format]
    have "heap_but_up n ?i ?h"
      unfolding heap_but_up_def
    proof (intro allI impI conjI, goal_cases)
      case (1 k)
      then consider "k = j" | "k \<noteq> j" "(k - 1) div 2 = j" | "k \<noteq> j" "(k - 1) div 2 = ?i"
        | "k \<noteq> j" "(k - 1) div 2 \<noteq> j" "(k - 1) div 2 \<noteq> ?i" by blast
      then show ?case
      proof cases
        case 1
        then show ?thesis using lt j by (simp add: Swap_nth)
      next
        case 2
        then show ?thesis using hb[of k] \<open>0 < k \<and> k < n\<close> \<open>k \<noteq> ?i\<close> j by (auto simp: Swap_nth)
      next
        case 3
        then have "hkey h ?i \<le> hkey h k" using hb[of k] \<open>0 < k \<and> k < n\<close> by auto
        then show ?thesis using 3 lt \<open>k \<noteq> ?i\<close> j by (auto simp: Swap_nth)
      next
        case 4
        then show ?thesis using hb[of k] \<open>0 < k \<and> k < n\<close> \<open>k \<noteq> ?i\<close> j by (simp add: Swap_nth)
      qed
    next
      case (2 k)
      let ?g = "(?i - 1) div 2"
      have g: "?g \<noteq> ?i" "?g \<noteq> j" using 2 j parent_less[of ?i] by simp_all
      have gi: "hkey h ?g \<le> hkey h ?i" using hb[of ?i] 2 j "1.prems"(1) by auto
      show ?case
      proof (cases "k = j")
        case True
        then show ?thesis using g gi j by (simp add: Swap_nth)
      next
        case False
        then have "hkey h ?i \<le> hkey h k" using hb[of k] 2 by auto
        moreover have "k \<noteq> ?i" using 2 g(1) by auto
        ultimately show ?thesis using False g gi j by (simp add: Swap_nth)
      qed
    qed
    then have "heap_to n (heap_up ?h ?i)"
      using "1.IH"[OF refl False] j "1.prems" by simp
    then show ?thesis using False by (subst heap_up.simps) (simp add: Let_def)
  qed
qed

text \<open>The child that \<^verbatim>\<open>down\<close> compares with is the smaller one.\<close>

definition small_child :: "priorityQueue \<Rightarrow> nat \<Rightarrow> nat \<Rightarrow> nat" where
  "small_child h i n = (if 2 * i + 2 < n \<and> priorityQueue_Less h (2 * i + 2) (2 * i + 1) then 2 * i + 2 else 2 * i + 1)"

lemma heap_down_unfold:
  "heap_down h i n =
     (if 2 * i + 1 \<ge> n \<or> \<not> priorityQueue_Less h (small_child h i n) i then h
      else heap_down (priorityQueue_Swap h i (small_child h i n)) (small_child h i n) n)"
  by (subst heap_down.simps) (simp add: Let_def small_child_def)

lemma small_child:
  assumes "2 * i + 1 < n"
  shows "(small_child h i n - 1) div 2 = i" "i < small_child h i n" "small_child h i n < n"
    and "(k - 1) div 2 = i \<Longrightarrow> 0 < k \<Longrightarrow> k < n \<Longrightarrow> hkey h (small_child h i n) \<le> hkey h k"
proof -
  show "(small_child h i n - 1) div 2 = i" "i < small_child h i n" "small_child h i n < n"
    using assms by (simp_all add: small_child_def)
  show "hkey h (small_child h i n) \<le> hkey h k" if "(k - 1) div 2 = i" "0 < k" "k < n"
  proof -
    have "k = 2 * i + 1 \<or> k = 2 * i + 2" using that(1,2) by presburger
    then show ?thesis using that(3) by (auto simp: small_child_def Less_key)
  qed
qed

lemma down_induct [case_names step]:
  assumes "\<And>h i n. (2 * i + 1 < n \<Longrightarrow> priorityQueue_Less h (small_child h i n) i \<Longrightarrow>
       P (priorityQueue_Swap h i (small_child h i n)) (small_child h i n) n) \<Longrightarrow> P h i n"
  shows "P h i n"
proof (induction "n - i" arbitrary: h i rule: less_induct)
  case less
  show ?case
  proof (rule assms)
    assume "2 * i + 1 < n"
    then have "n - small_child h i n < n - i" using small_child(2,3)[of i n h] by linarith
    then show "P (priorityQueue_Swap h i (small_child h i n)) (small_child h i n) n" by (rule less)
  qed
qed

lemma heap_down_frame:
  "n \<le> length h \<Longrightarrow> i < n \<Longrightarrow> mset (heap_down h i n) = mset h \<and> length (heap_down h i n) = length h \<and>
     (\<forall>k \<ge> n. heap_down h i n ! k = h ! k)"
proof (induction h i n rule: down_induct)
  case (step h i n)
  show ?case
  proof (cases "2 * i + 1 < n \<and> priorityQueue_Less h (small_child h i n) i")
    case True
    then show ?thesis
      using step small_child(2,3)[of i n h]
      by (subst (1 2 3) heap_down_unfold) (auto simp: Swap_mset Swap_nth)
  next
    case False
    then show ?thesis by (subst (1 2 3) heap_down_unfold) auto
  qed
qed

lemma heap_down_heap:
  "n \<le> length h \<Longrightarrow> i < n \<Longrightarrow> heap_but_down n i h \<Longrightarrow> heap_to n (heap_down h i n)"
proof (induction h i n rule: down_induct)
  case (step h i n)
  let ?j = "small_child h i n"
  note hb = step.prems(3)[unfolded heap_but_down_def, rule_format]
  show ?case
  proof (cases "2 * i + 1 < n \<and> priorityQueue_Less h ?j i")
    case False
    have "hkey h i \<le> hkey h k" if k: "0 < k" "k < n" "(k - 1) div 2 = i" for k
    proof -
      have n: "2 * i + 1 < n" using k by presburger
      then have "hkey h i \<le> hkey h ?j" using False by (simp add: Less_key)
      then show ?thesis using small_child(4)[OF n k(3,1,2), of h] by order
    qed
    then have "heap_to n h" using hb unfolding heap_to_def by (metis (no_types))
    then show ?thesis using False by (subst heap_down_unfold) auto
  next
    case True
    let ?h = "priorityQueue_Swap h i ?j"
    have n: "2 * i + 1 < n" and lt: "hkey h ?j < hkey h i" using True by (auto simp: Less_key)
    note sc = small_child[OF n, where h = h]
    have ln: "i < length h" "?j < length h" using sc(3) step.prems by auto
    have "heap_but_down n ?j ?h"
      unfolding heap_but_down_def
    proof (intro allI impI conjI, goal_cases)
      case (1 k)
      then consider "k = ?j" | "k = i" "0 < i" | "k \<noteq> ?j" "k \<noteq> i" "(k - 1) div 2 = i"
        | "k \<noteq> ?j" "k \<noteq> i" "(k - 1) div 2 \<noteq> i" by blast
      then show ?case
      proof cases
        case 1
        then show ?thesis using sc(1) lt ln by (auto simp: Swap_nth intro: less_imp_le)
      next
        case 2
        then have "(i - 1) div 2 \<noteq> i" "(i - 1) div 2 \<noteq> ?j" using parent_less[of i] sc(2) by simp_all
        moreover have "hkey h ((i - 1) div 2) \<le> hkey h ?j" using hb[of ?j] sc 2 by auto
        ultimately show ?thesis using 2 ln by (simp add: Swap_nth)
      next
        case 3
        then show ?thesis using sc(4)[of k] \<open>0 < k \<and> k < n\<close> ln by (simp add: Swap_nth)
      next
        case 4
        then show ?thesis using hb[of k] \<open>0 < k \<and> k < n\<close> \<open>(k - 1) div 2 \<noteq> ?j\<close> ln by (simp add: Swap_nth)
      qed
    next
      case (2 k)
      have "k \<noteq> i" "k \<noteq> ?j" using 2 sc(2) parent_less[of k] by auto
      moreover have "hkey h ?j \<le> hkey h k" using hb[of k] 2 sc(2) by auto
      ultimately show ?case using sc(1) ln by (simp add: Swap_nth)
    qed
    then have "heap_to n (heap_down ?h ?j n)" using step.IH True sc step.prems by simp
    then show ?thesis using True by (subst heap_down_unfold) auto
  qed
qed

lemma heap_root_least: "heap_to n h \<Longrightarrow> k < n \<Longrightarrow> hkey h 0 \<le> hkey h k"
proof (induction k rule: less_induct)
  case (less k)
  show ?case
  proof (cases "k = 0")
    case False
    then have "(k - 1) div 2 < k" by (simp add: parent_less)
    then have "hkey h 0 \<le> hkey h ((k - 1) div 2)" using less by simp
    also have "\<dots> \<le> hkey h k" using less.prems False by (simp add: heap_to_def)
    finally show ?thesis .
  qed simp
qed

section \<open>Push and Pop\<close>

lemma heap_Push_heap:
  assumes "is_heap h"
  shows "is_heap (heap_Push x h)" and "mset (heap_Push x h) = add_mset x (mset h)"
    and "length (heap_Push x h) = Suc (length h)"
proof -
  have "heap_but_up (Suc (length h)) (length h) (h @ [x])"
    using assms unfolding heap_but_up_def is_heap_def heap_to_def
    by (auto simp: nth_append)
  then have "heap_to (Suc (length h)) (heap_up (h @ [x]) (length h))"
    by (intro heap_up_heap) simp_all
  then show "is_heap (heap_Push x h)" and "mset (heap_Push x h) = add_mset x (mset h)"
    and "length (heap_Push x h) = Suc (length h)"
    using heap_up_mset[of "length h" "h @ [x]"]
    by (simp_all add: heap_Push_def is_heap_def priorityQueue_Push_def priorityQueue_Len_def)
qed

lemma heap_Pop_heap:
  assumes "is_heap h" and "h \<noteq> []" and "heap_Pop h = (e, h')"
  shows "e = h ! 0" and "is_heap h'" and "mset h = add_mset e (mset h')"
    and "x \<in> set h \<Longrightarrow> entry_key e \<le> entry_key x"
proof -
  let ?n = "length h - 1"
  let ?h1 = "priorityQueue_Swap h 0 ?n"
  have len: "0 < length h" using assms(2) by simp
  define h2 where "h2 = heap_down ?h1 0 ?n"
  have h2: "mset h2 = mset h \<and> length h2 = length h \<and> h2 ! ?n = h ! 0 \<and> heap_to ?n h2"
  proof (cases "?n = 0")
    case True
    then have "h2 = ?h1" unfolding h2_def by (subst heap_down_unfold) simp
    then show ?thesis using True len by (auto simp: Swap_mset Swap_nth heap_to_def)
  next
    case False
    have "heap_but_down ?n 0 ?h1"
      using assms(1) len unfolding heap_but_down_def is_heap_def heap_to_def
      by (auto simp: Swap_nth)
    then have "heap_to ?n h2" unfolding h2_def using False by (intro heap_down_heap) simp_all
    then show ?thesis
      using heap_down_frame[of ?n ?h1 0] False len by (simp add: h2_def Swap_mset Swap_nth)
  qed
  have pop: "heap_Pop h = (h2 ! ?n, take ?n h2)"
    using h2 by (simp add: heap_Pop_def priorityQueue_Len_def priorityQueue_Pop_def h2_def Let_def)
  then show e: "e = h ! 0" using assms(3) h2 by simp
  have h': "h' = take ?n h2" using pop assms(3) by simp
  show "is_heap h'" using h2 len unfolding is_heap_def heap_to_def h' by auto
  have "h2 = take ?n h2 @ [h2 ! ?n]" using h2 len by (metis Suc_pred' diff_less less_one take_Suc_conv_app_nth take_all_iff order_refl)
  then have "mset h2 = add_mset (h2 ! ?n) (mset (take ?n h2))"
    by (metis add.right_neutral add_mset_add_single mset.simps(1) mset.simps(2) mset_append union_mset_add_mset_right)
  then show "mset h = add_mset e (mset h')" using h2 e h' by simp
  show "entry_key e \<le> entry_key x" if "x \<in> set h"
    using that heap_root_least[of "length h" h] assms(1) e by (auto simp: in_set_conv_nth is_heap_def)
qed

section \<open>Priority queues\<close>

text \<open>
  The interface the worker uses. What a sequence of pops returns follows from the laws alone: the
  least elements in ascending order.
\<close>

locale priority_queue =
  fixes inv :: "'q \<Rightarrow> bool"
    and elems :: "'q \<Rightarrow> 'a multiset"
    and key :: "'a \<Rightarrow> 'k::linorder"
    and push :: "'a \<Rightarrow> 'q \<Rightarrow> 'q"
    and pop :: "'q \<Rightarrow> 'a \<times> 'q"
  assumes push_inv: "inv q \<Longrightarrow> inv (push x q)"
    and push_elems: "inv q \<Longrightarrow> elems (push x q) = add_mset x (elems q)"
    and pop_inv: "inv q \<Longrightarrow> elems q \<noteq> {#} \<Longrightarrow> pop q = (x, q') \<Longrightarrow> inv q'"
    and pop_elems: "inv q \<Longrightarrow> elems q \<noteq> {#} \<Longrightarrow> pop q = (x, q') \<Longrightarrow> elems q = add_mset x (elems q')"
    and pop_least: "inv q \<Longrightarrow> elems q \<noteq> {#} \<Longrightarrow> pop q = (x, q') \<Longrightarrow> y \<in># elems q \<Longrightarrow> key x \<le> key y"
begin

primrec pops :: "nat \<Rightarrow> 'q \<Rightarrow> 'a list \<times> 'q" where
  "pops 0 q = ([], q)"
| "pops (Suc n) q = (let (x, q1) = pop q; (xs, q2) = pops n q1 in (x # xs, q2))"

lemma pops_correct:
  assumes "inv q" and "n \<le> size (elems q)" and "pops n q = (xs, q')"
  shows "inv q' \<and> elems q = mset xs + elems q' \<and> length xs = n \<and> sorted (map key xs) \<and>
         (\<forall>x \<in> set xs. \<forall>y. y \<in># elems q' \<longrightarrow> key x \<le> key y)"
  using assms
proof (induction n arbitrary: q xs)
  case (Suc n)
  obtain x q1 where x: "pop q = (x, q1)" by (cases "pop q")
  obtain ys where ys: "pops n q1 = (ys, q')" "xs = x # ys"
    using Suc.prems(3) x by (auto split: prod.splits)
  have ne: "elems q \<noteq> {#}" using Suc.prems(2) by auto
  note q1 = pop_inv[OF Suc.prems(1) ne x] pop_elems[OF Suc.prems(1) ne x]
  have IH: "inv q' \<and> elems q1 = mset ys + elems q' \<and> length ys = n \<and> sorted (map key ys) \<and>
      (\<forall>x \<in> set ys. \<forall>y. y \<in># elems q' \<longrightarrow> key x \<le> key y)"
    using Suc.IH[OF q1(1) _ ys(1)] Suc.prems(2) q1(2) by simp
  have least: "y \<in># elems q \<Longrightarrow> key x \<le> key y" for y using pop_least[OF Suc.prems(1) ne x] .
  then show ?case using IH q1(2) ys(2) by auto
qed simp

text \<open>With distinct keys the result is determined: a prefix of the sorted contents.\<close>

lemma pops_sorted_prefix:
  assumes "inv q" and "n \<le> size (elems q)" and "pops n q = (xs, q')"
    and "mset zs = elems q" and "distinct (map key zs)"
  shows "xs = take n (sort_key key zs)"
proof -
  note c = pops_correct[OF assms(1-3)]
  obtain ys where ys: "mset ys = elems q'" using ex_mset by blast
  let ?all = "xs @ sort_key key ys"
  have "sorted (map key ?all)"
    using c ys by (auto simp: sorted_append simp flip: set_mset_mset)
  moreover have m: "mset (sort_key key zs) = mset ?all" using c ys assms(4) by simp
  moreover have "distinct (map key (sort_key key zs))"
    using assms(5) by (metis mset_map mset_sort mset_eq_imp_distinct_iff)
  ultimately have "sort_key key zs = ?all" by (intro sorted_key_unique) simp_all
  then show ?thesis using c by simp
qed

end

interpretation pq: priority_queue is_heap mset entry_key heap_Push heap_Pop
proof unfold_locales
  fix h e h' y
  assume h: "is_heap h" "mset h \<noteq> {#}" "heap_Pop h = (e, h')"
  then have ne: "h \<noteq> []" by auto
  show "is_heap h'" "mset h = add_mset e (mset h')" using heap_Pop_heap[OF h(1) ne h(3)] by blast+
  show "entry_key e \<le> entry_key y" if "y \<in># mset h"
    using heap_Pop_heap(4)[OF h(1) ne h(3)] that by simp
qed (simp_all add: heap_Push_heap)

text \<open>Several pops in a row.\<close>

primrec heap_pops :: "nat \<Rightarrow> priorityQueue \<Rightarrow> pendingEntry list \<times> priorityQueue" where
  "heap_pops 0 h = ([], h)"
| "heap_pops (Suc n) h = (let (x, h1) = heap_Pop h; (xs, h2) = heap_pops n h1 in (x # xs, h2))"

lemma heap_pops_eq: "heap_pops n h = pq.pops n h"
  by (induction n arbitrary: h) simp_all

lemma heap_pops_snoc:
  "heap_pops n h = (xs, h') \<Longrightarrow> heap_pops (Suc n) h = (xs @ [fst (heap_Pop h')], snd (heap_Pop h'))"
proof (induction n arbitrary: h xs)
  case (Suc n)
  obtain x h1 where x: "heap_Pop h = (x, h1)" by (cases "heap_Pop h")
  obtain ys where ys: "heap_pops n h1 = (ys, h')" "xs = x # ys"
    using Suc.prems x by (auto split: prod.splits)
  show ?case
    using heap_pops.simps(2)[of "Suc n" h] Suc.IH[OF ys(1)] x ys(2) by simp
qed (simp add: case_prod_beta)

lemma heap_pops_sorted:
  assumes "is_heap h" and "distinct (map entry_key h)" and "n \<le> length h" and "heap_pops n h = (xs, h')"
  shows "xs = take n (sort_key entry_key h)" and "is_heap h'" and "mset h' = mset (drop n (sort_key entry_key h))"
    and "n < length h \<Longrightarrow> h' ! 0 = sort_key entry_key h ! n"
proof -
  have p: "pq.pops n h = (xs, h')" and n: "n \<le> size (mset h)" using assms(3,4) by (simp_all add: heap_pops_eq)
  note c = pq.pops_correct[OF assms(1) n p]
  show xs: "xs = take n (sort_key entry_key h)"
    by (rule pq.pops_sorted_prefix[OF assms(1) n p refl assms(2)])
  show "is_heap h'" using c by blast
  have "mset (take n (sort_key entry_key h)) + mset (drop n (sort_key entry_key h)) = mset h"
    by (metis append_take_drop_id mset_append mset_sort)
  then have "mset h = mset xs + mset h'" "mset h = mset xs + mset (drop n (sort_key entry_key h))"
    using c xs by auto
  then show m: "mset h' = mset (drop n (sort_key entry_key h))" by (metis add_left_cancel)
  show "h' ! 0 = sort_key entry_key h ! n" if lt: "n < length h"
  proof -
    have "h' \<noteq> []" using m lt by (metis drop_eq_Nil2 length_sort mset_zero_iff not_less)
    then have top: "fst (heap_Pop h') = h' ! 0" using c heap_Pop_heap(1) by (metis prod.collapse)
    have "pq.pops (Suc n) h = (xs @ [h' ! 0], snd (heap_Pop h'))"
      using heap_pops_snoc[OF assms(4)] top by (simp only: heap_pops_eq)
    then have "xs @ [h' ! 0] = take (Suc n) (sort_key entry_key h)"
      using pq.pops_sorted_prefix[OF assms(1) _ _ refl assms(2)] lt by simp
    then show ?thesis using xs lt by (simp add: take_Suc_conv_app_nth)
  qed
qed

lemma is_heap_Nil [simp]: "is_heap []"
  by (simp add: is_heap_def heap_to_def)

lemma heap_Pop_first: "is_heap h \<Longrightarrow> h \<noteq> [] \<Longrightarrow> fst (heap_Pop h) = h ! 0"
  using heap_Pop_heap(1) by (metis prod.collapse)

section \<open>Properties\<close>

text \<open>
  \<^bold>\<open>C16\<close>: the heap of pending transactions is a priority queue. Starting from the empty queue,
  after pushing entries with distinct sequence numbers in any order, the first \<open>n\<close> pops return
  the \<open>n\<close> first entries in the order of descending priority and, at equal priority, ascending
  sequence number, and the rest stays in the queue as a heap.
\<close>

theorem heap_drains_in_priority_order:
  assumes "distinct (map pe_sequence es)" and "n \<le> length es"
  shows "case heap_pops n (fold heap_Push es []) of (xs, h) \<Rightarrow>
     xs = take n (sort_key entry_key es) \<and> is_heap h \<and> mset es = mset xs + mset h"
proof -
  have "is_heap h \<Longrightarrow> is_heap (fold heap_Push es h) \<and> mset (fold heap_Push es h) = mset es + mset h" for h
    by (induction es arbitrary: h) (simp_all add: heap_Push_heap)
  then have h: "is_heap (fold heap_Push es [])" "mset (fold heap_Push es []) = mset es" by simp_all
  have "distinct (map snd (map entry_key es))" using assms(1) by (simp add: entry_key_def comp_def)
  then have d: "distinct (map entry_key es)" unfolding distinct_map by blast
  obtain xs q where p: "pq.pops n (fold heap_Push es []) = (xs, q)" by fastforce
  have n: "n \<le> size (mset (fold heap_Push es []))" using assms(2) h(2) by simp
  show ?thesis
    using pq.pops_correct[OF h(1) n p] pq.pops_sorted_prefix[OF h(1) n p h(2)[symmetric] d] p h(2) by (simp add: heap_pops_eq)
qed

theorem heap_drains_in_priority_order_witness:
  "let e = (\<lambda>t p s. \<lparr>pe_tx = [t], pe_priority = p, pe_sequence = s\<rparr>)
   in fst (heap_pops 2 (fold heap_Push [e 1 5 2, e 2 7 3, e 3 5 4] [])) = [e 2 7 3, e 1 5 2]"
proof -
  let ?e = "\<lambda>t p s. \<lparr>pe_tx = [t], pe_priority = p, pe_sequence = s\<rparr>"
  let ?es = "[?e 1 5 2, ?e 2 7 3, ?e 3 5 4]"
  have "take 2 (sort_key entry_key ?es) = [?e 2 7 3, ?e 1 5 2]"
    by (simp add: entry_key_def less_eq_prod_def)
  then show ?thesis
    using heap_drains_in_priority_order[of ?es 2] by (simp split: prod.splits)
qed

end
