(* ===== verification/Ack_Tracker.thy ===== *)
theory Ack_Tracker
  imports Wire_Types
begin

text \<open>
  The acknowledgment tracker of a worker (\<^verbatim>\<open>worker/ack_tracker.go\<close>). The quorum callback is an
  output of \<^verbatim>\<open>RecordAck\<close>: the digest and the latency it is called with, if it is called.
\<close>

section \<open>Definitions\<close>

record PendingBatch =
  pb_Batch :: Batch
  pb_Acks :: "(u16, bool) fmap"
  pb_CreatedAt :: time

record AckTracker =
  at_pending :: "(hash, PendingBatch) fmap"
  at_quorum :: int
  at_timeout :: int
  at_closed :: bool
  at_quorumCallback :: bool

definition NewAckTracker :: "int \<Rightarrow> int \<Rightarrow> AckTracker" where
  "NewAckTracker quorum timeout =
     \<lparr>at_pending = fmempty, at_quorum = quorum, at_timeout = timeout, at_closed = False,
      at_quorumCallback = False\<rparr>"

definition AckTracker_TrackBatch :: "time \<Rightarrow> Batch \<Rightarrow> AckTracker \<Rightarrow> AckTracker" where
  "AckTracker_TrackBatch now batch at =
     (if at_closed at then at
      else if map_has (at_pending at) (b_Digest batch) then at
      else at\<lparr>at_pending := fmupd (b_Digest batch)
                \<lparr>pb_Batch = batch, pb_Acks = fmempty, pb_CreatedAt = now\<rparr> (at_pending at)\<rparr>)"

definition AckTracker_RecordAck ::
  "time \<Rightarrow> hash \<Rightarrow> u16 \<Rightarrow> AckTracker \<Rightarrow> AckTracker \<times> bool \<times> (hash \<times> int) option" where
  "AckTracker_RecordAck now batchDigest validator at =
     (if at_closed at then (at, False, None)
      else case fmlookup (at_pending at) batchDigest of
        None \<Rightarrow> (at, False, None)
      | Some pending \<Rightarrow>
          if fmlookup (pb_Acks pending) validator = Some True
          then (at, int (map_len (pb_Acks pending)) \<ge> at_quorum at, None)
          else
            (let wasBelow = int (map_len (pb_Acks pending)) < at_quorum at;
                 pending' = pending\<lparr>pb_Acks := fmupd validator True (pb_Acks pending)\<rparr>;
                 atQuorum = int (map_len (pb_Acks pending')) \<ge> at_quorum at
             in (at\<lparr>at_pending := fmupd batchDigest pending' (at_pending at)\<rparr>, atQuorum,
                 if wasBelow \<and> atQuorum \<and> at_quorumCallback at
                 then Some (batchDigest, now - pb_CreatedAt pending) else None)))"

definition AckTracker_SetQuorumCallback :: "bool \<Rightarrow> AckTracker \<Rightarrow> AckTracker" where
  "AckTracker_SetQuorumCallback cb at = at\<lparr>at_quorumCallback := cb\<rparr>"

definition AckTracker_HasQuorum :: "hash \<Rightarrow> AckTracker \<Rightarrow> bool" where
  "AckTracker_HasQuorum batchDigest at =
     (case fmlookup (at_pending at) batchDigest of
        None \<Rightarrow> False
      | Some pending \<Rightarrow> int (map_len (pb_Acks pending)) \<ge> at_quorum at)"

definition AckTracker_GetPending :: "hash \<Rightarrow> AckTracker \<Rightarrow> PendingBatch option" where
  "AckTracker_GetPending batchDigest at = fmlookup (at_pending at) batchDigest"

definition AckTracker_PendingBelowQuorum :: "hash list \<Rightarrow> time \<Rightarrow> int \<Rightarrow> AckTracker \<Rightarrow> Batch list" where
  "AckTracker_PendingBelowQuorum ks now minAge at =
     (if at_closed at then []
      else map pb_Batch (filter (\<lambda>p. \<not> int (map_len (pb_Acks p)) \<ge> at_quorum at \<and> pb_CreatedAt p < now - minAge)
             (map_values ks (at_pending at))))"

definition AckTracker_RemoveBatch :: "hash \<Rightarrow> AckTracker \<Rightarrow> AckTracker" where
  "AckTracker_RemoveBatch batchDigest at = at\<lparr>at_pending := fmdrop batchDigest (at_pending at)\<rparr>"

definition AckTracker_AckCount :: "hash \<Rightarrow> AckTracker \<Rightarrow> nat" where
  "AckTracker_AckCount batchDigest at =
     (case fmlookup (at_pending at) batchDigest of None \<Rightarrow> 0 | Some pending \<Rightarrow> map_len (pb_Acks pending))"

definition AckTracker_PendingCount :: "AckTracker \<Rightarrow> nat" where
  "AckTracker_PendingCount at = map_len (at_pending at)"

definition AckTracker_GetTimedOut :: "hash list \<Rightarrow> time \<Rightarrow> AckTracker \<Rightarrow> Batch list" where
  "AckTracker_GetTimedOut ks now at =
     map pb_Batch (filter (\<lambda>p. pb_CreatedAt p < now - at_timeout at) (map_values ks (at_pending at)))"

fun remove_timed_out_batches ::
  "time \<Rightarrow> hash list \<Rightarrow> (hash, PendingBatch) fmap \<Rightarrow> (hash, PendingBatch) fmap \<times> Batch list" where
  "remove_timed_out_batches cutoff [] m = (m, [])"
| "remove_timed_out_batches cutoff (digest # ks) m =
     (case fmlookup m digest of
        None \<Rightarrow> remove_timed_out_batches cutoff ks m
      | Some pending \<Rightarrow>
          if pb_CreatedAt pending < cutoff
          then let (m', timedOut) = remove_timed_out_batches cutoff ks (fmdrop digest m)
               in (m', pb_Batch pending # timedOut)
          else remove_timed_out_batches cutoff ks m)"

definition AckTracker_RemoveTimedOut :: "hash list \<Rightarrow> time \<Rightarrow> AckTracker \<Rightarrow> AckTracker \<times> Batch list" where
  "AckTracker_RemoveTimedOut ks now at =
     (let (pending, timedOut) = remove_timed_out_batches (now - at_timeout at) ks (at_pending at)
      in (at\<lparr>at_pending := pending\<rparr>, timedOut))"

definition AckTracker_UpdateQuorum :: "int \<Rightarrow> AckTracker \<Rightarrow> AckTracker" where
  "AckTracker_UpdateQuorum quorum at = at\<lparr>at_quorum := quorum\<rparr>"

definition AckTracker_Close :: "AckTracker \<Rightarrow> AckTracker" where
  "AckTracker_Close at = (if at_closed at then at else at\<lparr>at_closed := True, at_pending := fmempty\<rparr>)"

section \<open>Counting\<close>

lemma remove_timed_out_batches_lookup:
  assumes "remove_timed_out_batches cutoff ks m = (m', bs)"
  shows "fmlookup m' d = (case fmlookup m d of None \<Rightarrow> None
           | Some p \<Rightarrow> if d \<in> set ks \<and> pb_CreatedAt p < cutoff then None else Some p)"
  using assms
proof (induction cutoff ks m arbitrary: m' bs rule: remove_timed_out_batches.induct)
  case (2 cutoff k ks m)
  show ?case
  proof (cases "fmlookup m k")
    case None
    then show ?thesis using 2 by (auto split: option.splits)
  next
    case (Some p)
    then show ?thesis
      using "2.IH" "2.prems" by (cases "pb_CreatedAt p < cutoff") (auto split: prod.splits option.splits)
  qed
qed (auto split: option.splits)

text \<open>Only \<open>True\<close> is ever stored, so the number of entries is the number of acknowledgments.\<close>

definition at_ok :: "AckTracker \<Rightarrow> bool" where
  "at_ok at \<longleftrightarrow> (\<forall>d p. fmlookup (at_pending at) d = Some p \<longrightarrow>
     b_Digest (pb_Batch p) = d \<and> (\<forall>i b. fmlookup (pb_Acks p) i = Some b \<longrightarrow> b))"

definition acked :: "AckTracker \<Rightarrow> hash \<Rightarrow> u16 set" where
  "acked at d = (case fmlookup (at_pending at) d of None \<Rightarrow> {} | Some p \<Rightarrow> fset (fmdom (pb_Acks p)))"

lemma AckCount_card: "AckTracker_AckCount d at = card (acked at d)"
  by (simp add: AckTracker_AckCount_def acked_def fcard.rep_eq split: option.splits)

lemma HasQuorum_iff:
  "AckTracker_HasQuorum d at \<longleftrightarrow> map_has (at_pending at) d \<and> at_quorum at \<le> int (card (acked at d))"
  by (auto simp: AckTracker_HasQuorum_def acked_def fcard.rep_eq map_has_def split: option.splits)

lemma NewAckTracker_ok: "at_ok (NewAckTracker q t)"
  by (simp add: at_ok_def NewAckTracker_def)

lemma TrackBatch_ok: "at_ok at \<Longrightarrow> at_ok (AckTracker_TrackBatch now b at)"
  by (auto simp: at_ok_def AckTracker_TrackBatch_def)

lemma RecordAck_tracked:
  assumes "at_ok at" and "\<not> at_closed at" and "fmlookup (at_pending at) d = Some p"
  shows "if i \<in> acked at d
         then AckTracker_RecordAck now d i at = (at, at_quorum at \<le> int (card (acked at d)), None)
         else AckTracker_RecordAck now d i at =
           (at\<lparr>at_pending := fmupd d (p\<lparr>pb_Acks := fmupd i True (pb_Acks p)\<rparr>) (at_pending at)\<rparr>,
            at_quorum at \<le> int (Suc (card (acked at d))),
            if int (card (acked at d)) < at_quorum at \<and> at_quorum at \<le> int (Suc (card (acked at d))) \<and>
               at_quorumCallback at
            then Some (d, now - pb_CreatedAt p) else None)"
proof (cases "fmlookup (pb_Acks p) i")
  case None
  then have "\<not> map_has (pb_Acks p) i" by (simp add: map_has_def)
  then show ?thesis
    using assms None
    by (simp add: AckTracker_RecordAck_def acked_def Let_def fcard.rep_eq map_has_fmdom)
next
  case (Some b)
  then have "b" using assms by (auto simp: at_ok_def)
  then show ?thesis
    using assms Some by (auto simp: AckTracker_RecordAck_def acked_def fcard.rep_eq intro: fmdomI)
qed

lemma RecordAck_ok: "at_ok at \<Longrightarrow> at_ok (fst (AckTracker_RecordAck now d i at))"
  by (auto simp: at_ok_def AckTracker_RecordAck_def Let_def split: option.splits)

lemma ack_RemoveTimedOut_ok: "at_ok at \<Longrightarrow> at_ok (fst (AckTracker_RemoveTimedOut ks now at))"
proof -
  assume ok: "at_ok at"
  obtain m' bs where m': "remove_timed_out_batches (now - at_timeout at) ks (at_pending at) = (m', bs)"
    by (cases "remove_timed_out_batches (now - at_timeout at) ks (at_pending at)")
  have "fmlookup (at_pending at) d = Some p" if "fmlookup m' d = Some p" for d p
    using that remove_timed_out_batches_lookup[OF m', of d] by (auto split: option.splits if_splits)
  then show ?thesis using ok m' by (simp add: AckTracker_RemoveTimedOut_def at_ok_def) blast
qed

lemmas at_ok_intros [inv_intros] = NewAckTracker_ok TrackBatch_ok RecordAck_ok ack_RemoveTimedOut_ok

lemma acked_update:
  "acked (at\<lparr>at_pending := fmupd d (p\<lparr>pb_Acks := fmupd i True (pb_Acks p)\<rparr>) (at_pending at)\<rparr>) d =
     insert i (fset (fmdom (pb_Acks p)))"
  by (simp add: acked_def)

text \<open>A sequence of acknowledgments of one batch: the tracker, the last result, the callbacks.\<close>

fun record_acks ::
  "hash \<Rightarrow> (time \<times> u16) list \<Rightarrow> AckTracker \<Rightarrow> AckTracker \<times> bool list \<times> (hash \<times> int) list" where
  "record_acks d [] at = (at, [], [])"
| "record_acks d ((now, i) # as) at =
     (let (at1, r, cb) = AckTracker_RecordAck now d i at; (at2, rs, cbs) = record_acks d as at1
      in (at2, r # rs, (case cb of None \<Rightarrow> cbs | Some x \<Rightarrow> x # cbs)))"

lemma record_acks_count:
  assumes "at_ok at" and "\<not> at_closed at" and "fmlookup (at_pending at) d = Some p" and "1 \<le> at_quorum at"
  shows "case record_acks d as at of (at', rs, cbs) \<Rightarrow>
     at_ok at' \<and> at_quorum at' = at_quorum at \<and> map_has (at_pending at') d \<and>
     acked at' d = acked at d \<union> snd ` set as \<and>
     rs = map (\<lambda>n. at_quorum at \<le> int (card (acked at d \<union> snd ` set (take (Suc n) as)))) [0..<length as] \<and>
     length cbs = (if at_quorumCallback at \<and> int (card (acked at d)) < at_quorum at \<and>
                      at_quorum at \<le> int (card (acked at d \<union> snd ` set as)) then 1 else 0)"
  using assms
proof (induction as arbitrary: at p)
  case Nil
  then show ?case by (simp add: map_has_def)
next
  case (Cons a as)
  obtain now i where a: "a = (now, i)" by (cases a)
  have upt: "[0..<Suc (length as)] = 0 # map Suc [0..<length as]" by (simp add: upt_conv_Cons map_Suc_upt del: upt_Suc)
  obtain at1 r cb where step: "AckTracker_RecordAck now d i at = (at1, r, cb)"
    by (metis prod_cases3)
  have fin: "finite (acked at d)" by (simp add: acked_def split: option.split)
  show ?case
  proof (cases "i \<in> acked at d")
    case True
    then have "at1 = at" "r = (at_quorum at \<le> int (card (acked at d)))" "cb = None"
      using RecordAck_tracked[OF Cons.prems(1-3), of i now] step by auto
    then show ?thesis
      using Cons.IH[OF Cons.prems] True step
      by (auto simp: a upt insert_absorb comp_def simp del: upt_Suc split: prod.splits)
  next
    case False
    let ?p = "p\<lparr>pb_Acks := fmupd i True (pb_Acks p)\<rparr>"
    have s: "at1 = at\<lparr>at_pending := fmupd d ?p (at_pending at)\<rparr>"
      "r = (at_quorum at \<le> int (Suc (card (acked at d))))"
      "cb = (if int (card (acked at d)) < at_quorum at \<and> at_quorum at \<le> int (Suc (card (acked at d))) \<and>
               at_quorumCallback at then Some (d, now - pb_CreatedAt p) else None)"
      using RecordAck_tracked[OF Cons.prems(1-3), of i now] False step by auto
    have ack: "acked at1 d = insert i (acked at d)"
      using Cons.prems(3) by (simp add: s(1) acked_update) (simp add: acked_def)
    have "at_ok at1" using RecordAck_ok[OF Cons.prems(1), of now d i] step by simp
    moreover have "\<not> at_closed at1" "fmlookup (at_pending at1) d = Some ?p" "at_quorum at1 = at_quorum at"
      "at_quorumCallback at1 = at_quorumCallback at"
      using Cons.prems(2) by (simp_all add: s(1))
    ultimately have IH: "case record_acks d as at1 of (at', rs, cbs) \<Rightarrow>
       at_ok at' \<and> at_quorum at' = at_quorum at \<and> map_has (at_pending at') d \<and>
       acked at' d = insert i (acked at d) \<union> snd ` set as \<and>
       rs = map (\<lambda>n. at_quorum at \<le> int (card (insert i (acked at d) \<union> snd ` set (take (Suc n) as)))) [0..<length as] \<and>
       length cbs = (if at_quorumCallback at \<and> int (card (insert i (acked at d))) < at_quorum at \<and>
                      at_quorum at \<le> int (card (insert i (acked at d) \<union> snd ` set as)) then 1 else 0)"
      using Cons.IH[of at1 ?p] Cons.prems(4) by (simp add: ack)
    have c: "card (insert i (acked at d)) = Suc (card (acked at d))" using False fin by simp
    have mono: "Suc (card (acked at d)) \<le> card (insert i (acked at d) \<union> snd ` set as)"
      unfolding c[symmetric] by (rule card_mono) (use fin in auto)
    show ?thesis
      using IH s(2,3) c mono
      by (auto simp: a step upt comp_def simp del: upt_Suc split: prod.splits if_splits)
  qed
qed

section \<open>Properties\<close>

text \<open>
  \<^bold>\<open>C17\<close>: acknowledgments of a tracked batch. Repeated acknowledgments of a validator count
  once: the result of each \<^verbatim>\<open>RecordAck\<close> says whether the distinct validators so far are at least
  the quorum, \<^verbatim>\<open>HasQuorum\<close> agrees with it afterwards, and over the whole sequence the quorum
  callback fires exactly once if the quorum is reached and not at all otherwise.
\<close>

theorem acks_reach_quorum_once:
  assumes "at_ok at" and "\<not> at_closed at" and "1 \<le> at_quorum at" and "at_quorumCallback at"
    and "AckTracker_GetPending d at = Some p" and "AckTracker_AckCount d at = 0"
  shows "case record_acks d as at of (at', rs, cbs) \<Rightarrow>
     rs = map (\<lambda>n. at_quorum at \<le> int (card (snd ` set (take (Suc n) as)))) [0..<length as] \<and>
     (AckTracker_HasQuorum d at' \<longleftrightarrow> at_quorum at \<le> int (card (snd ` set as))) \<and>
     length cbs = (if at_quorum at \<le> int (card (snd ` set as)) then 1 else 0)"
proof -
  have p: "fmlookup (at_pending at) d = Some p" using assms(5) by (simp add: AckTracker_GetPending_def)
  have "finite (acked at d)" by (simp add: acked_def split: option.split)
  then have "acked at d = {}" using assms(6) by (simp add: AckCount_card)
  then show ?thesis
    using record_acks_count[OF assms(1,2) p assms(3), of as] assms(3,4)
    by (auto simp: HasQuorum_iff split: prod.splits)
qed

theorem acks_reach_quorum_once_witness:
  "let b = NewBatch demo_crypto 7 1 2 3 [[5]];
       at = AckTracker_TrackBatch 0 b (AckTracker_SetQuorumCallback True (NewAckTracker 2 10))
   in case record_acks (b_Digest b) [(1, 4), (2, 4), (3, 5), (4, 6)] at of (at', rs, cbs) \<Rightarrow>
        rs = [False, False, True, True] \<and> AckTracker_HasQuorum (b_Digest b) at' \<and> length cbs = 1"
proof -
  let ?b = "NewBatch demo_crypto 7 1 2 3 [[5]]"
  let ?at = "AckTracker_TrackBatch 0 ?b (AckTracker_SetQuorumCallback True (NewAckTracker 2 10))"
  have at: "?at = \<lparr>at_pending = fmupd (b_Digest ?b) \<lparr>pb_Batch = ?b, pb_Acks = fmempty, pb_CreatedAt = 0\<rparr> fmempty,
      at_quorum = 2, at_timeout = 10, at_closed = False, at_quorumCallback = True\<rparr>"
    by (simp add: AckTracker_TrackBatch_def AckTracker_SetQuorumCallback_def NewAckTracker_def)
  have pre: "at_ok ?at" "\<not> at_closed ?at" "1 \<le> at_quorum ?at" "at_quorumCallback ?at"
    "AckTracker_GetPending (b_Digest ?b) ?at = Some \<lparr>pb_Batch = ?b, pb_Acks = fmempty, pb_CreatedAt = 0\<rparr>"
    "AckTracker_AckCount (b_Digest ?b) ?at = 0"
    by (simp_all add: at at_ok_def AckTracker_GetPending_def AckTracker_AckCount_def fcard.rep_eq)
  have q: "at_quorum ?at = 2" by (simp add: at)
  have "[0..<4] = [0, 1, 2, 3::nat]" by (simp add: upt_rec)
  then show ?thesis
    using acks_reach_quorum_once[OF pre, of "[(1, 4), (2, 4), (3, 5), (4, 6)]"]
    unfolding Let_def q by (simp split: prod.splits)
qed

end
