(* ===== verification/Stores.thy ===== *)
theory Stores
  imports Certificates
begin

text \<open>
  The storage interfaces of \<^verbatim>\<open>store/store.go\<close> as locales, and the in-memory stores
  (\<^verbatim>\<open>memory_batch.go\<close>, \<^verbatim>\<open>memory_cert.go\<close>, \<^verbatim>\<open>memory_txindex.go\<close>) as their
  interpretations. An operation that changes a store returns the new store and the error, which is
  \<open>None\<close> for nil.
\<close>

section \<open>Batch store\<close>

record MemoryBatchStore =
  mbs_batches :: "(hash, Batch) fmap"
  mbs_byRound :: "(u64, hash list) fmap"
  mbs_closed :: bool

definition NewMemoryBatchStore :: MemoryBatchStore where
  "NewMemoryBatchStore = \<lparr>mbs_batches = fmempty, mbs_byRound = fmempty, mbs_closed = False\<rparr>"

definition MemoryBatchStore_SaveBatch :: "Batch \<Rightarrow> MemoryBatchStore \<Rightarrow> MemoryBatchStore \<times> err option" where
  "MemoryBatchStore_SaveBatch batch s =
     (if mbs_closed s then (s, Some ErrNotRunning)
      else if map_has (mbs_batches s) (b_Digest batch) then (s, None)
      else (s\<lparr>mbs_batches := fmupd (b_Digest batch) batch (mbs_batches s),
              mbs_byRound := fmupd (b_Round batch)
                (map_slice (mbs_byRound s) (b_Round batch) @ [b_Digest batch]) (mbs_byRound s)\<rparr>, None))"

definition MemoryBatchStore_GetBatch :: "hash \<Rightarrow> MemoryBatchStore \<Rightarrow> Batch result" where
  "MemoryBatchStore_GetBatch digest s =
     (if mbs_closed s then Inl ErrNotRunning
      else case fmlookup (mbs_batches s) digest of
        None \<Rightarrow> Inl ErrBatchNotFound
      | Some batch \<Rightarrow> Inr batch)"

definition MemoryBatchStore_HasBatch :: "hash \<Rightarrow> MemoryBatchStore \<Rightarrow> bool" where
  "MemoryBatchStore_HasBatch digest s =
     (if mbs_closed s then False else map_has (mbs_batches s) digest)"

definition MemoryBatchStore_GetBatchesByRound :: "u64 \<Rightarrow> MemoryBatchStore \<Rightarrow> Batch list result" where
  "MemoryBatchStore_GetBatchesByRound rnd s =
     (if mbs_closed s then Inl ErrNotRunning
      else case fmlookup (mbs_byRound s) rnd of
        None \<Rightarrow> Inr []
      | Some digests \<Rightarrow> Inr (map_values digests (mbs_batches s)))"

definition MemoryBatchStore_DeleteBatchesBefore ::
  "u64 \<Rightarrow> MemoryBatchStore \<Rightarrow> MemoryBatchStore \<times> err option" where
  "MemoryBatchStore_DeleteBatchesBefore rnd s =
     (if mbs_closed s then (s, Some ErrNotRunning)
      else let roundsToDelete = filter (\<lambda>r. r < rnd) (map_keys (mbs_byRound s))
           in (fold (\<lambda>r s. s\<lparr>mbs_batches := map_delete_all (map_slice (mbs_byRound s) r) (mbs_batches s),
                             mbs_byRound := fmdrop r (mbs_byRound s)\<rparr>) roundsToDelete s, None))"

definition MemoryBatchStore_Close :: "MemoryBatchStore \<Rightarrow> MemoryBatchStore \<times> err option" where
  "MemoryBatchStore_Close s =
     (s\<lparr>mbs_closed := True, mbs_batches := fmempty, mbs_byRound := fmempty\<rparr>, None)"

definition MemoryBatchStore_Len :: "MemoryBatchStore \<Rightarrow> nat" where
  "MemoryBatchStore_Len s = map_len (mbs_batches s)"

section \<open>Certificate store\<close>

record MemoryCertificateStore =
  mcs_certs :: "(hash, Certificate) fmap"
  mcs_byRound :: "(u64, hash list) fmap"
  mcs_byValidator :: "(u64, (u16, hash) fmap) fmap"
  mcs_closed :: bool

definition NewMemoryCertificateStore :: MemoryCertificateStore where
  "NewMemoryCertificateStore =
     \<lparr>mcs_certs = fmempty, mcs_byRound = fmempty, mcs_byValidator = fmempty, mcs_closed = False\<rparr>"

definition MemoryCertificateStore_SaveCertificate ::
  "Certificate \<Rightarrow> MemoryCertificateStore \<Rightarrow> MemoryCertificateStore \<times> err option" where
  "MemoryCertificateStore_SaveCertificate cert s =
     (let digest = Certificate_Digest cert; rnd = Certificate_Round cert in
      if mcs_closed s then (s, Some ErrNotRunning)
      else if map_has (mcs_certs s) digest then (s, None)
      else (s\<lparr>mcs_certs := fmupd digest cert (mcs_certs s),
              mcs_byRound := fmupd rnd (map_slice (mcs_byRound s) rnd @ [digest]) (mcs_byRound s),
              mcs_byValidator := fmupd rnd
                (fmupd (Certificate_Author cert) digest (map_submap (mcs_byValidator s) rnd))
                (mcs_byValidator s)\<rparr>, None))"

definition MemoryCertificateStore_GetCertificate ::
  "hash \<Rightarrow> MemoryCertificateStore \<Rightarrow> Certificate result" where
  "MemoryCertificateStore_GetCertificate digest s =
     (if mcs_closed s then Inl ErrNotRunning
      else case fmlookup (mcs_certs s) digest of
        None \<Rightarrow> Inl ErrCertificateNotFound
      | Some cert \<Rightarrow> Inr cert)"

definition MemoryCertificateStore_HasCertificate :: "hash \<Rightarrow> MemoryCertificateStore \<Rightarrow> bool" where
  "MemoryCertificateStore_HasCertificate digest s =
     (if mcs_closed s then False else map_has (mcs_certs s) digest)"

definition MemoryCertificateStore_GetCertificatesByRound ::
  "u64 \<Rightarrow> MemoryCertificateStore \<Rightarrow> Certificate list result" where
  "MemoryCertificateStore_GetCertificatesByRound rnd s =
     (if mcs_closed s then Inl ErrNotRunning
      else case fmlookup (mcs_byRound s) rnd of
        None \<Rightarrow> Inr []
      | Some digests \<Rightarrow> Inr (map_values digests (mcs_certs s)))"

definition MemoryCertificateStore_GetCertificateForValidator ::
  "u64 \<Rightarrow> u16 \<Rightarrow> MemoryCertificateStore \<Rightarrow> Certificate result" where
  "MemoryCertificateStore_GetCertificateForValidator rnd validator s =
     (if mcs_closed s then Inl ErrNotRunning
      else case fmlookup (mcs_byValidator s) rnd of
        None \<Rightarrow> Inl ErrCertificateNotFound
      | Some validatorMap \<Rightarrow> (case fmlookup validatorMap validator of
          None \<Rightarrow> Inl ErrCertificateNotFound
        | Some digest \<Rightarrow> (case fmlookup (mcs_certs s) digest of
            None \<Rightarrow> Inl ErrCertificateNotFound
          | Some cert \<Rightarrow> Inr cert)))"

definition MemoryCertificateStore_DeleteCertificatesBefore ::
  "u64 \<Rightarrow> MemoryCertificateStore \<Rightarrow> MemoryCertificateStore \<times> err option" where
  "MemoryCertificateStore_DeleteCertificatesBefore rnd s =
     (if mcs_closed s then (s, Some ErrNotRunning)
      else let roundsToDelete = filter (\<lambda>r. r < rnd) (map_keys (mcs_byRound s))
           in (fold (\<lambda>r s. s\<lparr>mcs_certs := map_delete_all (map_slice (mcs_byRound s) r) (mcs_certs s),
                             mcs_byRound := fmdrop r (mcs_byRound s),
                             mcs_byValidator := fmdrop r (mcs_byValidator s)\<rparr>) roundsToDelete s, None))"

definition MemoryCertificateStore_Close ::
  "MemoryCertificateStore \<Rightarrow> MemoryCertificateStore \<times> err option" where
  "MemoryCertificateStore_Close s =
     (s\<lparr>mcs_closed := True, mcs_certs := fmempty, mcs_byRound := fmempty,
        mcs_byValidator := fmempty\<rparr>, None)"

definition MemoryCertificateStore_HighestRound :: "MemoryCertificateStore \<Rightarrow> u64" where
  "MemoryCertificateStore_HighestRound s =
     fold (\<lambda>r highest. if r > highest then r else highest) (map_keys (mcs_byRound s)) 0"

definition MemoryCertificateStore_Len :: "MemoryCertificateStore \<Rightarrow> nat" where
  "MemoryCertificateStore_Len s = map_len (mcs_certs s)"

section \<open>Transaction index\<close>

record MemoryTxIndex =
  mti_txToBatch :: "(hash, hash) fmap"
  mti_batchToTxs :: "(hash, hash list) fmap"
  mti_batchRounds :: "(hash, u64) fmap"
  mti_closed :: bool

definition NewMemoryTxIndex :: MemoryTxIndex where
  "NewMemoryTxIndex = \<lparr>mti_txToBatch = fmempty, mti_batchToTxs = fmempty,
                       mti_batchRounds = fmempty, mti_closed = False\<rparr>"

definition MemoryTxIndex_AddTx :: "hash \<Rightarrow> hash \<Rightarrow> MemoryTxIndex \<Rightarrow> MemoryTxIndex \<times> err option" where
  "MemoryTxIndex_AddTx txHash batchHash idx =
     (if mti_closed idx then (idx, Some ErrNotRunning)
      else case fmlookup (mti_txToBatch idx) txHash of
        Some existing \<Rightarrow> if existing = batchHash then (idx, None) else (idx, Some ErrTxAlreadyExists)
      | None \<Rightarrow> (idx\<lparr>mti_txToBatch := fmupd txHash batchHash (mti_txToBatch idx),
                    mti_batchToTxs := fmupd batchHash
                      (map_slice (mti_batchToTxs idx) batchHash @ [txHash]) (mti_batchToTxs idx)\<rparr>, None))"

definition MemoryTxIndex_GetBatchForTx :: "hash \<Rightarrow> MemoryTxIndex \<Rightarrow> hash result" where
  "MemoryTxIndex_GetBatchForTx txHash idx =
     (if mti_closed idx then Inl ErrNotRunning
      else case fmlookup (mti_txToBatch idx) txHash of
        None \<Rightarrow> Inl ErrBatchNotFound
      | Some batchHash \<Rightarrow> Inr batchHash)"

definition MemoryTxIndex_HasTx :: "hash \<Rightarrow> MemoryTxIndex \<Rightarrow> bool" where
  "MemoryTxIndex_HasTx txHash idx =
     (if mti_closed idx then False else map_has (mti_txToBatch idx) txHash)"

definition MemoryTxIndex_RemoveTxsForBatch :: "hash \<Rightarrow> MemoryTxIndex \<Rightarrow> MemoryTxIndex \<times> err option" where
  "MemoryTxIndex_RemoveTxsForBatch batchHash idx =
     (if mti_closed idx then (idx, Some ErrNotRunning)
      else case fmlookup (mti_batchToTxs idx) batchHash of
        None \<Rightarrow> (idx, None)
      | Some txHashes \<Rightarrow>
          (idx\<lparr>mti_txToBatch := map_delete_all txHashes (mti_txToBatch idx),
               mti_batchToTxs := fmdrop batchHash (mti_batchToTxs idx)\<rparr>, None))"

definition MemoryTxIndex_AddBatch_tx :: "hash \<Rightarrow> hash \<Rightarrow> MemoryTxIndex \<Rightarrow> MemoryTxIndex" where
  "MemoryTxIndex_AddBatch_tx batchHash txHash idx =
     (case fmlookup (mti_txToBatch idx) txHash of
        Some existing \<Rightarrow> idx
      | None \<Rightarrow> idx\<lparr>mti_txToBatch := fmupd txHash batchHash (mti_txToBatch idx),
                    mti_batchToTxs := fmupd batchHash
                      (map_slice (mti_batchToTxs idx) batchHash @ [txHash]) (mti_batchToTxs idx)\<rparr>)"

definition MemoryTxIndex_AddBatch :: "crypto \<Rightarrow> Batch \<Rightarrow> MemoryTxIndex \<Rightarrow> MemoryTxIndex \<times> err option" where
  "MemoryTxIndex_AddBatch C batch idx =
     (if mti_closed idx then (idx, Some ErrNotRunning)
      else let idx1 = idx\<lparr>mti_batchRounds := fmupd (b_Digest batch) (b_Round batch) (mti_batchRounds idx)\<rparr>
           in (fold (\<lambda>tx. MemoryTxIndex_AddBatch_tx (b_Digest batch) (Transaction_Hash C tx))
                 (b_Transactions batch) idx1, None))"

definition MemoryTxIndex_prune_batch :: "hash \<Rightarrow> MemoryTxIndex \<Rightarrow> MemoryTxIndex" where
  "MemoryTxIndex_prune_batch batchHash idx =
     (let idx1 = (case fmlookup (mti_batchToTxs idx) batchHash of
                    None \<Rightarrow> idx
                  | Some txHashes \<Rightarrow>
                      idx\<lparr>mti_txToBatch := map_delete_all txHashes (mti_txToBatch idx),
                          mti_batchToTxs := fmdrop batchHash (mti_batchToTxs idx)\<rparr>)
      in idx1\<lparr>mti_batchRounds := fmdrop batchHash (mti_batchRounds idx1)\<rparr>)"

definition MemoryTxIndex_PruneOlderThan :: "u64 \<Rightarrow> MemoryTxIndex \<Rightarrow> MemoryTxIndex \<times> nat result" where
  "MemoryTxIndex_PruneOlderThan rnd idx =
     (if mti_closed idx then (idx, Inl ErrNotRunning)
      else let batchesToPrune = filter (\<lambda>b. case fmlookup (mti_batchRounds idx) b of
                                              None \<Rightarrow> False | Some batchRound \<Rightarrow> batchRound < rnd)
                                  (map_keys (mti_batchRounds idx))
           in (fold MemoryTxIndex_prune_batch batchesToPrune idx, Inr (length batchesToPrune)))"

definition MemoryTxIndex_Close :: "MemoryTxIndex \<Rightarrow> MemoryTxIndex \<times> err option" where
  "MemoryTxIndex_Close idx =
     (idx\<lparr>mti_closed := True, mti_txToBatch := fmempty, mti_batchToTxs := fmempty,
          mti_batchRounds := fmempty\<rparr>, None)"

definition MemoryTxIndex_Len :: "MemoryTxIndex \<Rightarrow> nat" where
  "MemoryTxIndex_Len idx = map_len (mti_txToBatch idx)"

section \<open>Indexed items\<close>

text \<open>
  What the three stores share: items by digest and, for each key of an item, the digests with that
  key. The key of a batch and of a certificate is its round, that of an indexed transaction is its
  batch.
\<close>

definition key_index :: "('a \<Rightarrow> 'r) \<Rightarrow> ('d, 'a) fmap \<Rightarrow> ('r, 'd list) fmap \<Rightarrow> bool" where
  "key_index rd items idx \<longleftrightarrow>
     (\<forall>r ds. fmlookup idx r = Some ds \<longrightarrow> ds \<noteq> [] \<and> distinct ds \<and>
        (\<forall>d \<in> set ds. \<exists>x. fmlookup items d = Some x \<and> rd x = r)) \<and>
     (\<forall>d x. fmlookup items d = Some x \<longrightarrow> d \<in> set (map_slice idx (rd x)))"

lemma key_index_empty [simp]: "key_index rd fmempty fmempty"
  by (simp add: key_index_def)

lemma key_index_digests:
  assumes "key_index rd items idx" and "fmlookup idx r = Some ds"
  shows "ds \<noteq> []" "distinct ds" "d \<in> set ds \<Longrightarrow> \<exists>x. fmlookup items d = Some x \<and> rd x = r"
  using assms unfolding key_index_def by blast+

lemma key_index_item:
  "key_index rd items idx \<Longrightarrow> fmlookup items d = Some x \<Longrightarrow> d \<in> set (map_slice idx (rd x))"
  unfolding key_index_def by blast

lemma key_index_slice:
  assumes "key_index rd items idx"
  shows "d \<in> set (map_slice idx r) \<longleftrightarrow> (\<exists>x. fmlookup items d = Some x \<and> rd x = r)"
proof
  assume "d \<in> set (map_slice idx r)"
  then obtain ds where "fmlookup idx r = Some ds" "d \<in> set ds"
    by (cases "fmlookup idx r") (auto simp: map_slice_def)
  then show "\<exists>x. fmlookup items d = Some x \<and> rd x = r"
    using key_index_digests(3)[OF assms] by blast
qed (use key_index_item[OF assms] in blast)

lemma key_index_distinct: "key_index rd items idx \<Longrightarrow> distinct (map_slice idx r)"
  using key_index_digests(2)[of rd items idx r] by (cases "fmlookup idx r") (auto simp: map_slice_def)

lemma key_index_key:
  assumes "key_index rd items idx"
  shows "map_has idx r \<longleftrightarrow> (\<exists>d x. fmlookup items d = Some x \<and> rd x = r)"
proof
  assume "map_has idx r"
  then obtain ds where ds: "fmlookup idx r = Some ds" by (auto simp: map_has_def)
  then obtain d where "d \<in> set ds" using key_index_digests(1)[OF assms] by fastforce
  then show "\<exists>d x. fmlookup items d = Some x \<and> rd x = r"
    using key_index_digests(3)[OF assms ds] by blast
next
  assume "\<exists>d x. fmlookup items d = Some x \<and> rd x = r"
  then show "map_has idx r"
    using key_index_item[OF assms] by (cases "fmlookup idx r") (fastforce simp: map_has_def map_slice_def)+
qed

lemma key_index_insert:
  assumes ri: "key_index rd items idx" and new: "fmlookup items d = None"
  shows "key_index rd (fmupd d x items) (fmupd (rd x) (map_slice idx (rd x) @ [d]) idx)"
proof -
  have fresh: "d \<notin> set (map_slice idx r)" for r
    using key_index_slice[OF ri] new by simp
  show ?thesis unfolding key_index_def
  proof (intro conjI allI impI, goal_cases)
    case (1 r ds)
    then show ?case by (auto split: if_splits dest: key_index_digests(1)[OF ri])
  next
    case (2 r ds)
    then show ?case
      using fresh key_index_distinct[OF ri] by (auto split: if_splits dest: key_index_digests(2)[OF ri])
  next
    case (3 r ds)
    show ?case
    proof
      fix e assume "e \<in> set ds"
      then consider "e = d" "r = rd x" | "e \<in> set (map_slice idx r)"
        using 3 by (auto split: if_splits)
      then show "\<exists>y. fmlookup (fmupd d x items) e = Some y \<and> rd y = r"
        using key_index_slice[OF ri] fresh by cases auto
    qed
  next
    case (4 e y)
    then show ?case using key_index_item[OF ri, of e y] by (auto split: if_splits)
  qed
qed

text \<open>The loop that drops all rounds below a bound, and what is left.\<close>

lemma fold_drop_rounds:
  "distinct rs \<Longrightarrow>
   fold (\<lambda>r (items, idx). (map_delete_all (map_slice idx r) items, fmdrop r idx)) rs (items, idx) =
     (map_delete_all (concat (map (map_slice idx) rs)) items, map_delete_all rs idx)"
proof (induction rs arbitrary: items idx)
  case (Cons r rs)
  have "map (map_slice (fmdrop r idx)) rs = map (map_slice idx) rs"
    using Cons.prems by auto
  then show ?case using Cons by (simp add: map_delete_all_def del: map_eq_conv)
qed simp

lemma key_index_drop:
  fixes rs :: "'r list"
  assumes ri: "key_index rd items idx"
  defines "items' \<equiv> map_delete_all (concat (map (map_slice idx) rs)) items"
  shows "fmlookup items' d =
           (case fmlookup items d of None \<Rightarrow> None | Some x \<Rightarrow> if rd x \<in> set rs then None else Some x)"
    and "key_index rd items' (map_delete_all rs idx)"
proof -
  have gone: "d \<in> set (concat (map (map_slice idx) rs)) \<longleftrightarrow> rd x \<in> set rs"
    if "fmlookup items d = Some x" for d x
    using that key_index_slice[OF ri, of d] by auto
  show look: "fmlookup items' d =
      (case fmlookup items d of None \<Rightarrow> None | Some x \<Rightarrow> if rd x \<in> set rs then None else Some x)" for d
    using gone[of d] by (cases "fmlookup items d") (simp_all add: items'_def)
  have kept: "fmlookup (map_delete_all rs idx) r = Some ds \<Longrightarrow> fmlookup idx r = Some ds \<and> r \<notin> set rs" for r ds
    by (auto split: if_splits)
  show "key_index rd items' (map_delete_all rs idx)"
    unfolding key_index_def
  proof (intro conjI allI impI ballI, goal_cases)
    case (3 r ds d)
    then show ?case using kept[OF 3(1)] key_index_digests(3)[OF ri, of r ds d] look by auto
  next
    case (4 d x)
    then have "fmlookup items d = Some x" "rd x \<notin> set rs"
      using look by (auto split: option.splits if_splits)
    then show ?case using key_index_item[OF ri] by (auto simp: map_slice_def)
  qed (use kept key_index_digests(1,2)[OF ri] in blast)+
qed

lemma key_index_delete:
  assumes ri: "key_index rd items idx"
    and rs: "rs = filter (\<lambda>r. r < rnd) (map_keys idx)"
  shows "fmlookup (map_delete_all (concat (map (map_slice idx) rs)) items) d =
           (case fmlookup items d of None \<Rightarrow> None | Some x \<Rightarrow> if rd x < rnd then None else Some x)"
    and "key_index rd (map_delete_all (concat (map (map_slice idx) rs)) items) (map_delete_all rs idx)"
proof -
  have "rd x \<in> set rs \<longleftrightarrow> rd x < rnd" if "fmlookup items d = Some x" for x
    using that key_index_key[OF ri, of "rd x"] by (auto simp: rs)
  then show "fmlookup (map_delete_all (concat (map (map_slice idx) rs)) items) d =
      (case fmlookup items d of None \<Rightarrow> None | Some x \<Rightarrow> if rd x < rnd then None else Some x)"
    using key_index_drop(1)[OF ri, of rs d] by (cases "fmlookup items d") simp_all
qed (rule key_index_drop(2)[OF ri])

section \<open>The store interfaces\<close>

text \<open>
  What \<^verbatim>\<open>BatchStore\<close> and \<^verbatim>\<open>CertificateStore\<close> promise of their common operations,
  in terms of the items a store holds. \<open>ok\<close> is the store's invariant and says that it is open.
\<close>

locale digest_store =
  fixes contents :: "'s \<Rightarrow> (hash, 'a) fmap"
    and ok :: "'s \<Rightarrow> bool"
    and dig :: "'a \<Rightarrow> hash"
    and rd :: "'a \<Rightarrow> u64"
    and save :: "'a \<Rightarrow> 's \<Rightarrow> 's \<times> err option"
    and get :: "hash \<Rightarrow> 's \<Rightarrow> 'a result"
    and has :: "hash \<Rightarrow> 's \<Rightarrow> bool"
    and by_round :: "u64 \<Rightarrow> 's \<Rightarrow> 'a list result"
    and delete_before :: "u64 \<Rightarrow> 's \<Rightarrow> 's \<times> err option"
  assumes keys: "ok s \<Longrightarrow> fmlookup (contents s) d = Some x \<Longrightarrow> dig x = d"
    and save_ok: "ok s \<Longrightarrow> ok (fst (save x s)) \<and> snd (save x s) = None"
    and save_contents: "ok s \<Longrightarrow> contents (fst (save x s)) =
          (if map_has (contents s) (dig x) then contents s else fmupd (dig x) x (contents s))"
    and get_contents: "ok s \<Longrightarrow> get d s = Inr x \<longleftrightarrow> fmlookup (contents s) d = Some x"
    and has_contents: "ok s \<Longrightarrow> has d s \<longleftrightarrow> map_has (contents s) d"
    and by_round_contents: "ok s \<Longrightarrow> \<exists>xs. by_round r s = Inr xs \<and> distinct (map dig xs) \<and>
          (\<forall>x. x \<in> set xs \<longleftrightarrow> fmlookup (contents s) (dig x) = Some x \<and> rd x = r)"
    and delete_ok: "ok s \<Longrightarrow> ok (fst (delete_before r s)) \<and> snd (delete_before r s) = None"
    and delete_contents: "ok s \<Longrightarrow> fmlookup (contents (fst (delete_before r s))) d =
          (case fmlookup (contents s) d of None \<Rightarrow> None | Some x \<Rightarrow> if rd x < r then None else Some x)"
begin

lemma has_get: "ok s \<Longrightarrow> has d s \<longleftrightarrow> (\<exists>x. get d s = Inr x)"
  by (simp add: has_contents get_contents map_has_def)

lemma get_after_save:
  "ok s \<Longrightarrow> get d (fst (save x s)) = Inr y \<longleftrightarrow>
     get d s = Inr y \<or> d = dig x \<and> y = x \<and> \<not> has (dig x) s"
  using save_ok[of s x] save_contents[of s x]
  by (auto simp: get_contents has_contents map_has_def split: if_splits)

lemma get_after_delete:
  "ok s \<Longrightarrow> get d (fst (delete_before r s)) = Inr y \<longleftrightarrow> get d s = Inr y \<and> \<not> rd y < r"
  using delete_ok[of s r] delete_contents[of s r d]
  by (auto simp: get_contents split: option.splits if_splits)

lemma by_round_get:
  assumes "ok s" and "by_round r s = Inr xs"
  shows "x \<in> set xs \<longleftrightarrow> get (dig x) s = Inr x \<and> rd x = r" and "distinct (map dig xs)"
  using by_round_contents[OF assms(1), of r] assms(2) by (auto simp: get_contents[OF assms(1)])

lemma by_round_after_delete:
  assumes "ok s" and "r' < r"
  shows "by_round r' (fst (delete_before r s)) = Inr []"
proof -
  have ok: "ok (fst (delete_before r s))" using delete_ok assms(1) by blast
  then obtain xs where xs: "by_round r' (fst (delete_before r s)) = Inr xs"
    using by_round_contents by blast
  have "x \<notin> set xs" for x
    using by_round_get(1)[OF ok xs] get_after_delete[OF assms(1)] assms(2) by auto
  then have "xs = []" by (cases xs) auto
  then show ?thesis using xs by simp
qed

text \<open>A sequence of saves keeps every item and the first of each digest.\<close>

lemma saves_ok: "ok s \<Longrightarrow> ok (fold (\<lambda>x s. fst (save x s)) xs s)"
  by (induction xs arbitrary: s) (simp_all add: save_ok)

lemma get_after_saves:
  "ok s \<Longrightarrow> get d s = Inr y \<Longrightarrow> get d (fold (\<lambda>x s. fst (save x s)) xs s) = Inr y"
  by (induction xs arbitrary: s) (simp_all add: save_ok get_after_save)

lemma has_after_saves:
  "ok s \<Longrightarrow> has d (fold (\<lambda>x s. fst (save x s)) xs s) \<longleftrightarrow> has d s \<or> d \<in> dig ` set xs"
proof (induction xs arbitrary: s)
  case (Cons x xs)
  have "has d (fst (save x s)) \<longleftrightarrow> has d s \<or> d = dig x"
    using Cons.prems save_ok[of s x] save_contents[of s x] by (auto simp: has_contents)
  then show ?case using Cons save_ok by auto
qed simp

end

text \<open>The certificate store has two more reads.\<close>

locale cert_store = digest_store contents ok dig rd save get has by_round delete_before
  for contents :: "'s \<Rightarrow> (hash, 'a) fmap" and ok dig rd save get has by_round delete_before +
  fixes author :: "'a \<Rightarrow> u16"
    and for_validator :: "u64 \<Rightarrow> u16 \<Rightarrow> 's \<Rightarrow> 'a result"
    and highest :: "'s \<Rightarrow> u64"
  assumes for_validator_sound: "ok s \<Longrightarrow> for_validator r i s = Inr x \<Longrightarrow>
          fmlookup (contents s) (dig x) = Some x \<and> rd x = r \<and> author x = i"
    and for_validator_complete: "ok s \<Longrightarrow> fmlookup (contents s) d = Some x \<Longrightarrow>
          \<exists>y. for_validator (rd x) (author x) s = Inr y"
    and highest_upper: "ok s \<Longrightarrow> fmlookup (contents s) d = Some x \<Longrightarrow> rd x \<le> highest s"
    and highest_attained: "ok s \<Longrightarrow> highest s = 0 \<or> (\<exists>d x. fmlookup (contents s) d = Some x \<and> rd x = highest s)"
begin

lemma for_validator_unique:
  assumes "ok s" and "get d s = Inr x"
    and "\<And>e y. get e s = Inr y \<Longrightarrow> rd y = rd x \<Longrightarrow> author y = author x \<Longrightarrow> y = x"
  shows "for_validator (rd x) (author x) s = Inr x"
proof -
  obtain y where y: "for_validator (rd x) (author x) s = Inr y"
    using for_validator_complete assms(1,2) get_contents by blast
  then show ?thesis
    using for_validator_sound[OF assms(1) y] assms(3) get_contents[OF assms(1)] by auto
qed

lemma highest_after_delete:
  assumes "ok s" and "highest (fst (delete_before r s)) \<noteq> 0"
  shows "r \<le> highest (fst (delete_before r s)) \<and> highest (fst (delete_before r s)) \<le> highest s"
proof -
  have ok: "ok (fst (delete_before r s))" using delete_ok assms(1) by blast
  obtain d x where x: "fmlookup (contents (fst (delete_before r s))) d = Some x"
      "rd x = highest (fst (delete_before r s))"
    using highest_attained[OF ok] assms(2) by blast
  then have "fmlookup (contents s) d = Some x" "\<not> rd x < r"
    using delete_contents[OF assms(1), of r d] by (auto split: option.splits if_splits)
  then show ?thesis using highest_upper[OF assms(1)] x(2) by force
qed

end

section \<open>The memory stores implement them\<close>

definition mbs_ok :: "MemoryBatchStore \<Rightarrow> bool" where
  "mbs_ok s \<longleftrightarrow> \<not> mbs_closed s \<and> key_index b_Round (mbs_batches s) (mbs_byRound s) \<and>
     (\<forall>d b. fmlookup (mbs_batches s) d = Some b \<longrightarrow> b_Digest b = d)"

lemma NewMemoryBatchStore_ok [simp]: "mbs_ok NewMemoryBatchStore"
  by (simp add: mbs_ok_def NewMemoryBatchStore_def)

lemma mbs_delete_loop:
  "fold (\<lambda>r s. s\<lparr>mbs_batches := map_delete_all (map_slice (mbs_byRound s) r) (mbs_batches s),
                 mbs_byRound := fmdrop r (mbs_byRound s)\<rparr>) rs s =
   (let (items, idx) = fold (\<lambda>r (items, idx). (map_delete_all (map_slice idx r) items, fmdrop r idx)) rs
                         (mbs_batches s, mbs_byRound s)
    in s\<lparr>mbs_batches := items, mbs_byRound := idx\<rparr>)"
  by (induction rs arbitrary: s) (simp_all add: Let_def case_prod_beta)

lemma MemoryBatchStore_Delete_eq:
  "\<not> mbs_closed s \<Longrightarrow> rs = filter (\<lambda>r. r < rnd) (map_keys (mbs_byRound s)) \<Longrightarrow>
   MemoryBatchStore_DeleteBatchesBefore rnd s =
     (s\<lparr>mbs_batches := map_delete_all (concat (map (map_slice (mbs_byRound s)) rs)) (mbs_batches s),
        mbs_byRound := map_delete_all rs (mbs_byRound s)\<rparr>, None)"
  by (simp add: MemoryBatchStore_DeleteBatchesBefore_def mbs_delete_loop fold_drop_rounds Let_def)

lemma map_values_by_round:
  assumes ri: "key_index rd items idx" and keys: "\<And>d x. fmlookup items d = Some x \<Longrightarrow> dig x = d"
    and ds: "fmlookup idx r = Some ds"
  shows "distinct (map dig (map_values ds items)) \<and>
     (\<forall>x. x \<in> set (map_values ds items) \<longleftrightarrow> fmlookup items (dig x) = Some x \<and> rd x = r)"
proof
  show "distinct (map dig (map_values ds items))"
    using keys key_index_digests(2)[OF ri ds] by (rule distinct_map_values_key)
  show "\<forall>x. x \<in> set (map_values ds items) \<longleftrightarrow> fmlookup items (dig x) = Some x \<and> rd x = r"
    using key_index_digests(3)[OF ri ds] key_index_item[OF ri] ds keys
    by (fastforce simp: set_map_values)
qed

interpretation mbs: digest_store mbs_batches mbs_ok b_Digest b_Round
  MemoryBatchStore_SaveBatch MemoryBatchStore_GetBatch MemoryBatchStore_HasBatch
  MemoryBatchStore_GetBatchesByRound MemoryBatchStore_DeleteBatchesBefore
proof (unfold_locales, goal_cases)
  case (2 s x)
  then show ?case
    using key_index_insert[of b_Round "mbs_batches s" "mbs_byRound s" "b_Digest x" x]
    by (auto simp: mbs_ok_def MemoryBatchStore_SaveBatch_def map_has_def)
next
  case (6 s r)
  then show ?case
    using map_values_by_round[of b_Round "mbs_batches s" "mbs_byRound s" b_Digest r]
      key_index_key[of b_Round "mbs_batches s" "mbs_byRound s" r]
    by (auto simp: mbs_ok_def MemoryBatchStore_GetBatchesByRound_def map_has_def split: option.splits)
next
  case (7 s r)
  then show ?case
    using key_index_delete[of b_Round "mbs_batches s" "mbs_byRound s" _ r]
    by (auto simp: mbs_ok_def MemoryBatchStore_Delete_eq split: option.splits if_splits)
next
  case (8 s r d)
  then show ?case
    using key_index_delete(1)[of b_Round "mbs_batches s" "mbs_byRound s" _ r d]
    by (simp add: mbs_ok_def MemoryBatchStore_Delete_eq)
qed (auto simp: mbs_ok_def MemoryBatchStore_SaveBatch_def MemoryBatchStore_GetBatch_def
      MemoryBatchStore_HasBatch_def split: option.splits)

definition author_index :: "(hash, Certificate) fmap \<Rightarrow> (u64, (u16, hash) fmap) fmap \<Rightarrow> bool" where
  "author_index certs idx \<longleftrightarrow>
     (\<forall>r i d. fmlookup (map_submap idx r) i = Some d \<longrightarrow>
        (\<exists>c. fmlookup certs d = Some c \<and> Certificate_Round c = r \<and> Certificate_Author c = i)) \<and>
     (\<forall>d c. fmlookup certs d = Some c \<longrightarrow>
        map_has (map_submap idx (Certificate_Round c)) (Certificate_Author c))"

lemma author_index_empty [simp]: "author_index fmempty fmempty"
  by (simp add: author_index_def)

lemma author_indexD1:
  "author_index certs idx \<Longrightarrow> fmlookup (map_submap idx r) i = Some d \<Longrightarrow>
     \<exists>c. fmlookup certs d = Some c \<and> Certificate_Round c = r \<and> Certificate_Author c = i"
  unfolding author_index_def by blast

lemma author_indexD2:
  "author_index certs idx \<Longrightarrow> fmlookup certs d = Some c \<Longrightarrow>
     map_has (map_submap idx (Certificate_Round c)) (Certificate_Author c)"
  unfolding author_index_def by blast

lemma author_index_insert:
  assumes ai: "author_index certs idx" and new: "fmlookup certs d = None"
  shows "author_index (fmupd d c certs) (fmupd (Certificate_Round c)
           (fmupd (Certificate_Author c) d (map_submap idx (Certificate_Round c))) idx)"
  unfolding author_index_def
proof (intro conjI allI impI, goal_cases)
  case (1 r i e)
  then have "r = Certificate_Round c \<and> i = Certificate_Author c \<and> e = d \<or>
      fmlookup (map_submap idx r) i = Some e"
    by (auto split: if_splits)
  then show ?case using author_indexD1[OF ai, of r i e] new by auto
next
  case (2 e c')
  then show ?case using author_indexD2[OF ai, of e c'] by (auto split: if_splits)
qed

lemma author_index_drop:
  assumes ai: "author_index certs idx"
    and look: "\<And>d. fmlookup certs' d = (case fmlookup certs d of None \<Rightarrow> None
        | Some x \<Rightarrow> if Certificate_Round x \<in> set rs then None else Some x)"
  shows "author_index certs' (map_delete_all rs idx)"
proof -
  have sub: "map_submap (map_delete_all rs idx) r = (if r \<in> set rs then fmempty else map_submap idx r)" for r
    by (simp add: map_submap_def)
  show ?thesis unfolding author_index_def
  proof (intro conjI allI impI, goal_cases)
    case (1 r i d)
    then have "r \<notin> set rs" "fmlookup (map_submap idx r) i = Some d" by (auto simp: sub split: if_splits)
    then show ?case using author_indexD1[OF ai, of r i d] look[of d] by auto
  next
    case (2 d c)
    then have "fmlookup certs d = Some c" "Certificate_Round c \<notin> set rs"
      using look[of d] by (auto split: option.splits if_splits)
    then show ?case using author_indexD2[OF ai, of d c] by (simp add: sub)
  qed
qed

definition mcs_ok :: "MemoryCertificateStore \<Rightarrow> bool" where
  "mcs_ok s \<longleftrightarrow> \<not> mcs_closed s \<and> key_index Certificate_Round (mcs_certs s) (mcs_byRound s) \<and>
     (\<forall>d c. fmlookup (mcs_certs s) d = Some c \<longrightarrow> Certificate_Digest c = d) \<and>
     author_index (mcs_certs s) (mcs_byValidator s)"

lemma NewMemoryCertificateStore_ok [simp]: "mcs_ok NewMemoryCertificateStore"
  by (simp add: mcs_ok_def NewMemoryCertificateStore_def)

lemma mcs_delete_loop:
  "fold (\<lambda>r s. s\<lparr>mcs_certs := map_delete_all (map_slice (mcs_byRound s) r) (mcs_certs s),
                 mcs_byRound := fmdrop r (mcs_byRound s),
                 mcs_byValidator := fmdrop r (mcs_byValidator s)\<rparr>) rs s =
   (let (items, idx) = fold (\<lambda>r (items, idx). (map_delete_all (map_slice idx r) items, fmdrop r idx)) rs
                         (mcs_certs s, mcs_byRound s)
    in s\<lparr>mcs_certs := items, mcs_byRound := idx,
         mcs_byValidator := map_delete_all rs (mcs_byValidator s)\<rparr>)"
  by (induction rs arbitrary: s) (simp_all add: Let_def case_prod_beta)

lemma MemoryCertificateStore_Delete_eq:
  "\<not> mcs_closed s \<Longrightarrow> rs = filter (\<lambda>r. r < rnd) (map_keys (mcs_byRound s)) \<Longrightarrow>
   MemoryCertificateStore_DeleteCertificatesBefore rnd s =
     (s\<lparr>mcs_certs := map_delete_all (concat (map (map_slice (mcs_byRound s)) rs)) (mcs_certs s),
        mcs_byRound := map_delete_all rs (mcs_byRound s),
        mcs_byValidator := map_delete_all rs (mcs_byValidator s)\<rparr>, None)"
  by (simp add: MemoryCertificateStore_DeleteCertificatesBefore_def mcs_delete_loop fold_drop_rounds Let_def)



lemma fold_max_ge_init:
  fixes a :: "'a::linorder"
  shows "a \<le> fold (\<lambda>r h. if r > h then r else h) xs a"
proof (induction xs arbitrary: a)
  case (Cons y ys)
  have "a \<le> (if y > a then y else a)" by auto
  also have "\<dots> \<le> fold (\<lambda>r h. if r > h then r else h) ys (if y > a then y else a)" by (rule Cons.IH)
  finally show ?case by (simp only: fold_simps)
qed simp

lemma fold_max_upper:
  fixes a :: "'a::linorder"
  shows "x \<in> set xs \<Longrightarrow> x \<le> fold (\<lambda>r h. if r > h then r else h) xs a"
proof (induction xs arbitrary: a)
  case (Cons y ys)
  have "y \<le> (if y > a then y else a)" by auto
  also have "\<dots> \<le> fold (\<lambda>r h. if r > h then r else h) ys (if y > a then y else a)"
    by (rule fold_max_ge_init)
  finally show ?case
    using Cons by (auto simp only: fold_simps set_simps insert_iff)
qed simp

lemma fold_max_attained:
  fixes a :: "'a::linorder"
  shows "fold (\<lambda>r h. if r > h then r else h) xs a \<in> insert a (set xs)"
  by (induction xs arbitrary: a) (auto split: if_splits)

lemma mcs_save_ok:
  assumes "mcs_ok s"
  shows "mcs_ok (fst (MemoryCertificateStore_SaveCertificate c s))"
proof (cases "map_has (mcs_certs s) (Certificate_Digest c)")
  case True
  then show ?thesis
    using assms by (simp add: MemoryCertificateStore_SaveCertificate_def Let_def)
next
  case False
  then have new: "fmlookup (mcs_certs s) (Certificate_Digest c) = None" by (simp add: map_has_def)
  have ri: "key_index Certificate_Round (mcs_certs s) (mcs_byRound s)"
    using assms by (simp add: mcs_ok_def)
  show ?thesis
    using assms False key_index_insert[OF ri new, of c] author_index_insert[OF _ new, of "mcs_byValidator s" c]
    unfolding mcs_ok_def MemoryCertificateStore_SaveCertificate_def Let_def
    by (auto split: if_splits)
qed

lemma mcs_delete_ok:
  assumes "mcs_ok s"
  shows "mcs_ok (fst (MemoryCertificateStore_DeleteCertificatesBefore r s))"
proof -
  define rs where "rs = filter (\<lambda>x. x < r) (map_keys (mcs_byRound s))"
  have ri: "key_index Certificate_Round (mcs_certs s) (mcs_byRound s)" and op: "\<not> mcs_closed s"
    using assms by (simp_all add: mcs_ok_def)
  let ?items = "map_delete_all (concat (map (map_slice (mcs_byRound s)) rs)) (mcs_certs s)"
  have look: "fmlookup ?items d = (case fmlookup (mcs_certs s) d of None \<Rightarrow> None
      | Some x \<Rightarrow> if Certificate_Round x \<in> set rs then None else Some x)" for d
    by (rule key_index_drop(1)[OF ri])
  have keys: "fmlookup ?items d = Some c \<Longrightarrow> Certificate_Digest c = d" for d c
    using assms look[of d] by (auto simp: mcs_ok_def split: option.splits if_splits simp del: fmlookup_map_delete_all)
  have "mcs_ok (s\<lparr>mcs_certs := ?items, mcs_byRound := map_delete_all rs (mcs_byRound s),
      mcs_byValidator := map_delete_all rs (mcs_byValidator s)\<rparr>)"
    using assms key_index_drop(2)[OF ri, of rs] author_index_drop[OF _ look] keys
    unfolding mcs_ok_def by (simp del: fmlookup_map_delete_all)
  then show ?thesis using MemoryCertificateStore_Delete_eq[OF op rs_def] by simp
qed

lemma mcs_by_round:
  assumes "mcs_ok s"
  shows "\<exists>xs. MemoryCertificateStore_GetCertificatesByRound r s = Inr xs \<and>
     distinct (map Certificate_Digest xs) \<and>
     (\<forall>x. x \<in> set xs \<longleftrightarrow> fmlookup (mcs_certs s) (Certificate_Digest x) = Some x \<and> Certificate_Round x = r)"
proof -
  have ri: "key_index Certificate_Round (mcs_certs s) (mcs_byRound s)" and op: "\<not> mcs_closed s"
    and keys: "\<And>d x. fmlookup (mcs_certs s) d = Some x \<Longrightarrow> Certificate_Digest x = d"
    using assms by (simp_all add: mcs_ok_def)
  show ?thesis
  proof (cases "fmlookup (mcs_byRound s) r")
    case None
    then have "\<not> map_has (mcs_byRound s) r" by (simp add: map_has_def)
    then show ?thesis
      using key_index_key[OF ri, of r] op None
      by (auto simp: MemoryCertificateStore_GetCertificatesByRound_def)
  next
    case (Some ds)
    then show ?thesis
      using map_values_by_round[OF ri keys Some] op
      by (auto simp: MemoryCertificateStore_GetCertificatesByRound_def)
  qed
qed

lemma mcs_for_validator_sound:
  assumes "mcs_ok s" and "MemoryCertificateStore_GetCertificateForValidator r i s = Inr x"
  shows "fmlookup (mcs_certs s) (Certificate_Digest x) = Some x \<and> Certificate_Round x = r \<and>
         Certificate_Author x = i"
proof -
  obtain m d where m: "fmlookup (mcs_byValidator s) r = Some m" "fmlookup m i = Some d"
      and d: "fmlookup (mcs_certs s) d = Some x"
    using assms(2)
    by (auto simp: MemoryCertificateStore_GetCertificateForValidator_def split: option.splits if_splits)
  have "fmlookup (map_submap (mcs_byValidator s) r) i = Some d" using m by simp
  then obtain c where "fmlookup (mcs_certs s) d = Some c" "Certificate_Round c = r" "Certificate_Author c = i"
    using assms(1) author_indexD1 unfolding mcs_ok_def by blast
  then show ?thesis using d assms(1) by (simp add: mcs_ok_def)
qed

lemma mcs_for_validator_complete:
  assumes "mcs_ok s" and "fmlookup (mcs_certs s) d = Some x"
  shows "\<exists>y. MemoryCertificateStore_GetCertificateForValidator (Certificate_Round x) (Certificate_Author x) s = Inr y"
proof -
  have ai: "author_index (mcs_certs s) (mcs_byValidator s)" using assms(1) by (simp add: mcs_ok_def)
  have "map_has (map_submap (mcs_byValidator s) (Certificate_Round x)) (Certificate_Author x)"
    using author_indexD2[OF ai assms(2)] .
  then obtain m e where m: "fmlookup (mcs_byValidator s) (Certificate_Round x) = Some m"
      "fmlookup m (Certificate_Author x) = Some e"
    by (cases "fmlookup (mcs_byValidator s) (Certificate_Round x)") (auto simp: map_has_def map_submap_def)
  then have "fmlookup (map_submap (mcs_byValidator s) (Certificate_Round x)) (Certificate_Author x) = Some e"
    by simp
  then obtain y where "fmlookup (mcs_certs s) e = Some y"
    using author_indexD1[OF ai] by blast
  then show ?thesis
    using m assms(1) by (simp add: mcs_ok_def MemoryCertificateStore_GetCertificateForValidator_def)
qed

lemma mcs_highest:
  assumes "mcs_ok s"
  shows "fmlookup (mcs_certs s) d = Some x \<Longrightarrow> Certificate_Round x \<le> MemoryCertificateStore_HighestRound s"
    and "MemoryCertificateStore_HighestRound s = 0 \<or>
      (\<exists>d x. fmlookup (mcs_certs s) d = Some x \<and> Certificate_Round x = MemoryCertificateStore_HighestRound s)"
proof -
  have key: "map_has (mcs_byRound s) r \<longleftrightarrow> (\<exists>d x. fmlookup (mcs_certs s) d = Some x \<and> Certificate_Round x = r)" for r
    using assms key_index_key[of Certificate_Round "mcs_certs s" "mcs_byRound s" r] by (simp add: mcs_ok_def)
  show "Certificate_Round x \<le> MemoryCertificateStore_HighestRound s" if "fmlookup (mcs_certs s) d = Some x"
    unfolding MemoryCertificateStore_HighestRound_def
    using that key by (intro fold_max_upper) auto
  show "MemoryCertificateStore_HighestRound s = 0 \<or>
      (\<exists>d x. fmlookup (mcs_certs s) d = Some x \<and> Certificate_Round x = MemoryCertificateStore_HighestRound s)"
    using fold_max_attained[of "map_keys (mcs_byRound s)" 0] key
    unfolding MemoryCertificateStore_HighestRound_def by (simp del: fold_simps)
qed

lemma mcs_save_snd: "mcs_ok s \<Longrightarrow> snd (MemoryCertificateStore_SaveCertificate x s) = None"
  by (simp add: mcs_ok_def MemoryCertificateStore_SaveCertificate_def Let_def)

lemma mcs_save_contents:
  "mcs_ok s \<Longrightarrow> mcs_certs (fst (MemoryCertificateStore_SaveCertificate x s)) =
     (if map_has (mcs_certs s) (Certificate_Digest x) then mcs_certs s
      else fmupd (Certificate_Digest x) x (mcs_certs s))"
  by (simp add: mcs_ok_def MemoryCertificateStore_SaveCertificate_def Let_def)

lemma mcs_delete_snd: "mcs_ok s \<Longrightarrow> snd (MemoryCertificateStore_DeleteCertificatesBefore r s) = None"
  by (simp add: mcs_ok_def MemoryCertificateStore_DeleteCertificatesBefore_def Let_def)

lemma mcs_delete_contents:
  "mcs_ok s \<Longrightarrow> fmlookup (mcs_certs (fst (MemoryCertificateStore_DeleteCertificatesBefore r s))) d =
     (case fmlookup (mcs_certs s) d of None \<Rightarrow> None
      | Some x \<Rightarrow> if Certificate_Round x < r then None else Some x)"
  using key_index_delete(1)[of Certificate_Round "mcs_certs s" "mcs_byRound s" _ r d]
  by (simp add: mcs_ok_def MemoryCertificateStore_Delete_eq del: fmlookup_map_delete_all)

interpretation mcs: cert_store mcs_certs mcs_ok Certificate_Digest Certificate_Round
  MemoryCertificateStore_SaveCertificate MemoryCertificateStore_GetCertificate
  MemoryCertificateStore_HasCertificate MemoryCertificateStore_GetCertificatesByRound
  MemoryCertificateStore_DeleteCertificatesBefore
  Certificate_Author MemoryCertificateStore_GetCertificateForValidator MemoryCertificateStore_HighestRound
  by (unfold_locales; (rule mcs_save_contents mcs_by_round mcs_delete_contents mcs_for_validator_sound
        mcs_for_validator_complete mcs_highest conjI[OF mcs_save_ok mcs_save_snd]
        conjI[OF mcs_delete_ok mcs_delete_snd])?)
     (simp_all add: mcs_ok_def MemoryCertificateStore_GetCertificate_def
        MemoryCertificateStore_HasCertificate_def split: option.splits)

section \<open>The transaction index\<close>

text \<open>
  The contract of \<^verbatim>\<open>TxIndex\<close>: \<open>assigned\<close> gives the batch of a transaction and
  \<open>rounds\<close> the round under which a batch was indexed.
\<close>

locale tx_index =
  fixes assigned :: "'s \<Rightarrow> (hash, hash) fmap"
    and rounds :: "'s \<Rightarrow> (hash, u64) fmap"
    and ok :: "'s \<Rightarrow> bool"
    and txs_of :: "'b \<Rightarrow> hash set"
    and dig :: "'b \<Rightarrow> hash"
    and rd :: "'b \<Rightarrow> u64"
    and add_batch :: "'b \<Rightarrow> 's \<Rightarrow> 's \<times> err option"
    and has :: "hash \<Rightarrow> 's \<Rightarrow> bool"
    and batch_for :: "hash \<Rightarrow> 's \<Rightarrow> hash result"
    and remove :: "hash \<Rightarrow> 's \<Rightarrow> 's \<times> err option"
    and prune :: "u64 \<Rightarrow> 's \<Rightarrow> 's \<times> nat result"
  assumes add_ok: "ok s \<Longrightarrow> ok (fst (add_batch b s)) \<and> snd (add_batch b s) = None"
    and add_assigned: "ok s \<Longrightarrow> fmlookup (assigned (fst (add_batch b s))) t =
          (case fmlookup (assigned s) t of Some e \<Rightarrow> Some e
           | None \<Rightarrow> if t \<in> txs_of b then Some (dig b) else None)"
    and add_rounds: "ok s \<Longrightarrow> rounds (fst (add_batch b s)) = fmupd (dig b) (rd b) (rounds s)"
    and has_assigned: "ok s \<Longrightarrow> has t s \<longleftrightarrow> map_has (assigned s) t"
    and batch_for_assigned: "ok s \<Longrightarrow> batch_for t s = Inr e \<longleftrightarrow> fmlookup (assigned s) t = Some e"
    and remove_ok: "ok s \<Longrightarrow> ok (fst (remove e s)) \<and> snd (remove e s) = None"
    and remove_assigned: "ok s \<Longrightarrow> fmlookup (assigned (fst (remove e s))) t =
          (if fmlookup (assigned s) t = Some e then None else fmlookup (assigned s) t)"
    and prune_ok: "ok s \<Longrightarrow> ok (fst (prune r s))"
    and prune_assigned: "ok s \<Longrightarrow> fmlookup (assigned (fst (prune r s))) t =
          (case fmlookup (assigned s) t of None \<Rightarrow> None
           | Some e \<Rightarrow> (case fmlookup (rounds s) e of None \<Rightarrow> Some e
               | Some q \<Rightarrow> if q < r then None else Some e))"
    and prune_rounds: "ok s \<Longrightarrow> fmlookup (rounds (fst (prune r s))) e =
          (case fmlookup (rounds s) e of None \<Rightarrow> None | Some q \<Rightarrow> if q < r then None else Some q)"
begin

lemma batch_found_after_add: "ok s \<Longrightarrow> t \<in> txs_of b \<Longrightarrow> has t (fst (add_batch b s))"
  using add_ok[of s b] by (auto simp: has_assigned map_has_def add_assigned split: option.split)

lemma first_batch_wins:
  "ok s \<Longrightarrow> batch_for t s = Inr e \<Longrightarrow> batch_for t (fst (add_batch b s)) = Inr e"
  using add_ok[of s b] by (simp add: batch_for_assigned add_assigned)

lemma not_found_after_remove:
  "ok s \<Longrightarrow> batch_for t s = Inr e \<Longrightarrow> \<not> has t (fst (remove e s))"
  using remove_ok[of s e] by (simp add: batch_for_assigned has_assigned map_has_def remove_assigned)

text \<open>Once a batch is pruned, its transactions can be indexed under another batch.\<close>

lemma reindex_after_prune:
  assumes "ok s" and "batch_for t s = Inr e" and "fmlookup (rounds s) e = Some q" and "q < r"
    and "t \<in> txs_of b"
  shows "batch_for t (fst (add_batch b (fst (prune r s)))) = Inr (dig b)"
proof -
  have ok: "ok (fst (prune r s))" using prune_ok assms(1) by blast
  then have "ok (fst (add_batch b (fst (prune r s))))" using add_ok by blast
  then show ?thesis
    using assms ok by (simp add: batch_for_assigned add_assigned prune_assigned)
qed

end

definition mti_ok :: "MemoryTxIndex \<Rightarrow> bool" where
  "mti_ok idx \<longleftrightarrow> \<not> mti_closed idx \<and> key_index id (mti_txToBatch idx) (mti_batchToTxs idx)"

lemma NewMemoryTxIndex_ok [simp]: "mti_ok NewMemoryTxIndex"
  by (simp add: mti_ok_def NewMemoryTxIndex_def)

lemma AddBatch_tx_step:
  assumes "mti_ok idx"
  shows "mti_ok (MemoryTxIndex_AddBatch_tx b t idx)"
    and "fmlookup (mti_txToBatch (MemoryTxIndex_AddBatch_tx b t idx)) u =
          (case fmlookup (mti_txToBatch idx) u of Some e \<Rightarrow> Some e
           | None \<Rightarrow> if u = t then Some b else None)"
    and "mti_batchRounds (MemoryTxIndex_AddBatch_tx b t idx) = mti_batchRounds idx"
  using assms key_index_insert[of id "mti_txToBatch idx" "mti_batchToTxs idx" t b]
  by (auto simp: mti_ok_def MemoryTxIndex_AddBatch_tx_def split: option.splits)

lemma AddBatch_loop:
  assumes "mti_ok idx"
  shows "mti_ok (fold (\<lambda>tx. MemoryTxIndex_AddBatch_tx b (h tx)) txs idx)"
    and "fmlookup (mti_txToBatch (fold (\<lambda>tx. MemoryTxIndex_AddBatch_tx b (h tx)) txs idx)) t =
          (case fmlookup (mti_txToBatch idx) t of Some e \<Rightarrow> Some e
           | None \<Rightarrow> if t \<in> h ` set txs then Some b else None)"
    and "mti_batchRounds (fold (\<lambda>tx. MemoryTxIndex_AddBatch_tx b (h tx)) txs idx) = mti_batchRounds idx"
  using assms
  by (induction txs arbitrary: idx) (simp_all add: AddBatch_tx_step split: option.splits)

lemma mti_remove_batch:
  assumes "mti_ok idx"
  shows "MemoryTxIndex_RemoveTxsForBatch e idx =
           (idx\<lparr>mti_txToBatch := map_delete_all (map_slice (mti_batchToTxs idx) e) (mti_txToBatch idx),
                mti_batchToTxs := fmdrop e (mti_batchToTxs idx)\<rparr>, None)"
    and "MemoryTxIndex_prune_batch e idx =
           idx\<lparr>mti_txToBatch := map_delete_all (map_slice (mti_batchToTxs idx) e) (mti_txToBatch idx),
               mti_batchToTxs := fmdrop e (mti_batchToTxs idx),
               mti_batchRounds := fmdrop e (mti_batchRounds idx)\<rparr>"
proof -
  have "fmdrop e m = m" if "fmlookup m e = None" for m :: "(hash, hash list) fmap"
    using that by (intro fmap_eqI) auto
  then show "MemoryTxIndex_RemoveTxsForBatch e idx =
           (idx\<lparr>mti_txToBatch := map_delete_all (map_slice (mti_batchToTxs idx) e) (mti_txToBatch idx),
                mti_batchToTxs := fmdrop e (mti_batchToTxs idx)\<rparr>, None)"
    and "MemoryTxIndex_prune_batch e idx =
           idx\<lparr>mti_txToBatch := map_delete_all (map_slice (mti_batchToTxs idx) e) (mti_txToBatch idx),
               mti_batchToTxs := fmdrop e (mti_batchToTxs idx),
               mti_batchRounds := fmdrop e (mti_batchRounds idx)\<rparr>"
    using assms
    by (auto simp: mti_ok_def MemoryTxIndex_RemoveTxsForBatch_def MemoryTxIndex_prune_batch_def
        map_slice_def split: option.splits)
qed

lemma mti_remove_ok:
  assumes "mti_ok idx"
  shows "mti_ok (fst (MemoryTxIndex_RemoveTxsForBatch e idx))"
    and "fmlookup (mti_txToBatch (fst (MemoryTxIndex_RemoveTxsForBatch e idx))) t =
          (if fmlookup (mti_txToBatch idx) t = Some e then None else fmlookup (mti_txToBatch idx) t)"
  using assms key_index_drop[of id "mti_txToBatch idx" "mti_batchToTxs idx" "[e]"]
  by (auto simp: mti_remove_batch mti_ok_def simp del: fmlookup_map_delete_all split: option.splits)

lemma mti_prune_loop:
  assumes "mti_ok idx"
  shows "mti_ok (fold MemoryTxIndex_prune_batch es idx)"
    and "fmlookup (mti_txToBatch (fold MemoryTxIndex_prune_batch es idx)) t =
          (case fmlookup (mti_txToBatch idx) t of None \<Rightarrow> None
           | Some e \<Rightarrow> if e \<in> set es then None else Some e)"
    and "mti_batchRounds (fold MemoryTxIndex_prune_batch es idx) = map_delete_all es (mti_batchRounds idx)"
proof -
  have step: "mti_ok (MemoryTxIndex_prune_batch e idx)"
    "fmlookup (mti_txToBatch (MemoryTxIndex_prune_batch e idx)) t =
       (if fmlookup (mti_txToBatch idx) t = Some e then None else fmlookup (mti_txToBatch idx) t)"
    "mti_batchRounds (MemoryTxIndex_prune_batch e idx) = fmdrop e (mti_batchRounds idx)"
    if "mti_ok idx" for e idx
    using that mti_remove_ok[OF that, of e] by (simp_all add: mti_remove_batch mti_ok_def)
  have "mti_ok (fold MemoryTxIndex_prune_batch es idx) \<and>
    fmlookup (mti_txToBatch (fold MemoryTxIndex_prune_batch es idx)) t =
          (case fmlookup (mti_txToBatch idx) t of None \<Rightarrow> None
           | Some e \<Rightarrow> if e \<in> set es then None else Some e) \<and>
    mti_batchRounds (fold MemoryTxIndex_prune_batch es idx) = map_delete_all es (mti_batchRounds idx)"
    using assms by (induction es arbitrary: idx) (auto simp: step split: option.splits)
  then show "mti_ok (fold MemoryTxIndex_prune_batch es idx)"
    and "fmlookup (mti_txToBatch (fold MemoryTxIndex_prune_batch es idx)) t =
          (case fmlookup (mti_txToBatch idx) t of None \<Rightarrow> None
           | Some e \<Rightarrow> if e \<in> set es then None else Some e)"
    and "mti_batchRounds (fold MemoryTxIndex_prune_batch es idx) = map_delete_all es (mti_batchRounds idx)"
    by blast+
qed

lemma mti_prune_ok:
  assumes "mti_ok idx"
  shows "mti_ok (fst (MemoryTxIndex_PruneOlderThan r idx))"
    and "fmlookup (mti_txToBatch (fst (MemoryTxIndex_PruneOlderThan r idx))) t =
          (case fmlookup (mti_txToBatch idx) t of None \<Rightarrow> None
           | Some e \<Rightarrow> (case fmlookup (mti_batchRounds idx) e of None \<Rightarrow> Some e
               | Some q \<Rightarrow> if q < r then None else Some e))"
    and "fmlookup (mti_batchRounds (fst (MemoryTxIndex_PruneOlderThan r idx))) e =
          (case fmlookup (mti_batchRounds idx) e of None \<Rightarrow> None | Some q \<Rightarrow> if q < r then None else Some q)"
proof -
  have "\<not> mti_closed idx" using assms by (simp add: mti_ok_def)
  then show "mti_ok (fst (MemoryTxIndex_PruneOlderThan r idx))"
    and "fmlookup (mti_txToBatch (fst (MemoryTxIndex_PruneOlderThan r idx))) t =
          (case fmlookup (mti_txToBatch idx) t of None \<Rightarrow> None
           | Some e \<Rightarrow> (case fmlookup (mti_batchRounds idx) e of None \<Rightarrow> Some e
               | Some q \<Rightarrow> if q < r then None else Some e))"
    and "fmlookup (mti_batchRounds (fst (MemoryTxIndex_PruneOlderThan r idx))) e =
          (case fmlookup (mti_batchRounds idx) e of None \<Rightarrow> None | Some q \<Rightarrow> if q < r then None else Some q)"
    using assms
    by (auto simp: MemoryTxIndex_PruneOlderThan_def Let_def mti_prune_loop map_has_def split: option.splits)
qed

interpretation mti: tx_index mti_txToBatch mti_batchRounds mti_ok
  "\<lambda>b. Transaction_Hash C ` set (b_Transactions b)" b_Digest b_Round
  "MemoryTxIndex_AddBatch C" MemoryTxIndex_HasTx MemoryTxIndex_GetBatchForTx
  MemoryTxIndex_RemoveTxsForBatch MemoryTxIndex_PruneOlderThan
  for C
proof (unfold_locales, goal_cases)
  case (1 s b)
  then show ?case by (simp add: MemoryTxIndex_AddBatch_def mti_ok_def AddBatch_loop[unfolded mti_ok_def])
next
  case (2 s b t)
  then show ?case by (simp add: MemoryTxIndex_AddBatch_def AddBatch_loop mti_ok_def)
next
  case (3 s b)
  then show ?case by (simp add: MemoryTxIndex_AddBatch_def AddBatch_loop mti_ok_def)
next
  case (6 s e)
  then show ?case using mti_remove_ok(1)[of s e] by (simp add: mti_remove_batch)
next
  case (7 s e t)
  then show ?case by (rule mti_remove_ok(2))
next
  case (8 s r)
  then show ?case by (rule mti_prune_ok(1))
next
  case (9 s r t)
  then show ?case by (rule mti_prune_ok(2))
next
  case (10 s r e)
  then show ?case by (rule mti_prune_ok(3))
qed (simp_all add: mti_ok_def MemoryTxIndex_HasTx_def MemoryTxIndex_GetBatchForTx_def split: option.splits)

section \<open>Runs of a certificate store\<close>

inductive cert_store_run :: "MemoryCertificateStore \<Rightarrow> bool" where
  start: "cert_store_run NewMemoryCertificateStore"
| save: "cert_store_run s \<Longrightarrow> cert_store_run (fst (MemoryCertificateStore_SaveCertificate c s))"
| delete: "cert_store_run s \<Longrightarrow> cert_store_run (fst (MemoryCertificateStore_DeleteCertificatesBefore r s))"

lemma cert_store_run_ok: "cert_store_run s \<Longrightarrow> mcs_ok s"
  by (induction rule: cert_store_run.induct) (simp_all add: mcs_save_ok mcs_delete_ok)

section \<open>Properties\<close>

text \<open>
  In every state that saves and prunes can reach, the indexes of the certificate store
  agree with its contents. The certificates of a round are listed once each and are exactly the
  stored ones of that round; a certificate found for a validator is stored and is of that round and
  author, and one is found whenever one is stored; the highest round bounds all rounds.
\<close>

lemma cert_store_indexes:
  assumes "cert_store_run s"
  shows "(MemoryCertificateStore_HasCertificate d s \<longleftrightarrow> (\<exists>c. MemoryCertificateStore_GetCertificate d s = Inr c)) \<and>
    (\<exists>cs. MemoryCertificateStore_GetCertificatesByRound r s = Inr cs \<and>
       distinct (map Certificate_Digest cs) \<and>
       (\<forall>c. c \<in> set cs \<longleftrightarrow>
          MemoryCertificateStore_GetCertificate (Certificate_Digest c) s = Inr c \<and> Certificate_Round c = r)) \<and>
    (MemoryCertificateStore_GetCertificateForValidator r i s = Inr c \<longrightarrow>
       MemoryCertificateStore_GetCertificate (Certificate_Digest c) s = Inr c \<and>
       Certificate_Round c = r \<and> Certificate_Author c = i) \<and>
    (MemoryCertificateStore_GetCertificate d s = Inr c \<longrightarrow>
       Certificate_Digest c = d \<and> Certificate_Round c \<le> MemoryCertificateStore_HighestRound s \<and>
       (\<exists>c'. MemoryCertificateStore_GetCertificateForValidator (Certificate_Round c) (Certificate_Author c) s = Inr c'))"
proof -
  note ok = cert_store_run_ok[OF assms]
  have "\<exists>cs. MemoryCertificateStore_GetCertificatesByRound r s = Inr cs \<and>
       distinct (map Certificate_Digest cs) \<and>
       (\<forall>c. c \<in> set cs \<longleftrightarrow>
          MemoryCertificateStore_GetCertificate (Certificate_Digest c) s = Inr c \<and> Certificate_Round c = r)"
    using mcs.by_round_contents[OF ok] by (simp add: mcs.get_contents[OF ok])
  moreover have "MemoryCertificateStore_GetCertificateForValidator r i s = Inr c \<longrightarrow>
       MemoryCertificateStore_GetCertificate (Certificate_Digest c) s = Inr c \<and>
       Certificate_Round c = r \<and> Certificate_Author c = i"
    using mcs.for_validator_sound[OF ok] by (simp add: mcs.get_contents[OF ok])
  moreover have "MemoryCertificateStore_GetCertificate d s = Inr c \<longrightarrow>
       Certificate_Digest c = d \<and> Certificate_Round c \<le> MemoryCertificateStore_HighestRound s \<and>
       (\<exists>c'. MemoryCertificateStore_GetCertificateForValidator (Certificate_Round c) (Certificate_Author c) s = Inr c')"
    using mcs.keys[OF ok] mcs.highest_upper[OF ok] mcs.for_validator_complete[OF ok]
    by (simp add: mcs.get_contents[OF ok])
  ultimately show ?thesis using mcs.has_get[OF ok] by blast
qed

lemma cert_store_indexes_example:
  "let c = NewCertificate (demo_header 3 1) [];
       s = fst (MemoryCertificateStore_SaveCertificate c NewMemoryCertificateStore)
   in Certificate_Round c \<le> MemoryCertificateStore_HighestRound s \<and>
      (\<exists>c'. MemoryCertificateStore_GetCertificateForValidator 3 1 s = Inr c')"
proof -
  let ?c = "NewCertificate (demo_header 3 1) []"
  let ?s = "fst (MemoryCertificateStore_SaveCertificate ?c NewMemoryCertificateStore)"
  have "cert_store_run ?s" by (intro cert_store_run.intros)
  moreover have "MemoryCertificateStore_GetCertificate (Certificate_Digest ?c) ?s = Inr ?c"
    by (simp add: MemoryCertificateStore_GetCertificate_def MemoryCertificateStore_SaveCertificate_def
        NewMemoryCertificateStore_def Let_def)
  ultimately show ?thesis
    using cert_store_indexes[of ?s "Certificate_Digest ?c" _ _ ?c] by (simp add: Let_def)
qed

text \<open>
  Saving and pruning certificates. A saved certificate can be read back unless its digest
  was taken, in which case the first one stays; everything else reads as before. After
  \<^verbatim>\<open>DeleteCertificatesBefore(r)\<close> exactly the certificates of round \<open>r\<close> and later are left.
\<close>

lemma cert_store_save_prune:
  assumes "cert_store_run s"
  shows "(MemoryCertificateStore_GetCertificate d (fst (MemoryCertificateStore_SaveCertificate c s)) = Inr c' \<longleftrightarrow>
            MemoryCertificateStore_GetCertificate d s = Inr c' \<or>
            d = Certificate_Digest c \<and> c' = c \<and> \<not> MemoryCertificateStore_HasCertificate d s) \<and>
         (MemoryCertificateStore_GetCertificate d (fst (MemoryCertificateStore_DeleteCertificatesBefore r s)) = Inr c' \<longleftrightarrow>
            MemoryCertificateStore_GetCertificate d s = Inr c' \<and> r \<le> Certificate_Round c')"
  using mcs.get_after_save[OF cert_store_run_ok[OF assms]] mcs.get_after_delete[OF cert_store_run_ok[OF assms]]
  by auto

lemma cert_store_save_prune_example:
  "let c = NewCertificate (demo_header 3 1) []; d = Certificate_Digest c;
       s = fst (MemoryCertificateStore_SaveCertificate c NewMemoryCertificateStore)
   in MemoryCertificateStore_GetCertificate d s = Inr c \<and>
      MemoryCertificateStore_GetCertificate d (fst (MemoryCertificateStore_DeleteCertificatesBefore 3 s)) = Inr c \<and>
      MemoryCertificateStore_GetCertificate d (fst (MemoryCertificateStore_DeleteCertificatesBefore 4 s)) \<noteq> Inr c"
proof -
  let ?c = "NewCertificate (demo_header 3 1) []"
  let ?s = "fst (MemoryCertificateStore_SaveCertificate ?c NewMemoryCertificateStore)"
  have empty: "\<not> MemoryCertificateStore_HasCertificate (Certificate_Digest ?c) NewMemoryCertificateStore"
    by (simp add: MemoryCertificateStore_HasCertificate_def NewMemoryCertificateStore_def)
  have run: "cert_store_run NewMemoryCertificateStore" "cert_store_run ?s"
    by (intro cert_store_run.intros)+
  show ?thesis
    using cert_store_save_prune[OF run(1), of "Certificate_Digest ?c" ?c ?c] empty
      cert_store_save_prune[OF run(2), of "Certificate_Digest ?c" ?c ?c 3]
      cert_store_save_prune[OF run(2), of "Certificate_Digest ?c" ?c ?c 4]
    by (simp add: Let_def)
qed

text \<open>
  \<^bold>\<open>C39\<close>: the transaction index maps every transaction to the first batch that listed it.
  Indexing a batch makes all its transactions known and changes no existing entry. Pruning at round
  \<open>r\<close> forgets exactly the transactions of the batches indexed under a round below \<open>r\<close>.
  Removing a batch forgets exactly its transactions.
\<close>

theorem tx_index_correct:
  assumes "mti_ok idx"
  shows "fmlookup (mti_txToBatch (fst (MemoryTxIndex_AddBatch C b idx))) t =
           (case fmlookup (mti_txToBatch idx) t of Some e \<Rightarrow> Some e
            | None \<Rightarrow> if t \<in> Transaction_Hash C ` set (b_Transactions b) then Some (b_Digest b) else None) \<and>
         fmlookup (mti_txToBatch (fst (MemoryTxIndex_PruneOlderThan r idx))) t =
           (case fmlookup (mti_txToBatch idx) t of None \<Rightarrow> None
            | Some e \<Rightarrow> (case fmlookup (mti_batchRounds idx) e of None \<Rightarrow> Some e
                | Some q \<Rightarrow> if q < r then None else Some e)) \<and>
         fmlookup (mti_txToBatch (fst (MemoryTxIndex_RemoveTxsForBatch e idx))) t =
           (if fmlookup (mti_txToBatch idx) t = Some e then None else fmlookup (mti_txToBatch idx) t) \<and>
         mti_ok (fst (MemoryTxIndex_AddBatch C b idx)) \<and> mti_ok (fst (MemoryTxIndex_PruneOlderThan r idx)) \<and>
         mti_ok (fst (MemoryTxIndex_RemoveTxsForBatch e idx))"
  using mti.add_assigned[OF assms, of C b t] mti.prune_assigned[OF assms] mti.remove_assigned[OF assms]
    mti.add_ok[OF assms, of C b] mti.prune_ok[OF assms] mti.remove_ok[OF assms] by blast

theorem tx_index_correct_witness:
  "let b = NewBatch demo_crypto 7 1 2 3 [[5]]; t = Transaction_Hash demo_crypto [5];
       idx = fst (MemoryTxIndex_AddBatch demo_crypto b NewMemoryTxIndex)
   in fmlookup (mti_txToBatch idx) t = Some (b_Digest b)"
  using tx_index_correct[OF NewMemoryTxIndex_ok, of demo_crypto "NewBatch demo_crypto 7 1 2 3 [[5]]"
      "Transaction_Hash demo_crypto [5]"]
  by (simp add: Let_def NewMemoryTxIndex_def)

end
