(* ===== verification/Workers.thy ===== *)
theory Workers
  imports Pending_Heap Ack_Tracker Stores
begin

text \<open>
  A worker (\<^verbatim>\<open>worker/worker.go\<close>): admission of transactions with back-pressure, batch creation
  in priority order, the failure path that puts transactions back, and draining. The batch store and
  the transaction index are shared by the workers of a pool and may be absent (nil); they are passed
  and returned as \<open>storage\<close>.
\<close>

section \<open>State\<close>

record WorkerConfig =
  wc_BatchSize :: int
  wc_BatchBytes :: int
  wc_BatchTimeout :: int
  wc_MaxPendingTxs :: int
  wc_MaxPendingBytes :: int
  wc_AckTimeout :: int

definition DefaultWorkerConfig :: WorkerConfig where
  "DefaultWorkerConfig =
     \<lparr>wc_BatchSize = 1000, wc_BatchBytes = 512 * 1024, wc_BatchTimeout = 100 * 1000000,
      wc_MaxPendingTxs = 10000, wc_MaxPendingBytes = 50 * 1024 * 1024,
      wc_AckTimeout = 30 * 1000000000\<rparr>"

type_synonym TxValidator = "transaction \<Rightarrow> TxAdmission result"

record storage =
  st_batchStore :: "MemoryBatchStore option"
  st_txIndex :: "MemoryTxIndex option"

record Worker =
  w_id :: u16
  w_validatorID :: u16
  w_cfg :: WorkerConfig
  w_round :: u64
  w_epoch :: u64
  w_pending :: priorityQueue
  w_pendingSet :: "(hash, bool) fmap"
  w_pendingBytes :: int
  w_pendingSeq :: u64
  w_ackTracker :: AckTracker
  w_txValidator :: "TxValidator option"
  w_batchCallback :: bool
  w_running :: bool
  w_triggerCh :: bool

section \<open>Operations\<close>

definition NewWorker :: "u16 \<Rightarrow> u16 \<Rightarrow> WorkerConfig \<Rightarrow> int \<Rightarrow> Worker" where
  "NewWorker workerID validatorID cfg quorum =
     \<lparr>w_id = workerID, w_validatorID = validatorID, w_cfg = cfg, w_round = 0, w_epoch = 0,
      w_pending = [], w_pendingSet = fmempty, w_pendingBytes = 0, w_pendingSeq = 0,
      w_ackTracker = NewAckTracker quorum (wc_AckTimeout cfg),
      w_txValidator = None, w_batchCallback = False, w_running = False, w_triggerCh = False\<rparr>"

definition Worker_SetTxValidator :: "TxValidator option \<Rightarrow> Worker \<Rightarrow> Worker" where
  "Worker_SetTxValidator validator w = w\<lparr>w_txValidator := validator\<rparr>"

definition Worker_SetBatchCallback :: "bool \<Rightarrow> Worker \<Rightarrow> Worker" where
  "Worker_SetBatchCallback callback w = w\<lparr>w_batchCallback := callback\<rparr>"

definition Worker_SetAckQuorumCallback :: "bool \<Rightarrow> Worker \<Rightarrow> Worker" where
  "Worker_SetAckQuorumCallback cb w =
     w\<lparr>w_ackTracker := AckTracker_SetQuorumCallback cb (w_ackTracker w)\<rparr>"

definition Worker_Start :: "Worker \<Rightarrow> Worker \<times> err option" where
  "Worker_Start w =
     (if w_running w then (w, Some ErrAlreadyRunning)
      else (w\<lparr>w_running := True, w_triggerCh := False\<rparr>, None))"

definition Worker_SetRound :: "u64 \<Rightarrow> Worker \<Rightarrow> Worker" where
  "Worker_SetRound rnd w = w\<lparr>w_round := rnd\<rparr>"

definition Worker_SetEpoch :: "u64 \<Rightarrow> Worker \<Rightarrow> Worker" where
  "Worker_SetEpoch epoch w = w\<lparr>w_epoch := epoch\<rparr>"

definition index_has :: "storage \<Rightarrow> hash \<Rightarrow> bool" where
  "index_has st txHash =
     (case st_txIndex st of None \<Rightarrow> False | Some idx \<Rightarrow> MemoryTxIndex_HasTx txHash idx)"

definition push_pending :: "crypto \<Rightarrow> transaction \<Rightarrow> int \<Rightarrow> Worker \<Rightarrow> Worker" where
  "push_pending C tx priority w =
     (let seq = w_pendingSeq w + 1
      in w\<lparr>w_pendingSeq := seq,
           w_pending := heap_Push \<lparr>pe_tx = tx, pe_priority = priority, pe_sequence = seq\<rparr> (w_pending w),
           w_pendingSet := fmupd (Transaction_Hash C tx) True (w_pendingSet w),
           w_pendingBytes := w_pendingBytes w + Transaction_Size tx\<rparr>)"

definition is_pending :: "Worker \<Rightarrow> hash \<Rightarrow> bool" where
  "is_pending w txHash \<longleftrightarrow> fmlookup (w_pendingSet w) txHash = Some True"

definition Worker_AddTx :: "crypto \<Rightarrow> transaction \<Rightarrow> storage \<Rightarrow> Worker \<Rightarrow> Worker \<times> err option" where
  "Worker_AddTx C tx st w =
     (if \<not> w_running w then (w, Some ErrNotRunning)
      else case (case w_txValidator w of
                   None \<Rightarrow> Inr \<lparr>ta_Priority = 0, ta_Sender = []\<rparr>
                 | Some validator \<Rightarrow> validator tx) of
        Inl _ \<Rightarrow> (w, Some ErrTxValidationFailed)
      | Inr admission \<Rightarrow>
          (let txHash = Transaction_Hash C tx in
           if is_pending w txHash then (w, None)
           else if index_has st txHash then (w, None)
           else if int (priorityQueue_Len (w_pending w)) \<ge> wc_MaxPendingTxs (w_cfg w)
             then (w, Some ErrWorkerBackpressure)
           else if w_pendingBytes w + Transaction_Size tx > wc_MaxPendingBytes (w_cfg w)
             then (w, Some ErrWorkerBackpressure)
           else
             (let w1 = push_pending C tx (ta_Priority admission) w;
                  shouldTrigger = (int (priorityQueue_Len (w_pending w1)) \<ge> wc_BatchSize (w_cfg w) \<or>
                     (wc_BatchBytes (w_cfg w) > 0 \<and> w_pendingBytes w1 \<ge> wc_BatchBytes (w_cfg w)))
              in (if shouldTrigger then w1\<lparr>w_triggerCh := True\<rparr> else w1, None))))"

definition Worker_PendingCount :: "Worker \<Rightarrow> nat" where
  "Worker_PendingCount w = priorityQueue_Len (w_pending w)"

definition Worker_PendingBytes :: "Worker \<Rightarrow> int" where
  "Worker_PendingBytes w = w_pendingBytes w"

definition Worker_HasTx :: "hash \<Rightarrow> storage \<Rightarrow> Worker \<Rightarrow> bool" where
  "Worker_HasTx txHash st w = (if is_pending w txHash then True else index_has st txHash)"

definition Worker_DrainPending :: "Worker \<Rightarrow> Worker \<times> transaction list" where
  "Worker_DrainPending w =
     (if priorityQueue_Len (w_pending w) = 0 then (w, [])
      else (w\<lparr>w_pending := [], w_pendingSet := fmempty, w_pendingBytes := 0\<rparr>, map pe_tx (w_pending w)))"

definition Worker_RecordAck :: "time \<Rightarrow> hash \<Rightarrow> u16 \<Rightarrow> Worker \<Rightarrow> Worker \<times> bool \<times> (hash \<times> int) option" where
  "Worker_RecordAck now batchDigest validator w =
     (let (at, r, cb) = AckTracker_RecordAck now batchDigest validator (w_ackTracker w)
      in (w\<lparr>w_ackTracker := at\<rparr>, r, cb))"

definition Worker_UpdateQuorum :: "int \<Rightarrow> Worker \<Rightarrow> Worker" where
  "Worker_UpdateQuorum quorum w = w\<lparr>w_ackTracker := AckTracker_UpdateQuorum quorum (w_ackTracker w)\<rparr>"

text \<open>
  The loop of \<^verbatim>\<open>tryCreateBatch\<close>; the first argument counts the transactions that may still be
  taken, the result is what is taken, its size, the rest of the queue and the rest of the set.
\<close>

fun collect_batch ::
  "crypto \<Rightarrow> int \<Rightarrow> nat \<Rightarrow> transaction list \<Rightarrow> int \<Rightarrow> priorityQueue \<Rightarrow> (hash, bool) fmap \<Rightarrow>
   transaction list \<times> int \<times> priorityQueue \<times> (hash, bool) fmap" where
  "collect_batch C limit 0 txs batchBytes pq ps = (txs, batchBytes, pq, ps)"
| "collect_batch C limit (Suc n) txs batchBytes pq ps =
     (let top = pq ! 0; txBytes = Transaction_Size (pe_tx top)
      in if limit > 0 \<and> length txs > 0 \<and> batchBytes + txBytes > limit
         then (txs, batchBytes, pq, ps)
         else let (entry, pq') = heap_Pop pq
              in collect_batch C limit n (txs @ [pe_tx entry]) (batchBytes + txBytes) pq'
                   (fmdrop (Transaction_Hash C (pe_tx entry)) ps))"

fun Worker_requeueTransactions :: "crypto \<Rightarrow> transaction list \<Rightarrow> Worker \<Rightarrow> Worker" where
  "Worker_requeueTransactions C [] w = w"
| "Worker_requeueTransactions C (tx # txs) w =
     (if \<not> is_pending w (Transaction_Hash C tx)
      then if int (priorityQueue_Len (w_pending w)) \<ge> wc_MaxPendingTxs (w_cfg w) then w
           else if w_pendingBytes w + Transaction_Size tx > wc_MaxPendingBytes (w_cfg w) then w
           else Worker_requeueTransactions C txs (push_pending C tx 0 w)
      else Worker_requeueTransactions C txs w)"

definition save_batch :: "Batch \<Rightarrow> storage \<Rightarrow> storage \<times> err option" where
  "save_batch batch st =
     (case st_batchStore st of
        None \<Rightarrow> (st, None)
      | Some bs \<Rightarrow> (let (bs', e) = MemoryBatchStore_SaveBatch batch bs
                   in (st\<lparr>st_batchStore := Some bs'\<rparr>, e)))"

definition index_batch :: "crypto \<Rightarrow> Batch \<Rightarrow> storage \<Rightarrow> storage" where
  "index_batch C batch st =
     (case st_txIndex st of
        None \<Rightarrow> st
      | Some idx \<Rightarrow> st\<lparr>st_txIndex := Some (fst (MemoryTxIndex_AddBatch C batch idx))\<rparr>)"

text \<open>
  \<^verbatim>\<open>tryCreateBatch\<close> also returns the batch that the batch callback is called with and the
  quorum callback of the self-acknowledgment. Its first half takes the transactions out of the
  queue, its second half, after the lock is released, builds and stores the batch.
\<close>

definition finish_batch ::
  "crypto \<Rightarrow> time \<Rightarrow> transaction list \<Rightarrow> storage \<Rightarrow> Worker \<Rightarrow>
   Worker \<times> storage \<times> Batch option \<times> (hash \<times> int) option" where
  "finish_batch C now txs st w =
     (let batch = NewBatch C now (w_id w) (w_validatorID w) (w_round w) txs;
          (st1, e) = save_batch batch st
      in case e of
           Some _ \<Rightarrow> (Worker_requeueTransactions C txs w, st1, None, None)
         | None \<Rightarrow>
             (let st2 = index_batch C batch st1;
                  at1 = AckTracker_TrackBatch now batch (w_ackTracker w);
                  (at2, _, cb) = AckTracker_RecordAck now (b_Digest batch) (w_validatorID w) at1
              in (w\<lparr>w_ackTracker := at2\<rparr>, st2, if w_batchCallback w then Some batch else None, cb)))"

definition batch_maxCount :: "Worker \<Rightarrow> int" where
  "batch_maxCount w =
     (let maxCount = wc_BatchSize (w_cfg w)
      in if maxCount > int (priorityQueue_Len (w_pending w)) then int (priorityQueue_Len (w_pending w))
         else maxCount)"

definition Worker_tryCreateBatch ::
  "crypto \<Rightarrow> time \<Rightarrow> storage \<Rightarrow> Worker \<Rightarrow> Worker \<times> storage \<times> Batch option \<times> (hash \<times> int) option" where
  "Worker_tryCreateBatch C now st w =
     (if priorityQueue_Len (w_pending w) = 0 then (w, st, None, None)
      else
        (let (txs, batchBytes, pq, ps) =
               collect_batch C (wc_BatchBytes (w_cfg w)) (nat (batch_maxCount w)) [] 0 (w_pending w) (w_pendingSet w)
         in finish_batch C now txs st
              (w\<lparr>w_pending := pq, w_pendingSet := ps, w_pendingBytes := w_pendingBytes w - batchBytes\<rparr>)))"

definition Worker_Stop ::
  "crypto \<Rightarrow> time \<Rightarrow> storage \<Rightarrow> Worker \<Rightarrow> Worker \<times> storage \<times> Batch option \<times> err option" where
  "Worker_Stop C now st w =
     (if \<not> w_running w then (w, st, None, Some ErrNotRunning)
      else let (w1, st1, b, _) = Worker_tryCreateBatch C now st (w\<lparr>w_running := False\<rparr>)
           in (w1\<lparr>w_ackTracker := AckTracker_Close (w_ackTracker w1)\<rparr>, st1, b, None))"

text \<open>
  One iteration of \<^verbatim>\<open>batchLoop\<close>: the ticker and, if a signal is in the channel, the trigger
  create a batch.
\<close>

datatype loop_event = Tick | Trigger

definition Worker_batchLoop_step ::
  "crypto \<Rightarrow> time \<Rightarrow> loop_event \<Rightarrow> storage \<Rightarrow> Worker \<Rightarrow> Worker \<times> storage \<times> Batch option \<times> (hash \<times> int) option" where
  "Worker_batchLoop_step C now ev st w =
     (case ev of
        Tick \<Rightarrow> Worker_tryCreateBatch C now st w
      | Trigger \<Rightarrow> (if w_triggerCh w then Worker_tryCreateBatch C now st (w\<lparr>w_triggerCh := False\<rparr>)
                    else (w, st, None, None)))"

section \<open>Invariant\<close>

abbreviation pending_txs :: "Worker \<Rightarrow> transaction list" where
  "pending_txs w \<equiv> map pe_tx (w_pending w)"

abbreviation tx_bytes :: "transaction list \<Rightarrow> int" where
  "tx_bytes txs \<equiv> sum_list (map Transaction_Size txs)"

text \<open>
  The queue is a heap with distinct sequence numbers up to the counter; the hash set is the set of the
  hashes of the queue, which are distinct; the byte count is the size of the queue; the limits hold.
\<close>

definition queue_ok :: "crypto \<Rightarrow> priorityQueue \<Rightarrow> (hash, bool) fmap \<Rightarrow> bool" where
  "queue_ok C pq ps \<longleftrightarrow> is_heap pq \<and> distinct (map pe_sequence pq) \<and>
     distinct (map (Transaction_Hash C \<circ> pe_tx) pq) \<and>
     (\<forall>h. fmlookup ps h = (if h \<in> (Transaction_Hash C \<circ> pe_tx) ` set pq then Some True else None))"

definition worker_ok :: "crypto \<Rightarrow> Worker \<Rightarrow> bool" where
  "worker_ok C w \<longleftrightarrow> queue_ok C (w_pending w) (w_pendingSet w) \<and>
     (\<forall>e \<in> set (w_pending w). pe_sequence e \<le> w_pendingSeq w) \<and>
     w_pendingBytes w = tx_bytes (pending_txs w) \<and>
     int (length (w_pending w)) \<le> max 0 (wc_MaxPendingTxs (w_cfg w)) \<and>
     w_pendingBytes w \<le> max 0 (wc_MaxPendingBytes (w_cfg w))"

lemma queue_okD:
  assumes "queue_ok C pq ps"
  shows "is_heap pq" "distinct (map pe_sequence pq)" "distinct (map (Transaction_Hash C \<circ> pe_tx) pq)"
    "fmlookup ps h = Some True \<longleftrightarrow> h \<in> (Transaction_Hash C \<circ> pe_tx) ` set pq"
    "distinct (map entry_key pq)"
proof -
  show "is_heap pq" "distinct (map pe_sequence pq)" "distinct (map (Transaction_Hash C \<circ> pe_tx) pq)"
    "fmlookup ps h = Some True \<longleftrightarrow> h \<in> (Transaction_Hash C \<circ> pe_tx) ` set pq"
    using assms by (simp_all add: queue_ok_def)
  have "map snd (map entry_key pq) = map pe_sequence pq" by (simp add: entry_key_def)
  then have "distinct (map snd (map entry_key pq))" using assms by (simp only: queue_ok_def)
  then show "distinct (map entry_key pq)" unfolding distinct_map by blast
qed

lemma mset_distinct_map: "mset xs = mset ys \<Longrightarrow> distinct (map f xs) \<longleftrightarrow> distinct (map f ys)"
  by (metis mset_eq_imp_distinct_iff mset_map)

lemma queue_ok_push:
  assumes "queue_ok C pq ps" and "Transaction_Hash C (pe_tx e) \<notin> (Transaction_Hash C \<circ> pe_tx) ` set pq"
    and "pe_sequence e \<notin> pe_sequence ` set pq"
  shows "queue_ok C (heap_Push e pq) (fmupd (Transaction_Hash C (pe_tx e)) True ps)"
proof -
  note q = queue_okD[OF assms(1)]
  note push = heap_Push_heap[OF q(1), of e]
  have m: "mset (heap_Push e pq) = mset (e # pq)" using push(2) by simp
  have s: "set (heap_Push e pq) = insert e (set pq)" using mset_eq_setD[OF m] by simp
  have "distinct (map pe_sequence (heap_Push e pq))" "distinct (map (Transaction_Hash C \<circ> pe_tx) (heap_Push e pq))"
    unfolding mset_distinct_map[OF m] using q assms(2,3) by auto
  then show ?thesis using push(1) s assms(1) unfolding queue_ok_def by auto
qed

lemma queue_ok_pop:
  assumes "queue_ok C pq ps" and "pq \<noteq> []" and "heap_Pop pq = (e, pq')"
  shows "queue_ok C pq' (fmdrop (Transaction_Hash C (pe_tx e)) ps)"
proof -
  note q = queue_okD[OF assms(1)]
  note pop = heap_Pop_heap[OF q(1) assms(2,3)]
  have m: "mset pq = mset (e # pq')" using pop(3) by simp
  have s: "set pq = insert e (set pq')" using mset_eq_setD[OF m] by simp
  have d: "distinct (map pe_sequence (e # pq'))" "distinct (map (Transaction_Hash C \<circ> pe_tx) (e # pq'))"
    using q(2,3) unfolding mset_distinct_map[OF m] by auto
  then show ?thesis using pop(2) s assms(1) unfolding queue_ok_def by auto
qed

section \<open>Creating a batch\<close>

lemma collect_batch_pops:
  assumes "queue_ok C pq ps" and "n \<le> length pq"
  shows "\<exists>m xs pq' ps'. m \<le> n \<and> heap_pops m pq = (xs, pq') \<and> queue_ok C pq' ps' \<and>
     collect_batch C limit n txs bytes pq ps = (txs @ map pe_tx xs, bytes + tx_bytes (map pe_tx xs), pq', ps') \<and>
     (txs = [] \<and> 0 < n \<longrightarrow> 0 < m) \<and>
     (m = n \<or> 0 < limit \<and> bytes + tx_bytes (map pe_tx xs) + Transaction_Size (pe_tx (pq' ! 0)) > limit) \<and>
     (m = 0 \<or> length txs + m = 1 \<or> limit \<le> 0 \<or> bytes + tx_bytes (map pe_tx xs) \<le> limit)"
  using assms
proof (induction n arbitrary: txs bytes pq ps)
  case 0
  then show ?case by auto
next
  case (Suc n)
  show ?case
  proof (cases "limit > 0 \<and> length txs > 0 \<and> bytes + Transaction_Size (pe_tx (pq ! 0)) > limit")
    case True
    then show ?thesis
      using Suc.prems by (intro exI[of _ 0] exI[of _ "[]"] exI[of _ pq] exI[of _ ps]) simp
  next
    case False
    obtain e pq1 where e: "heap_Pop pq = (e, pq1)" by (cases "heap_Pop pq")
    have ne: "pq \<noteq> []" using Suc.prems(2) by auto
    note pop = heap_Pop_heap[OF queue_okD(1)[OF Suc.prems(1)] ne e]
    have "length pq = Suc (length pq1)" using pop(3) by (metis size_add_mset size_mset)
    then have n: "n \<le> length pq1" using Suc.prems(2) by simp
    let ?txs = "txs @ [pe_tx e]" and ?bytes = "bytes + Transaction_Size (pe_tx e)"
    obtain m xs pq' ps' where IH: "m \<le> n" "heap_pops m pq1 = (xs, pq')" "queue_ok C pq' ps'"
      "collect_batch C limit n ?txs ?bytes pq1 (fmdrop (Transaction_Hash C (pe_tx e)) ps) =
         (?txs @ map pe_tx xs, ?bytes + tx_bytes (map pe_tx xs), pq', ps')"
      "m = n \<or> 0 < limit \<and> ?bytes + tx_bytes (map pe_tx xs) + Transaction_Size (pe_tx (pq' ! 0)) > limit"
      "m = 0 \<or> length ?txs + m = 1 \<or> limit \<le> 0 \<or> ?bytes + tx_bytes (map pe_tx xs) \<le> limit"
      using Suc.IH[OF queue_ok_pop[OF Suc.prems(1) ne e] n, of ?txs ?bytes] by blast
    have "heap_pops (Suc m) pq = (e # xs, pq')" using e IH(2) by simp
    moreover have "collect_batch C limit (Suc n) txs bytes pq ps =
        (txs @ map pe_tx (e # xs), bytes + tx_bytes (map pe_tx (e # xs)), pq', ps')"
      using False e IH(4) pop(1) by (auto simp: Let_def)
    moreover have "Suc m = 0 \<or> length txs + Suc m = 1 \<or> limit \<le> 0 \<or>
        bytes + tx_bytes (map pe_tx (e # xs)) \<le> limit"
      using IH(2,6) False pop(1) by auto
    ultimately show ?thesis
      using IH(1,3,5) by (intro exI[of _ "Suc m"] exI[of _ "e # xs"] exI[of _ pq'] exI[of _ ps']) auto
  qed
qed

text \<open>What the loop takes from a well-formed queue, in terms of the sorted queue.\<close>

lemma collect_batch_sorted:
  assumes ok: "queue_ok C pq ps" and n: "n \<le> length pq"
  defines "zs \<equiv> sort_key entry_key pq"
  obtains m pq' ps' where "m \<le> n" and "0 < n \<Longrightarrow> 0 < m" and "queue_ok C pq' ps'"
    and "mset pq' = mset (drop m zs)"
    and "collect_batch C limit n [] 0 pq ps =
           (map pe_tx (take m zs), tx_bytes (map pe_tx (take m zs)), pq', ps')"
    and "m < n \<Longrightarrow> 0 < limit \<and> limit < tx_bytes (map pe_tx (take (Suc m) zs))"
    and "0 < limit \<Longrightarrow> 1 < m \<Longrightarrow> tx_bytes (map pe_tx (take m zs)) \<le> limit"
proof -
  obtain m xs pq' ps' where c: "m \<le> n" "heap_pops m pq = (xs, pq')" "queue_ok C pq' ps'"
    "collect_batch C limit n [] 0 pq ps = (map pe_tx xs, tx_bytes (map pe_tx xs), pq', ps')"
    "0 < n \<Longrightarrow> 0 < m"
    "m = n \<or> 0 < limit \<and> tx_bytes (map pe_tx xs) + Transaction_Size (pe_tx (pq' ! 0)) > limit"
    "m = 0 \<or> m = 1 \<or> limit \<le> 0 \<or> tx_bytes (map pe_tx xs) \<le> limit"
    using collect_batch_pops[OF ok n, of limit "[]" 0] by auto
  have "m \<le> length pq" using c(1) n by simp
  note h = heap_pops_sorted[OF queue_okD(1)[OF ok] queue_okD(5)[OF ok] this c(2), folded zs_def]
  have next_tx: "tx_bytes (map pe_tx xs) + Transaction_Size (pe_tx (pq' ! 0)) = tx_bytes (map pe_tx (take (Suc m) zs))"
    if "m < n"
    using that n h(1,4) by (simp add: take_Suc_conv_app_nth zs_def)
  show ?thesis
    using c(1,3,4,5,6,7) h(1,3) next_tx by (intro that[of m pq' ps']) auto
qed

text \<open>Storage that accepts batches: absent or open and well formed.\<close>

definition storage_ok :: "storage \<Rightarrow> bool" where
  "storage_ok st \<longleftrightarrow> (\<forall>bs. st_batchStore st = Some bs \<longrightarrow> mbs_ok bs) \<and>
     (\<forall>idx. st_txIndex st = Some idx \<longrightarrow> mti_ok idx)"

lemma save_batch_ok:
  assumes "storage_ok st"
  shows "snd (save_batch b st) = None" and "storage_ok (fst (save_batch b st))"
    and "st_txIndex (fst (save_batch b st)) = st_txIndex st"
  using assms mbs.save_ok
  by (auto simp: storage_ok_def save_batch_def case_prod_beta split: option.splits)

lemma save_batch_stores:
  assumes "storage_ok st" and "st_batchStore (fst (save_batch b st)) = Some bs"
  shows "MemoryBatchStore_HasBatch (b_Digest b) bs"
proof (cases "st_batchStore st")
  case None
  then show ?thesis using assms(2) by (simp add: save_batch_def)
next
  case (Some b0)
  then have ok: "mbs_ok b0" using assms(1) by (simp add: storage_ok_def)
  have "bs = fst (MemoryBatchStore_SaveBatch b b0)"
    using Some assms(2) by (simp add: save_batch_def case_prod_beta)
  then show ?thesis
    using mbs.save_ok[OF ok, of b] mbs.save_contents[OF ok, of b] by (simp add: mbs.has_contents)
qed

lemma index_batch_ok:
  assumes "storage_ok st"
  shows "storage_ok (index_batch C b st)" and "st_batchStore (index_batch C b st) = st_batchStore st"
    and "index_has (index_batch C b st) t \<longleftrightarrow>
      index_has st t \<or> st_txIndex st \<noteq> None \<and> t \<in> Transaction_Hash C ` set (b_Transactions b)"
proof -
  show "storage_ok (index_batch C b st)" "st_batchStore (index_batch C b st) = st_batchStore st"
    using assms mti.add_ok by (auto simp: storage_ok_def index_batch_def split: option.splits)
  show "index_has (index_batch C b st) t \<longleftrightarrow>
      index_has st t \<or> st_txIndex st \<noteq> None \<and> t \<in> Transaction_Hash C ` set (b_Transactions b)"
  proof (cases "st_txIndex st")
    case None
    then show ?thesis by (simp add: index_has_def index_batch_def)
  next
    case (Some idx)
    then have "mti_ok idx" using assms by (simp add: storage_ok_def)
    then show ?thesis
      using Some mti.add_ok[of idx C b] mti.add_assigned[of idx C b t]
      by (auto simp: index_has_def index_batch_def mti.has_assigned map_has_def split: option.splits)
  qed
qed

lemma worker_okD:
  assumes "worker_ok C w"
  shows "queue_ok C (w_pending w) (w_pendingSet w)" "e \<in> set (w_pending w) \<Longrightarrow> pe_sequence e \<le> w_pendingSeq w"
    "w_pendingBytes w = tx_bytes (pending_txs w)"
    "int (length (w_pending w)) \<le> max 0 (wc_MaxPendingTxs (w_cfg w))"
    "w_pendingBytes w \<le> max 0 (wc_MaxPendingBytes (w_cfg w))"
  using assms unfolding worker_ok_def by blast+

lemma is_pending_iff:
  "worker_ok C w \<Longrightarrow> is_pending w h \<longleftrightarrow> h \<in> Transaction_Hash C ` set (pending_txs w)"
  using queue_okD(4)[OF worker_okD(1)] by (auto simp: is_pending_def)

lemma tx_bytes_mset: "mset xs = mset ys \<Longrightarrow> tx_bytes (map f xs) = tx_bytes (map f ys)"
  using sum_list_mset_eq[of xs ys "Transaction_Size \<circ> f"] by simp

lemma tx_bytes_nonneg: "0 \<le> tx_bytes txs"
  by (rule sum_list_nonneg) auto

text \<open>Adding an entry keeps the invariant as long as the sequence counter does not wrap.\<close>

lemma word_succ_greater:
  fixes s x :: "'a::len word"
  assumes "s \<noteq> - 1" and "x \<le> s"
  shows "x < s + 1"
proof -
  have "1 + s \<noteq> 0" using assms(1) by (simp add: add_eq_0_iff)
  then have "unat (1 + s) = Suc (unat s)" by (rule unatSuc)
  then show ?thesis using assms(2) by (simp add: word_less_nat_alt word_le_nat_alt add.commute)
qed

lemma push_pending_ok:
  assumes ok: "worker_ok C w" and seq: "w_pendingSeq w \<noteq> - 1" and new: "\<not> is_pending w (Transaction_Hash C tx)"
    and room: "int (length (w_pending w)) < wc_MaxPendingTxs (w_cfg w)"
      "w_pendingBytes w + Transaction_Size tx \<le> wc_MaxPendingBytes (w_cfg w)"
  shows "worker_ok C (push_pending C tx p w)"
    and "mset (pending_txs (push_pending C tx p w)) = add_mset tx (mset (pending_txs w))"
proof -
  let ?e = "\<lparr>pe_tx = tx, pe_priority = p, pe_sequence = w_pendingSeq w + 1\<rparr>"
  note w = worker_okD[OF ok]
  have fresh: "pe_sequence e < w_pendingSeq w + 1" if "e \<in> set (w_pending w)" for e
    using word_succ_greater[OF seq w(2)[OF that]] .
  note push = heap_Push_heap[OF queue_okD(1)[OF w(1)], of ?e]
  have m: "mset (heap_Push ?e (w_pending w)) = mset (?e # w_pending w)" using push(2) by simp
  have q: "queue_ok C (heap_Push ?e (w_pending w)) (fmupd (Transaction_Hash C tx) True (w_pendingSet w))"
    using queue_ok_push[OF w(1), of ?e] new fresh is_pending_iff[OF ok] by fastforce
  show "mset (pending_txs (push_pending C tx p w)) = add_mset tx (mset (pending_txs w))"
    using push(2) by (simp add: push_pending_def Let_def)
  show "worker_ok C (push_pending C tx p w)"
    unfolding worker_ok_def
  proof (intro conjI ballI)
    fix e assume "e \<in> set (w_pending (push_pending C tx p w))"
    then have "e = ?e \<or> e \<in> set (w_pending w)"
      using mset_eq_setD[OF m] by (simp add: push_pending_def Let_def)
    then show "pe_sequence e \<le> w_pendingSeq (push_pending C tx p w)"
      using fresh by (auto simp: push_pending_def Let_def intro: less_imp_le)
  next
    show "w_pendingBytes (push_pending C tx p w) = tx_bytes (pending_txs (push_pending C tx p w))"
      using w(3) tx_bytes_mset[OF m, of pe_tx] by (simp add: push_pending_def Let_def)
  qed (use q room push(3) in \<open>auto simp: push_pending_def Let_def\<close>)
qed

lemma worker_ok_frame [simp]:
  "worker_ok C (w\<lparr>w_triggerCh := b\<rparr>) = worker_ok C w"
  "worker_ok C (w\<lparr>w_running := b\<rparr>) = worker_ok C w"
  "worker_ok C (w\<lparr>w_round := r\<rparr>) = worker_ok C w"
  "worker_ok C (w\<lparr>w_epoch := r\<rparr>) = worker_ok C w"
  "worker_ok C (w\<lparr>w_ackTracker := at\<rparr>) = worker_ok C w"
  "worker_ok C (w\<lparr>w_txValidator := v\<rparr>) = worker_ok C w"
  "worker_ok C (w\<lparr>w_batchCallback := b\<rparr>) = worker_ok C w"
  by (simp_all add: worker_ok_def)

lemma NewWorker_ok: "worker_ok C (NewWorker i v cfg q)"
  by (simp add: worker_ok_def queue_ok_def NewWorker_def)

lemma push_pending_frame [simp]:
  "w_cfg (push_pending C tx p w) = w_cfg w" "w_running (push_pending C tx p w) = w_running w"
  "w_ackTracker (push_pending C tx p w) = w_ackTracker w"
  "w_pendingSeq (push_pending C tx p w) = w_pendingSeq w + 1"
  "w_pendingBytes (push_pending C tx p w) = w_pendingBytes w + Transaction_Size tx"
  by (simp_all add: push_pending_def Let_def)

lemma HasTx_trigger [simp]: "Worker_HasTx h st (w\<lparr>w_triggerCh := b\<rparr>) = Worker_HasTx h st w"
  by (simp add: Worker_HasTx_def is_pending_def)

text \<open>The outcomes of \<^verbatim>\<open>AddTx\<close> once the validator has admitted the transaction.\<close>

definition admission :: "Worker \<Rightarrow> transaction \<Rightarrow> TxAdmission result" where
  "admission w tx = (case w_txValidator w of None \<Rightarrow> Inr \<lparr>ta_Priority = 0, ta_Sender = []\<rparr> | Some v \<Rightarrow> v tx)"

definition has_room :: "Worker \<Rightarrow> transaction \<Rightarrow> bool" where
  "has_room w tx \<longleftrightarrow> int (length (w_pending w)) < wc_MaxPendingTxs (w_cfg w) \<and>
     w_pendingBytes w + Transaction_Size tx \<le> wc_MaxPendingBytes (w_cfg w)"

lemma AddTx_eq:
  "Worker_AddTx C tx st w =
     (if \<not> w_running w then (w, Some ErrNotRunning)
      else case admission w tx of
        Inl _ \<Rightarrow> (w, Some ErrTxValidationFailed)
      | Inr a \<Rightarrow>
          if Worker_HasTx (Transaction_Hash C tx) st w then (w, None)
          else if has_room w tx
            then ((push_pending C tx (ta_Priority a) w)
                   \<lparr>w_triggerCh := w_triggerCh w \<or>
                      int (length (w_pending (push_pending C tx (ta_Priority a) w))) \<ge> wc_BatchSize (w_cfg w) \<or>
                      0 < wc_BatchBytes (w_cfg w) \<and>
                      wc_BatchBytes (w_cfg w) \<le> w_pendingBytes w + Transaction_Size tx\<rparr>, None)
          else (w, Some ErrWorkerBackpressure))"
  by (auto simp: Worker_AddTx_def admission_def has_room_def Worker_HasTx_def priorityQueue_Len_def
      push_pending_def Let_def split: sum.splits option.splits)

lemma AddTx_ok:
  assumes "worker_ok C w" and "w_pendingSeq w \<noteq> - 1"
  shows "worker_ok C (fst (Worker_AddTx C tx st w))"
  using assms push_pending_ok(1)[OF assms]
  by (auto simp: AddTx_eq has_room_def Worker_HasTx_def split: sum.splits)

lemma DrainPending_ok: "worker_ok C w \<Longrightarrow> worker_ok C (fst (Worker_DrainPending w))"
  by (auto simp: Worker_DrainPending_def worker_ok_def queue_ok_def)

text \<open>Taking a batch out of the queue, whatever happens to it afterwards.\<close>

lemma tryCreateBatch_taken:
  assumes ok: "worker_ok C w" and ne: "w_pending w \<noteq> []" and bs: "0 < wc_BatchSize (w_cfg w)"
  defines "zs \<equiv> sort_key entry_key (w_pending w)"
  obtains m pq ps where "0 < m" and "m \<le> length (w_pending w)" and "int m \<le> wc_BatchSize (w_cfg w)"
    and "mset pq = mset (drop m zs)"
    and "worker_ok C (w\<lparr>w_pending := pq, w_pendingSet := ps, w_pendingBytes := tx_bytes (map pe_tx pq)\<rparr>)"
    and "m < length (w_pending w) \<and> int m < wc_BatchSize (w_cfg w) \<longrightarrow>
           0 < wc_BatchBytes (w_cfg w) \<and> wc_BatchBytes (w_cfg w) < tx_bytes (map pe_tx (take (Suc m) zs))"
    and "0 < wc_BatchBytes (w_cfg w) \<and> 1 < m \<longrightarrow> tx_bytes (map pe_tx (take m zs)) \<le> wc_BatchBytes (w_cfg w)"
    and "Worker_tryCreateBatch C now st w = finish_batch C now (map pe_tx (take m zs)) st
           (w\<lparr>w_pending := pq, w_pendingSet := ps, w_pendingBytes := tx_bytes (map pe_tx pq)\<rparr>)"
proof -
  let ?len = "length (w_pending w)"
  define maxCount where "maxCount = batch_maxCount w"
  have maxCount: "maxCount = min (wc_BatchSize (w_cfg w)) (int ?len)"
    by (simp add: maxCount_def batch_maxCount_def priorityQueue_Len_def Let_def)
  note w = worker_okD[OF ok]
  have mc: "nat maxCount \<le> ?len" "0 < nat maxCount" "int (nat maxCount) = maxCount"
    using bs ne by (auto simp: maxCount)
  obtain m pq ps where c: "m \<le> nat maxCount" "0 < m" "queue_ok C pq ps" "mset pq = mset (drop m zs)"
    "collect_batch C (wc_BatchBytes (w_cfg w)) (nat maxCount) [] 0 (w_pending w) (w_pendingSet w) =
       (map pe_tx (take m zs), tx_bytes (map pe_tx (take m zs)), pq, ps)"
    "m < nat maxCount \<Longrightarrow> 0 < wc_BatchBytes (w_cfg w) \<and>
       wc_BatchBytes (w_cfg w) < tx_bytes (map pe_tx (take (Suc m) zs))"
    "0 < wc_BatchBytes (w_cfg w) \<Longrightarrow> 1 < m \<Longrightarrow> tx_bytes (map pe_tx (take m zs)) \<le> wc_BatchBytes (w_cfg w)"
    using collect_batch_sorted[OF w(1) mc(1), of "wc_BatchBytes (w_cfg w)", folded zs_def] mc(2) by blast
  have "mset (w_pending w) = mset (take m zs) + mset (drop m zs)"
    unfolding zs_def by (metis append_take_drop_id mset_append mset_sort)
  then have split: "mset (w_pending w) = mset (take m zs @ pq)" using c(4) by simp
  have bytes: "w_pendingBytes w - tx_bytes (map pe_tx (take m zs)) = tx_bytes (map pe_tx pq)"
    using w(3) tx_bytes_mset[OF split, of pe_tx] by simp
  have len: "length pq \<le> ?len" using arg_cong[OF split, of size] by simp
  have sub: "set pq \<subseteq> set (w_pending w)" using mset_eq_setD[OF split] by simp
  have ok1: "worker_ok C (w\<lparr>w_pending := pq, w_pendingSet := ps, w_pendingBytes := tx_bytes (map pe_tx pq)\<rparr>)"
    using c(3) sub w(2,4,5) len bytes tx_bytes_nonneg[of "map pe_tx (take m zs)"]
    unfolding worker_ok_def by auto
  have eq: "Worker_tryCreateBatch C now st w = finish_batch C now (map pe_tx (take m zs)) st
      (w\<lparr>w_pending := pq, w_pendingSet := ps, w_pendingBytes := tx_bytes (map pe_tx pq)\<rparr>)"
    using ne c(5) bytes
    by (simp add: Worker_tryCreateBatch_def maxCount_def priorityQueue_Len_def)
  have "m < nat maxCount" if "m < ?len" "int m < wc_BatchSize (w_cfg w)"
    using that by (auto simp: maxCount)
  then show ?thesis
    using c ok1 eq mc by (intro that[of m pq ps]) (auto simp: maxCount)
qed

lemma requeue_ok:
  assumes "worker_ok C w" and "unat (w_pendingSeq w) + length txs < 2 ^ 64"
    and "distinct (map (Transaction_Hash C) txs)"
    and "\<forall>tx \<in> set txs. \<not> is_pending w (Transaction_Hash C tx)"
    and "int (length (w_pending w)) + int (length txs) \<le> wc_MaxPendingTxs (w_cfg w)"
    and "w_pendingBytes w + tx_bytes txs \<le> wc_MaxPendingBytes (w_cfg w)"
  shows "worker_ok C (Worker_requeueTransactions C txs w) \<and>
    mset (pending_txs (Worker_requeueTransactions C txs w)) = mset txs + mset (pending_txs w)"
  using assms
proof (induction txs arbitrary: w)
  case (Cons tx txs)
  have bytes: "w_pendingBytes w + Transaction_Size tx \<le> wc_MaxPendingBytes (w_cfg w)"
    using Cons.prems(6) tx_bytes_nonneg[of txs] unfolding list.map sum_list.Cons by linarith
  have room: "int (length (w_pending w)) < wc_MaxPendingTxs (w_cfg w)" using Cons.prems(5) by simp
  have new: "\<not> is_pending w (Transaction_Hash C tx)" using Cons.prems(4) by simp
  have max: "unat (- 1 :: u64) = 2 ^ 64 - 1" by (simp add: unsigned_minus_1_eq_mask mask_eq_exp_minus_1)
  have seq: "w_pendingSeq w \<noteq> - 1"
  proof
    assume "w_pendingSeq w = - 1"
    then show False using Cons.prems(2) max by simp
  qed
  let ?w = "push_pending C tx 0 w"
  note p = push_pending_ok[OF Cons.prems(1) seq new room bytes, of 0]
  have "1 + w_pendingSeq w \<noteq> 0" using seq by (simp add: add_eq_0_iff)
  then have "unat (w_pendingSeq ?w) = Suc (unat (w_pendingSeq w))"
    using unatSuc[of "w_pendingSeq w"] by (simp add: add.commute)
  moreover have len: "length (w_pending ?w) = Suc (length (w_pending w))"
    using arg_cong[OF p(2), of size] by simp
  moreover have "\<not> is_pending ?w (Transaction_Hash C t)" if "t \<in> set txs" for t
  proof -
    have "set (pending_txs ?w) = insert tx (set (pending_txs w))"
      using p(2) by (metis set_mset_add_mset_insert set_mset_mset)
    moreover have "Transaction_Hash C tx \<notin> Transaction_Hash C ` set txs" using Cons.prems(3) by simp
    then have "Transaction_Hash C t \<noteq> Transaction_Hash C tx" using that by (metis imageI)
    ultimately show ?thesis
      using Cons.prems(4) that is_pending_iff[OF p(1)] is_pending_iff[OF Cons.prems(1)] by auto
  qed
  ultimately have "worker_ok C (Worker_requeueTransactions C txs ?w) \<and>
      mset (pending_txs (Worker_requeueTransactions C txs ?w)) = mset txs + mset (pending_txs ?w)"
    using Cons.prems p(1) by (intro Cons.IH) auto
  then show ?case using new room bytes p(2) by (simp add: priorityQueue_Len_def)
qed simp

section \<open>Runs of a worker\<close>

text \<open>
  What can happen to a worker whose batch size is positive and whose sequence counter does not
  wrap, with storage that other workers may change as well.
\<close>

inductive worker_run :: "crypto \<Rightarrow> Worker \<Rightarrow> storage \<Rightarrow> bool" for C where
  new: "0 < wc_BatchSize cfg \<Longrightarrow> storage_ok st \<Longrightarrow> worker_run C (NewWorker i v cfg q) st"
| start: "worker_run C w st \<Longrightarrow> worker_run C (fst (Worker_Start w)) st"
| validator: "worker_run C w st \<Longrightarrow> worker_run C (Worker_SetTxValidator f w) st"
| callback: "worker_run C w st \<Longrightarrow> worker_run C (Worker_SetBatchCallback b w) st"
| round: "worker_run C w st \<Longrightarrow> worker_run C (Worker_SetRound r w) st"
| epoch: "worker_run C w st \<Longrightarrow> worker_run C (Worker_SetEpoch r w) st"
| add: "worker_run C w st \<Longrightarrow> w_pendingSeq w \<noteq> - 1 \<Longrightarrow> worker_run C (fst (Worker_AddTx C tx st w)) st"
| loop: "worker_run C w st \<Longrightarrow> Worker_batchLoop_step C now ev st w = (w', st', out) \<Longrightarrow> worker_run C w' st'"
| ack: "worker_run C w st \<Longrightarrow> worker_run C (fst (Worker_RecordAck now d i w)) st"
| drain: "worker_run C w st \<Longrightarrow> worker_run C (fst (Worker_DrainPending w)) st"
| stop: "worker_run C w st \<Longrightarrow> Worker_Stop C now st w = (w', st', out) \<Longrightarrow> worker_run C w' st'"
| others: "worker_run C w st \<Longrightarrow> storage_ok st' \<Longrightarrow> worker_run C w st'"

lemma finish_batch_ok:
  assumes "storage_ok st" and "worker_ok C w"
  shows "worker_ok C (fst (finish_batch C now txs st w))"
    and "storage_ok (fst (snd (finish_batch C now txs st w)))"
    and "w_cfg (fst (finish_batch C now txs st w)) = w_cfg w"
    and "w_pending (fst (finish_batch C now txs st w)) = w_pending w"
  using assms save_batch_ok[OF assms(1)] index_batch_ok(1)
  by (auto simp: finish_batch_def Let_def case_prod_beta)

lemma tryCreateBatch_ok:
  assumes "storage_ok st" and "worker_ok C w" and "0 < wc_BatchSize (w_cfg w)"
    and "Worker_tryCreateBatch C now st w = (w', st', out)"
  shows "worker_ok C w' \<and> storage_ok st' \<and> w_cfg w' = w_cfg w"
proof (cases "w_pending w = []")
  case True
  then show ?thesis using assms by (simp add: Worker_tryCreateBatch_def priorityQueue_Len_def)
next
  case False
  let ?w1 = "\<lambda>pq ps. w\<lparr>w_pending := pq, w_pendingSet := ps, w_pendingBytes := tx_bytes (map pe_tx pq)\<rparr>"
  obtain m pq ps where ok: "worker_ok C (?w1 pq ps)"
    and eq: "Worker_tryCreateBatch C now st w =
         finish_batch C now (map pe_tx (take m (sort_key entry_key (w_pending w)))) st (?w1 pq ps)"
    by (rule tryCreateBatch_taken[OF assms(2) False assms(3), of now st])
  note fin = eq[symmetric, unfolded assms(4)]
  show ?thesis
    using finish_batch_ok[OF assms(1) ok, of now "map pe_tx (take m (sort_key entry_key (w_pending w)))"]
    unfolding fin by simp
qed

lemma AddTx_cfg [simp]: "w_cfg (fst (Worker_AddTx C tx st w)) = w_cfg w"
  by (auto simp: AddTx_eq split: sum.splits)

lemma worker_run_ok: "worker_run C w st \<Longrightarrow> worker_ok C w \<and> storage_ok st \<and> 0 < wc_BatchSize (w_cfg w)"
proof (induction rule: worker_run.induct)
  case (add w st tx)
  then show ?case by (simp add: AddTx_ok)
next
  case (loop w st now ev w' st' out)
  then show ?case
    using tryCreateBatch_ok[of st C w now w' st' out] tryCreateBatch_ok[of st C "w\<lparr>w_triggerCh := False\<rparr>" now w' st' out]
    by (auto simp: Worker_batchLoop_step_def split: loop_event.splits if_splits)
next
  case (stop w st now w' st' out)
  obtain w1 st1 o1 where t: "Worker_tryCreateBatch C now st (w\<lparr>w_running := False\<rparr>) = (w1, st1, o1)"
    by (metis prod_cases3)
  then show ?case
    using stop tryCreateBatch_ok[OF _ _ _ t]
    by (auto simp: Worker_Stop_def case_prod_beta split: if_splits)
qed (auto simp: NewWorker_ok Worker_Start_def Worker_SetTxValidator_def Worker_SetBatchCallback_def
      Worker_SetRound_def Worker_SetEpoch_def Worker_RecordAck_def case_prod_beta
      Worker_DrainPending_def worker_ok_def queue_ok_def NewWorker_def)

section \<open>Properties\<close>


definition demo_cfg :: WorkerConfig where
  "demo_cfg = \<lparr>wc_BatchSize = 2, wc_BatchBytes = 10, wc_BatchTimeout = 1, wc_MaxPendingTxs = 5,
               wc_MaxPendingBytes = 100, wc_AckTimeout = 10\<rparr>"

definition demo_storage :: storage where
  "demo_storage = \<lparr>st_batchStore = Some NewMemoryBatchStore, st_txIndex = Some NewMemoryTxIndex\<rparr>"

definition demo_worker :: Worker where
  "demo_worker = fst (Worker_AddTx demo_crypto [7] demo_storage (fst (Worker_Start (NewWorker 0 1 demo_cfg 1))))"

lemma demo_storage_ok: "storage_ok demo_storage"
  by (simp add: storage_ok_def demo_storage_def)

lemma demo_worker_run: "worker_run demo_crypto demo_worker demo_storage"
  unfolding demo_worker_def
  by (intro worker_run.add worker_run.start worker_run.new demo_storage_ok)
     (simp_all add: demo_cfg_def NewWorker_def Worker_Start_def)

lemma demo_worker_eq:
  "demo_worker = (NewWorker 0 1 demo_cfg 1)\<lparr>w_running := True,
     w_pending := [\<lparr>pe_tx = [7], pe_priority = 0, pe_sequence = 1\<rparr>],
     w_pendingSet := fmupd (Transaction_Hash demo_crypto [7]) True fmempty,
     w_pendingBytes := 1, w_pendingSeq := 1\<rparr>"
  by (simp add: demo_worker_def Worker_AddTx_def Worker_Start_def NewWorker_def is_pending_def index_has_def
      demo_storage_def MemoryTxIndex_HasTx_def NewMemoryTxIndex_def demo_cfg_def push_pending_def Let_def
      priorityQueue_Len_def Transaction_Size_def heap_Push_def priorityQueue_Push_def heap_up.simps)




text \<open>
  A storage failure loses no transaction. If the batch cannot be saved, the transactions
  of the batch are put back, so the same transactions are pending as before (with the default
  priority for those put back) and the pool is still consistent.
\<close>

lemma tryCreateBatch_failure_keeps_transactions:
  assumes "worker_run C w st" and "w_pending w \<noteq> []"
    and "0 \<le> wc_MaxPendingTxs (w_cfg w)" and "0 \<le> wc_MaxPendingBytes (w_cfg w)"
    and "unat (w_pendingSeq w) + length (w_pending w) < 2 ^ 64"
    and "st_batchStore st' = Some bs" and "mbs_closed bs"
    and "Worker_tryCreateBatch C now st' w = (w', st'', out, cb)"
  shows "mset (pending_txs w') = mset (pending_txs w) \<and> worker_ok C w' \<and> out = None"
proof -
  have ok: "worker_ok C w" and bsz: "0 < wc_BatchSize (w_cfg w)" using worker_run_ok[OF assms(1)] by blast+
  note w = worker_okD[OF ok]
  let ?w1 = "\<lambda>pq ps. w\<lparr>w_pending := pq, w_pendingSet := ps, w_pendingBytes := tx_bytes (map pe_tx pq)\<rparr>"
  define zs where "zs = sort_key entry_key (w_pending w)"
  obtain m pq ps where m: "m \<le> length (w_pending w)" "mset pq = mset (drop m zs)" "worker_ok C (?w1 pq ps)"
    and eq: "Worker_tryCreateBatch C now st' w = finish_batch C now (map pe_tx (take m zs)) st' (?w1 pq ps)"
    unfolding zs_def by (rule tryCreateBatch_taken[OF ok assms(2) bsz, of now st'])
  have fail: "w' = Worker_requeueTransactions C (map pe_tx (take m zs)) (?w1 pq ps)" "out = None"
    using eq assms(6-8) by (auto simp: finish_batch_def save_batch_def MemoryBatchStore_SaveBatch_def Let_def)
  have "mset (w_pending w) = mset (take m zs) + mset (drop m zs)"
    unfolding zs_def by (metis append_take_drop_id mset_append mset_sort)
  then have split: "mset (w_pending w) = mset (take m zs @ pq)" using m(2) by simp
  have dist: "distinct (map (Transaction_Hash C \<circ> pe_tx) (take m zs @ pq))"
    using queue_okD(3)[OF w(1)] unfolding mset_distinct_map[OF split] .
  have len: "length (take m zs) + length pq = length (w_pending w)" using arg_cong[OF split, of size] by simp
  have "worker_ok C w' \<and> mset (pending_txs w') = mset (map pe_tx (take m zs)) + mset (pending_txs (?w1 pq ps))"
    unfolding fail(1)
  proof (rule requeue_ok)
    show "\<forall>tx \<in> set (map pe_tx (take m zs)). \<not> is_pending (?w1 pq ps) (Transaction_Hash C tx)"
      using dist is_pending_iff[OF m(3)] by fastforce
    show "w_pendingBytes (?w1 pq ps) + tx_bytes (map pe_tx (take m zs)) \<le> wc_MaxPendingBytes (w_cfg (?w1 pq ps))"
      using w(3,5) assms(4) tx_bytes_mset[OF split, of pe_tx] by simp
  qed (use m(3) dist len w(4) assms(3,5) in auto)
  then show ?thesis
    using fail(2) arg_cong[OF split, of "image_mset pe_tx"] by simp
qed

lemma tryCreateBatch_failure_keeps_transactions_example:
  "let st = \<lparr>st_batchStore = Some (fst (MemoryBatchStore_Close NewMemoryBatchStore)), st_txIndex = None\<rparr>
   in mset (pending_txs (fst (Worker_tryCreateBatch demo_crypto 5 st demo_worker))) = {#[7]#}"
proof -
  let ?bs = "fst (MemoryBatchStore_Close NewMemoryBatchStore)"
  let ?st = "\<lparr>st_batchStore = Some ?bs, st_txIndex = None\<rparr>"
  obtain w' st' b cb where t: "Worker_tryCreateBatch demo_crypto 5 ?st demo_worker = (w', st', b, cb)"
    by (metis prod_cases4)
  have "mbs_closed ?bs" by (simp add: MemoryBatchStore_Close_def)
  then show ?thesis
    using tryCreateBatch_failure_keeps_transactions[OF demo_worker_run _ _ _ _ _ _ t, of ?bs] t
    by (simp add: demo_worker_eq NewWorker_def demo_cfg_def)
qed

text \<open>
  The outcomes of \<^verbatim>\<open>AddTx\<close>. It fails exactly when the worker does not run, the
  validator rejects the transaction, or the transaction is new and a limit would be exceeded, and then
  changes nothing. When it succeeds the transaction is known afterwards and is queued at most once.
\<close>

lemma AddTx_outcomes:
  assumes "worker_run C w st" and "w_pendingSeq w \<noteq> - 1" and "Worker_AddTx C tx st w = (w', e)"
  shows "(e = Some ErrNotRunning \<longleftrightarrow> \<not> w_running w) \<and>
    (e = Some ErrTxValidationFailed \<longleftrightarrow> w_running w \<and> (\<exists>r. admission w tx = Inl r)) \<and>
    (e = Some ErrWorkerBackpressure \<longleftrightarrow> w_running w \<and> (\<exists>a. admission w tx = Inr a) \<and>
       \<not> Worker_HasTx (Transaction_Hash C tx) st w \<and> \<not> has_room w tx) \<and>
    (e \<noteq> None \<longrightarrow> w' = w) \<and>
    (e = None \<longrightarrow> Worker_HasTx (Transaction_Hash C tx) st w' \<and>
       mset (pending_txs w') = mset (pending_txs w) +
         (if Worker_HasTx (Transaction_Hash C tx) st w then {#} else {#tx#}))"
proof -
  have ok: "worker_ok C w" using worker_run_ok[OF assms(1)] by blast
  have pushed: "mset (pending_txs (push_pending C tx p w)) = add_mset tx (mset (pending_txs w))"
    "Worker_HasTx (Transaction_Hash C tx) st (push_pending C tx p w)"
    if "\<not> Worker_HasTx (Transaction_Hash C tx) st w" "has_room w tx" for p
    using that push_pending_ok(2)[OF ok assms(2)]
    by (auto simp: Worker_HasTx_def has_room_def is_pending_def push_pending_def Let_def split: if_splits)
  show ?thesis
  proof (cases "w_running w")
    case False
    then show ?thesis using assms(3) by (auto simp: AddTx_eq)
  next
    case True
    show ?thesis
    proof (cases "admission w tx")
      case (Inl r)
      then show ?thesis using assms(3) True by (auto simp: AddTx_eq)
    next
      case (Inr a)
      then show ?thesis
        using assms(3) True pushed[of "ta_Priority a"]
        by (cases "Worker_HasTx (Transaction_Hash C tx) st w"; cases "has_room w tx") (auto simp: AddTx_eq)
    qed
  qed
qed

lemma AddTx_outcomes_example:
  "Worker_HasTx (Transaction_Hash demo_crypto [7, 7]) demo_storage
     (fst (Worker_AddTx demo_crypto [7, 7] demo_storage demo_worker))"
proof -
  obtain w' e where a: "Worker_AddTx demo_crypto [7, 7] demo_storage demo_worker = (w', e)" by fastforce
  have "w_pendingSeq demo_worker \<noteq> - 1" "w_running demo_worker"
    "admission demo_worker [7, 7] = Inr \<lparr>ta_Priority = 0, ta_Sender = []\<rparr>" "has_room demo_worker [7, 7]"
    by (simp_all add: demo_worker_eq NewWorker_def admission_def has_room_def demo_cfg_def Transaction_Size_def)
  then show ?thesis
    using AddTx_outcomes[OF demo_worker_run _ a] a by (auto simp: AddTx_eq split: if_splits)
qed

end
