(* ===== verification/Worker_Pool.thy ===== *)
theory Worker_Pool
  imports Workers
begin

text \<open>
  The worker pool (\<^verbatim>\<open>worker/pool.go\<close>): routing of transactions by hash, fan-out of settings and
  acknowledgments, and scaling with redistribution of pending transactions.
\<close>

section \<open>State\<close>

record PoolConfig =
  pc_MinWorkers :: int
  pc_MaxWorkers :: int
  pc_Worker :: WorkerConfig

definition DefaultPoolConfig :: PoolConfig where
  "DefaultPoolConfig = \<lparr>pc_MinWorkers = 1, pc_MaxWorkers = 4, pc_Worker = DefaultWorkerConfig\<rparr>"

record Pool =
  p_cfg :: PoolConfig
  p_validatorID :: u16
  p_quorum :: int
  p_workers :: "Worker list"
  p_txValidator :: "TxValidator option"
  p_batchCallback :: bool
  p_quorumCallback :: bool
  p_round :: u64
  p_epoch :: u64
  p_running :: bool
  p_nextID :: u32

section \<open>Operations\<close>

definition NewPool :: "PoolConfig \<Rightarrow> u16 \<Rightarrow> int \<Rightarrow> Pool" where
  "NewPool cfg validatorID quorum =
     \<lparr>p_cfg = cfg, p_validatorID = validatorID, p_quorum = quorum, p_workers = [],
      p_txValidator = None, p_batchCallback = False, p_quorumCallback = False,
      p_round = 0, p_epoch = 0, p_running = False, p_nextID = 0\<rparr>"

definition Pool_SetTxValidator :: "TxValidator option \<Rightarrow> Pool \<Rightarrow> Pool" where
  "Pool_SetTxValidator validator p =
     p\<lparr>p_txValidator := validator, p_workers := map (Worker_SetTxValidator validator) (p_workers p)\<rparr>"

definition Pool_SetBatchCallback :: "bool \<Rightarrow> Pool \<Rightarrow> Pool" where
  "Pool_SetBatchCallback callback p =
     p\<lparr>p_batchCallback := callback, p_workers := map (Worker_SetBatchCallback callback) (p_workers p)\<rparr>"

definition Pool_SetAckQuorumCallback :: "bool \<Rightarrow> Pool \<Rightarrow> Pool" where
  "Pool_SetAckQuorumCallback callback p =
     p\<lparr>p_quorumCallback := callback, p_workers := map (Worker_SetAckQuorumCallback callback) (p_workers p)\<rparr>"

definition Pool_addWorkerLocked :: "Pool \<Rightarrow> Pool \<times> err option" where
  "Pool_addWorkerLocked p =
     (let nextID = p_nextID p + 1; wid = ucast (nextID - 1) :: u16;
          w0 = Worker_SetEpoch (p_epoch p) (Worker_SetRound (p_round p)
                 (NewWorker wid (p_validatorID p) (pc_Worker (p_cfg p)) (p_quorum p)));
          w1 = (case p_txValidator p of None \<Rightarrow> w0 | Some v \<Rightarrow> Worker_SetTxValidator (Some v) w0);
          w2 = (if p_batchCallback p then Worker_SetBatchCallback True w1 else w1);
          w3 = (if p_quorumCallback p then Worker_SetAckQuorumCallback True w2 else w2);
          (w4, e) = Worker_Start w3
      in case e of
           Some err \<Rightarrow> (p\<lparr>p_nextID := nextID\<rparr>, Some err)
         | None \<Rightarrow> (p\<lparr>p_nextID := nextID, p_workers := p_workers p @ [w4]\<rparr>, None))"

fun stop_workers ::
  "crypto \<Rightarrow> time \<Rightarrow> storage \<Rightarrow> Worker list \<Rightarrow> storage \<times> Batch list" where
  "stop_workers C now st [] = (st, [])"
| "stop_workers C now st (w # ws) =
     (let (w', st1, b, e) = Worker_Stop C now st w; (st2, bs) = stop_workers C now st1 ws
      in (st2, (case b of None \<Rightarrow> bs | Some x \<Rightarrow> x # bs)))"

definition Pool_Stop :: "crypto \<Rightarrow> time \<Rightarrow> storage \<Rightarrow> Pool \<Rightarrow> Pool \<times> storage \<times> Batch list \<times> err option" where
  "Pool_Stop C now st p =
     (if \<not> p_running p then (p, st, [], Some ErrNotRunning)
      else let (st', bs) = stop_workers C now st (p_workers p)
           in (p\<lparr>p_running := False, p_workers := []\<rparr>, st', bs, None))"

fun add_workers :: "nat \<Rightarrow> Pool \<Rightarrow> Pool \<times> err option" where
  "add_workers 0 p = (p, None)"
| "add_workers (Suc n) p =
     (case Pool_addWorkerLocked p of
        (p', Some e) \<Rightarrow> (p', Some e)
      | (p', None) \<Rightarrow> add_workers n p')"

definition Pool_Start :: "crypto \<Rightarrow> time \<Rightarrow> storage \<Rightarrow> Pool \<Rightarrow> Pool \<times> storage \<times> Batch list \<times> err option" where
  "Pool_Start C now st p =
     (if p_running p then (p, st, [], Some ErrAlreadyRunning)
      else case add_workers (nat (pc_MinWorkers (p_cfg p))) (p\<lparr>p_running := True\<rparr>) of
        (p', None) \<Rightarrow> (p', st, [], None)
      | (p', Some e) \<Rightarrow> (let (p'', st', bs, _) = Pool_Stop C now st p' in (p'', st', bs, Some e)))"

definition Pool_WorkerCount :: "Pool \<Rightarrow> nat" where
  "Pool_WorkerCount p = length (p_workers p)"

text \<open>The first eight bytes of the hash, big endian, modulo the number of workers.\<close>

definition route :: "hash \<Rightarrow> nat \<Rightarrow> nat" where
  "route txHash n = unat ((be_word (take 8 (hash_bytes txHash)) :: u64) mod of_nat n)"

definition Pool_AddTx :: "crypto \<Rightarrow> transaction \<Rightarrow> storage \<Rightarrow> Pool \<Rightarrow> Pool \<times> err option" where
  "Pool_AddTx C tx st p =
     (if \<not> p_running p then (p, Some ErrNotRunning)
      else if length (p_workers p) = 0 then (p, Some ErrNotRunning)
      else let workerIdx = route (Transaction_Hash C tx) (length (p_workers p));
               (w, e) = Worker_AddTx C tx st (p_workers p ! workerIdx)
           in (p\<lparr>p_workers := (p_workers p)[workerIdx := w]\<rparr>, e))"

definition Pool_PendingCount :: "Pool \<Rightarrow> nat" where
  "Pool_PendingCount p = fold (\<lambda>w total. total + Worker_PendingCount w) (p_workers p) 0"

definition Pool_PendingBytes :: "Pool \<Rightarrow> int" where
  "Pool_PendingBytes p = fold (\<lambda>w total. total + Worker_PendingBytes w) (p_workers p) 0"

definition Pool_HasTx :: "hash \<Rightarrow> storage \<Rightarrow> Pool \<Rightarrow> bool" where
  "Pool_HasTx txHash st p = list_ex (Worker_HasTx txHash st) (p_workers p)"

definition Pool_SetRound :: "u64 \<Rightarrow> Pool \<Rightarrow> Pool" where
  "Pool_SetRound rnd p = p\<lparr>p_round := rnd, p_workers := map (Worker_SetRound rnd) (p_workers p)\<rparr>"

definition Pool_SetEpoch :: "u64 \<Rightarrow> Pool \<Rightarrow> Pool" where
  "Pool_SetEpoch epoch p = p\<lparr>p_epoch := epoch, p_workers := map (Worker_SetEpoch epoch) (p_workers p)\<rparr>"

definition Pool_UpdateQuorum :: "int \<Rightarrow> Pool \<Rightarrow> Pool" where
  "Pool_UpdateQuorum quorum p =
     p\<lparr>p_quorum := quorum, p_workers := map (Worker_UpdateQuorum quorum) (p_workers p)\<rparr>"

fun record_ack_workers :: "time \<Rightarrow> hash \<Rightarrow> u16 \<Rightarrow> Worker list \<Rightarrow> Worker list \<times> bool" where
  "record_ack_workers now batchDigest validator [] = ([], False)"
| "record_ack_workers now batchDigest validator (w # ws) =
     (let (w', reached, _) = Worker_RecordAck now batchDigest validator w
      in if reached then (w' # ws, True)
         else let (ws', r) = record_ack_workers now batchDigest validator ws in (w' # ws', r))"

definition Pool_RecordAck :: "time \<Rightarrow> hash \<Rightarrow> u16 \<Rightarrow> Pool \<Rightarrow> Pool \<times> bool" where
  "Pool_RecordAck now batchDigest validator p =
     (let (ws, r) = record_ack_workers now batchDigest validator (p_workers p)
      in (p\<lparr>p_workers := ws\<rparr>, r))"

definition Pool_PendingBatchesBelowQuorum :: "(Worker \<Rightarrow> hash list) \<Rightarrow> time \<Rightarrow> int \<Rightarrow> Pool \<Rightarrow> Batch list" where
  "Pool_PendingBatchesBelowQuorum ord now minAge p =
     concat (map (\<lambda>w. AckTracker_PendingBelowQuorum (ord w) now minAge (w_ackTracker w)) (p_workers p))"

definition Pool_HasBatchAckQuorum :: "hash \<Rightarrow> Pool \<Rightarrow> bool" where
  "Pool_HasBatchAckQuorum batchDigest p =
     list_ex (\<lambda>w. AckTracker_HasQuorum batchDigest (w_ackTracker w)) (p_workers p)"

definition Pool_ScaleUp :: "Pool \<Rightarrow> Pool \<times> bool" where
  "Pool_ScaleUp p =
     (if \<not> p_running p then (p, False)
      else if int (length (p_workers p)) \<ge> pc_MaxWorkers (p_cfg p) then (p, False)
      else case Pool_addWorkerLocked p of
        (p', Some _) \<Rightarrow> (p', False)
      | (p', None) \<Rightarrow> (p', True))"

fun Pool_redistributeTxsLocked :: "crypto \<Rightarrow> transaction list \<Rightarrow> storage \<Rightarrow> Worker list \<Rightarrow> Worker list" where
  "Pool_redistributeTxsLocked C [] st ws = ws"
| "Pool_redistributeTxsLocked C (tx # txs) st ws =
     (if length ws = 0 then ws
      else let workerIdx = route (Transaction_Hash C tx) (length ws);
               (w, _) = Worker_AddTx C tx st (ws ! workerIdx)
           in Pool_redistributeTxsLocked C txs st (ws[workerIdx := w]))"

definition Pool_ScaleDown ::
  "crypto \<Rightarrow> time \<Rightarrow> storage \<Rightarrow> Pool \<Rightarrow> Pool \<times> storage \<times> Batch option \<times> bool" where
  "Pool_ScaleDown C now st p =
     (if \<not> p_running p then (p, st, None, False)
      else if int (length (p_workers p)) \<le> pc_MinWorkers (p_cfg p) then (p, st, None, False)
      else let w = last (p_workers p); ws = butlast (p_workers p);
               (w1, pending) = Worker_DrainPending w;
               (w2, st1, b, _) = Worker_Stop C now st w1;
               ws' = (if length pending > 0 \<and> length ws > 0
                      then Pool_redistributeTxsLocked C pending st1 ws else ws)
           in (p\<lparr>p_workers := ws'\<rparr>, st1, b, True))"

definition Pool_GetWorker :: "int \<Rightarrow> Pool \<Rightarrow> Worker option" where
  "Pool_GetWorker idx p =
     (if idx < 0 \<or> idx \<ge> int (length (p_workers p)) then None else Some (p_workers p ! nat idx))"

section \<open>Routing\<close>

lemma route_less:
  assumes "0 < n" and "n < 2 ^ 64"
  shows "route h n < n"
proof -
  have n: "unat (of_nat n :: u64) = n" using assms(2) by (simp add: unat_of_nat take_bit_nat_eq_self)
  have "(be_word (take 8 (hash_bytes h)) :: u64) mod of_nat n < of_nat n"
    using assms(1) n by (intro word_mod_less_divisor) (simp add: word_less_nat_alt)
  then show ?thesis using n by (simp add: route_def word_less_nat_alt)
qed

section \<open>Redistribution\<close>

text \<open>A worker that can take all of the given transactions.\<close>

definition can_take :: "crypto \<Rightarrow> transaction list \<Rightarrow> Worker \<Rightarrow> bool" where
  "can_take C txs w \<longleftrightarrow> worker_ok C w \<and> w_running w \<and>
     int (length (w_pending w)) + int (length txs) \<le> wc_MaxPendingTxs (w_cfg w) \<and>
     w_pendingBytes w + tx_bytes txs \<le> wc_MaxPendingBytes (w_cfg w) \<and>
     unat (w_pendingSeq w) + length txs < 2 ^ 64 \<and>
     (\<forall>tx \<in> set txs. \<exists>a. admission w tx = Inr a)"

lemma can_take_bytes:
  assumes "can_take C (tx # txs) w"
  shows "w_pendingBytes w + tx_bytes txs \<le> wc_MaxPendingBytes (w_cfg w)"
    and "w_pendingBytes w + Transaction_Size tx \<le> wc_MaxPendingBytes (w_cfg w)"
proof -
  have "w_pendingBytes w + tx_bytes (tx # txs) \<le> wc_MaxPendingBytes (w_cfg w)"
    using assms by (simp only: can_take_def)
  then show "w_pendingBytes w + tx_bytes txs \<le> wc_MaxPendingBytes (w_cfg w)"
    "w_pendingBytes w + Transaction_Size tx \<le> wc_MaxPendingBytes (w_cfg w)"
    using Transaction_Size_nonneg[of tx] tx_bytes_nonneg[of txs] unfolding list.map sum_list.Cons by linarith+
qed

lemma can_take_Cons: "can_take C (tx # txs) w \<Longrightarrow> can_take C txs w"
  using can_take_bytes(1) unfolding can_take_def by fastforce

lemma unat_succ_le: "unat (s + 1 :: 'a::len word) \<le> Suc (unat s)"
proof (cases "1 + s = 0")
  case True
  then have "s + 1 = 0" by (simp add: add.commute)
  then show ?thesis by simp
next
  case False
  then show ?thesis using unatSuc[of s] by (simp add: add.commute)
qed

lemma AddTx_takes:
  assumes "can_take C (tx # txs) w"
  shows "can_take C txs (fst (Worker_AddTx C tx st w))"
    and "Worker_HasTx (Transaction_Hash C tx) st (fst (Worker_AddTx C tx st w))"
    and "Worker_HasTx h st w \<Longrightarrow> Worker_HasTx h st (fst (Worker_AddTx C tx st w))"
proof -
  have w: "worker_ok C w" "w_running w" "int (length (w_pending w)) < wc_MaxPendingTxs (w_cfg w)"
    "w_pendingBytes w + Transaction_Size tx \<le> wc_MaxPendingBytes (w_cfg w)"
    "unat (w_pendingSeq w) + Suc (length txs) < 2 ^ 64"
    using assms can_take_bytes(2)[OF assms] unfolding can_take_def by auto
  obtain a where a: "admission w tx = Inr a" using assms by (auto simp: can_take_def)
  have max: "unat (- 1 :: u64) = 2 ^ 64 - 1" by (simp add: unsigned_minus_1_eq_mask mask_eq_exp_minus_1)
  have seq: "w_pendingSeq w \<noteq> - 1"
  proof
    assume "w_pendingSeq w = - 1"
    then show False using w(5) max by simp
  qed
  show "can_take C txs (fst (Worker_AddTx C tx st w))"
  proof (cases "Worker_HasTx (Transaction_Hash C tx) st w")
    case True
    then show ?thesis using can_take_Cons[OF assms] w(2) a by (simp add: AddTx_eq)
  next
    case False
    let ?w = "push_pending C tx (ta_Priority a) w"
    have new: "\<not> is_pending w (Transaction_Hash C tx)" using False by (auto simp: Worker_HasTx_def)
    note p = push_pending_ok[OF w(1) seq new w(3,4), of "ta_Priority a"]
    have "length (w_pending ?w) = Suc (length (w_pending w))" using arg_cong[OF p(2), of size] by simp
    moreover have "admission ?w t = admission w t" for t
      by (simp add: admission_def push_pending_def Let_def)
    ultimately have "can_take C txs ?w"
      using assms p(1) unat_succ_le[of "w_pendingSeq w"] unfolding can_take_def by auto
    then have "can_take C txs (?w\<lparr>w_triggerCh := b\<rparr>)" for b
      by (simp add: can_take_def admission_def)
    then show ?thesis using False w a by (simp add: AddTx_eq has_room_def)
  qed
  show "Worker_HasTx (Transaction_Hash C tx) st (fst (Worker_AddTx C tx st w))"
    using w a by (auto simp: AddTx_eq has_room_def Worker_HasTx_def is_pending_def push_pending_def Let_def)
  show "Worker_HasTx h st (fst (Worker_AddTx C tx st w))" if "Worker_HasTx h st w"
    using that w a by (auto simp: AddTx_eq has_room_def Worker_HasTx_def is_pending_def push_pending_def Let_def
        split: if_splits)
qed

lemma redistribute_keeps:
  assumes "\<forall>w \<in> set ws. can_take C txs w" and "ws \<noteq> []" and "length ws < 2 ^ 64"
  shows "(h \<in> Transaction_Hash C ` set txs \<or> list_ex (Worker_HasTx h st) ws \<longrightarrow>
            list_ex (Worker_HasTx h st) (Pool_redistributeTxsLocked C txs st ws)) \<and>
         length (Pool_redistributeTxsLocked C txs st ws) = length ws"
  using assms
proof (induction txs arbitrary: ws)
  case (Cons tx txs)
  let ?i = "route (Transaction_Hash C tx) (length ws)"
  let ?w = "fst (Worker_AddTx C tx st (ws ! ?i))"
  have i: "?i < length ws" using route_less Cons.prems by simp
  then have wi: "can_take C (tx # txs) (ws ! ?i)" using Cons.prems(1) by simp
  have "\<forall>w \<in> set (ws[?i := ?w]). can_take C txs w"
    using Cons.prems(1) AddTx_takes(1)[OF wi] can_take_Cons set_update_subset_insert by fastforce
  then have IH: "(h \<in> Transaction_Hash C ` set txs \<or> list_ex (Worker_HasTx h st) (ws[?i := ?w]) \<longrightarrow>
            list_ex (Worker_HasTx h st) (Pool_redistributeTxsLocked C txs st (ws[?i := ?w]))) \<and>
         length (Pool_redistributeTxsLocked C txs st (ws[?i := ?w])) = length ws"
    using Cons.IH[of "ws[?i := ?w]"] Cons.prems by simp
  have "list_ex (Worker_HasTx h st) (ws[?i := ?w])"
    if "h = Transaction_Hash C tx \<or> list_ex (Worker_HasTx h st) ws"
    using that AddTx_takes(2,3)[OF wi, where st = st] i
    by (auto simp: list_ex_length nth_list_update) (metis (full_types))+
  then show ?case using IH i by (auto simp: case_prod_beta Let_def)
qed simp

lemma Stop_drained:
  "w_pending w = [] \<Longrightarrow> fst (snd (Worker_Stop C now st w)) = st"
  by (simp add: Worker_Stop_def Worker_tryCreateBatch_def priorityQueue_Len_def)

section \<open>Properties\<close>

text \<open>
  \<^bold>\<open>C18\<close>: scaling down loses no transaction as long as the remaining workers have room. If
  every remaining worker runs, admits the drained transactions and has room for them, then every
  transaction the pool knew before is known afterwards, exactly one worker is gone, and the storage
  is untouched.
\<close>

theorem ScaleDown_keeps_transactions:
  assumes "p_running p" and "pc_MinWorkers (p_cfg p) < int (length (p_workers p))"
    and "2 \<le> length (p_workers p)" and "length (p_workers p) < 2 ^ 64"
    and "worker_ok C (last (p_workers p))"
    and "\<forall>w \<in> set (butlast (p_workers p)). can_take C (pending_txs (last (p_workers p))) w"
    and "Pool_ScaleDown C now st p = (p', st', b, r)"
  shows "r \<and> st' = st \<and> Suc (Pool_WorkerCount p') = Pool_WorkerCount p \<and>
         (Pool_HasTx h st p \<longrightarrow> Pool_HasTx h st' p')"
proof -
  let ?w = "last (p_workers p)" and ?ws = "butlast (p_workers p)"
  let ?d = "fst (Worker_DrainPending ?w)" and ?pend = "snd (Worker_DrainPending ?w)"
  have pend: "?pend = pending_txs ?w" "w_pending ?d = []"
    by (auto simp: Worker_DrainPending_def priorityQueue_Len_def)
  have st: "fst (snd (Worker_Stop C now st ?d)) = st" using pend(2) by (rule Stop_drained)
  have ne: "?ws \<noteq> []" using assms(3) by (cases "p_workers p" rule: rev_cases) auto
  have split: "p_workers p = ?ws @ [?w]" using assms(3) by (intro append_butlast_last_id[symmetric]) auto
  let ?ws' = "if length ?pend > 0 \<and> length ?ws > 0 then Pool_redistributeTxsLocked C ?pend st ?ws else ?ws"
  have ScaleDown: "Pool_ScaleDown C now st p =
      (p\<lparr>p_workers := ?ws'\<rparr>, st, fst (snd (snd (Worker_Stop C now st ?d))), True)"
    using assms(1,2) st unfolding Pool_ScaleDown_def Let_def case_prod_beta by (simp del: length_butlast)
  have eq: "p' = p\<lparr>p_workers := ?ws'\<rparr>" "st' = st" "r"
    using assms(1,2,7) ScaleDown by auto
  have red: "(h \<in> Transaction_Hash C ` set ?pend \<or> list_ex (Worker_HasTx h st) ?ws \<longrightarrow>
            list_ex (Worker_HasTx h st) (Pool_redistributeTxsLocked C ?pend st ?ws)) \<and>
         length (Pool_redistributeTxsLocked C ?pend st ?ws) = length ?ws"
    using redistribute_keeps[of ?ws C ?pend] assms(4,6) pend(1) ne by simp
  have last_known: "Worker_HasTx h st ?w \<longrightarrow> h \<in> Transaction_Hash C ` set ?pend \<or> index_has st h"
    using is_pending_iff[OF assms(5), of h] by (auto simp: Worker_HasTx_def pend(1))
  have idx: "list_ex (Worker_HasTx h st) ws" if "index_has st h" "ws \<noteq> []" for ws
    using that by (cases ws) (auto simp: Worker_HasTx_def)
  have "list_ex (Worker_HasTx h st) ?ws'" if "list_ex (Worker_HasTx h st) (p_workers p)"
  proof (cases "index_has st h")
    case True
    then show ?thesis using idx[OF True ne] red by auto
  next
    case False
    then have "h \<in> Transaction_Hash C ` set ?pend \<or> list_ex (Worker_HasTx h st) ?ws"
      using that last_known by (subst (asm) split) auto
    then show ?thesis using red ne by auto
  qed
  moreover have "length ?ws' = length (p_workers p) - 1" using red by auto
  ultimately show ?thesis
    using eq assms(3) by (auto simp: Pool_HasTx_def Pool_WorkerCount_def)
qed

definition demo_pool :: "Worker list \<Rightarrow> Pool" where
  "demo_pool ws = (NewPool \<lparr>pc_MinWorkers = 1, pc_MaxWorkers = 4, pc_Worker = demo_cfg\<rparr> 1 1)
     \<lparr>p_running := True, p_workers := ws\<rparr>"

theorem ScaleDown_keeps_transactions_witness:
  "let w0 = fst (Worker_Start (NewWorker 0 1 demo_cfg 1)); p = demo_pool [w0, demo_worker];
       (p', st', b, r) = Pool_ScaleDown demo_crypto 5 demo_storage p
   in r \<and> Pool_WorkerCount p' = 1 \<and> Pool_HasTx (Transaction_Hash demo_crypto [7]) st' p'"
proof -
  let ?w0 = "fst (Worker_Start (NewWorker 0 1 demo_cfg 1))"
  let ?p = "demo_pool [?w0, demo_worker]"
  have ok: "worker_ok demo_crypto demo_worker" using worker_run_ok[OF demo_worker_run] by blast
  have "worker_ok demo_crypto ?w0" by (simp add: Worker_Start_def NewWorker_ok NewWorker_def[of 0 1 demo_cfg 1] worker_ok_def queue_ok_def)
  then have take: "can_take demo_crypto (pending_txs demo_worker) ?w0"
    by (simp add: can_take_def Worker_Start_def NewWorker_def demo_worker_eq demo_cfg_def admission_def
        Transaction_Size_def)
  obtain p' st' b r where s: "Pool_ScaleDown demo_crypto 5 demo_storage ?p = (p', st', b, r)"
    by (metis prod_cases4)
  have "Pool_HasTx (Transaction_Hash demo_crypto [7]) demo_storage ?p"
    by (simp add: Pool_HasTx_def demo_pool_def Worker_HasTx_def demo_worker_eq is_pending_def)
  moreover have "p_running ?p" "pc_MinWorkers (p_cfg ?p) = 1" "p_workers ?p = [?w0, demo_worker]"
    by (simp_all add: demo_pool_def NewPool_def)
  ultimately have "r \<and> st' = demo_storage \<and> Suc (Pool_WorkerCount p') = Pool_WorkerCount ?p \<and>
      (Pool_HasTx (Transaction_Hash demo_crypto [7]) demo_storage ?p \<longrightarrow>
       Pool_HasTx (Transaction_Hash demo_crypto [7]) st' p')"
    using ok take by (intro ScaleDown_keeps_transactions[OF _ _ _ _ _ _ s]) simp_all
  then show ?thesis
    unfolding Let_def s using \<open>Pool_HasTx _ _ _\<close> \<open>p_workers ?p = _\<close> by (auto simp: Pool_WorkerCount_def)
qed

text \<open>
  The duplicate check is local to a worker. When the number of workers has changed, a
  transaction that is pending in one worker and is now routed to another one is accepted again:
  \<^verbatim>\<open>AddTx\<close> succeeds and the transaction is pending in both.
\<close>

lemma AddTx_duplicate_across_workers:
  assumes "p_running p" and "i < length (p_workers p)" and "length (p_workers p) < 2 ^ 64"
    and "route (Transaction_Hash C tx) (length (p_workers p)) = j" and "i \<noteq> j"
    and "is_pending (p_workers p ! i) (Transaction_Hash C tx)"
    and "w_running (p_workers p ! j)" and "admission (p_workers p ! j) tx = Inr a"
    and "\<not> Worker_HasTx (Transaction_Hash C tx) st (p_workers p ! j)" and "has_room (p_workers p ! j) tx"
  shows "case Pool_AddTx C tx st p of (p', e) \<Rightarrow>
     e = None \<and> is_pending (p_workers p' ! i) (Transaction_Hash C tx) \<and>
     is_pending (p_workers p' ! j) (Transaction_Hash C tx)"
proof -
  have j: "j < length (p_workers p)"
    using route_less[of "length (p_workers p)" "Transaction_Hash C tx"] assms(2,3,4) by linarith
  have "is_pending (fst (Worker_AddTx C tx st (p_workers p ! j))) (Transaction_Hash C tx)"
    using assms(7-10) by (simp add: AddTx_eq is_pending_def push_pending_def Let_def)
  moreover have "snd (Worker_AddTx C tx st (p_workers p ! j)) = None"
    using assms(7-10) by (simp add: AddTx_eq)
  ultimately show ?thesis
    using assms(1,2,4,5,6) j by (auto simp: Pool_AddTx_def Let_def case_prod_beta)
qed

lemma AddTx_duplicate_across_workers_example:
  "let C = demo_crypto\<lparr>Sha256 := \<lambda>bs. push_bit 192 (of_nat (length bs))\<rparr>;
       st = \<lparr>st_batchStore = None, st_txIndex = None\<rparr>; h = Transaction_Hash C [7];
       p0 = demo_pool [fst (Worker_Start (NewWorker 0 1 demo_cfg 1))];
       p1 = fst (Pool_AddTx C [7] st p0); p2 = fst (Pool_ScaleUp p1); p3 = fst (Pool_AddTx C [7] st p2)
   in is_pending (p_workers p3 ! 0) h \<and> is_pending (p_workers p3 ! 1) h"
proof -
  let ?C = "demo_crypto\<lparr>Sha256 := \<lambda>bs. push_bit 192 (of_nat (length bs))\<rparr>"
  let ?st = "\<lparr>st_batchStore = None, st_txIndex = None\<rparr>"
  let ?h = "Transaction_Hash ?C [7]"
  let ?p1 = "fst (Pool_AddTx ?C [7] ?st (demo_pool [fst (Worker_Start (NewWorker 0 1 demo_cfg 1))]))"
  let ?p2 = "fst (Pool_ScaleUp ?p1)"
  have h: "?h = push_bit 192 1" by (simp add: Transaction_Hash_def HashBytes_def)
  have r: "route ?h 1 = 0" "route ?h 2 = 1"
    unfolding h by code_simp+
  let ?w1 = "fst (Worker_AddTx ?C [7] ?st (fst (Worker_Start (NewWorker 0 1 demo_cfg 1))))"
  have p1: "?p1 = demo_pool [?w1]"
    using r by (simp add: Pool_AddTx_def demo_pool_def NewPool_def case_prod_beta Let_def)
  have ws: "p_workers ?p2 = [?w1, fst (Worker_Start (NewWorker 0 1 demo_cfg 1))]"
    unfolding p1 by (simp add: Pool_ScaleUp_def demo_pool_def NewPool_def Pool_addWorkerLocked_def Let_def
        Worker_Start_def Worker_SetEpoch_def Worker_SetRound_def NewWorker_def)
  moreover have "p_running ?p2"
    unfolding p1 by (simp add: Pool_ScaleUp_def demo_pool_def NewPool_def Pool_addWorkerLocked_def Let_def
        Worker_Start_def Worker_SetEpoch_def Worker_SetRound_def NewWorker_def)
  moreover have "is_pending ?w1 ?h"
    by (simp add: AddTx_eq Worker_Start_def NewWorker_def admission_def Worker_HasTx_def is_pending_def
        index_has_def has_room_def demo_cfg_def Transaction_Size_def push_pending_def Let_def)
  moreover have "has_room (fst (Worker_Start (NewWorker 0 1 demo_cfg 1))) [7]"
    "\<not> Worker_HasTx ?h ?st (fst (Worker_Start (NewWorker 0 1 demo_cfg 1)))"
    "w_running (fst (Worker_Start (NewWorker 0 1 demo_cfg 1)))"
    "admission (fst (Worker_Start (NewWorker 0 1 demo_cfg 1))) [7] = Inr \<lparr>ta_Priority = 0, ta_Sender = []\<rparr>"
    by (simp_all add: Worker_Start_def NewWorker_def admission_def Worker_HasTx_def is_pending_def
        index_has_def has_room_def demo_cfg_def Transaction_Size_def)
  ultimately have "case Pool_AddTx ?C [7] ?st ?p2 of (p', e) \<Rightarrow>
      e = None \<and> is_pending (p_workers p' ! 0) ?h \<and> is_pending (p_workers p' ! 1) ?h"
    using r(2)[unfolded numeral_2_eq_2]
    by (intro AddTx_duplicate_across_workers[where a = "\<lparr>ta_Priority = 0, ta_Sender = []\<rparr>"])
      (simp_all only: ws nth_Cons_0 nth_Cons_Suc One_nat_def list.size, simp_all)
  then show ?thesis by (simp add: case_prod_beta Let_def)
qed

text \<open>
  Acknowledgments do not survive scaling down. A batch that only the removed worker
  tracks has no quorum afterwards, even if it had one, and no later acknowledgment is counted, so the
  primary can no longer include it in a header.
\<close>

lemma AddTx_tracker [simp]: "w_ackTracker (fst (Worker_AddTx C tx st w)) = w_ackTracker w"
  by (auto simp: AddTx_eq split: sum.splits)

lemma redistribute_trackers:
  "length ws < 2 ^ 64 \<Longrightarrow> map w_ackTracker (Pool_redistributeTxsLocked C txs st ws) = map w_ackTracker ws"
proof (induction txs arbitrary: ws)
  case (Cons tx txs)
  let ?i = "route (Transaction_Hash C tx) (length ws)"
  show ?case
  proof (cases "ws = []")
    case False
    then have "?i < length ws" using route_less[of "length ws"] Cons.prems by simp
    then have "map w_ackTracker (ws[?i := fst (Worker_AddTx C tx st (ws ! ?i))]) = map w_ackTracker ws"
      by (simp add: map_update) (metis length_map list_update_id nth_map)
    then show ?thesis
      using False Cons.IH[of "ws[?i := fst (Worker_AddTx C tx st (ws ! ?i))]"] Cons.prems
      by (simp add: case_prod_beta Let_def)
  qed simp
qed simp

lemma record_ack_untracked:
  "\<forall>w \<in> set ws. \<not> map_has (at_pending (w_ackTracker w)) d \<Longrightarrow> \<not> snd (record_ack_workers now d i ws)"
  by (induction ws)
     (auto simp: Worker_RecordAck_def AckTracker_RecordAck_def map_has_def case_prod_beta split: option.splits)

lemma ScaleDown_forgets_acks:
  assumes "p_running p" and "pc_MinWorkers (p_cfg p) < int (length (p_workers p))"
    and "length (p_workers p) < 2 ^ 64"
    and "\<forall>w \<in> set (butlast (p_workers p)). \<not> map_has (at_pending (w_ackTracker w)) d"
    and "Pool_ScaleDown C now st p = (p', st', b, r)"
  shows "\<not> Pool_HasBatchAckQuorum d p' \<and> \<not> snd (Pool_RecordAck now' d i p')"
proof -
  have "map w_ackTracker (p_workers p') = map w_ackTracker (butlast (p_workers p))"
    using redistribute_trackers[of "butlast (p_workers p)"] assms(1,2,3,5)
    unfolding Pool_ScaleDown_def Let_def case_prod_beta by (auto split: if_splits)
  then have "w_ackTracker ` set (p_workers p') = w_ackTracker ` set (butlast (p_workers p))"
    by (metis list.set_map)
  then have none: "\<forall>w \<in> set (p_workers p'). \<not> map_has (at_pending (w_ackTracker w)) d"
    using assms(4) by (metis imageE imageI)
  then show ?thesis
    using record_ack_untracked[OF none]
    by (auto simp: Pool_HasBatchAckQuorum_def Pool_RecordAck_def list_ex_iff HasQuorum_iff case_prod_beta)
qed

lemma ScaleDown_forgets_acks_example:
  "let C = demo_crypto; st = \<lparr>st_batchStore = None, st_txIndex = None\<rparr>;
       w0 = fst (Worker_Start (NewWorker 0 1 demo_cfg 1));
       d = b_Digest (NewBatch C 5 1 1 0 [[7]]);
       w1 = w0\<lparr>w_ackTracker := fst (AckTracker_RecordAck 5 d 1
                 (AckTracker_TrackBatch 5 (NewBatch C 5 1 1 0 [[7]]) (w_ackTracker w0)))\<rparr>;
       p = demo_pool [w0, w1]
   in Pool_HasBatchAckQuorum d p \<and> \<not> Pool_HasBatchAckQuorum d (fst (Pool_ScaleDown C 6 st p))"
proof -
  let ?b = "NewBatch demo_crypto 5 1 1 0 [[7]]"
  let ?d = "b_Digest ?b"
  let ?w0 = "fst (Worker_Start (NewWorker 0 1 demo_cfg 1))"
  let ?w1 = "?w0\<lparr>w_ackTracker := fst (AckTracker_RecordAck 5 ?d 1
                 (AckTracker_TrackBatch 5 ?b (w_ackTracker ?w0)))\<rparr>"
  let ?p = "demo_pool [?w0, ?w1]" and ?st = "\<lparr>st_batchStore = None, st_txIndex = None\<rparr>"
  obtain p' st' b r where s: "Pool_ScaleDown demo_crypto 6 ?st ?p = (p', st', b, r)" by (metis prod_cases4)
  have "Pool_HasBatchAckQuorum ?d ?p"
    by (simp add: Pool_HasBatchAckQuorum_def demo_pool_def Worker_Start_def NewWorker_def NewAckTracker_def
        AckTracker_TrackBatch_def AckTracker_RecordAck_def AckTracker_HasQuorum_def demo_cfg_def Let_def fcard.rep_eq)
  moreover have "\<not> map_has (at_pending (w_ackTracker ?w0)) ?d"
    by (simp add: Worker_Start_def NewWorker_def NewAckTracker_def)
  ultimately show ?thesis
    using ScaleDown_forgets_acks[of ?p ?d demo_crypto 6 ?st p' st' b r] s
    by (simp add: demo_pool_def NewPool_def Let_def)
qed

end
