(* ===== verification/Dag.thy ===== *)
theory Dag
  imports Stores
begin

text \<open>
  The certificate DAG (\<^verbatim>\<open>dag/dag.go\<close>): rounds in memory, the digest index, the fallback to the
  certificate store, the cached breadth-first search for causal histories, ordered delivery and
  pruning. Functions that return a slice read from a Go map take the visiting order \<open>ord\<close>.
\<close>

section \<open>State\<close>

record DagConfig =
  dc_MaxCachedRounds :: int
  dc_MaxHistoryDepth :: int
  dc_MaxHistoryCacheSize :: int

definition DefaultDagConfig :: DagConfig where
  "DefaultDagConfig = \<lparr>dc_MaxCachedRounds = 100, dc_MaxHistoryDepth = 1000, dc_MaxHistoryCacheSize = 1000\<rparr>"

record RoundData =
  rd_Round :: u64
  rd_Certificates :: "(u16, Certificate) fmap"
  rd_committed :: bool

type_synonym cert_order = "(u16, Certificate) fmap \<Rightarrow> u16 list"

definition NewRoundData :: "u64 \<Rightarrow> RoundData" where
  "NewRoundData rnd = \<lparr>rd_Round = rnd, rd_Certificates = fmempty, rd_committed = False\<rparr>"

definition RoundData_AddCertificate :: "Certificate \<Rightarrow> RoundData \<Rightarrow> RoundData" where
  "RoundData_AddCertificate cert rd =
     rd\<lparr>rd_Certificates := fmupd (Certificate_Author cert) cert (rd_Certificates rd)\<rparr>"

definition RoundData_GetCertificate :: "u16 \<Rightarrow> RoundData \<Rightarrow> Certificate option" where
  "RoundData_GetCertificate validator rd = fmlookup (rd_Certificates rd) validator"

definition RoundData_HasCertificate :: "u16 \<Rightarrow> RoundData \<Rightarrow> bool" where
  "RoundData_HasCertificate validator rd = map_has (rd_Certificates rd) validator"

definition RoundData_Count :: "RoundData \<Rightarrow> nat" where
  "RoundData_Count rd = map_len (rd_Certificates rd)"

definition RoundData_IsCommitted :: "RoundData \<Rightarrow> bool" where
  "RoundData_IsCommitted rd = rd_committed rd"

definition RoundData_SetCommitted :: "RoundData \<Rightarrow> RoundData" where
  "RoundData_SetCommitted rd = rd\<lparr>rd_committed := True\<rparr>"

definition RoundData_GetAllCertificates :: "cert_order \<Rightarrow> RoundData \<Rightarrow> Certificate list" where
  "RoundData_GetAllCertificates ord rd = map_values (ord (rd_Certificates rd)) (rd_Certificates rd)"

record DAG =
  d_rounds :: "(u64, RoundData) fmap"
  d_certIndex :: "(hash, Certificate) fmap"
  d_highestRound :: u64
  d_committedRound :: u64
  d_hasCommitted :: bool
  d_certStore :: "MemoryCertificateStore option"
  d_cfg :: DagConfig
  d_historyCache :: "(hash, Certificate list) fmap"
  d_historyCacheKeys :: "hash list"

definition NewDAG :: "MemoryCertificateStore option \<Rightarrow> DagConfig \<Rightarrow> DAG" where
  "NewDAG certStore cfg =
     \<lparr>d_rounds = fmempty, d_certIndex = fmempty, d_highestRound = 0, d_committedRound = 0,
      d_hasCommitted = False, d_certStore = certStore, d_cfg = cfg, d_historyCache = fmempty,
      d_historyCacheKeys = []\<rparr>"

section \<open>Adding and finding certificates\<close>

definition DAG_hasCertificateLocked :: "hash \<Rightarrow> DAG \<Rightarrow> bool" where
  "DAG_hasCertificateLocked digest d =
     (if map_has (d_certIndex d) digest then True
      else case d_certStore d of
        Some s \<Rightarrow> MemoryCertificateStore_HasCertificate digest s
      | None \<Rightarrow> False)"

definition DAG_invalidateHistoryCacheForCertificate :: "Certificate \<Rightarrow> DAG \<Rightarrow> DAG" where
  "DAG_invalidateHistoryCacheForCertificate newCert d =
     (let newRound = Certificate_Round newCert;
          affected = (\<lambda>digest. case fmlookup (d_historyCache d) digest of
                        Some (c # _) \<Rightarrow> Certificate_Round c > newRound
                      | _ \<Rightarrow> False);
          keysToRemove = filter affected (map_keys (d_historyCache d));
          d1 = d\<lparr>d_historyCache := map_delete_all keysToRemove (d_historyCache d)\<rparr>
      in if length keysToRemove > 0
         then d1\<lparr>d_historyCacheKeys := filter (\<lambda>key. key \<notin> set keysToRemove) (d_historyCacheKeys d1)\<rparr>
         else d1)"

definition DAG_invalidateHistoryCacheLocked :: "DAG \<Rightarrow> DAG" where
  "DAG_invalidateHistoryCacheLocked d = d\<lparr>d_historyCache := fmempty, d_historyCacheKeys := []\<rparr>"

definition DAG_save :: "Certificate \<Rightarrow> DAG \<Rightarrow> DAG \<times> err option" where
  "DAG_save cert d =
     (case d_certStore d of
        None \<Rightarrow> (d, None)
      | Some s \<Rightarrow> (let (s', e) = MemoryCertificateStore_SaveCertificate cert s
                  in (d\<lparr>d_certStore := Some s'\<rparr>, e)))"

definition DAG_insert :: "Certificate \<Rightarrow> RoundData \<Rightarrow> DAG \<Rightarrow> DAG" where
  "DAG_insert cert rd d =
     (let rnd = Certificate_Round cert;
          d1 = d\<lparr>d_rounds := fmupd rnd (RoundData_AddCertificate cert rd) (d_rounds d),
                 d_certIndex := fmupd (Certificate_Digest cert) cert (d_certIndex d)\<rparr>
      in if rnd > d_highestRound d1 then d1\<lparr>d_highestRound := rnd\<rparr> else d1)"

text \<open>
  The round is created before the checks, so a rejected certificate can leave an empty round behind.
\<close>

definition DAG_AddCertificate :: "Certificate option \<Rightarrow> DAG \<Rightarrow> DAG \<times> err option" where
  "DAG_AddCertificate mcert d =
     (case mcert of
        None \<Rightarrow> (d, Some ErrInvalidCertificate)
      | Some cert \<Rightarrow>
          (let rnd = Certificate_Round cert;
               (rd, d0) = (case fmlookup (d_rounds d) rnd of
                             Some rd \<Rightarrow> (rd, d)
                           | None \<Rightarrow> (let rd = NewRoundData rnd
                                     in (rd, d\<lparr>d_rounds := fmupd rnd rd (d_rounds d)\<rparr>)))
           in if RoundData_HasCertificate (Certificate_Author cert) rd then (d0, Some ErrDuplicateHeader)
              else if rnd > 0 \<and>
                      list_ex (\<lambda>p. \<not> DAG_hasCertificateLocked (cr_Digest p) d0) (h_Parents (c_Header cert))
              then (d0, Some ErrMissingParents)
              else DAG_save cert
                     (DAG_invalidateHistoryCacheForCertificate cert (DAG_insert cert rd d0))))"

definition DAG_GetCertificate :: "hash \<Rightarrow> DAG \<Rightarrow> Certificate result" where
  "DAG_GetCertificate digest d =
     (case fmlookup (d_certIndex d) digest of
        Some cert \<Rightarrow> Inr cert
      | None \<Rightarrow> (case d_certStore d of
          Some s \<Rightarrow> MemoryCertificateStore_GetCertificate digest s
        | None \<Rightarrow> Inl ErrCertificateNotFound))"

definition DAG_HasCertificate :: "hash \<Rightarrow> DAG \<Rightarrow> bool" where
  "DAG_HasCertificate digest d =
     (if map_has (d_certIndex d) digest then True
      else case d_certStore d of
        Some s \<Rightarrow> MemoryCertificateStore_HasCertificate digest s
      | None \<Rightarrow> False)"

definition DAG_GetRound :: "u64 \<Rightarrow> DAG \<Rightarrow> RoundData option" where
  "DAG_GetRound rnd d = fmlookup (d_rounds d) rnd"

definition DAG_GetCertificatesForRound :: "cert_order \<Rightarrow> u64 \<Rightarrow> DAG \<Rightarrow> Certificate list" where
  "DAG_GetCertificatesForRound ord rnd d =
     (case fmlookup (d_rounds d) rnd of
        None \<Rightarrow> (case d_certStore d of
            Some s \<Rightarrow> (case MemoryCertificateStore_GetCertificatesByRound rnd s of
                Inr certs \<Rightarrow> certs
              | Inl _ \<Rightarrow> [])
          | None \<Rightarrow> [])
      | Some rd \<Rightarrow> RoundData_GetAllCertificates ord rd)"

definition DAG_GetCertificateForValidator :: "u64 \<Rightarrow> u16 \<Rightarrow> DAG \<Rightarrow> Certificate option" where
  "DAG_GetCertificateForValidator rnd validator d =
     (case fmlookup (d_rounds d) rnd of
        None \<Rightarrow> (case d_certStore d of
            Some s \<Rightarrow> (case MemoryCertificateStore_GetCertificateForValidator rnd validator s of
                Inr cert \<Rightarrow> Some cert
              | Inl _ \<Rightarrow> None)
          | None \<Rightarrow> None)
      | Some rd \<Rightarrow> RoundData_GetCertificate validator rd)"

section \<open>Rounds\<close>

definition DAG_HighestRound :: "DAG \<Rightarrow> u64" where
  "DAG_HighestRound d = d_highestRound d"

definition DAG_CommittedRound :: "DAG \<Rightarrow> u64" where
  "DAG_CommittedRound d = d_committedRound d"

definition DAG_HasCommitted :: "DAG \<Rightarrow> bool" where
  "DAG_HasCommitted d = d_hasCommitted d"

definition DAG_SetCommittedRound :: "u64 \<Rightarrow> DAG \<Rightarrow> DAG" where
  "DAG_SetCommittedRound rnd d =
     d\<lparr>d_committedRound := rnd, d_hasCommitted := True,
       d_rounds := fmmap_keys (\<lambda>r rd. if r \<le> rnd then RoundData_SetCommitted rd else rd) (d_rounds d)\<rparr>"

definition DAG_CanAdvanceToRound :: "u64 \<Rightarrow> int \<Rightarrow> DAG \<Rightarrow> bool" where
  "DAG_CanAdvanceToRound rnd quorum d =
     (if rnd = 0 then True
      else case fmlookup (d_rounds d) (rnd - 1) of
        None \<Rightarrow> False
      | Some prevRound \<Rightarrow> int (RoundData_Count prevRound) \<ge> quorum)"

definition DAG_CertificateCount :: "u64 \<Rightarrow> DAG \<Rightarrow> nat" where
  "DAG_CertificateCount rnd d =
     (case fmlookup (d_rounds d) rnd of None \<Rightarrow> 0 | Some rd \<Rightarrow> RoundData_Count rd)"

definition DAG_RoundCount :: "DAG \<Rightarrow> nat" where
  "DAG_RoundCount d = map_len (d_rounds d)"

section \<open>Causal history\<close>

text \<open>
  The search keeps the visited digests and one queue; a level takes as many certificates from the
  queue as it has at the start of the level. The remaining depth bounds the number of levels.
\<close>

fun causal_parents ::
  "DAG \<Rightarrow> CertificateRef list \<Rightarrow> hash fset \<Rightarrow> Certificate list \<Rightarrow> hash fset \<times> Certificate list" where
  "causal_parents d [] visited queue = (visited, queue)"
| "causal_parents d (parentRef # refs) visited queue =
     (if cr_Digest parentRef |\<in>| visited then causal_parents d refs visited queue
      else let visited' = finsert (cr_Digest parentRef) visited
           in case DAG_GetCertificate (cr_Digest parentRef) d of
                Inr parentCert \<Rightarrow> causal_parents d refs visited' (queue @ [parentCert])
              | Inl _ \<Rightarrow> causal_parents d refs visited' queue)"

fun causal_level ::
  "DAG \<Rightarrow> nat \<Rightarrow> hash fset \<Rightarrow> Certificate list \<Rightarrow> Certificate list \<Rightarrow>
   hash fset \<times> Certificate list \<times> Certificate list" where
  "causal_level d (Suc n) visited (current # queue) result =
     (let (visited', queue') = causal_parents d (h_Parents (c_Header current)) visited queue
      in causal_level d n visited' queue' (result @ [current]))"
| "causal_level d _ visited queue result = (visited, queue, result)"

fun causal_levels ::
  "DAG \<Rightarrow> nat \<Rightarrow> hash fset \<Rightarrow> Certificate list \<Rightarrow> Certificate list \<Rightarrow> Certificate list" where
  "causal_levels d 0 visited queue result = result"
| "causal_levels d (Suc depth) visited queue result =
     (if length queue > 0
      then let (visited', queue', result') = causal_level d (length queue) visited queue result
           in causal_levels d depth visited' queue' result'
      else result)"

definition causal_search :: "DAG \<Rightarrow> Certificate \<Rightarrow> Certificate list" where
  "causal_search d cert =
     causal_levels d (nat (dc_MaxHistoryDepth (d_cfg d))) {|Certificate_Digest cert|} [cert] []"

fun evict_history ::
  "nat \<Rightarrow> hash list \<Rightarrow> (hash, Certificate list) fmap \<Rightarrow> hash list \<times> (hash, Certificate list) fmap" where
  "evict_history (Suc n) (oldKey # keys) cache = evict_history n keys (fmdrop oldKey cache)"
| "evict_history _ keys cache = (keys, cache)"

definition history_room :: "DAG \<Rightarrow> hash list \<times> (hash, Certificate list) fmap" where
  "history_room d =
     (let size = dc_MaxHistoryCacheSize (d_cfg d)
      in if size > 0 \<and> int (length (d_historyCacheKeys d)) \<ge> size
         then let evictCount = (if go_div size 10 < 1 then 1 else go_div size 10)
              in evict_history (nat evictCount) (d_historyCacheKeys d) (d_historyCache d)
         else (d_historyCacheKeys d, d_historyCache d))"

definition DAG_CausalHistory :: "Certificate option \<Rightarrow> DAG \<Rightarrow> DAG \<times> Certificate list" where
  "DAG_CausalHistory mcert d =
     (case mcert of
        None \<Rightarrow> (d, [])
      | Some cert \<Rightarrow>
          (let digest = Certificate_Digest cert
           in case fmlookup (d_historyCache d) digest of
                Some cached \<Rightarrow> (d, cached)
              | None \<Rightarrow>
                  (let result = causal_search d cert; (keys, cache) = history_room d
                   in (d\<lparr>d_historyCache := fmupd digest result cache,
                         d_historyCacheKeys := keys @ [digest]\<rparr>, result))))"

section \<open>Ordered delivery\<close>

text \<open>
  The loop \<^verbatim>\<open>for round := fromRound; round <= toRound; round++\<close> on 64-bit rounds; not returning is
  \<open>None\<close>.
\<close>

partial_function (option) ordered_loop ::
  "cert_order \<Rightarrow> DAG \<Rightarrow> u64 \<Rightarrow> u64 \<Rightarrow> Certificate list \<Rightarrow> Certificate list option" where
  [code]: "ordered_loop ord d toRound rnd result =
     (if rnd \<le> toRound
      then let certs = DAG_GetCertificatesForRound ord rnd d
           in ordered_loop ord d toRound (rnd + 1)
                (if length certs = 0 then result else result @ sort_key Certificate_Author certs)
      else Some result)"

definition DAG_GetOrderedCertificates :: "cert_order \<Rightarrow> u64 \<Rightarrow> u64 \<Rightarrow> DAG \<Rightarrow> Certificate list option" where
  "DAG_GetOrderedCertificates ord fromRound toRound d =
     (if fromRound > toRound then Some [] else ordered_loop ord d toRound fromRound [])"

section \<open>Pruning and loading\<close>

definition round_digests :: "RoundData \<Rightarrow> hash list" where
  "round_digests rd =
     map Certificate_Digest (map_values (map_keys (rd_Certificates rd)) (rd_Certificates rd))"

definition prune_index :: "u64 \<Rightarrow> DAG \<Rightarrow> DAG" where
  "prune_index r d =
     d\<lparr>d_certIndex := (case fmlookup (d_rounds d) r of
                        Some rd \<Rightarrow> map_delete_all (round_digests rd) (d_certIndex d)
                      | None \<Rightarrow> d_certIndex d),
       d_rounds := fmdrop r (d_rounds d)\<rparr>"

definition DAG_PruneRound :: "u64 \<Rightarrow> DAG \<Rightarrow> DAG" where
  "DAG_PruneRound rnd d = DAG_invalidateHistoryCacheLocked (prune_index rnd d)"

definition DAG_PruneRoundsBefore :: "u64 \<Rightarrow> DAG \<Rightarrow> DAG" where
  "DAG_PruneRoundsBefore rnd d =
     DAG_invalidateHistoryCacheLocked
       (fold (\<lambda>r d. if r < rnd then prune_index r d else d) (map_keys (d_rounds d)) d)"

definition load_certificates :: "u64 \<Rightarrow> Certificate list \<Rightarrow> DAG \<Rightarrow> DAG" where
  "load_certificates rnd certs d =
     (let (rd, idx) = fold (\<lambda>cert (rd, idx). (RoundData_AddCertificate cert rd,
                             fmupd (Certificate_Digest cert) cert idx)) certs
                        (NewRoundData rnd, d_certIndex d)
      in d\<lparr>d_certIndex := idx, d_rounds := fmupd rnd rd (d_rounds d),
           d_highestRound := (if rnd > d_highestRound d then rnd else d_highestRound d)\<rparr>)"

definition DAG_LoadRound :: "u64 \<Rightarrow> DAG \<Rightarrow> DAG \<times> err option" where
  "DAG_LoadRound rnd d =
     (case d_certStore d of
        None \<Rightarrow> (d, None)
      | Some s \<Rightarrow> (case MemoryCertificateStore_GetCertificatesByRound rnd s of
            Inl e \<Rightarrow> (d, Some e)
          | Inr certs \<Rightarrow> (load_certificates rnd certs d, None)))"

partial_function (option) load_loop :: "u64 \<Rightarrow> u64 \<Rightarrow> DAG \<Rightarrow> (DAG \<times> err option) option" where
  [code]: "load_loop highestRound rnd d =
     (if rnd \<le> highestRound
      then case DAG_LoadRound rnd d of
             (d', Some e) \<Rightarrow> Some (d', Some e)
           | (d', None) \<Rightarrow> load_loop highestRound (rnd + 1) d'
      else Some (d, None))"

definition DAG_LoadRoundsFrom :: "u64 \<Rightarrow> DAG \<Rightarrow> (DAG \<times> err option) option" where
  "DAG_LoadRoundsFrom fromRound d =
     (case d_certStore d of
        None \<Rightarrow> Some (d, None)
      | Some s \<Rightarrow> load_loop (MemoryCertificateStore_HighestRound s) fromRound d)"

end
