(* ===== verification/Dag_History.thy ===== *)
theory Dag_History
  imports Dag
begin

text \<open>
  What the breadth-first search behind \<^verbatim>\<open>DAG.CausalHistory\<close> finds: the certificates that can be
  reached over fewer parent references than the depth bound, each once, the given one first.
\<close>

section \<open>The search as a function of the certificates that can be found\<close>

definition dag_find :: "DAG \<Rightarrow> hash \<Rightarrow> Certificate option" where
  "dag_find d digest = (case DAG_GetCertificate digest d of Inr c \<Rightarrow> Some c | Inl _ \<Rightarrow> None)"

definition parent_digests :: "Certificate \<Rightarrow> hash list" where
  "parent_digests c = map cr_Digest (h_Parents (c_Header c))"

abbreviation level_digests :: "Certificate list \<Rightarrow> hash list" where
  "level_digests qs \<equiv> concat (map parent_digests qs)"

fun new_parents :: "(hash \<Rightarrow> Certificate option) \<Rightarrow> hash list \<Rightarrow> hash fset \<Rightarrow> Certificate list" where
  "new_parents f [] V = []"
| "new_parents f (x # xs) V =
     (if x |\<in>| V then new_parents f xs V
      else (case f x of Some c \<Rightarrow> [c] | None \<Rightarrow> []) @ new_parents f xs (finsert x V))"

lemma causal_parents_eq:
  "causal_parents d refs V Q =
     (V |\<union>| fset_of_list (map cr_Digest refs), Q @ new_parents (dag_find d) (map cr_Digest refs) V)"
  by (induction d refs V Q rule: causal_parents.induct)
     (auto simp: dag_find_def Let_def finsert_absorb split: sum.splits)

lemma new_parents_append:
  "new_parents f (xs @ ys) V = new_parents f xs V @ new_parents f ys (V |\<union>| fset_of_list xs)"
  by (induction xs arbitrary: V) (auto simp: finsert_absorb)

lemma causal_level_eq:
  "causal_level d (length qs) V (qs @ nx) R =
     (V |\<union>| fset_of_list (level_digests qs), nx @ new_parents (dag_find d) (level_digests qs) V, R @ qs)"
proof (induction qs arbitrary: V nx R)
  case Nil
  then show ?case by (cases nx) simp_all
next
  case (Cons q qs)
  show ?case
    using Cons.IH[of "V |\<union>| fset_of_list (parent_digests q)"
        "nx @ new_parents (dag_find d) (parent_digests q) V" "R @ [q]"]
    by (simp add: causal_parents_eq parent_digests_def[symmetric] new_parents_append sup_assoc)
qed

lemma causal_levels_Suc:
  "causal_levels d (Suc k) V qs R =
     (if qs = [] then R
      else causal_levels d k (V |\<union>| fset_of_list (level_digests qs))
             (new_parents (dag_find d) (level_digests qs) V) (R @ qs))"
  using causal_level_eq[of d qs V "[]" R] by simp

lemma causal_levels_append: "causal_levels d k V qs R = R @ causal_levels d k V qs []"
proof (induction k arbitrary: V qs R)
  case (Suc k)
  show ?case
  proof (cases "qs = []")
    case False
    then show ?thesis unfolding causal_levels_Suc by simp (metis Suc.IH append.assoc append_Nil)
  qed (simp add: causal_levels_Suc)
qed simp

lemma causal_search_nonempty:
  "0 < dc_MaxHistoryDepth (d_cfg d) \<Longrightarrow> \<exists>rest. causal_search d cert = cert # rest"
proof -
  assume "0 < dc_MaxHistoryDepth (d_cfg d)"
  then obtain k where k: "nat (dc_MaxHistoryDepth (d_cfg d)) = Suc k"
    by (metis gr0_conv_Suc zero_less_nat_eq)
  show ?thesis
    unfolding causal_search_def k causal_levels_Suc
    by simp (metis causal_levels_append append_Cons append_Nil)
qed

lemma causal_search_empty: "dc_MaxHistoryDepth (d_cfg d) \<le> 0 \<Longrightarrow> causal_search d cert = []"
  by (simp add: causal_search_def)

section \<open>Correctness of the search\<close>

lemma set_new_parents: "c \<in> set (new_parents f xs V) \<longleftrightarrow> (\<exists>x \<in> set xs. x |\<notin>| V \<and> f x = Some c)"
proof (induction xs arbitrary: V)
  case (Cons a xs)
  show ?case
  proof (cases "a |\<in>| V")
    case False
    then have "c \<in> set (new_parents f (a # xs) V) \<longleftrightarrow> f a = Some c \<or> (\<exists>x \<in> set xs. x |\<notin>| finsert a V \<and> f x = Some c)"
      using Cons.IH by (cases "f a") auto
    then show ?thesis using False by auto
  qed (use Cons.IH in auto)
qed simp

lemma distinct_new_parents:
  assumes "\<And>x c. f x = Some c \<Longrightarrow> Certificate_Digest c = x"
  shows "distinct (map Certificate_Digest (new_parents f xs V))"
proof (induction xs arbitrary: V)
  case (Cons x xs)
  then show ?case using assms by (auto simp: set_new_parents split: option.splits)
qed simp

definition parent_step :: "DAG \<Rightarrow> Certificate \<Rightarrow> Certificate \<Rightarrow> bool" where
  "parent_step d c p \<longleftrightarrow> (\<exists>x \<in> set (parent_digests c). dag_find d x = Some p)"

definition ancestors_below :: "DAG \<Rightarrow> Certificate \<Rightarrow> nat \<Rightarrow> Certificate set" where
  "ancestors_below d cert n = {c. \<exists>i<n. (parent_step d ^^ i) cert c}"

lemma ancestors_below_0 [simp]: "ancestors_below d cert 0 = {}"
  by (simp add: ancestors_below_def)

lemma ancestors_below_Suc:
  "ancestors_below d cert (Suc n) = ancestors_below d cert n \<union> {c. (parent_step d ^^ n) cert c}"
  by (auto simp: ancestors_below_def less_Suc_eq)

lemma ancestors_below_step:
  "c \<in> ancestors_below d cert n \<Longrightarrow> parent_step d c p \<Longrightarrow> p \<in> ancestors_below d cert (Suc n)"
  unfolding ancestors_below_def mem_Collect_eq by (metis relpowp_Suc_I Suc_less_eq)

lemma ancestors_below_mono: "m \<le> n \<Longrightarrow> ancestors_below d cert m \<subseteq> ancestors_below d cert n"
  unfolding ancestors_below_def using less_le_trans by blast

lemma ancestors_below_fixed:
  assumes "ancestors_below d cert (Suc n) = ancestors_below d cert n"
  shows "ancestors_below d cert (n + k) = ancestors_below d cert n"
proof (induction k)
  case (Suc k)
  note IH = Suc.IH
  have "c \<in> ancestors_below d cert n" if "(parent_step d ^^ (n + k)) cert c" for c
  proof (cases "n + k")
    case 0
    then have "c \<in> ancestors_below d cert (Suc n)" using that by (auto simp: ancestors_below_def)
    then show ?thesis unfolding assms .
  next
    case (Suc m)
    have "(parent_step d ^^ Suc m) cert c" using that unfolding Suc .
    then obtain b where b: "(parent_step d ^^ m) cert b" "parent_step d b c"
      by (rule relpowp_Suc_E)
    have "b \<in> ancestors_below d cert (n + k)" using b(1) Suc by (auto simp: ancestors_below_def)
    then show ?thesis using ancestors_below_step[OF _ b(2), of cert n] unfolding IH assms by blast
  qed
  then show ?case using IH by (auto simp: ancestors_below_Suc)
qed simp

text \<open>Certificates are found under their own digest, and the given one under its digest if at all.\<close>

definition find_ok :: "DAG \<Rightarrow> Certificate \<Rightarrow> bool" where
  "find_ok d cert \<longleftrightarrow> (\<forall>x c. dag_find d x = Some c \<longrightarrow> Certificate_Digest c = x) \<and>
     (\<forall>c. dag_find d (Certificate_Digest cert) = Some c \<longrightarrow> c = cert)"

definition level_inv :: "DAG \<Rightarrow> Certificate \<Rightarrow> nat \<Rightarrow> hash fset \<Rightarrow> Certificate list \<Rightarrow> Certificate list \<Rightarrow> bool" where
  "level_inv d cert n V qs R \<longleftrightarrow>
     set R = ancestors_below d cert n \<and>
     set qs = {c. (parent_step d ^^ n) cert c} - set R \<and>
     fset V = {Certificate_Digest cert} \<union> set (level_digests R) \<and>
     distinct (map Certificate_Digest (R @ qs)) \<and>
     Certificate_Digest ` set (R @ qs) \<subseteq> fset V"

lemma level_inv_step:
  assumes f: "find_ok d cert" and inv: "level_inv d cert n V qs R"
  shows "level_inv d cert (Suc n) (V |\<union>| fset_of_list (level_digests qs))
           (new_parents (dag_find d) (level_digests qs) V) (R @ qs)"
proof -
  let ?new = "new_parents (dag_find d) (level_digests qs) V"
  have dig: "\<And>x c. dag_find d x = Some c \<Longrightarrow> Certificate_Digest c = x"
    and own: "\<And>c. dag_find d (Certificate_Digest cert) = Some c \<Longrightarrow> c = cert"
    using f by (auto simp: find_ok_def)
  have R: "set R = ancestors_below d cert n" and qs: "set qs = {c. (parent_step d ^^ n) cert c} - set R"
    and V: "fset V = {Certificate_Digest cert} \<union> set (level_digests R)"
    and dist: "distinct (map Certificate_Digest (R @ qs))" and sub: "Certificate_Digest ` set (R @ qs) \<subseteq> fset V"
    using inv unfolding level_inv_def by blast+
  have R': "set (R @ qs) = ancestors_below d cert (Suc n)" using R qs by (auto simp: ancestors_below_Suc)
  have cert: "cert \<in> set (R @ qs)" unfolding R' by (auto simp: ancestors_below_def)
  have seen: "c \<in> set (R @ qs)" if "x |\<in>| V" "dag_find d x = Some c" for x c
  proof (cases "x = Certificate_Digest cert")
    case True
    then show ?thesis using own that(2) cert by simp
  next
    case False
    then have "x \<in> set (level_digests R)" using V that(1) by blast
    then obtain b where "b \<in> set R" "x \<in> set (parent_digests b)" by auto
    then show ?thesis
      using ancestors_below_step[of b d cert n c] R R' that(2) by (auto simp: parent_step_def)
  qed
  have "set ?new = {c. (parent_step d ^^ Suc n) cert c} - set (R @ qs)"
  proof (intro set_eqI iffI)
    fix c assume "c \<in> set ?new"
    then obtain b x where b: "b \<in> set qs" "x \<in> set (parent_digests b)" "x |\<notin>| V" "dag_find d x = Some c"
      by (auto simp: set_new_parents)
    then have "(parent_step d ^^ n) cert b" "parent_step d b c" using qs by (auto simp: parent_step_def)
    then have "(parent_step d ^^ Suc n) cert c" by (rule relpowp_Suc_I)
    moreover have "c \<notin> set (R @ qs)" using b(3) dig[OF b(4)] sub by auto
    ultimately show "c \<in> {c. (parent_step d ^^ Suc n) cert c} - set (R @ qs)" by blast
  next
    fix c assume c: "c \<in> {c. (parent_step d ^^ Suc n) cert c} - set (R @ qs)"
    then obtain b where b: "(parent_step d ^^ n) cert b" "parent_step d b c" by auto
    then obtain x where x: "x \<in> set (parent_digests b)" "dag_find d x = Some c" by (auto simp: parent_step_def)
    have "b \<notin> set R"
      using ancestors_below_step[OF _ b(2), of cert n] c R R' by auto
    then have "b \<in> set qs" using b(1) qs by simp
    then show "c \<in> set ?new" using x seen[OF _ x(2)] c by (auto simp: set_new_parents)
  qed
  moreover have fresh: "Certificate_Digest ` set ?new \<inter> fset V = {}" "Certificate_Digest ` set ?new \<subseteq> set (level_digests qs)"
    using dig by (auto simp: set_new_parents simp del: set_concat set_map)
  moreover have "Certificate_Digest ` set (R @ qs) \<inter> Certificate_Digest ` set ?new = {}"
    using sub fresh(1) by blast
  then have "distinct (map Certificate_Digest ((R @ qs) @ ?new))"
    using dist distinct_new_parents[of "dag_find d" "level_digests qs" V, OF dig]
    unfolding map_append[of _ "R @ qs"] distinct_append set_map by blast
  moreover have "Certificate_Digest ` set ((R @ qs) @ ?new) \<subseteq> fset (V |\<union>| fset_of_list (level_digests qs))"
    using sub fresh(2) by (auto simp: fset_of_list.rep_eq)
  ultimately show ?thesis
    using R' V unfolding level_inv_def by (auto simp: fset_of_list.rep_eq)
qed

lemma causal_levels_correct:
  "find_ok d cert \<Longrightarrow> level_inv d cert n V qs R \<Longrightarrow>
     set (causal_levels d k V qs R) = ancestors_below d cert (n + k) \<and>
     distinct (map Certificate_Digest (causal_levels d k V qs R))"
proof (induction k arbitrary: n V qs R)
  case 0
  then show ?case by (auto simp: level_inv_def)
next
  case (Suc k)
  show ?case
  proof (cases "qs = []")
    case True
    then have "ancestors_below d cert (Suc n) = ancestors_below d cert n"
      using Suc.prems(2) by (auto simp: level_inv_def ancestors_below_Suc)
    then have "ancestors_below d cert (n + Suc k) = ancestors_below d cert n"
      by (rule ancestors_below_fixed)
    then show ?thesis using True Suc.prems(2) by (auto simp: level_inv_def causal_levels_Suc)
  next
    case False
    then show ?thesis
      using Suc.IH[OF Suc.prems(1) level_inv_step[OF Suc.prems]]
      by (simp add: causal_levels_Suc del: causal_levels.simps)
  qed
qed

lemma causal_search_correct:
  assumes "find_ok d cert"
  shows "set (causal_search d cert) = ancestors_below d cert (nat (dc_MaxHistoryDepth (d_cfg d)))"
    and "distinct (map Certificate_Digest (causal_search d cert))"
proof -
  have "level_inv d cert 0 {|Certificate_Digest cert|} [cert] []" by (auto simp: level_inv_def)
  note * = causal_levels_correct[OF assms this]
  show "set (causal_search d cert) = ancestors_below d cert (nat (dc_MaxHistoryDepth (d_cfg d)))"
    "distinct (map Certificate_Digest (causal_search d cert))"
    using * by (simp_all add: causal_search_def)
qed

section \<open>Independence of certificates that are not ancestors\<close>

text \<open>
  The search gives the same result in two DAGs that agree on the digests it asks for: here those
  referenced by certificates of a set \<open>S\<close> that is closed under the search.
\<close>

lemma new_parents_cong: "(\<And>x. x \<in> set xs \<Longrightarrow> f x = g x) \<Longrightarrow> new_parents f xs V = new_parents g xs V"
  by (induction xs arbitrary: V) auto

lemma causal_levels_cong:
  assumes agree: "\<And>c x. c \<in> S \<Longrightarrow> x \<in> set (parent_digests c) \<Longrightarrow> dag_find d x = dag_find d' x"
    and closed: "\<And>c p. c \<in> S \<Longrightarrow> parent_step d c p \<Longrightarrow> p \<in> S"
  shows "set qs \<subseteq> S \<Longrightarrow> causal_levels d k V qs R = causal_levels d' k V qs R"
proof (induction k arbitrary: V qs R)
  case (Suc k)
  have eq: "new_parents (dag_find d) (level_digests qs) V = new_parents (dag_find d') (level_digests qs) V"
    using Suc.prems agree by (intro new_parents_cong) auto
  have "set (new_parents (dag_find d) (level_digests qs) V) \<subseteq> S"
  proof
    fix p assume "p \<in> set (new_parents (dag_find d) (level_digests qs) V)"
    then obtain c where "c \<in> set qs" "parent_step d c p" by (auto simp: set_new_parents parent_step_def)
    then show "p \<in> S" using Suc.prems closed by blast
  qed
  then show ?case using Suc.IH eq unfolding causal_levels_Suc by simp
qed simp

lemma causal_search_cong:
  assumes "\<And>c x. c \<in> S \<Longrightarrow> x \<in> set (parent_digests c) \<Longrightarrow> dag_find d x = dag_find d' x"
    and "\<And>c p. c \<in> S \<Longrightarrow> parent_step d c p \<Longrightarrow> p \<in> S"
    and "cert \<in> S" and "d_cfg d = d_cfg d'"
  shows "causal_search d cert = causal_search d' cert"
  unfolding causal_search_def assms(4) using assms(1-3) by (intro causal_levels_cong[of S]) auto

end
