(* ===== verification/Dag_Runs.thy ===== *)
theory Dag_Runs
  imports Dag_History
begin

text \<open>
  Runs of the DAG: the invariant that ties the rounds in memory, the digest index, the certificate
  store and the history cache together, its preservation by every operation, and the properties of
  the DAG that rest on it.
\<close>

section \<open>Certificates of a run\<close>

text \<open>
  A run adds certificates of a set \<open>U\<close> in which a digest belongs to one certificate and parents
  are of lower rounds. The first holds as long as the hash does not collide, the second is what
  honest validators build; the code checks neither.
\<close>

definition universe_ok :: "Certificate set \<Rightarrow> bool" where
  "universe_ok U \<longleftrightarrow> inj_on Certificate_Digest U \<and>
     (\<forall>c \<in> U. \<forall>p \<in> U. Certificate_Digest p \<in> set (parent_digests c) \<longrightarrow>
        Certificate_Round p < Certificate_Round c)"

lemma universe_inj: "universe_ok U \<Longrightarrow> c \<in> U \<Longrightarrow> c' \<in> U \<Longrightarrow> Certificate_Digest c = Certificate_Digest c' \<Longrightarrow> c = c'"
  by (auto simp: universe_ok_def inj_on_def)

lemma universe_parent:
  "universe_ok U \<Longrightarrow> c \<in> U \<Longrightarrow> p \<in> U \<Longrightarrow> Certificate_Digest p \<in> set (parent_digests c) \<Longrightarrow>
     Certificate_Round p < Certificate_Round c"
  by (auto simp: universe_ok_def)

text \<open>A store that a run can start from: open, consistent and closed under parents.\<close>

definition store_closed :: "Certificate set \<Rightarrow> MemoryCertificateStore \<Rightarrow> bool" where
  "store_closed U s \<longleftrightarrow> mcs_ok s \<and>
     (\<forall>x c. fmlookup (mcs_certs s) x = Some c \<longrightarrow> c \<in> U \<and>
        (Certificate_Round c > 0 \<longrightarrow> (\<forall>p \<in> set (parent_digests c). map_has (mcs_certs s) p)))"

inductive dag_run :: "Certificate set \<Rightarrow> DAG \<Rightarrow> bool" for U where
  memory: "dag_run U (NewDAG None cfg)"
| stored: "store_closed U s \<Longrightarrow> dag_run U (NewDAG (Some s) cfg)"
| add: "dag_run U d \<Longrightarrow> c \<in> U \<Longrightarrow> dag_run U (fst (DAG_AddCertificate (Some c) d))"
| history: "dag_run U d \<Longrightarrow> c \<in> U \<Longrightarrow> dag_run U (fst (DAG_CausalHistory (Some c) d))"
| commit: "dag_run U d \<Longrightarrow> dag_run U (DAG_SetCommittedRound r d)"
| prune: "dag_run U d \<Longrightarrow> dag_run U (DAG_PruneRound r d)"
| prune_before: "dag_run U d \<Longrightarrow> dag_run U (DAG_PruneRoundsBefore r d)"
| load: "dag_run U d \<Longrightarrow> dag_run U (fst (DAG_LoadRound r d))"

section \<open>Invariant\<close>

text \<open>
  The certificates a DAG knows: with a store everything in the index is also stored, so the store
  decides; without one the index does.
\<close>

definition known :: "DAG \<Rightarrow> (hash, Certificate) fmap" where
  "known d = (case d_certStore d of None \<Rightarrow> d_certIndex d | Some s \<Rightarrow> mcs_certs s)"

definition index_ok :: "Certificate set \<Rightarrow> DAG \<Rightarrow> bool" where
  "index_ok U d \<longleftrightarrow> (\<forall>x c. fmlookup (d_certIndex d) x = Some c \<longrightarrow>
     c \<in> U \<and> Certificate_Digest c = x \<and> fmlookup (known d) x = Some c)"

definition rounds_ok :: "DAG \<Rightarrow> bool" where
  "rounds_ok d \<longleftrightarrow> (\<forall>r rd i c. fmlookup (d_rounds d) r = Some rd \<longrightarrow> fmlookup (rd_Certificates rd) i = Some c \<longrightarrow>
     Certificate_Round c = r \<and> Certificate_Author c = i \<and> r \<le> d_highestRound d \<and>
     fmlookup (d_certIndex d) (Certificate_Digest c) = Some c)"

lemma rounds_okD:
  assumes "rounds_ok d" and "fmlookup (d_rounds d) r = Some rd" and "fmlookup (rd_Certificates rd) i = Some c"
  shows "Certificate_Round c = r" "Certificate_Author c = i" "r \<le> d_highestRound d"
    "fmlookup (d_certIndex d) (Certificate_Digest c) = Some c"
  using assms unfolding rounds_ok_def by blast+

definition dag_ok :: "Certificate set \<Rightarrow> DAG \<Rightarrow> bool" where
  "dag_ok U d \<longleftrightarrow> index_ok U d \<and> rounds_ok d \<and>
     (case d_certStore d of None \<Rightarrow> True | Some s \<Rightarrow> store_closed U s)"

definition cache_ok :: "Certificate set \<Rightarrow> DAG \<Rightarrow> bool" where
  "cache_ok U d \<longleftrightarrow> distinct (d_historyCacheKeys d) \<and>
     (\<forall>x. x \<in> set (d_historyCacheKeys d) \<longleftrightarrow> map_has (d_historyCache d) x) \<and>
     (0 < dc_MaxHistoryCacheSize (d_cfg d) \<longrightarrow>
        int (length (d_historyCacheKeys d)) \<le> dc_MaxHistoryCacheSize (d_cfg d)) \<and>
     (\<forall>x h. fmlookup (d_historyCache d) x = Some h \<longrightarrow>
        (\<exists>c \<in> U. Certificate_Digest c = x \<and> h = causal_search d c))"

lemma known_ok:
  assumes "dag_ok U d" and "fmlookup (known d) x = Some c"
  shows "c \<in> U" and "Certificate_Digest c = x"
  using assms mcs.keys
  by (auto simp: dag_ok_def index_ok_def known_def store_closed_def split: option.splits)

lemma dag_find_known: "dag_ok U d \<Longrightarrow> dag_find d x = fmlookup (known d) x"
proof (cases "d_certStore d")
  case None
  then show "dag_find d x = fmlookup (known d) x"
    by (auto simp: dag_find_def DAG_GetCertificate_def known_def split: option.splits)
next
  case (Some s)
  assume ok: "dag_ok U d"
  then have "mcs_ok s" using Some by (simp add: dag_ok_def store_closed_def)
  then have "\<not> mcs_closed s" by (simp add: mcs_ok_def)
  show "dag_find d x = fmlookup (known d) x"
  proof (cases "fmlookup (d_certIndex d) x")
    case None
    then show ?thesis using Some \<open>\<not> mcs_closed s\<close>
      by (auto simp: dag_find_def DAG_GetCertificate_def known_def MemoryCertificateStore_GetCertificate_def
          split: option.splits)
  next
    case (Some c)
    then show ?thesis using ok by (auto simp: dag_find_def DAG_GetCertificate_def dag_ok_def index_ok_def)
  qed
qed

lemma HasCertificate_known: "dag_ok U d \<Longrightarrow> DAG_HasCertificate x d \<longleftrightarrow> map_has (known d) x"
  using mcs.has_contents
  by (auto simp: DAG_HasCertificate_def dag_ok_def index_ok_def known_def store_closed_def map_has_def
      split: option.splits)

lemma search_known:
  assumes "dag_ok U d" and "dag_ok U d'" and "known d' = known d" and "d_cfg d' = d_cfg d"
  shows "causal_search d' c = causal_search d c"
  using assms by (intro causal_search_cong[of UNIV]) (simp_all add: dag_find_known)

lemma find_ok_known:
  assumes "universe_ok U" and "dag_ok U d" and "c \<in> U"
  shows "find_ok d c"
  using assms known_ok[OF assms(2)] universe_inj[OF assms(1)]
  by (auto simp: find_ok_def dag_find_known[OF assms(2)])

lemma parent_step_universe:
  assumes "universe_ok U" and "dag_ok U d" and "c \<in> U" and "parent_step d c p"
  shows "p \<in> U" and "Certificate_Round p < Certificate_Round c"
proof -
  obtain x where x: "x \<in> set (parent_digests c)" "fmlookup (known d) x = Some p"
    using assms(4) by (auto simp: parent_step_def dag_find_known[OF assms(2)])
  show "p \<in> U" using known_ok(1)[OF assms(2) x(2)] .
  then show "Certificate_Round p < Certificate_Round c"
    using universe_parent[OF assms(1,3)] x(1) known_ok(2)[OF assms(2) x(2)] by simp
qed

section \<open>Adding a certificate\<close>

definition round_of :: "u64 \<Rightarrow> DAG \<Rightarrow> RoundData" where
  "round_of r d = (case fmlookup (d_rounds d) r of Some rd \<Rightarrow> rd | None \<Rightarrow> NewRoundData r)"

definition with_round :: "u64 \<Rightarrow> DAG \<Rightarrow> DAG" where
  "with_round r d = (case fmlookup (d_rounds d) r of
     Some rd \<Rightarrow> d | None \<Rightarrow> d\<lparr>d_rounds := fmupd r (NewRoundData r) (d_rounds d)\<rparr>)"

lemma with_round_frame [simp]:
  "d_certIndex (with_round r d) = d_certIndex d" "d_certStore (with_round r d) = d_certStore d"
  "d_highestRound (with_round r d) = d_highestRound d" "d_cfg (with_round r d) = d_cfg d"
  "d_historyCache (with_round r d) = d_historyCache d"
  "d_historyCacheKeys (with_round r d) = d_historyCacheKeys d"
  "d_committedRound (with_round r d) = d_committedRound d" "d_hasCommitted (with_round r d) = d_hasCommitted d"
  by (simp_all add: with_round_def split: option.split)

lemma with_round_known [simp]: "known (with_round r d) = known d"
  by (simp add: known_def split: option.split)

lemma with_round_has [simp]: "DAG_HasCertificate x (with_round r d) = DAG_HasCertificate x d"
  by (simp add: DAG_HasCertificate_def)

lemma with_round_lookup: "fmlookup (d_rounds (with_round r d)) q =
    (if q = r then Some (round_of r d) else fmlookup (d_rounds d) q)"
  by (auto simp: with_round_def round_of_def split: option.split)

lemma hasCertificateLocked_eq: "DAG_hasCertificateLocked x d = DAG_HasCertificate x d"
  by (simp add: DAG_hasCertificateLocked_def DAG_HasCertificate_def)

abbreviation accept_certificate :: "Certificate \<Rightarrow> DAG \<Rightarrow> DAG" where
  "accept_certificate c d \<equiv> DAG_invalidateHistoryCacheForCertificate c
     (DAG_insert c (round_of (Certificate_Round c) d) (with_round (Certificate_Round c) d))"

abbreviation author_taken :: "Certificate \<Rightarrow> DAG \<Rightarrow> bool" where
  "author_taken c d \<equiv> map_has (rd_Certificates (round_of (Certificate_Round c) d)) (Certificate_Author c)"

abbreviation parents_missing :: "Certificate \<Rightarrow> DAG \<Rightarrow> bool" where
  "parents_missing c d \<equiv> Certificate_Round c > 0 \<and> (\<exists>x \<in> set (parent_digests c). \<not> DAG_HasCertificate x d)"

lemma AddCertificate_eq:
  "DAG_AddCertificate (Some c) d =
     (if author_taken c d then (with_round (Certificate_Round c) d, Some ErrDuplicateHeader)
      else if parents_missing c d then (with_round (Certificate_Round c) d, Some ErrMissingParents)
      else DAG_save c (accept_certificate c d))"
proof -
  have "(case fmlookup (d_rounds d) (Certificate_Round c) of
           Some rd \<Rightarrow> (rd, d)
         | None \<Rightarrow> (let rd = NewRoundData (Certificate_Round c)
                   in (rd, d\<lparr>d_rounds := fmupd (Certificate_Round c) rd (d_rounds d)\<rparr>))) =
        (round_of (Certificate_Round c) d, with_round (Certificate_Round c) d)"
    by (simp add: round_of_def with_round_def Let_def split: option.split)
  then show ?thesis
    by (simp add: DAG_AddCertificate_def Let_def RoundData_HasCertificate_def list_ex_iff
        hasCertificateLocked_eq parent_digests_def)
qed

lemma accept_frame [simp]:
  "d_certStore (accept_certificate c d) = d_certStore d" "d_cfg (accept_certificate c d) = d_cfg d"
  "d_certIndex (accept_certificate c d) = fmupd (Certificate_Digest c) c (d_certIndex d)"
  "d_highestRound (accept_certificate c d) = max (Certificate_Round c) (d_highestRound d)"
  "fmlookup (d_rounds (accept_certificate c d)) r =
     (if r = Certificate_Round c then Some (RoundData_AddCertificate c (round_of r d)) else fmlookup (d_rounds d) r)"
  by (auto simp: DAG_invalidateHistoryCacheForCertificate_def DAG_insert_def Let_def max_def with_round_lookup)

lemma DAG_save_frame [simp]:
  "d_rounds (fst (DAG_save c d)) = d_rounds d" "d_certIndex (fst (DAG_save c d)) = d_certIndex d"
  "d_highestRound (fst (DAG_save c d)) = d_highestRound d" "d_cfg (fst (DAG_save c d)) = d_cfg d"
  "d_historyCache (fst (DAG_save c d)) = d_historyCache d"
  "d_historyCacheKeys (fst (DAG_save c d)) = d_historyCacheKeys d"
  by (auto simp: DAG_save_def case_prod_beta split: option.split)

lemma with_round_ok: "dag_ok U d \<Longrightarrow> dag_ok U (with_round r d)"
  by (auto simp: dag_ok_def index_ok_def rounds_ok_def with_round_lookup round_of_def NewRoundData_def
      split: option.splits if_splits)

lemma cache_ok_transfer:
  assumes "cache_ok U d" and "dag_ok U d" and "dag_ok U d'" and "known d' = known d" and "d_cfg d' = d_cfg d"
    and "d_historyCache d' = d_historyCache d" and "d_historyCacheKeys d' = d_historyCacheKeys d"
  shows "cache_ok U d'"
  using assms(1,5-7) search_known[OF assms(2-5)] by (simp add: cache_ok_def)

lemma save_known:
  assumes "dag_ok U d" and "universe_ok U" and "c \<in> U"
  shows "snd (DAG_save c (accept_certificate c d)) = None"
    and "fmlookup (known (fst (DAG_save c (accept_certificate c d)))) x =
          (if x = Certificate_Digest c then Some c else fmlookup (known d) x)"
    and "d_certStore (fst (DAG_save c (accept_certificate c d))) =
          map_option (\<lambda>s. fst (MemoryCertificateStore_SaveCertificate c s)) (d_certStore d)"
proof -
  let ?d = "accept_certificate c d"
  show "d_certStore (fst (DAG_save c ?d)) =
      map_option (\<lambda>s. fst (MemoryCertificateStore_SaveCertificate c s)) (d_certStore d)"
    by (simp add: DAG_save_def case_prod_beta split: option.split)
  show "snd (DAG_save c ?d) = None"
    using assms(1) mcs.save_ok
    by (auto simp: DAG_save_def dag_ok_def store_closed_def case_prod_beta split: option.splits)
  show "fmlookup (known (fst (DAG_save c ?d))) x =
      (if x = Certificate_Digest c then Some c else fmlookup (known d) x)"
  proof (cases "d_certStore d")
    case None
    then show ?thesis by (simp add: DAG_save_def known_def)
  next
    case (Some s)
    then have s: "mcs_ok s" using assms(1) by (simp add: dag_ok_def store_closed_def)
    have same: "c' = c" if "fmlookup (mcs_certs s) (Certificate_Digest c) = Some c'" for c'
      using that known_ok[OF assms(1), of "Certificate_Digest c" c'] universe_inj[OF assms(2) _ assms(3)] Some
      by (simp add: known_def)
    have "known (fst (DAG_save c ?d)) = mcs_certs (fst (MemoryCertificateStore_SaveCertificate c s))"
      using Some by (simp add: DAG_save_def known_def case_prod_beta)
    then show ?thesis
      using mcs.save_contents[OF s, of c] same Some by (auto simp: known_def map_has_def)
  qed
qed

lemma accept_store_closed:
  assumes "dag_ok U d" and "universe_ok U" and "c \<in> U" and "\<not> parents_missing c d" and "d_certStore d = Some s"
  shows "store_closed U (fst (MemoryCertificateStore_SaveCertificate c s))"
proof -
  have s: "store_closed U s" "mcs_ok s" using assms(1,5) by (auto simp: dag_ok_def store_closed_def)
  have has: "map_has (mcs_certs s) x" if "x \<in> set (parent_digests c)" "Certificate_Round c > 0" for x
    using assms(4,5) that HasCertificate_known[OF assms(1)] by (auto simp: known_def)
  show ?thesis
    using s(1) has assms(3) mcs.save_contents[OF s(2), of c] mcs.save_ok[OF s(2), of c]
    unfolding store_closed_def by (auto split: if_splits)
qed

lemma accept_ok:
  assumes ok: "dag_ok U d" and U: "universe_ok U" and c: "c \<in> U"
    and "\<not> author_taken c d" and "\<not> parents_missing c d"
  shows "dag_ok U (fst (DAG_save c (accept_certificate c d)))"
proof -
  let ?d = "fst (DAG_save c (accept_certificate c d))"
  note known = save_known(2)[OF ok U c]
  have idx: "index_ok U d" and rds: "rounds_ok d" using ok by (auto simp: dag_ok_def)
  have "index_ok U ?d" using idx c unfolding index_ok_def by (simp add: known)
  moreover have "rounds_ok ?d"
    unfolding rounds_ok_def
  proof (intro allI impI)
    fix r rd i c'
    assume rd: "fmlookup (d_rounds ?d) r = Some rd" and c': "fmlookup (rd_Certificates rd) i = Some c'"
    have same: "c' = c" if "Certificate_Digest c' = Certificate_Digest c"
      "fmlookup (d_certIndex d) (Certificate_Digest c') = Some c'"
      using that idx universe_inj[OF U _ c] by (auto simp: index_ok_def)
    have "c' = c \<and> r = Certificate_Round c \<and> i = Certificate_Author c \<or>
        (\<exists>rd'. fmlookup (d_rounds d) r = Some rd' \<and> fmlookup (rd_Certificates rd') i = Some c')"
    proof (cases "r = Certificate_Round c")
      case True
      then have "rd = RoundData_AddCertificate c (round_of r d)" using rd by simp
      then show ?thesis
        using c' True by (cases "fmlookup (d_rounds d) r")
          (auto simp: RoundData_AddCertificate_def round_of_def NewRoundData_def split: if_splits)
    qed (use rd c' in simp)
    then show "Certificate_Round c' = r \<and> Certificate_Author c' = i \<and> r \<le> d_highestRound ?d \<and>
        fmlookup (d_certIndex ?d) (Certificate_Digest c') = Some c'"
      using rds same unfolding rounds_ok_def by (auto simp: le_max_iff_disj)
  qed
  moreover have "case d_certStore ?d of None \<Rightarrow> True | Some s \<Rightarrow> store_closed U s"
    using accept_store_closed[OF ok U c assms(5)] by (simp add: save_known(3)[OF ok U c] split: option.split)
  ultimately show ?thesis by (simp add: dag_ok_def)
qed

text \<open>Entries that survive the invalidation are those of certificates of no higher round.\<close>

lemma invalidate_cache:
  "fmlookup (d_historyCache (accept_certificate c d)) x = Some h \<longleftrightarrow>
     fmlookup (d_historyCache d) x = Some h \<and> \<not> (h \<noteq> [] \<and> Certificate_Round (hd h) > Certificate_Round c)"
  "set (d_historyCacheKeys (accept_certificate c d)) =
     {x \<in> set (d_historyCacheKeys d). \<forall>h. fmlookup (d_historyCache d) x = Some h \<longrightarrow>
        \<not> (h \<noteq> [] \<and> Certificate_Round (hd h) > Certificate_Round c)}"
  "distinct (d_historyCacheKeys d) \<Longrightarrow> distinct (d_historyCacheKeys (accept_certificate c d))"
  "length (d_historyCacheKeys (accept_certificate c d)) \<le> length (d_historyCacheKeys d)"
proof -
  let ?d = "DAG_insert c (round_of (Certificate_Round c) d) (with_round (Certificate_Round c) d)"
  let ?aff = "\<lambda>digest. case fmlookup (d_historyCache ?d) digest of
                Some (c' # _) \<Rightarrow> Certificate_Round c' > Certificate_Round c | _ \<Rightarrow> False"
  define ks where "ks = filter ?aff (map_keys (d_historyCache ?d))"
  have c: "d_historyCache ?d = d_historyCache d" "d_historyCacheKeys ?d = d_historyCacheKeys d"
    by (simp_all add: DAG_insert_def Let_def)
  have ks: "x \<in> set ks \<longleftrightarrow> (\<exists>h. fmlookup (d_historyCache d) x = Some h \<and> h \<noteq> [] \<and> Certificate_Round (hd h) > Certificate_Round c)" for x
    unfolding ks_def c by (auto simp: map_has_def split: option.splits list.splits)
  have cache: "d_historyCache (accept_certificate c d) = map_delete_all ks (d_historyCache d)"
    and keys: "d_historyCacheKeys (accept_certificate c d) = filter (\<lambda>key. key \<notin> set ks) (d_historyCacheKeys d)"
    unfolding DAG_invalidateHistoryCacheForCertificate_def Let_def ks_def[symmetric] by (simp_all add: c)
  show "fmlookup (d_historyCache (accept_certificate c d)) x = Some h \<longleftrightarrow>
      fmlookup (d_historyCache d) x = Some h \<and> \<not> (h \<noteq> [] \<and> Certificate_Round (hd h) > Certificate_Round c)"
    unfolding cache fmlookup_map_delete_all using ks[of x] by auto
  show "set (d_historyCacheKeys (accept_certificate c d)) =
     {x \<in> set (d_historyCacheKeys d). \<forall>h. fmlookup (d_historyCache d) x = Some h \<longrightarrow>
        \<not> (h \<noteq> [] \<and> Certificate_Round (hd h) > Certificate_Round c)}"
    unfolding keys set_filter using ks by blast
  show "distinct (d_historyCacheKeys d) \<Longrightarrow> distinct (d_historyCacheKeys (accept_certificate c d))"
    "length (d_historyCacheKeys (accept_certificate c d)) \<le> length (d_historyCacheKeys d)"
    unfolding keys by simp_all
qed

lemma accept_search:
  assumes ok: "dag_ok U d" and U: "universe_ok U" and c: "c \<in> U"
    and "\<not> author_taken c d" and "\<not> parents_missing c d"
    and c': "c' \<in> U" and "Certificate_Round c' \<le> Certificate_Round c"
  shows "causal_search (fst (DAG_save c (accept_certificate c d))) c' = causal_search d c'"
proof (rule causal_search_cong[symmetric, of "{x \<in> U. Certificate_Round x \<le> Certificate_Round c}"])
  let ?d = "fst (DAG_save c (accept_certificate c d))"
  fix b x
  assume b: "b \<in> {x \<in> U. Certificate_Round x \<le> Certificate_Round c}" and x: "x \<in> set (parent_digests b)"
  have "x \<noteq> Certificate_Digest c" using universe_parent[OF U _ c, of b] b x by auto
  then show "dag_find d x = dag_find ?d x"
    using dag_find_known[OF ok] dag_find_known[OF accept_ok[OF assms(1-5)]] save_known(2)[OF ok U c] by simp
next
  fix b p
  assume "b \<in> {x \<in> U. Certificate_Round x \<le> Certificate_Round c}" "parent_step d b p"
  then show "p \<in> {x \<in> U. Certificate_Round x \<le> Certificate_Round c}"
    using parent_step_universe[OF U ok, of b p] by auto
qed (use assms in simp_all)

lemma accept_cache_ok:
  assumes ok: "dag_ok U d" and U: "universe_ok U" and c: "c \<in> U"
    and "\<not> author_taken c d" and "\<not> parents_missing c d" and cache: "cache_ok U d"
  shows "cache_ok U (fst (DAG_save c (accept_certificate c d)))"
proof -
  let ?d = "fst (DAG_save c (accept_certificate c d))"
  note inv = invalidate_cache[where c = c and d = d]
  have keys: "distinct (d_historyCacheKeys d)" "\<And>x. x \<in> set (d_historyCacheKeys d) \<longleftrightarrow> map_has (d_historyCache d) x"
    "0 < dc_MaxHistoryCacheSize (d_cfg d) \<longrightarrow> int (length (d_historyCacheKeys d)) \<le> dc_MaxHistoryCacheSize (d_cfg d)"
    and entry: "\<And>x h. fmlookup (d_historyCache d) x = Some h \<Longrightarrow> \<exists>c \<in> U. Certificate_Digest c = x \<and> h = causal_search d c"
    using cache unfolding cache_ok_def by blast+
  have "\<exists>c' \<in> U. Certificate_Digest c' = x \<and> h = causal_search ?d c'"
    if h: "fmlookup (d_historyCache ?d) x = Some h" for x h
  proof -
    have h: "fmlookup (d_historyCache d) x = Some h" "\<not> (h \<noteq> [] \<and> Certificate_Round (hd h) > Certificate_Round c)"
      using h inv(1)[of x h] by simp_all
    obtain c' where c': "c' \<in> U" "Certificate_Digest c' = x" "h = causal_search d c'" using entry[OF h(1)] by blast
    have "causal_search ?d c' = causal_search d c'"
    proof (cases "0 < dc_MaxHistoryDepth (d_cfg d)")
      case True
      then have "hd h = c'" "h \<noteq> []" using causal_search_nonempty[OF True, of c'] c'(3) by auto
      then show ?thesis using accept_search[OF assms(1-5) c'(1)] h(2) by simp
    qed (simp add: causal_search_empty)
    then show ?thesis using c' by auto
  qed
  moreover have "x \<in> set (d_historyCacheKeys ?d) \<longleftrightarrow> map_has (d_historyCache ?d) x" for x
    using keys(2)[of x] inv(1)[of x] inv(2) by (auto simp: map_has_def)
  moreover have "distinct (d_historyCacheKeys ?d)" using inv(3) keys(1) by simp
  moreover have "0 < dc_MaxHistoryCacheSize (d_cfg ?d) \<longrightarrow>
      int (length (d_historyCacheKeys ?d)) \<le> dc_MaxHistoryCacheSize (d_cfg ?d)"
    using inv(4) keys(3) by simp linarith
  ultimately show ?thesis unfolding cache_ok_def by blast
qed

lemma AddCertificate_ok:
  assumes "universe_ok U" and "c \<in> U" and "dag_ok U d" and "cache_ok U d"
  shows "dag_ok U (fst (DAG_AddCertificate (Some c) d)) \<and> cache_ok U (fst (DAG_AddCertificate (Some c) d))"
  using accept_ok[OF assms(3,1,2)] accept_cache_ok[OF assms(3,1,2) _ _ assms(4)] with_round_ok[OF assms(3)]
    cache_ok_transfer[OF assms(4,3) with_round_ok[OF assms(3)]]
  unfolding AddCertificate_eq by simp

section \<open>The other operations\<close>

lemma evict_history_eq: "evict_history n keys cache = (drop n keys, map_delete_all (take n keys) cache)"
  by (induction n keys cache rule: evict_history.induct) (auto simp: take_Cons' drop_Cons')

lemma history_room_eq:
  obtains n where "history_room d = (drop n (d_historyCacheKeys d), map_delete_all (take n (d_historyCacheKeys d)) (d_historyCache d))"
    and "0 < dc_MaxHistoryCacheSize (d_cfg d) \<Longrightarrow>
      int (length (d_historyCacheKeys d)) \<le> dc_MaxHistoryCacheSize (d_cfg d) \<Longrightarrow>
      int (length (drop n (d_historyCacheKeys d))) < dc_MaxHistoryCacheSize (d_cfg d)"
proof (cases "dc_MaxHistoryCacheSize (d_cfg d) > 0 \<and> int (length (d_historyCacheKeys d)) \<ge> dc_MaxHistoryCacheSize (d_cfg d)")
  case True
  let ?n = "nat (if go_div (dc_MaxHistoryCacheSize (d_cfg d)) 10 < 1 then 1 else go_div (dc_MaxHistoryCacheSize (d_cfg d)) 10)"
  have "0 < ?n" by simp
  show ?thesis
  proof (rule that[of ?n])
    show "history_room d = (drop ?n (d_historyCacheKeys d), map_delete_all (take ?n (d_historyCacheKeys d)) (d_historyCache d))"
      using True by (simp add: history_room_def Let_def evict_history_eq)
    show "int (length (drop ?n (d_historyCacheKeys d))) < dc_MaxHistoryCacheSize (d_cfg d)"
      if "0 < dc_MaxHistoryCacheSize (d_cfg d)" "int (length (d_historyCacheKeys d)) \<le> dc_MaxHistoryCacheSize (d_cfg d)"
      using that \<open>0 < ?n\<close> unfolding length_drop by linarith
  qed
next
  case False
  then show ?thesis by (intro that[of 0]) (auto simp: history_room_def)
qed

lemma CausalHistory_ok:
  assumes U: "universe_ok U" and c: "c \<in> U" and ok: "dag_ok U d" and cache: "cache_ok U d"
  shows "dag_ok U (fst (DAG_CausalHistory (Some c) d)) \<and> cache_ok U (fst (DAG_CausalHistory (Some c) d)) \<and>
     snd (DAG_CausalHistory (Some c) d) = causal_search d c \<and>
     known (fst (DAG_CausalHistory (Some c) d)) = known d"
proof (cases "fmlookup (d_historyCache d) (Certificate_Digest c)")
  case (Some h)
  then obtain c' where "c' \<in> U" "Certificate_Digest c' = Certificate_Digest c" "h = causal_search d c'"
    using cache unfolding cache_ok_def by blast
  then show ?thesis
    using Some ok cache universe_inj[OF U _ c, of c'] by (simp add: DAG_CausalHistory_def)
next
  case None
  obtain n where n: "history_room d =
      (drop n (d_historyCacheKeys d), map_delete_all (take n (d_historyCacheKeys d)) (d_historyCache d))"
    and room: "0 < dc_MaxHistoryCacheSize (d_cfg d) \<Longrightarrow>
      int (length (d_historyCacheKeys d)) \<le> dc_MaxHistoryCacheSize (d_cfg d) \<Longrightarrow>
      int (length (drop n (d_historyCacheKeys d))) < dc_MaxHistoryCacheSize (d_cfg d)"
    using history_room_eq by blast
  let ?d = "fst (DAG_CausalHistory (Some c) d)"
  have eq: "?d = d\<lparr>d_historyCache := fmupd (Certificate_Digest c) (causal_search d c)
        (map_delete_all (take n (d_historyCacheKeys d)) (d_historyCache d)),
      d_historyCacheKeys := drop n (d_historyCacheKeys d) @ [Certificate_Digest c]\<rparr>"
    using None n by (simp add: DAG_CausalHistory_def Let_def)
  have known: "known ?d = known d" "d_cfg ?d = d_cfg d" by (simp_all add: eq known_def split: option.split)
  have ok': "dag_ok U ?d" using ok known(1) by (simp add: dag_ok_def index_ok_def rounds_ok_def eq split: option.splits)
  have search: "causal_search ?d c' = causal_search d c'" for c'
    using search_known[OF ok ok' known] .
  have keys: "distinct (d_historyCacheKeys d)" "\<And>x. x \<in> set (d_historyCacheKeys d) \<longleftrightarrow> map_has (d_historyCache d) x"
    "0 < dc_MaxHistoryCacheSize (d_cfg d) \<longrightarrow> int (length (d_historyCacheKeys d)) \<le> dc_MaxHistoryCacheSize (d_cfg d)"
    and entry: "\<And>x h. fmlookup (d_historyCache d) x = Some h \<Longrightarrow> \<exists>c \<in> U. Certificate_Digest c = x \<and> h = causal_search d c"
    using cache unfolding cache_ok_def by blast+
  have new: "Certificate_Digest c \<notin> set (d_historyCacheKeys d)" using keys(2) None by (simp add: map_has_def)
  have part: "set (take n (d_historyCacheKeys d)) \<union> set (drop n (d_historyCacheKeys d)) = set (d_historyCacheKeys d)"
    "set (take n (d_historyCacheKeys d)) \<inter> set (drop n (d_historyCacheKeys d)) = {}"
    using keys(1) by (metis append_take_drop_id set_append, metis append_take_drop_id distinct_append)
  have "cache_ok U ?d"
    unfolding cache_ok_def search
  proof (intro conjI allI impI)
    show "distinct (d_historyCacheKeys ?d)" using keys(1) new part(1) by (auto simp: eq)
    show "x \<in> set (d_historyCacheKeys ?d) \<longleftrightarrow> map_has (d_historyCache ?d) x" for x
      using part keys(2)[of x] by (auto simp: eq)
    show "int (length (d_historyCacheKeys ?d)) \<le> dc_MaxHistoryCacheSize (d_cfg ?d)"
      if "0 < dc_MaxHistoryCacheSize (d_cfg ?d)"
      using room that keys(3) by (simp add: eq)
    show "\<exists>c' \<in> U. Certificate_Digest c' = x \<and> h = causal_search d c'"
      if "fmlookup (d_historyCache ?d) x = Some h" for x h
      using that c entry[of x h] by (auto simp: eq split: if_splits)
  qed
  then show ?thesis using ok' known None n by (simp add: DAG_CausalHistory_def Let_def)
qed

lemma cache_ok_cleared: "cache_ok U (DAG_invalidateHistoryCacheLocked d)"
  by (simp add: cache_ok_def DAG_invalidateHistoryCacheLocked_def)

lemma dag_ok_cleared: "dag_ok U d \<Longrightarrow> dag_ok U (DAG_invalidateHistoryCacheLocked d)"
  by (simp add: dag_ok_def index_ok_def rounds_ok_def DAG_invalidateHistoryCacheLocked_def known_def split: option.splits)

lemma SetCommittedRound_ok:
  assumes "dag_ok U d" and "cache_ok U d"
  shows "dag_ok U (DAG_SetCommittedRound r d) \<and> cache_ok U (DAG_SetCommittedRound r d)"
proof -
  have k: "known (DAG_SetCommittedRound r d) = known d"
    by (simp add: known_def DAG_SetCommittedRound_def split: option.split)
  have "rounds_ok (DAG_SetCommittedRound r d)"
    using assms(1) unfolding dag_ok_def rounds_ok_def
    by (auto simp: DAG_SetCommittedRound_def RoundData_SetCommitted_def split: option.splits if_splits)
  then have "dag_ok U (DAG_SetCommittedRound r d)"
    using assms(1) k by (simp add: dag_ok_def index_ok_def DAG_SetCommittedRound_def split: option.splits)
  then show ?thesis
    using cache_ok_transfer[OF assms(2,1) _ k] by (simp add: DAG_SetCommittedRound_def)
qed

lemma round_digests_set:
  "x \<in> set (round_digests rd) \<longleftrightarrow> (\<exists>i c. fmlookup (rd_Certificates rd) i = Some c \<and> Certificate_Digest c = x)"
  unfolding round_digests_def set_map image_iff Bex_def map_values_order[OF iter_order_map_keys] by blast

lemma prune_index_ok:
  assumes "dag_ok U d"
  shows "dag_ok U (prune_index r d)"
proof -
  have idx: "index_ok U d" and rds: "rounds_ok d" using assms by (auto simp: dag_ok_def)
  have sub: "fmlookup (d_certIndex (prune_index r d)) x = Some c \<Longrightarrow> fmlookup (d_certIndex d) x = Some c" for x c
    by (auto simp: prune_index_def split: option.splits if_splits)
  have keep: "fmlookup (d_certIndex (prune_index r d)) (Certificate_Digest c) = Some c"
    if rd: "fmlookup (d_rounds d) q = Some rd" "q \<noteq> r" and c: "fmlookup (rd_Certificates rd) i = Some c" for q rd i c
  proof -
    have c': "Certificate_Round c = q" "fmlookup (d_certIndex d) (Certificate_Digest c) = Some c"
      using rds rd(1) c by (auto simp: rounds_ok_def)
    have "Certificate_Digest c \<notin> set (round_digests rd')" if "fmlookup (d_rounds d) r = Some rd'" for rd'
    proof
      assume "Certificate_Digest c \<in> set (round_digests rd')"
      then obtain j b where "fmlookup (rd_Certificates rd') j = Some b" "Certificate_Digest b = Certificate_Digest c"
        by (auto simp: round_digests_set)
      then have "Certificate_Round b = r" "fmlookup (d_certIndex d) (Certificate_Digest c) = Some b"
        using rounds_okD[OF rds that] by metis+
      then show False using c' rd(2) by auto
    qed
    then show ?thesis using c'(2) by (auto simp: prune_index_def split: option.split)
  qed
  have "known (prune_index r d) = (if d_certStore d = None then d_certIndex (prune_index r d) else known d)"
    by (auto simp: known_def prune_index_def split: option.split)
  then have "index_ok U (prune_index r d)"
    using idx sub unfolding index_ok_def by (auto simp: known_def)
  moreover have "rounds_ok (prune_index r d)"
    using rds keep unfolding rounds_ok_def by (auto simp: prune_index_def split: if_splits)
  ultimately show ?thesis using assms by (simp add: dag_ok_def prune_index_def)
qed

lemma prune_ok:
  "dag_ok U d \<Longrightarrow> dag_ok U (DAG_PruneRound r d) \<and> cache_ok U (DAG_PruneRound r d)"
  by (simp add: DAG_PruneRound_def cache_ok_cleared dag_ok_cleared prune_index_ok)

lemma prune_loop_ok: "dag_ok U d \<Longrightarrow> dag_ok U (fold (\<lambda>r d. if r < q then prune_index r d else d) rs d)"
  by (induction rs arbitrary: d) (auto simp: prune_index_ok)

lemma PruneRoundsBefore_ok:
  "dag_ok U d \<Longrightarrow> dag_ok U (DAG_PruneRoundsBefore r d) \<and> cache_ok U (DAG_PruneRoundsBefore r d)"
  by (simp add: DAG_PruneRoundsBefore_def cache_ok_cleared dag_ok_cleared prune_loop_ok)

abbreviation load_cert :: "Certificate \<Rightarrow> RoundData \<times> (hash, Certificate) fmap \<Rightarrow> RoundData \<times> (hash, Certificate) fmap" where
  "load_cert \<equiv> \<lambda>cert (rd, idx). (RoundData_AddCertificate cert rd, fmupd (Certificate_Digest cert) cert idx)"

lemma load_loop_round:
  "fold load_cert certs (rd0, idx0) = (rd, idx) \<Longrightarrow> fmlookup (rd_Certificates rd) i = Some c \<Longrightarrow>
     fmlookup (rd_Certificates rd0) i = Some c \<or> c \<in> set certs \<and> Certificate_Author c = i"
  by (induction certs arbitrary: rd0 idx0) (force simp: RoundData_AddCertificate_def split: if_splits)+

lemma load_loop_index:
  "fold load_cert certs (rd0, idx0) = (rd, idx) \<Longrightarrow> fmlookup idx x = Some c \<Longrightarrow>
     fmlookup idx0 x = Some c \<or> c \<in> set certs \<and> Certificate_Digest c = x"
  by (induction certs arbitrary: rd0 idx0) (force split: if_splits)+

lemma load_loop_other:
  "fold load_cert certs (rd0, idx0) = (rd, idx) \<Longrightarrow> x \<notin> Certificate_Digest ` set certs \<Longrightarrow>
     fmlookup idx x = fmlookup idx0 x"
  by (induction certs arbitrary: rd0 idx0) (force split: if_splits)+

lemma load_loop_loaded:
  "fold load_cert certs (rd0, idx0) = (rd, idx) \<Longrightarrow> distinct (map Certificate_Digest certs) \<Longrightarrow>
     c \<in> set certs \<Longrightarrow> fmlookup idx (Certificate_Digest c) = Some c"
proof (induction certs arbitrary: rd0 idx0)
  case (Cons b certs)
  have "fold load_cert certs (RoundData_AddCertificate b rd0, fmupd (Certificate_Digest b) b idx0) = (rd, idx)"
    using Cons.prems(1) by simp
  then show ?case using Cons load_loop_other[of certs _ _ rd idx "Certificate_Digest b"] by auto
qed simp

lemmas load_loop_certs = load_loop_round load_loop_index load_loop_loaded load_loop_other

lemma load_certificates_ok:
  assumes ok: "dag_ok U d" and s: "d_certStore d = Some s"
    and certs: "MemoryCertificateStore_GetCertificatesByRound r s = Inr certs"
  shows "dag_ok U (load_certificates r certs d)" and "known (load_certificates r certs d) = known d"
proof -
  obtain rd idx where f: "fold load_cert certs (NewRoundData r, d_certIndex d) = (rd, idx)"
    by (rule prod.exhaust)
  let ?d = "load_certificates r certs d"
  have eq: "?d = d\<lparr>d_certIndex := idx, d_rounds := fmupd r rd (d_rounds d),
      d_highestRound := (if r > d_highestRound d then r else d_highestRound d)\<rparr>"
    by (simp add: load_certificates_def f)
  have mcs: "mcs_ok s" using ok s by (simp add: dag_ok_def store_closed_def)
  have known: "known ?d = known d" "known d = mcs_certs s" using s by (simp_all add: known_def eq)
  then show "known ?d = known d" by simp
  have idx: "index_ok U d" and rds: "rounds_ok d" using ok by (auto simp: dag_ok_def)
  have in_store: "fmlookup (known d) (Certificate_Digest c) = Some c \<and> Certificate_Round c = r" if "c \<in> set certs" for c
    using mcs.by_round_get(1)[OF mcs certs] that mcs.get_contents[OF mcs] known(2) by simp
  note loop = load_loop_certs[OF f]
  have "index_ok U ?d"
    unfolding index_ok_def
  proof (intro allI impI)
    fix x c assume "fmlookup (d_certIndex ?d) x = Some c"
    then have "fmlookup (d_certIndex d) x = Some c \<or> c \<in> set certs \<and> Certificate_Digest c = x"
      using loop(2) by (simp add: eq)
    then show "c \<in> U \<and> Certificate_Digest c = x \<and> fmlookup (known ?d) x = Some c"
      using idx in_store[of c] known_ok(1)[OF ok, of "Certificate_Digest c" c] known(1)
      unfolding index_ok_def by metis
  qed
  moreover have "rounds_ok ?d"
    unfolding rounds_ok_def
  proof (intro allI impI)
    fix q rd' i c
    assume rd': "fmlookup (d_rounds ?d) q = Some rd'" and c: "fmlookup (rd_Certificates rd') i = Some c"
    show "Certificate_Round c = q \<and> Certificate_Author c = i \<and> q \<le> d_highestRound ?d \<and>
        fmlookup (d_certIndex ?d) (Certificate_Digest c) = Some c"
    proof (cases "q = r")
      case True
      then have "rd' = rd" using rd' by (simp add: eq)
      then have "c \<in> set certs" "Certificate_Author c = i"
        using loop(1)[of i c] c by (auto simp: NewRoundData_def)
      then show ?thesis
        using True in_store loop(3) mcs.by_round_get(2)[OF mcs certs] by (auto simp: eq)
    next
      case False
      then have "fmlookup (d_rounds d) q = Some rd'" using rd' by (simp add: eq)
      note old = rounds_okD[OF rds this c]
      have "fmlookup (known d) (Certificate_Digest c) = Some c" using idx old(4) unfolding index_ok_def by blast
      then have "Certificate_Digest c \<notin> Certificate_Digest ` set certs"
        using in_store old(1) False by fastforce
      then show ?thesis using old loop(4) by (auto simp: eq)
    qed
  qed
  ultimately show "dag_ok U ?d" using ok by (simp add: dag_ok_def eq)
qed

lemma LoadRound_ok:
  assumes "dag_ok U d" and "cache_ok U d"
  shows "dag_ok U (fst (DAG_LoadRound r d)) \<and> cache_ok U (fst (DAG_LoadRound r d))"
proof (cases "d_certStore d")
  case (Some s)
  then have "mcs_ok s" using assms(1) by (simp add: dag_ok_def store_closed_def)
  then obtain certs where c: "MemoryCertificateStore_GetCertificatesByRound r s = Inr certs"
    using mcs.by_round_contents by blast
  note l = load_certificates_ok[OF assms(1) Some c]
  have "d_historyCache (load_certificates r certs d) = d_historyCache d \<and>
      d_historyCacheKeys (load_certificates r certs d) = d_historyCacheKeys d \<and>
      d_cfg (load_certificates r certs d) = d_cfg d"
    by (simp add: load_certificates_def case_prod_beta)
  then show ?thesis
    using l Some c cache_ok_transfer[OF assms(2,1) l] by (simp add: DAG_LoadRound_def)
qed (use assms in \<open>simp add: DAG_LoadRound_def\<close>)

lemma dag_run_ok: "dag_run U d \<Longrightarrow> universe_ok U \<Longrightarrow> dag_ok U d \<and> cache_ok U d"
proof (induction rule: dag_run.induct)
  case (memory cfg)
  then show ?case
    by (simp add: dag_ok_def index_ok_def rounds_ok_def cache_ok_def NewDAG_def)
next
  case (stored s cfg)
  then show ?case
    by (simp add: dag_ok_def index_ok_def rounds_ok_def cache_ok_def NewDAG_def)
qed (simp_all add: AddCertificate_ok CausalHistory_ok SetCommittedRound_ok prune_ok PruneRoundsBefore_ok LoadRound_ok)

end
