(* ===== verification/Dag_Properties.thy ===== *)
theory Dag_Properties
  imports Dag_Runs
begin

text \<open>
  Properties of the certificate DAG: consistency of its lookups, the outcomes of adding a
  certificate, causal histories with and without the cache, and ordered delivery.
\<close>

section \<open>Lookups\<close>

lemma GetCertificate_known:
  assumes "dag_ok U d"
  shows "DAG_GetCertificate x d =
    (case fmlookup (known d) x of Some c \<Rightarrow> Inr c | None \<Rightarrow> Inl ErrCertificateNotFound)"
proof (cases "fmlookup (d_certIndex d) x")
  case (Some c)
  then show ?thesis using assms by (auto simp: DAG_GetCertificate_def dag_ok_def index_ok_def)
next
  case None
  show ?thesis
  proof (cases "d_certStore d")
    case (Some s)
    then have "\<not> mcs_closed s" using assms by (auto simp: dag_ok_def store_closed_def mcs_ok_def)
    then show ?thesis using None Some
      by (simp add: DAG_GetCertificate_def MemoryCertificateStore_GetCertificate_def known_def)
  qed (use None in \<open>simp add: DAG_GetCertificate_def known_def\<close>)
qed

lemma GetCertificate_Inr: "dag_ok U d \<Longrightarrow> DAG_GetCertificate x d = Inr c \<longleftrightarrow> fmlookup (known d) x = Some c"
  by (simp add: GetCertificate_known split: option.split)

lemma index_known:
  "dag_ok U d \<Longrightarrow> fmlookup (d_certIndex d) x = Some c \<Longrightarrow> fmlookup (known d) x = Some c"
  unfolding dag_ok_def index_ok_def by blast

lemma store_known:
  assumes "dag_ok U d" and "d_certStore d = Some s"
  shows "mcs_ok s" and "known d = mcs_certs s" and "store_closed U s"
  using assms by (auto simp: dag_ok_def store_closed_def known_def)

lemma GetCertificateForValidator_sound:
  assumes "dag_ok U d" and "DAG_GetCertificateForValidator r i d = Some c"
  shows "Certificate_Round c = r \<and> Certificate_Author c = i \<and> fmlookup (known d) (Certificate_Digest c) = Some c"
proof (cases "fmlookup (d_rounds d) r")
  case (Some rd)
  then have "fmlookup (rd_Certificates rd) i = Some c"
    using assms(2) by (simp add: DAG_GetCertificateForValidator_def RoundData_GetCertificate_def)
  then show ?thesis
    using rounds_okD[OF _ Some] assms(1) index_known[OF assms(1)] by (auto simp: dag_ok_def)
next
  case None
  then obtain s where s: "d_certStore d = Some s" "MemoryCertificateStore_GetCertificateForValidator r i s = Inr c"
    using assms(2) by (auto simp: DAG_GetCertificateForValidator_def split: option.splits sum.splits)
  then show ?thesis
    using mcs.for_validator_sound[OF store_known(1)[OF assms(1) s(1)] s(2)] store_known(2)[OF assms(1) s(1)] by simp
qed

lemma round_certificates:
  assumes "dag_ok U d" and "go_order ord"
  shows "\<forall>c \<in> set (DAG_GetCertificatesForRound ord r d).
           Certificate_Round c = r \<and> fmlookup (known d) (Certificate_Digest c) = Some c"
    and "inj_on (\<lambda>c. (Certificate_Round c, Certificate_Author c)) U \<Longrightarrow>
           distinct (map Certificate_Author (DAG_GetCertificatesForRound ord r d))"
proof -
  let ?cs = "DAG_GetCertificatesForRound ord r d"
  have "(\<forall>c \<in> set ?cs. Certificate_Round c = r \<and> fmlookup (known d) (Certificate_Digest c) = Some c) \<and>
     (inj_on (\<lambda>c. (Certificate_Round c, Certificate_Author c)) U \<longrightarrow> distinct (map Certificate_Author ?cs))"
  proof (cases "fmlookup (d_rounds d) r")
    case (Some rd)
    let ?m = "rd_Certificates rd"
    have it: "iter_order (ord ?m) ?m" using assms(2) by (simp add: go_order_def)
    have cs: "?cs = map_values (ord ?m) ?m"
      using Some by (simp add: DAG_GetCertificatesForRound_def RoundData_GetAllCertificates_def)
    have rd: "rounds_ok d" using assms(1) by (simp add: dag_ok_def)
    have "distinct (map Certificate_Author ?cs)"
      unfolding cs using rounds_okD(2)[OF rd Some] iter_orderD(1)[OF it] by (intro distinct_map_values_key)
    moreover have "Certificate_Round c = r \<and> fmlookup (known d) (Certificate_Digest c) = Some c" if "c \<in> set ?cs" for c
      using that map_values_order[OF it, of c] rounds_okD(1,4)[OF rd Some] index_known[OF assms(1)] unfolding cs by blast
    ultimately show ?thesis by blast
  next
    case None
    show ?thesis
    proof (cases "d_certStore d")
      case (Some s)
      note s = store_known[OF assms(1) Some]
      obtain cs where cs: "MemoryCertificateStore_GetCertificatesByRound r s = Inr cs"
        using mcs.by_round_contents[OF s(1)] by blast
      have eq: "?cs = cs" using None Some cs by (simp add: DAG_GetCertificatesForRound_def)
      have mem: "Certificate_Round c = r \<and> fmlookup (known d) (Certificate_Digest c) = Some c" if "c \<in> set cs" for c
        using mcs.by_round_get(1)[OF s(1) cs] that mcs.get_contents[OF s(1)] s(2) by simp
      have "distinct (map Certificate_Author cs)" if inj: "inj_on (\<lambda>c. (Certificate_Round c, Certificate_Author c)) U"
      proof -
        have "inj_on Certificate_Author (set cs)"
          using inj mem known_ok(1)[OF assms(1)] unfolding inj_on_def by (metis (no_types, lifting))
        moreover have "distinct cs" using mcs.by_round_get(2)[OF s(1) cs] by (simp add: distinct_map)
        ultimately show ?thesis by (simp add: distinct_map)
      qed
      then show ?thesis using mem unfolding eq by blast
    qed (use None in \<open>simp add: DAG_GetCertificatesForRound_def\<close>)
  qed
  then show "\<forall>c \<in> set ?cs. Certificate_Round c = r \<and> fmlookup (known d) (Certificate_Digest c) = Some c"
    "inj_on (\<lambda>c. (Certificate_Round c, Certificate_Author c)) U \<Longrightarrow> distinct (map Certificate_Author ?cs)"
    by blast+
qed

lemma map_values_mset: "mset ks = mset ks' \<Longrightarrow> mset (map_values ks m) = mset (map_values ks' m)"
  unfolding map_values_def List.map_filter_def by (metis mset_filter mset_map)

lemma round_certificates_order:
  assumes "go_order ord" and "go_order ord'"
  shows "mset (DAG_GetCertificatesForRound ord r d) = mset (DAG_GetCertificatesForRound ord' r d)"
proof (cases "fmlookup (d_rounds d) r")
  case (Some rd)
  have "mset (ord (rd_Certificates rd)) = mset (ord' (rd_Certificates rd))"
    using assms iter_order_mset unfolding go_order_def by blast
  then show ?thesis
    using Some map_values_mset by (simp add: DAG_GetCertificatesForRound_def RoundData_GetAllCertificates_def)
qed (simp add: DAG_GetCertificatesForRound_def)

section \<open>Ordered delivery\<close>

definition rounds_between :: "u64 \<Rightarrow> u64 \<Rightarrow> u64 list" where
  "rounds_between a b = map of_nat [unat a..<Suc (unat b)]"

lemma rounds_between_step:
  assumes "a \<le> b" and "b \<noteq> - 1"
  shows "rounds_between a b = a # rounds_between (a + 1) b" and "unat (a + 1) = Suc (unat a)"
proof -
  have "a \<noteq> - 1" using assms by (metis word_n1_ge word_order.extremum_uniqueI)
  then have "1 + a \<noteq> 0" by (simp add: add_eq_0_iff)
  then show u: "unat (a + 1) = Suc (unat a)" using unatSuc[of a] by (simp add: add.commute)
  have "unat a \<le> unat b" using assms(1) by (simp add: word_le_nat_alt)
  then show "rounds_between a b = a # rounds_between (a + 1) b"
    unfolding rounds_between_def u by (simp add: upt_conv_Cons del: upt_Suc)
qed

lemma rounds_between_empty: "b < a \<Longrightarrow> rounds_between a b = []"
  by (simp add: rounds_between_def word_less_nat_alt del: upt_Suc)

lemma set_rounds_between: "set (rounds_between a b) = {a..b}"
proof -
  have "x \<in> set (rounds_between a b) \<longleftrightarrow> x \<in> {a..b}" for x
  proof
    assume "x \<in> set (rounds_between a b)"
    then obtain n where n: "unat a \<le> n" "n \<le> unat b" "x = of_nat n" by (auto simp: rounds_between_def)
    then have "unat x = n" using unsigned_less[where ?'b = 64 and w = b and ?'a = nat] by (simp add: unat_of_nat take_bit_nat_eq_self)
    then show "x \<in> {a..b}" using n by (simp add: word_le_nat_alt)
  next
    assume "x \<in> {a..b}"
    then have "unat x \<in> {unat a..<Suc (unat b)}" by (auto simp: word_le_nat_alt)
    then show "x \<in> set (rounds_between a b)"
      unfolding rounds_between_def set_map set_upt by (intro image_eqI[of _ _ "unat x"]) simp_all
  qed
  then show ?thesis by blast
qed

lemma sorted_rounds_between: "sorted_wrt (<) (rounds_between a b)"
proof -
  have "sorted_wrt (\<lambda>x y. (of_nat x :: u64) < of_nat y) [unat a..<Suc (unat b)]"
  proof (rule sorted_wrt_mono_rel[OF _ sorted_wrt_upt])
    fix x y assume xy: "x \<in> set [unat a..<Suc (unat b)]" "y \<in> set [unat a..<Suc (unat b)]" "x < y"
    have "unat (of_nat n :: u64) = n" if "n \<in> set [unat a..<Suc (unat b)]" for n
      using that unsigned_less[where ?'b = 64 and w = b and ?'a = nat] by (auto simp: unat_of_nat take_bit_nat_eq_self)
    then show "(of_nat x :: u64) < of_nat y" using xy by (simp add: word_less_nat_alt)
  qed
  then show ?thesis by (simp add: rounds_between_def sorted_wrt_map)
qed

abbreviation round_delivery :: "cert_order \<Rightarrow> DAG \<Rightarrow> u64 \<Rightarrow> Certificate list" where
  "round_delivery ord d r \<equiv> sort_key Certificate_Author (DAG_GetCertificatesForRound ord r d)"

lemma ordered_loop_eq:
  "toRound \<noteq> - 1 \<Longrightarrow> ordered_loop ord d toRound r result =
     Some (result @ concat (map (round_delivery ord d) (rounds_between r toRound)))"
proof (induction "Suc (unat toRound) - unat r" arbitrary: r result)
  case 0
  then have "toRound < r" "\<not> r \<le> toRound" by (simp_all add: word_less_nat_alt word_le_nat_alt)
  then show ?case by (subst ordered_loop.simps) (simp add: rounds_between_empty)
next
  case (Suc n)
  then have le: "r \<le> toRound" by (simp add: word_le_nat_alt)
  note step = rounds_between_step[OF le Suc.prems]
  have "n = Suc (unat toRound) - unat (r + 1)" using Suc.hyps(2) step(2) by simp
  note IH = Suc.hyps(1)[OF this Suc.prems]
  show ?case
    by (subst ordered_loop.simps) (use le IH step(1) in \<open>auto simp: Let_def\<close>)
qed

lemma ordered_loop_diverges: "ordered_loop ord d (- 1) r result = None"
proof -
  have "ordered_loop ord d toRound r result = Some cs \<Longrightarrow> toRound \<noteq> - 1" for toRound r result cs
    by (rule ordered_loop.raw_induct[of "\<lambda>ord d toRound r result cs. toRound \<noteq> - 1"])
       (auto simp: Let_def split: if_splits)
  then show ?thesis by (cases "ordered_loop ord d (- 1) r result") auto
qed

section \<open>A small DAG\<close>

definition demo_cert :: "hash \<Rightarrow> u64 \<Rightarrow> u16 \<Rightarrow> hash list \<Rightarrow> Certificate" where
  "demo_cert x r a ps =
     \<lparr>c_Header = \<lparr>h_Author = a, h_Round = r, h_Epoch = 1, h_BatchRefs = [],
        h_Parents = map (\<lambda>p. \<lparr>cr_Digest = p, cr_Round = r - 2\<rparr>) ps, h_Timestamp = 0, h_Digest = x,
        h_Signature = 0\<rparr>, c_Votes = [], c_SignerMask = NewBitSet 256\<rparr>"

abbreviation demo_A :: Certificate where "demo_A \<equiv> demo_cert 10 0 0 []"
abbreviation demo_B :: Certificate where "demo_B \<equiv> demo_cert 11 2 0 [10]"
abbreviation demo_C :: Certificate where "demo_C \<equiv> demo_cert 12 4 3 [11]"

definition demo_dag :: DAG where
  "demo_dag = fst (DAG_AddCertificate (Some demo_C) (fst (DAG_AddCertificate (Some demo_B)
     (fst (DAG_AddCertificate (Some demo_A) (NewDAG (Some NewMemoryCertificateStore) DefaultDagConfig))))))"

lemma demo_cert_sel [simp]:
  "Certificate_Digest (demo_cert x r a ps) = x" "Certificate_Round (demo_cert x r a ps) = r"
  "Certificate_Author (demo_cert x r a ps) = a" "parent_digests (demo_cert x r a ps) = ps"
  by (simp_all add: demo_cert_def Certificate_Digest_def Certificate_Round_def Certificate_Author_def
      parent_digests_def comp_def)

lemma demo_cert_eq: "demo_cert x r a ps = demo_cert x' r' a' ps' \<Longrightarrow> x = x'"
  by (metis demo_cert_sel(1))

lemma demo_universe: "universe_ok {demo_A, demo_B, demo_C}"
  unfolding universe_ok_def inj_on_def by simp

lemma demo_store_closed: "store_closed {demo_A, demo_B, demo_C} NewMemoryCertificateStore"
  by (simp add: store_closed_def) (simp add: NewMemoryCertificateStore_def)

lemma demo_dag_run: "dag_run {demo_A, demo_B, demo_C} demo_dag"
  unfolding demo_dag_def by (intro dag_run.add dag_run.stored demo_store_closed) simp_all

lemma add_to_fresh_round:
  assumes "dag_ok U d" and "universe_ok U" and "c \<in> U" and "fmlookup (d_rounds d) (Certificate_Round c) = None"
    and "\<forall>x \<in> set (parent_digests c). map_has (known d) x" and "d' = fst (DAG_AddCertificate (Some c) d)"
  shows "fmlookup (known d') x = (if x = Certificate_Digest c then Some c else fmlookup (known d) x)"
    and "d_cfg d' = d_cfg d" and "r \<noteq> Certificate_Round c \<Longrightarrow> fmlookup (d_rounds d') r = fmlookup (d_rounds d) r"
proof -
  have "d' = fst (DAG_save c (accept_certificate c d))"
    using assms(4-6) unfolding AddCertificate_eq HasCertificate_known[OF assms(1)]
    by (auto simp: round_of_def NewRoundData_def)
  then show "fmlookup (known d') x = (if x = Certificate_Digest c then Some c else fmlookup (known d) x)"
    "d_cfg d' = d_cfg d" "r \<noteq> Certificate_Round c \<Longrightarrow> fmlookup (d_rounds d') r = fmlookup (d_rounds d) r"
    using save_known(2)[OF assms(1-3), of x] by simp_all
qed

lemma demo_dag_known:
  "fmlookup (known demo_dag) 10 = Some demo_A" "fmlookup (known demo_dag) 11 = Some demo_B"
  "fmlookup (known demo_dag) 12 = Some demo_C" "d_cfg demo_dag = DefaultDagConfig"
proof -
  let ?U = "{demo_A, demo_B, demo_C}"
  define d0 where "d0 = NewDAG (Some NewMemoryCertificateStore) DefaultDagConfig"
  define d1 where "d1 = fst (DAG_AddCertificate (Some demo_A) d0)"
  define d2 where "d2 = fst (DAG_AddCertificate (Some demo_B) d1)"
  have run: "dag_run ?U d0" "dag_run ?U d1" "dag_run ?U d2"
    unfolding d2_def d1_def d0_def by (intro dag_run.add dag_run.stored demo_store_closed; simp)+
  note ok = run[THEN dag_run_ok, OF demo_universe, THEN conjunct1]
  have 0: "fmlookup (d_rounds d0) r = None" "d_cfg d0 = DefaultDagConfig" for r by (simp_all add: d0_def NewDAG_def)
  note 1 = add_to_fresh_round[OF ok(1) demo_universe, of demo_A, OF _ _ _ d1_def]
  note 2 = add_to_fresh_round[OF ok(2) demo_universe, of demo_B, OF _ _ _ d2_def]
  have d3: "demo_dag = fst (DAG_AddCertificate (Some demo_C) d2)" by (simp add: demo_dag_def d0_def d1_def d2_def)
  note 3 = add_to_fresh_round[OF ok(3) demo_universe, of demo_C, OF _ _ _ d3]
  show "fmlookup (known demo_dag) 10 = Some demo_A" "fmlookup (known demo_dag) 11 = Some demo_B"
    "fmlookup (known demo_dag) 12 = Some demo_C" "d_cfg demo_dag = DefaultDagConfig"
    by (simp_all add: 1 2 3 0 map_has_def)
qed

lemmas demo_dag_ok = dag_run_ok[OF demo_dag_run demo_universe, THEN conjunct1]

section \<open>Properties\<close>





text \<open>
  \<^bold>\<open>C21\<close>: causal histories are complete. If the round of a certificate is below
  \<^verbatim>\<open>MaxHistoryDepth\<close>, its causal history starts with the certificate itself and lists exactly the
  certificates that can be reached over known parents, each once; a larger round is cut off at that
  distance.
\<close>

lemma ancestor_rounds:
  assumes "universe_ok U" and "dag_ok U d" and "c \<in> U" and "(parent_step d ^^ n) c p"
  shows "p \<in> U \<and> unat (Certificate_Round p) + n \<le> unat (Certificate_Round c)"
  using assms(4)
proof (induction n arbitrary: p)
  case (Suc n)
  obtain b where b: "(parent_step d ^^ n) c b" "parent_step d b p" using Suc.prems by (rule relpowp_Suc_E)
  have "p \<in> U" "Certificate_Round p < Certificate_Round b"
    using parent_step_universe[OF assms(1,2) _ b(2)] Suc.IH[OF b(1)] by simp_all
  then show ?case using Suc.IH[OF b(1)] by (simp add: word_less_nat_alt)
qed (simp add: assms(3))





text \<open>
  A rejected certificate can hide a stored round. If a round is not in memory, so that it
  is read from the certificate store, and a certificate of that round is rejected for missing parents,
  then the empty round that the rejected call leaves in memory shadows the store: the round is then
  reported empty, although its certificates are stored.
\<close>

lemma rejected_certificate_hides_round:
  assumes "fmlookup (d_rounds d) (Certificate_Round c) = None" and "d_certStore d = Some s"
    and "MemoryCertificateStore_GetCertificatesByRound (Certificate_Round c) s = Inr certs"
    and "0 < Certificate_Round c" and "p \<in> set (parent_digests c)" and "\<not> DAG_HasCertificate p d"
  shows "snd (DAG_AddCertificate (Some c) d) = Some ErrMissingParents \<and>
    DAG_GetCertificatesForRound ord (Certificate_Round c) d = certs \<and>
    DAG_GetCertificatesForRound ord (Certificate_Round c) (fst (DAG_AddCertificate (Some c) d)) = []"
proof -
  have "DAG_AddCertificate (Some c) d = (with_round (Certificate_Round c) d, Some ErrMissingParents)"
    using assms(1,4-6) unfolding AddCertificate_eq by (auto simp: round_of_def NewRoundData_def)
  moreover have "map_values ks fmempty = []" for ks :: "u16 list" by (induction ks) (simp_all add: map_values_Cons)
  ultimately show ?thesis
    using assms(1-3)
    by (simp add: DAG_GetCertificatesForRound_def with_round_lookup round_of_def NewRoundData_def
        RoundData_GetAllCertificates_def)
qed

lemma rejected_certificate_hides_round_example:
  "let s = fst (MemoryCertificateStore_SaveCertificate demo_B NewMemoryCertificateStore);
       d = NewDAG (Some s) DefaultDagConfig; bad = demo_cert 99 2 1 [77]
   in DAG_GetCertificatesForRound map_keys 2 d = [demo_B] \<and>
      DAG_GetCertificatesForRound map_keys 2 (fst (DAG_AddCertificate (Some bad) d)) = []"
proof -
  let ?s = "fst (MemoryCertificateStore_SaveCertificate demo_B NewMemoryCertificateStore)"
  let ?d = "NewDAG (Some ?s) DefaultDagConfig"
  have "MemoryCertificateStore_GetCertificatesByRound 2 ?s = Inr [demo_B]"
    by (simp add: MemoryCertificateStore_GetCertificatesByRound_def MemoryCertificateStore_SaveCertificate_def
        NewMemoryCertificateStore_def map_values_Cons Let_def)
  moreover have "\<not> DAG_HasCertificate 77 ?d"
    by (simp add: DAG_HasCertificate_def NewDAG_def MemoryCertificateStore_HasCertificate_def
        MemoryCertificateStore_SaveCertificate_def NewMemoryCertificateStore_def Let_def)
  ultimately show ?thesis
    using rejected_certificate_hides_round[of ?d "demo_cert 99 2 1 [77]" ?s "[demo_B]" 77 map_keys]
    by (simp add: NewDAG_def Let_def)
qed

lemma round_delivery_unique:
  assumes "dag_ok U d" and "inj_on (\<lambda>c. (Certificate_Round c, Certificate_Author c)) U"
    and "go_order ord" and "go_order ord'"
  shows "round_delivery ord d r = round_delivery ord' d r"
  using round_certificates_order[OF assms(3,4)] round_certificates(2)[OF assms(1,3,2)] by (rule sort_key_perm_unique)

abbreviation cert_less :: "Certificate \<Rightarrow> Certificate \<Rightarrow> bool" where
  "cert_less a b \<equiv> Certificate_Round a < Certificate_Round b \<or>
     Certificate_Round a = Certificate_Round b \<and> Certificate_Author a < Certificate_Author b"

lemma round_delivery_sorted:
  assumes "dag_ok U d" and "inj_on (\<lambda>c. (Certificate_Round c, Certificate_Author c)) U" and "go_order ord"
  shows "sorted_wrt cert_less (round_delivery ord d r)"
proof -
  let ?cs = "round_delivery ord d r"
  have "mset (map Certificate_Author ?cs) = mset (map Certificate_Author (DAG_GetCertificatesForRound ord r d))" by simp
  then have "distinct (map Certificate_Author ?cs)"
    using round_certificates(2)[OF assms(1,3,2)] mset_eq_imp_distinct_iff by blast
  then have "sorted_wrt (<) (map Certificate_Author ?cs)"
    by (metis sorted_sort_key strict_sorted_iff)
  then have "sorted_wrt (\<lambda>a b. Certificate_Author a < Certificate_Author b) ?cs" by (simp add: sorted_wrt_map)
  then show ?thesis
    by (rule sorted_wrt_mono_rel[rotated]) (use round_certificates(1)[OF assms(1,3)] in auto)
qed

lemma sorted_wrt_concat:
  assumes "sorted_wrt R rs" and "\<And>r. r \<in> set rs \<Longrightarrow> sorted_wrt P (f r)"
    and "\<And>r q x y. R r q \<Longrightarrow> x \<in> set (f r) \<Longrightarrow> y \<in> set (f q) \<Longrightarrow> P x y"
  shows "sorted_wrt P (concat (map f rs))"
  using assms by (induction rs) (auto simp: sorted_wrt_append)

lemma ordered_certificates_spec:
  assumes "universe_ok U" and "dag_run U d" and "inj_on (\<lambda>c. (Certificate_Round c, Certificate_Author c)) U"
    and "go_order ord" and "toRound \<noteq> - 1"
  shows "\<exists>cs. DAG_GetOrderedCertificates ord fromRound toRound d = Some cs \<and>
    sorted_wrt cert_less cs \<and>
    set cs = {c. fromRound \<le> Certificate_Round c \<and> Certificate_Round c \<le> toRound \<and>
                 c \<in> set (DAG_GetCertificatesForRound ord (Certificate_Round c) d)} \<and>
    (\<forall>ord'. go_order ord' \<longrightarrow> DAG_GetOrderedCertificates ord' fromRound toRound d = Some cs)"
proof -
  have ok: "dag_ok U d" using dag_run_ok[OF assms(2,1)] by simp
  let ?cs = "\<lambda>ord. concat (map (round_delivery ord d) (rounds_between fromRound toRound))"
  have eq: "DAG_GetOrderedCertificates o' fromRound toRound d = Some (?cs o')" for o'
    using assms(5) by (auto simp: DAG_GetOrderedCertificates_def ordered_loop_eq rounds_between_empty)
  have mem: "Certificate_Round c = r" if "c \<in> set (DAG_GetCertificatesForRound ord r d)" for c r
    using round_certificates(1)[OF ok assms(4)] that by blast
  have "sorted_wrt cert_less (?cs ord)"
    by (rule sorted_wrt_concat[OF sorted_rounds_between round_delivery_sorted[OF ok assms(3,4)]]) (auto dest: mem)
  moreover have "set (?cs ord) = {c. fromRound \<le> Certificate_Round c \<and> Certificate_Round c \<le> toRound \<and>
                 c \<in> set (DAG_GetCertificatesForRound ord (Certificate_Round c) d)}"
  proof -
    have "c \<in> set (?cs ord) \<longleftrightarrow> (\<exists>r \<in> {fromRound..toRound}. c \<in> set (DAG_GetCertificatesForRound ord r d))" for c
      by (simp add: set_rounds_between)
    moreover have "(\<exists>r \<in> {fromRound..toRound}. c \<in> set (DAG_GetCertificatesForRound ord r d)) \<longleftrightarrow> Certificate_Round c \<in> {fromRound..toRound} \<and>
        c \<in> set (DAG_GetCertificatesForRound ord (Certificate_Round c) d)" for c
      using mem[of c] by blast
    ultimately show ?thesis by auto
  qed
  moreover have "DAG_GetOrderedCertificates ord' fromRound toRound d = Some (?cs ord)" if "go_order ord'" for ord'
    unfolding eq using round_delivery_unique[OF ok assms(3) that assms(4)] by simp
  ultimately show ?thesis using eq[of ord] by blast
qed

text \<open>With the largest 64-bit number as upper round the loop variable wraps around to 0 before it can
  exceed the bound.\<close>

lemma ordered_certificates_diverge:
  "DAG_GetOrderedCertificates ord fromRound (- 1) d = None"
  by (simp add: DAG_GetOrderedCertificates_def ordered_loop_diverges not_less word_n1_ge)



end
