(* ===== verification/Flow_Control.thy ===== *)
theory Flow_Control
  imports Wire_Types
begin

text \<open>
  Flow control (\<^verbatim>\<open>gc/flow.go\<close>): the gap between the current and the committed round, the
  pending batches and headers, and the pause state that follows from them. The pause and resume
  callbacks are outputs: an operation returns the callback it fires.
\<close>

section \<open>State and operations\<close>

record FlowConfig =
  fcfg_MaxUncommittedRounds :: u64
  fcfg_MaxPendingBatches :: int
  fcfg_MaxPendingHeaders :: int

definition DefaultFlowConfig :: FlowConfig where
  "DefaultFlowConfig =
     \<lparr>fcfg_MaxUncommittedRounds = 100, fcfg_MaxPendingBatches = 1000, fcfg_MaxPendingHeaders = 100\<rparr>"

record FlowController =
  fc_cfg :: FlowConfig
  fc_currentRound :: u64
  fc_committedRound :: u64
  fc_pendingBatches :: int
  fc_pendingHeaders :: int
  fc_paused :: bool
  fc_onPause :: bool
  fc_onResume :: bool
  fc_pauseCount :: u64
  fc_resumeCount :: u64

datatype flow_event = OnPause | OnResume

definition NewFlowController :: "FlowConfig \<Rightarrow> FlowController" where
  "NewFlowController cfg =
     \<lparr>fc_cfg = cfg, fc_currentRound = 0, fc_committedRound = 0, fc_pendingBatches = 0, fc_pendingHeaders = 0,
      fc_paused = False, fc_onPause = False, fc_onResume = False, fc_pauseCount = 0, fc_resumeCount = 0\<rparr>"

definition FlowController_SetPauseCallback :: "bool \<Rightarrow> FlowController \<Rightarrow> FlowController" where
  "FlowController_SetPauseCallback cb fc = fc\<lparr>fc_onPause := cb\<rparr>"

definition FlowController_SetResumeCallback :: "bool \<Rightarrow> FlowController \<Rightarrow> FlowController" where
  "FlowController_SetResumeCallback cb fc = fc\<lparr>fc_onResume := cb\<rparr>"

definition FlowController_UncommittedGap :: "FlowController \<Rightarrow> u64" where
  "FlowController_UncommittedGap fc =
     (let current = fc_currentRound fc; committed = fc_committedRound fc
      in if current \<le> committed then 0 else current - committed)"

definition FlowController_IsPaused :: "FlowController \<Rightarrow> bool" where
  "FlowController_IsPaused fc = fc_paused fc"

definition FlowController_CanCreateHeader :: "FlowController \<Rightarrow> bool" where
  "FlowController_CanCreateHeader fc =
     (if FlowController_UncommittedGap fc \<ge> fcfg_MaxUncommittedRounds (fc_cfg fc) then False
      else if fcfg_MaxPendingHeaders (fc_cfg fc) > 0 \<and>
              fc_pendingHeaders fc \<ge> fcfg_MaxPendingHeaders (fc_cfg fc) then False
      else True)"

definition FlowController_CanCreateBatch :: "FlowController \<Rightarrow> bool" where
  "FlowController_CanCreateBatch fc =
     (if fcfg_MaxPendingBatches (fc_cfg fc) > 0 \<and>
         fc_pendingBatches fc \<ge> fcfg_MaxPendingBatches (fc_cfg fc) then False
      else \<not> FlowController_IsPaused fc)"

definition FlowController_CanAdvanceRound :: "FlowController \<Rightarrow> bool" where
  "FlowController_CanAdvanceRound fc = FlowController_CanCreateHeader fc"

definition FlowController_checkFlowControl :: "FlowController \<Rightarrow> FlowController \<times> flow_event option" where
  "FlowController_checkFlowControl fc =
     (let p0 = False;
          p1 = (if FlowController_UncommittedGap fc \<ge> fcfg_MaxUncommittedRounds (fc_cfg fc) then True else p0);
          p2 = (if fcfg_MaxPendingBatches (fc_cfg fc) > 0 \<and>
                   fc_pendingBatches fc \<ge> fcfg_MaxPendingBatches (fc_cfg fc) then True else p1);
          shouldPause = (if fcfg_MaxPendingHeaders (fc_cfg fc) > 0 \<and>
                   fc_pendingHeaders fc \<ge> fcfg_MaxPendingHeaders (fc_cfg fc) then True else p2)
      in if shouldPause
         then (if \<not> fc_paused fc
               then (fc\<lparr>fc_paused := True, fc_pauseCount := fc_pauseCount fc + 1\<rparr>,
                     if fc_onPause fc then Some OnPause else None)
               else (fc\<lparr>fc_paused := True\<rparr>, None))
         else (if fc_paused fc
               then (fc\<lparr>fc_paused := False, fc_resumeCount := fc_resumeCount fc + 1\<rparr>,
                     if fc_onResume fc then Some OnResume else None)
               else (fc\<lparr>fc_paused := False\<rparr>, None)))"

definition FlowController_UpdateCurrentRound :: "u64 \<Rightarrow> FlowController \<Rightarrow> FlowController \<times> flow_event option" where
  "FlowController_UpdateCurrentRound rnd fc = FlowController_checkFlowControl (fc\<lparr>fc_currentRound := rnd\<rparr>)"

definition FlowController_UpdateCommittedRound :: "u64 \<Rightarrow> FlowController \<Rightarrow> FlowController \<times> flow_event option" where
  "FlowController_UpdateCommittedRound rnd fc = FlowController_checkFlowControl (fc\<lparr>fc_committedRound := rnd\<rparr>)"

definition FlowController_AddPendingBatch :: "FlowController \<Rightarrow> FlowController \<times> flow_event option" where
  "FlowController_AddPendingBatch fc =
     FlowController_checkFlowControl (fc\<lparr>fc_pendingBatches := fc_pendingBatches fc + 1\<rparr>)"

definition FlowController_RemovePendingBatch :: "FlowController \<Rightarrow> FlowController \<times> flow_event option" where
  "FlowController_RemovePendingBatch fc =
     (let val = fc_pendingBatches fc + - 1
      in FlowController_checkFlowControl (fc\<lparr>fc_pendingBatches := (if val < 0 then 0 else val)\<rparr>))"

definition FlowController_AddPendingHeader :: "FlowController \<Rightarrow> FlowController \<times> flow_event option" where
  "FlowController_AddPendingHeader fc =
     FlowController_checkFlowControl (fc\<lparr>fc_pendingHeaders := fc_pendingHeaders fc + 1\<rparr>)"

definition FlowController_RemovePendingHeader :: "FlowController \<Rightarrow> FlowController \<times> flow_event option" where
  "FlowController_RemovePendingHeader fc =
     (let val = fc_pendingHeaders fc + - 1
      in FlowController_checkFlowControl (fc\<lparr>fc_pendingHeaders := (if val < 0 then 0 else val)\<rparr>))"

definition FlowController_PendingBatches :: "FlowController \<Rightarrow> int" where
  "FlowController_PendingBatches fc = fc_pendingBatches fc"

definition FlowController_PendingHeaders :: "FlowController \<Rightarrow> int" where
  "FlowController_PendingHeaders fc = fc_pendingHeaders fc"

record FlowMetrics =
  fm_CurrentRound :: u64
  fm_CommittedRound :: u64
  fm_UncommittedGap :: u64
  fm_PendingBatches :: int
  fm_PendingHeaders :: int
  fm_IsPaused :: bool
  fm_PauseCount :: u64
  fm_ResumeCount :: u64
  fm_MaxUncommittedRounds :: u64
  fm_MaxPendingBatches :: int
  fm_MaxPendingHeaders :: int

definition FlowController_Metrics :: "FlowController \<Rightarrow> FlowMetrics" where
  "FlowController_Metrics fc =
     \<lparr>fm_CurrentRound = fc_currentRound fc, fm_CommittedRound = fc_committedRound fc,
      fm_UncommittedGap = FlowController_UncommittedGap fc,
      fm_PendingBatches = fc_pendingBatches fc, fm_PendingHeaders = fc_pendingHeaders fc,
      fm_IsPaused = fc_paused fc, fm_PauseCount = fc_pauseCount fc, fm_ResumeCount = fc_resumeCount fc,
      fm_MaxUncommittedRounds = fcfg_MaxUncommittedRounds (fc_cfg fc),
      fm_MaxPendingBatches = fcfg_MaxPendingBatches (fc_cfg fc),
      fm_MaxPendingHeaders = fcfg_MaxPendingHeaders (fc_cfg fc)\<rparr>"

definition FlowController_Reset :: "FlowController \<Rightarrow> FlowController" where
  "FlowController_Reset fc =
     fc\<lparr>fc_currentRound := 0, fc_committedRound := 0, fc_pendingBatches := 0, fc_pendingHeaders := 0,
        fc_paused := False, fc_pauseCount := 0, fc_resumeCount := 0\<rparr>"

section \<open>Specification\<close>

text \<open>
  What flow control promises, over mathematical integers: a node is overloaded when its rounds run
  ahead of the commits or a positive limit is reached.
\<close>

definition over_limit :: "FlowConfig \<Rightarrow> int \<Rightarrow> int \<Rightarrow> int \<Rightarrow> int \<Rightarrow> bool" where
  "over_limit cfg current committed batches headers \<longleftrightarrow>
     max 0 (current - committed) \<ge> uint (fcfg_MaxUncommittedRounds cfg) \<or>
     (0 < fcfg_MaxPendingBatches cfg \<and> fcfg_MaxPendingBatches cfg \<le> batches) \<or>
     (0 < fcfg_MaxPendingHeaders cfg \<and> fcfg_MaxPendingHeaders cfg \<le> headers)"

abbreviation fc_over_limit :: "FlowController \<Rightarrow> bool" where
  "fc_over_limit fc \<equiv> over_limit (fc_cfg fc) (uint (fc_currentRound fc)) (uint (fc_committedRound fc))
     (fc_pendingBatches fc) (fc_pendingHeaders fc)"

lemma UncommittedGap_int:
  "uint (FlowController_UncommittedGap fc) = max 0 (uint (fc_currentRound fc) - uint (fc_committedRound fc))"
proof (cases "fc_currentRound fc \<le> fc_committedRound fc")
  case True
  then show ?thesis by (simp add: FlowController_UncommittedGap_def word_le_def)
next
  case False
  then have "fc_committedRound fc \<le> fc_currentRound fc" by simp
  then have "uint (fc_currentRound fc - fc_committedRound fc) = uint (fc_currentRound fc) - uint (fc_committedRound fc)"
    by (simp add: uint_minus_simple_alt)
  then show ?thesis using False by (simp add: FlowController_UncommittedGap_def word_le_def)
qed

lemma gap_limit:
  "FlowController_UncommittedGap fc \<ge> fcfg_MaxUncommittedRounds (fc_cfg fc) \<longleftrightarrow>
     max 0 (uint (fc_currentRound fc) - uint (fc_committedRound fc)) \<ge> uint (fcfg_MaxUncommittedRounds (fc_cfg fc))"
  by (simp add: word_le_def UncommittedGap_int)

lemma checkFlowControl_eq:
  "FlowController_checkFlowControl fc =
     (fc\<lparr>fc_paused := fc_over_limit fc,
         fc_pauseCount := fc_pauseCount fc + of_bool (fc_over_limit fc \<and> \<not> fc_paused fc),
         fc_resumeCount := fc_resumeCount fc + of_bool (\<not> fc_over_limit fc \<and> fc_paused fc)\<rparr>,
      if fc_over_limit fc \<and> \<not> fc_paused fc then if fc_onPause fc then Some OnPause else None
      else if \<not> fc_over_limit fc \<and> fc_paused fc then if fc_onResume fc then Some OnResume else None
      else None)"
  unfolding FlowController_checkFlowControl_def Let_def gap_limit over_limit_def by simp

section \<open>Runs\<close>

text \<open>A run from a fresh controller with both callbacks set, with the callbacks fired so far.\<close>

inductive flow_run :: "FlowConfig \<Rightarrow> FlowController \<Rightarrow> flow_event list \<Rightarrow> bool" for cfg where
  start: "flow_run cfg (FlowController_SetResumeCallback True (FlowController_SetPauseCallback True
            (NewFlowController cfg))) []"
| current: "flow_run cfg fc evs \<Longrightarrow> FlowController_UpdateCurrentRound r fc = (fc', ev) \<Longrightarrow>
    flow_run cfg fc' (evs @ case_option [] (\<lambda>e. [e]) ev)"
| committed: "flow_run cfg fc evs \<Longrightarrow> FlowController_UpdateCommittedRound r fc = (fc', ev) \<Longrightarrow>
    flow_run cfg fc' (evs @ case_option [] (\<lambda>e. [e]) ev)"
| add_batch: "flow_run cfg fc evs \<Longrightarrow> FlowController_AddPendingBatch fc = (fc', ev) \<Longrightarrow>
    flow_run cfg fc' (evs @ case_option [] (\<lambda>e. [e]) ev)"
| remove_batch: "flow_run cfg fc evs \<Longrightarrow> FlowController_RemovePendingBatch fc = (fc', ev) \<Longrightarrow>
    flow_run cfg fc' (evs @ case_option [] (\<lambda>e. [e]) ev)"
| add_header: "flow_run cfg fc evs \<Longrightarrow> FlowController_AddPendingHeader fc = (fc', ev) \<Longrightarrow>
    flow_run cfg fc' (evs @ case_option [] (\<lambda>e. [e]) ev)"
| remove_header: "flow_run cfg fc evs \<Longrightarrow> FlowController_RemovePendingHeader fc = (fc', ev) \<Longrightarrow>
    flow_run cfg fc' (evs @ case_option [] (\<lambda>e. [e]) ev)"

text \<open>The callbacks alternate, starting with a pause.\<close>

fun alternating :: "bool \<Rightarrow> flow_event list \<Rightarrow> bool \<Rightarrow> bool" where
  "alternating p [] q \<longleftrightarrow> p = q"
| "alternating p (OnPause # evs) q \<longleftrightarrow> \<not> p \<and> alternating True evs q"
| "alternating p (OnResume # evs) q \<longleftrightarrow> p \<and> alternating False evs q"

lemma alternating_snoc:
  "alternating p (evs @ [OnPause]) q \<longleftrightarrow> alternating p evs False \<and> q"
  "alternating p (evs @ [OnResume]) q \<longleftrightarrow> alternating p evs True \<and> \<not> q"
  by (induction p evs q rule: alternating.induct) auto

definition flow_inv :: "FlowConfig \<Rightarrow> FlowController \<Rightarrow> flow_event list \<Rightarrow> bool" where
  "flow_inv cfg fc evs \<longleftrightarrow> fc_cfg fc = cfg \<and> fc_onPause fc \<and> fc_onResume fc \<and>
     alternating False evs (fc_paused fc) \<and>
     fc_pauseCount fc = fc_resumeCount fc + of_bool (fc_paused fc) \<and>
     fc_pauseCount fc = of_nat (length (filter ((=) OnPause) evs)) \<and>
     0 \<le> fc_pendingBatches fc \<and> 0 \<le> fc_pendingHeaders fc \<and>
     (uint (fcfg_MaxUncommittedRounds cfg) > 0 \<longrightarrow> (fc_paused fc \<longleftrightarrow> fc_over_limit fc))"

lemma flow_inv_nonneg: "flow_inv cfg fc evs \<Longrightarrow> 0 \<le> fc_pendingBatches fc \<and> 0 \<le> fc_pendingHeaders fc"
  by (simp add: flow_inv_def)

lemma flow_inv_check:
  assumes "flow_inv cfg fc evs" and "fc_cfg g = fc_cfg fc" and "fc_onPause g = fc_onPause fc"
    and "fc_onResume g = fc_onResume fc" and "fc_paused g = fc_paused fc" and "fc_pauseCount g = fc_pauseCount fc"
    and "fc_resumeCount g = fc_resumeCount fc" and "0 \<le> fc_pendingBatches g" and "0 \<le> fc_pendingHeaders g"
    and "FlowController_checkFlowControl g = (fc', ev)"
  shows "flow_inv cfg fc' (evs @ case_option [] (\<lambda>e. [e]) ev)"
  using assms unfolding checkFlowControl_eq flow_inv_def
  by (cases "fc_over_limit g"; cases "fc_paused g") (auto simp: alternating_snoc)

lemma flow_run_inv: "flow_run cfg fc evs \<Longrightarrow> flow_inv cfg fc evs"
proof (induction rule: flow_run.induct)
  case start
  then show ?case
    by (simp add: flow_inv_def over_limit_def NewFlowController_def FlowController_SetPauseCallback_def
        FlowController_SetResumeCallback_def)
next
  case (current fc evs r fc' ev)
  then show ?case
    by (intro flow_inv_check[of cfg fc evs "fc\<lparr>fc_currentRound := r\<rparr>"])
       (simp_all add: FlowController_UpdateCurrentRound_def flow_inv_nonneg)
next
  case (committed fc evs r fc' ev)
  then show ?case
    by (intro flow_inv_check[of cfg fc evs "fc\<lparr>fc_committedRound := r\<rparr>"])
       (simp_all add: FlowController_UpdateCommittedRound_def flow_inv_nonneg)
next
  case (add_batch fc evs fc' ev)
  then show ?case
    by (intro flow_inv_check[of cfg fc evs "fc\<lparr>fc_pendingBatches := fc_pendingBatches fc + 1\<rparr>"])
       (simp_all add: FlowController_AddPendingBatch_def flow_inv_nonneg)
next
  case (remove_batch fc evs fc' ev)
  then show ?case
    by (intro flow_inv_check[of cfg fc evs "fc\<lparr>fc_pendingBatches :=
          (if fc_pendingBatches fc + - 1 < 0 then 0 else fc_pendingBatches fc + - 1)\<rparr>"])
       (simp_all add: FlowController_RemovePendingBatch_def flow_inv_nonneg Let_def split: if_splits)
next
  case (add_header fc evs fc' ev)
  then show ?case
    by (intro flow_inv_check[of cfg fc evs "fc\<lparr>fc_pendingHeaders := fc_pendingHeaders fc + 1\<rparr>"])
       (simp_all add: FlowController_AddPendingHeader_def flow_inv_nonneg)
next
  case (remove_header fc evs fc' ev)
  then show ?case
    by (intro flow_inv_check[of cfg fc evs "fc\<lparr>fc_pendingHeaders :=
          (if fc_pendingHeaders fc + - 1 < 0 then 0 else fc_pendingHeaders fc + - 1)\<rparr>"])
       (simp_all add: FlowController_RemovePendingHeader_def flow_inv_nonneg Let_def split: if_splits)
qed

section \<open>Properties\<close>

text \<open>
  \<^bold>\<open>C33\<close>: flow control refines its specification. In every reachable state with a positive round
  limit the controller is paused exactly when the node is overloaded, computed over unbounded integers;
  batches may be created exactly when it is not; a header may be created whenever it is not paused; the
  callbacks fired so far alternate, beginning with a pause and ending with one exactly when it is paused;
  and the counters never go negative.
\<close>

theorem flow_control_refines:
  assumes "flow_run cfg fc evs" and "0 < fcfg_MaxUncommittedRounds cfg"
  shows "(FlowController_IsPaused fc \<longleftrightarrow>
      over_limit cfg (uint (fc_currentRound fc)) (uint (fc_committedRound fc)) (fc_pendingBatches fc) (fc_pendingHeaders fc)) \<and>
    (FlowController_CanCreateBatch fc \<longleftrightarrow> \<not> FlowController_IsPaused fc) \<and>
    (\<not> FlowController_IsPaused fc \<longrightarrow> FlowController_CanCreateHeader fc) \<and>
    alternating False evs (FlowController_IsPaused fc) \<and>
    0 \<le> FlowController_PendingBatches fc \<and> 0 \<le> FlowController_PendingHeaders fc"
proof -
  have "0 < uint (fcfg_MaxUncommittedRounds cfg)" using assms(2) by (simp add: word_less_def)
  then have inv: "flow_inv cfg fc evs" "fc_paused fc \<longleftrightarrow> fc_over_limit fc" "fc_cfg fc = cfg"
    using flow_run_inv[OF assms(1)] by (auto simp: flow_inv_def)
  then have "FlowController_CanCreateBatch fc \<longleftrightarrow> \<not> FlowController_IsPaused fc"
    by (auto simp: FlowController_CanCreateBatch_def FlowController_IsPaused_def over_limit_def)
  moreover have "\<not> FlowController_IsPaused fc \<longrightarrow> FlowController_CanCreateHeader fc"
    using inv(2) unfolding FlowController_CanCreateHeader_def FlowController_IsPaused_def gap_limit over_limit_def by simp
  ultimately show ?thesis
    using inv by (simp add: flow_inv_def FlowController_IsPaused_def FlowController_PendingBatches_def
        FlowController_PendingHeaders_def)
qed

theorem flow_control_refines_witness:
  "let fc0 = FlowController_SetResumeCallback True (FlowController_SetPauseCallback True
               (NewFlowController DefaultFlowConfig));
       fc1 = fst (FlowController_UpdateCurrentRound 150 fc0)
   in FlowController_IsPaused fc1 \<and> \<not> FlowController_CanCreateBatch fc1"
proof -
  let ?fc0 = "FlowController_SetResumeCallback True (FlowController_SetPauseCallback True
               (NewFlowController DefaultFlowConfig))"
  obtain fc1 ev where r: "FlowController_UpdateCurrentRound 150 ?fc0 = (fc1, ev)" by (rule prod.exhaust)
  have run: "flow_run DefaultFlowConfig fc1 ([] @ case_option [] (\<lambda>e. [e]) ev)"
    using flow_run.start r by (rule flow_run.current)
  have "fc_currentRound fc1 = 150 \<and> fc_committedRound fc1 = 0"
    using r by (auto simp: FlowController_UpdateCurrentRound_def checkFlowControl_eq NewFlowController_def
        FlowController_SetPauseCallback_def FlowController_SetResumeCallback_def)
  then show ?thesis
    using flow_control_refines[OF run] r by (simp add: DefaultFlowConfig_def over_limit_def)
qed

end
