(* ===== verification/Batch_Fetcher.thy ===== *)
theory Batch_Fetcher
  imports Stores
begin

text \<open>
  The batch fetcher (\<^verbatim>\<open>primary/batch_fetcher.go\<close>): headers that wait for batches, the requests
  for the missing batches with their retries, and the delivery of headers whose batches are complete.
  Operations return what they hand to the callbacks: requests \<open>(validator, digest)\<close> and headers
  that are ready. The batch store is shared with the rest of the node and is an argument.
\<close>

section \<open>State\<close>

record BatchFetcherConfig =
  bfc_RequestTimeout :: int
  bfc_MaxRetries :: int
  bfc_MaxPendingHeaders :: int
  bfc_CleanupInterval :: int

definition DefaultBatchFetcherConfig :: BatchFetcherConfig where
  "DefaultBatchFetcherConfig =
     \<lparr>bfc_RequestTimeout = 10 * 1000000000, bfc_MaxRetries = 3, bfc_MaxPendingHeaders = 100,
      bfc_CleanupInterval = 5 * 1000000000\<rparr>"

record pendingBatchRequest =
  pbr_digest :: hash
  pbr_requestAt :: time
  pbr_retries :: int
  pbr_validator :: u16

record pendingHeaderEntry =
  phe_header :: Header
  phe_missingBatch :: "hash fset"
  phe_createdAt :: time

record BatchFetcher =
  bf_cfg :: BatchFetcherConfig
  bf_pendingHeaders :: "(hash, pendingHeaderEntry) fmap"
  bf_pendingRequests :: "(hash, pendingBatchRequest) fmap"
  bf_batchToHeaders :: "(hash, hash list) fmap"
  bf_requestCallback :: bool
  bf_headerReadyCallback :: bool
  bf_validators :: "u16 list"
  bf_running :: bool
  bf_batchesRequested :: u64
  bf_batchesReceived :: u64
  bf_requestTimeouts :: u64
  bf_headersReady :: u64

type_synonym batch_request = "u16 \<times> hash"

definition NewBatchFetcher :: "BatchFetcherConfig \<Rightarrow> BatchFetcher" where
  "NewBatchFetcher cfg =
     \<lparr>bf_cfg = cfg, bf_pendingHeaders = fmempty, bf_pendingRequests = fmempty, bf_batchToHeaders = fmempty,
      bf_requestCallback = False, bf_headerReadyCallback = False, bf_validators = [], bf_running = False,
      bf_batchesRequested = 0, bf_batchesReceived = 0, bf_requestTimeouts = 0, bf_headersReady = 0\<rparr>"

definition BatchFetcher_SetRequestCallback :: "bool \<Rightarrow> BatchFetcher \<Rightarrow> BatchFetcher" where
  "BatchFetcher_SetRequestCallback cb bf = bf\<lparr>bf_requestCallback := cb\<rparr>"

definition BatchFetcher_SetHeaderReadyCallback :: "bool \<Rightarrow> BatchFetcher \<Rightarrow> BatchFetcher" where
  "BatchFetcher_SetHeaderReadyCallback cb bf = bf\<lparr>bf_headerReadyCallback := cb\<rparr>"

definition BatchFetcher_UpdateValidators :: "u16 list \<Rightarrow> BatchFetcher \<Rightarrow> BatchFetcher" where
  "BatchFetcher_UpdateValidators validators bf = bf\<lparr>bf_validators := validators\<rparr>"

definition BatchFetcher_Start :: "BatchFetcher \<Rightarrow> BatchFetcher \<times> err option" where
  "BatchFetcher_Start bf =
     (if bf_running bf then (bf, Some ErrAlreadyRunning) else (bf\<lparr>bf_running := True\<rparr>, None))"

definition BatchFetcher_Stop :: "BatchFetcher \<Rightarrow> BatchFetcher \<times> err option" where
  "BatchFetcher_Stop bf =
     (if \<not> bf_running bf then (bf, Some ErrNotRunning) else (bf\<lparr>bf_running := False\<rparr>, None))"

section \<open>Requesting batches\<close>

definition BatchFetcher_requestBatch ::
  "time \<Rightarrow> hash \<Rightarrow> u16 \<Rightarrow> BatchFetcher \<Rightarrow> BatchFetcher \<times> batch_request list" where
  "BatchFetcher_requestBatch now digest preferredValidator bf =
     (if map_has (bf_pendingRequests bf) digest then (bf, [])
      else (bf\<lparr>bf_pendingRequests := fmupd digest
                 \<lparr>pbr_digest = digest, pbr_requestAt = now, pbr_retries = 0, pbr_validator = preferredValidator\<rparr>
                 (bf_pendingRequests bf),
               bf_batchesRequested := bf_batchesRequested bf + 1\<rparr>,
            if bf_requestCallback bf then [(preferredValidator, digest)] else []))"

fun request_batches ::
  "time \<Rightarrow> u16 \<Rightarrow> hash list \<Rightarrow> BatchFetcher \<Rightarrow> BatchFetcher \<times> batch_request list" where
  "request_batches now author [] bf = (bf, [])"
| "request_batches now author (digest # digests) bf =
     (let (bf1, r1) = BatchFetcher_requestBatch now digest author bf;
          (bf2, r2) = request_batches now author digests bf1
      in (bf2, r1 @ r2))"

definition missing_batches :: "MemoryBatchStore \<Rightarrow> Header \<Rightarrow> hash list" where
  "missing_batches bs header =
     filter (\<lambda>digest. \<not> MemoryBatchStore_HasBatch digest bs) (map bd_Digest (h_BatchRefs header))"

definition track_header :: "time \<Rightarrow> Header \<Rightarrow> hash list \<Rightarrow> BatchFetcher \<Rightarrow> BatchFetcher" where
  "track_header now header missing bf =
     bf\<lparr>bf_pendingHeaders := fmupd (h_Digest header)
          \<lparr>phe_header = header, phe_missingBatch = fset_of_list missing, phe_createdAt = now\<rparr>
          (bf_pendingHeaders bf),
        bf_batchToHeaders := fold (\<lambda>digest m. fmupd digest (map_slice m digest @ [h_Digest header]) m)
          missing (bf_batchToHeaders bf)\<rparr>"

definition BatchFetcher_RequestBatchesForHeader ::
  "time \<Rightarrow> MemoryBatchStore \<Rightarrow> Header option \<Rightarrow> BatchFetcher \<Rightarrow> BatchFetcher \<times> batch_request list \<times> bool" where
  "BatchFetcher_RequestBatchesForHeader now bs mheader bf =
     (case mheader of
        None \<Rightarrow> (bf, [], True)
      | Some header \<Rightarrow>
          if length (h_BatchRefs header) = 0 then (bf, [], True)
          else let missingBatches = missing_batches bs header
               in if length missingBatches = 0 then (bf, [], True)
                  else if int (map_len (bf_pendingHeaders bf)) \<ge> bfc_MaxPendingHeaders (bf_cfg bf)
                  then (bf, [], False)
                  else let bf1 = track_header now header missingBatches bf;
                           (bf2, reqs) = request_batches now (h_Author header) missingBatches bf1
                       in (bf2, reqs, False))"

section \<open>Receiving batches\<close>

fun resolve_headers ::
  "hash \<Rightarrow> hash list \<Rightarrow> (hash, pendingHeaderEntry) fmap \<Rightarrow> (hash, pendingHeaderEntry) fmap \<times> Header list" where
  "resolve_headers batchDigest [] m = (m, [])"
| "resolve_headers batchDigest (headerDigest # rest) m =
     (case fmlookup m headerDigest of
        None \<Rightarrow> resolve_headers batchDigest rest m
      | Some entry \<Rightarrow>
          (let missing = phe_missingBatch entry |-| {|batchDigest|}
           in if missing = {||}
              then let (m', ready) = resolve_headers batchDigest rest (fmdrop headerDigest m)
                   in (m', phe_header entry # ready)
              else resolve_headers batchDigest rest
                     (fmupd headerDigest (entry\<lparr>phe_missingBatch := missing\<rparr>) m)))"

definition BatchFetcher_NotifyBatchReceived ::
  "Batch option \<Rightarrow> BatchFetcher \<Rightarrow> BatchFetcher \<times> Header list" where
  "BatchFetcher_NotifyBatchReceived mbatch bf =
     (case mbatch of
        None \<Rightarrow> (bf, [])
      | Some batch \<Rightarrow>
          (let batchDigest = b_Digest batch;
               headerDigests = map_slice (bf_batchToHeaders bf) batchDigest;
               bf1 = bf\<lparr>bf_batchesReceived := bf_batchesReceived bf + 1,
                        bf_pendingRequests := fmdrop batchDigest (bf_pendingRequests bf),
                        bf_batchToHeaders := fmdrop batchDigest (bf_batchToHeaders bf)\<rparr>
           in if length headerDigests = 0 then (bf1, [])
              else let (m, readyHeaders) = resolve_headers batchDigest headerDigests (bf_pendingHeaders bf1)
                   in (bf1\<lparr>bf_pendingHeaders := m,
                           bf_headersReady := bf_headersReady bf1 + of_nat (length readyHeaders)\<rparr>,
                       if bf_headerReadyCallback bf1 then readyHeaders else [])))"

definition BatchFetcher_HandleBatchResponse ::
  "Batch option \<Rightarrow> bool \<Rightarrow> u16 \<Rightarrow> MemoryBatchStore \<Rightarrow> BatchFetcher \<Rightarrow>
   BatchFetcher \<times> MemoryBatchStore \<times> Header list" where
  "BatchFetcher_HandleBatchResponse mbatch found from bs bf =
     (if \<not> found then (bf, bs, [])
      else case mbatch of
        None \<Rightarrow> (bf, bs, [])
      | Some batch \<Rightarrow>
          (let (bs', _) = MemoryBatchStore_SaveBatch batch bs;
               (bf', ready) = BatchFetcher_NotifyBatchReceived (Some batch) bf
           in (bf', bs', ready)))"

section \<open>Time-outs\<close>

definition next_validator :: "u16 list \<Rightarrow> u16 \<Rightarrow> u16" where
  "next_validator validators v = (case filter (\<lambda>u. u \<noteq> v) validators of [] \<Rightarrow> v | u # _ \<Rightarrow> u)"

definition BatchFetcher_retryRequest ::
  "pendingBatchRequest \<Rightarrow> BatchFetcher \<Rightarrow> BatchFetcher \<times> batch_request list" where
  "BatchFetcher_retryRequest req bf =
     (if length (bf_validators bf) = 0 then (bf, [])
      else let nextValidator = next_validator (bf_validators bf) (pbr_validator req);
               bf1 = (case fmlookup (bf_pendingRequests bf) (pbr_digest req) of
                        Some entry \<Rightarrow> bf\<lparr>bf_pendingRequests :=
                            fmupd (pbr_digest req) (entry\<lparr>pbr_validator := nextValidator\<rparr>) (bf_pendingRequests bf)\<rparr>
                      | None \<Rightarrow> bf)
           in (bf1, if bf_requestCallback bf then [(nextValidator, pbr_digest req)] else []))"

fun retry_all :: "pendingBatchRequest list \<Rightarrow> BatchFetcher \<Rightarrow> BatchFetcher \<times> batch_request list" where
  "retry_all [] bf = (bf, [])"
| "retry_all (req # reqs) bf =
     (let (bf1, r1) = BatchFetcher_retryRequest req bf; (bf2, r2) = retry_all reqs bf1
      in (bf2, r1 @ r2))"

definition BatchFetcher_cleanupFailedBatchHeaders :: "hash list \<Rightarrow> BatchFetcher \<Rightarrow> BatchFetcher" where
  "BatchFetcher_cleanupFailedBatchHeaders failedBatches bf =
     (let (headerDigests, m) = fold (\<lambda>batchDigest (acc, m).
              (acc @ map_slice m batchDigest, fmdrop batchDigest m)) failedBatches ([], bf_batchToHeaders bf)
      in bf\<lparr>bf_batchToHeaders := m,
            bf_pendingHeaders := map_delete_all headerDigests (bf_pendingHeaders bf)\<rparr>)"

text \<open>\<open>ks\<close> is the order in which the pending requests are visited.\<close>

definition BatchFetcher_cleanupTimedOutRequests ::
  "hash list \<Rightarrow> time \<Rightarrow> BatchFetcher \<Rightarrow> BatchFetcher \<times> batch_request list" where
  "BatchFetcher_cleanupTimedOutRequests ks now bf =
     (let cutoff = now - bfc_RequestTimeout (bf_cfg bf);
          expired = filter (\<lambda>req. pbr_requestAt req < cutoff) (map_values ks (bf_pendingRequests bf));
          toRetry = filter (\<lambda>req. pbr_retries req < bfc_MaxRetries (bf_cfg bf)) expired;
          toRemove = map pbr_digest (filter (\<lambda>req. \<not> pbr_retries req < bfc_MaxRetries (bf_cfg bf)) expired);
          retried = map (\<lambda>req. req\<lparr>pbr_retries := pbr_retries req + 1, pbr_requestAt := now\<rparr>) toRetry;
          bf1 = bf\<lparr>bf_pendingRequests := map_delete_all toRemove
                     (fold (\<lambda>req m. fmupd (pbr_digest req) req m) retried (bf_pendingRequests bf)),
                   bf_requestTimeouts := bf_requestTimeouts bf + of_nat (length toRemove)\<rparr>;
          (bf2, reqs) = retry_all retried bf1
      in (if length toRemove > 0 then BatchFetcher_cleanupFailedBatchHeaders toRemove bf2 else bf2, reqs))"

definition BatchFetcher_cleanupTimedOutHeaders :: "time \<Rightarrow> BatchFetcher \<Rightarrow> BatchFetcher" where
  "BatchFetcher_cleanupTimedOutHeaders now bf =
     (let cutoff = now + - 3 * bfc_RequestTimeout (bf_cfg bf);
          toRemove = filter (\<lambda>digest. case fmlookup (bf_pendingHeaders bf) digest of
                        Some entry \<Rightarrow> phe_createdAt entry < cutoff | None \<Rightarrow> False)
                       (map_keys (bf_pendingHeaders bf))
      in bf\<lparr>bf_pendingHeaders := map_delete_all toRemove (bf_pendingHeaders bf)\<rparr>)"

text \<open>One tick of \<^verbatim>\<open>cleanupLoop\<close>.\<close>

definition BatchFetcher_cleanup_tick ::
  "hash list \<Rightarrow> time \<Rightarrow> BatchFetcher \<Rightarrow> BatchFetcher \<times> batch_request list" where
  "BatchFetcher_cleanup_tick ks now bf =
     (let (bf1, reqs) = BatchFetcher_cleanupTimedOutRequests ks now bf
      in (BatchFetcher_cleanupTimedOutHeaders now bf1, reqs))"

record BatchFetcherMetrics =
  bfm_PendingHeaders :: nat
  bfm_PendingRequests :: nat
  bfm_BatchesRequested :: u64
  bfm_BatchesReceived :: u64
  bfm_RequestTimeouts :: u64
  bfm_HeadersReady :: u64

definition BatchFetcher_Metrics :: "BatchFetcher \<Rightarrow> BatchFetcherMetrics" where
  "BatchFetcher_Metrics bf =
     \<lparr>bfm_PendingHeaders = map_len (bf_pendingHeaders bf), bfm_PendingRequests = map_len (bf_pendingRequests bf),
      bfm_BatchesRequested = bf_batchesRequested bf, bfm_BatchesReceived = bf_batchesReceived bf,
      bfm_RequestTimeouts = bf_requestTimeouts bf, bfm_HeadersReady = bf_headersReady bf\<rparr>"

definition BatchFetcher_PendingHeaderCount :: "BatchFetcher \<Rightarrow> nat" where
  "BatchFetcher_PendingHeaderCount bf = map_len (bf_pendingHeaders bf)"

section \<open>Waiting headers\<close>

text \<open>
  The invariant of the three maps: a waiting header is stored under its digest, misses at least one
  batch, is registered under every batch it misses, and every batch it misses is requested.
\<close>

definition entry_ok ::
  "(hash, hash list) fmap \<Rightarrow> (hash, pendingBatchRequest) fmap \<Rightarrow> hash \<Rightarrow> pendingHeaderEntry \<Rightarrow> bool" where
  "entry_ok bth reqs hdg e \<longleftrightarrow> h_Digest (phe_header e) = hdg \<and> phe_missingBatch e \<noteq> {||} \<and>
     (\<forall>d. d |\<in>| phe_missingBatch e \<longrightarrow> hdg \<in> set (map_slice bth d) \<and> map_has reqs d)"

definition requests_keyed :: "(hash, pendingBatchRequest) fmap \<Rightarrow> bool" where
  "requests_keyed m \<longleftrightarrow> (\<forall>d r. fmlookup m d = Some r \<longrightarrow> pbr_digest r = d)"

definition bf_ok :: "BatchFetcher \<Rightarrow> bool" where
  "bf_ok bf \<longleftrightarrow>
     requests_keyed (bf_pendingRequests bf) \<and>
     (\<forall>hdg e. fmlookup (bf_pendingHeaders bf) hdg = Some e \<longrightarrow>
        entry_ok (bf_batchToHeaders bf) (bf_pendingRequests bf) hdg e)"

lemma requests_keyed_intros [simp]:
  "requests_keyed fmempty"
  "requests_keyed m \<Longrightarrow> pbr_digest r = d \<Longrightarrow> requests_keyed (fmupd d r m)"
  "requests_keyed m \<Longrightarrow> requests_keyed (fmdrop d m)"
  "requests_keyed m \<Longrightarrow> requests_keyed (map_delete_all ds m)"
  unfolding requests_keyed_def by (auto split: if_splits)

lemma requests_keyedD: "requests_keyed m \<Longrightarrow> fmlookup m d = Some r \<Longrightarrow> pbr_digest r = d"
  unfolding requests_keyed_def by blast

lemma bf_okI:
  assumes "requests_keyed (bf_pendingRequests bf)"
    and "\<And>hdg e. fmlookup (bf_pendingHeaders bf) hdg = Some e \<Longrightarrow>
           entry_ok (bf_batchToHeaders bf) (bf_pendingRequests bf) hdg e"
  shows "bf_ok bf"
  using assms unfolding bf_ok_def by blast

lemma bf_ok_request: "bf_ok bf \<Longrightarrow> requests_keyed (bf_pendingRequests bf)"
  unfolding bf_ok_def by blast

lemma bf_ok_entry:
  assumes "bf_ok bf" and "fmlookup (bf_pendingHeaders bf) hdg = Some e"
  shows "h_Digest (phe_header e) = hdg" "phe_missingBatch e \<noteq> {||}"
    "d |\<in>| phe_missingBatch e \<Longrightarrow> hdg \<in> set (map_slice (bf_batchToHeaders bf) d)"
    "d |\<in>| phe_missingBatch e \<Longrightarrow> map_has (bf_pendingRequests bf) d"
  using assms unfolding bf_ok_def entry_ok_def by blast+

lemma entry_ok_mono:
  assumes "entry_ok bth reqs hdg e"
    and "\<And>d. set (map_slice bth d) \<subseteq> set (map_slice bth' d)" and "\<And>d. map_has reqs d \<Longrightarrow> map_has reqs' d"
  shows "entry_ok bth' reqs' hdg e"
  using assms unfolding entry_ok_def by blast

lemma bf_ok_cong:
  assumes "bf_ok bf" and "bf_pendingHeaders bf' = bf_pendingHeaders bf"
    and "bf_batchToHeaders bf' = bf_batchToHeaders bf" and "bf_pendingRequests bf' = bf_pendingRequests bf"
  shows "bf_ok bf'"
  using assms by (simp add: bf_ok_def)

subsection \<open>Requests\<close>

lemma register_batches:
  "set (map_slice (fold (\<lambda>d m. fmupd d (map_slice m d @ [hdg]) m) ds m) d) =
     set (map_slice m d) \<union> (if d \<in> set ds then {hdg} else {})"
  by (induction ds arbitrary: m) auto

lemma request_batches_frame:
  "bf_pendingHeaders (fst (request_batches now a ds bf)) = bf_pendingHeaders bf"
  "bf_batchToHeaders (fst (request_batches now a ds bf)) = bf_batchToHeaders bf"
  "map_has (bf_pendingRequests (fst (request_batches now a ds bf))) d \<longleftrightarrow>
     map_has (bf_pendingRequests bf) d \<or> d \<in> set ds"
  by (induction ds arbitrary: bf) (auto simp: BatchFetcher_requestBatch_def Let_def case_prod_unfold)

lemma request_batches_digests:
  assumes "requests_keyed (bf_pendingRequests bf)"
  shows "requests_keyed (bf_pendingRequests (fst (request_batches now a ds bf)))"
  using assms
proof (induction ds arbitrary: bf)
  case (Cons x ds)
  have "requests_keyed (bf_pendingRequests (fst (BatchFetcher_requestBatch now x a bf)))"
    using Cons.prems by (auto simp: BatchFetcher_requestBatch_def)
  from Cons.IH[OF this] show ?case by (simp add: case_prod_unfold Let_def)
qed simp

lemma RequestBatchesForHeader_ok:
  assumes ok: "bf_ok bf"
  shows "bf_ok (fst (BatchFetcher_RequestBatchesForHeader now bs mh bf))"
proof (cases "fst (BatchFetcher_RequestBatchesForHeader now bs mh bf) = bf")
  case False
  then obtain h where "mh = Some h" and ne: "missing_batches bs h \<noteq> []"
    and eq: "fst (BatchFetcher_RequestBatchesForHeader now bs mh bf) =
      fst (request_batches now (h_Author h) (missing_batches bs h) (track_header now h (missing_batches bs h) bf))"
    by (auto simp: BatchFetcher_RequestBatchesForHeader_def Let_def case_prod_unfold split: option.splits if_splits)
  let ?ms = "missing_batches bs h"
  let ?bf1 = "track_header now h ?ms bf"
  let ?bf2 = "fst (request_batches now (h_Author h) ?ms ?bf1)"
  have reqs1: "bf_pendingRequests ?bf1 = bf_pendingRequests bf" by (simp add: track_header_def)
  have bth: "set (map_slice (bf_batchToHeaders ?bf2) d) =
      set (map_slice (bf_batchToHeaders bf) d) \<union> (if d \<in> set ?ms then {h_Digest h} else {})" for d
    by (simp add: request_batches_frame track_header_def register_batches)
  have "bf_ok ?bf2"
  proof (rule bf_okI)
    show "requests_keyed (bf_pendingRequests ?bf2)"
      by (rule request_batches_digests) (simp add: reqs1 bf_ok_request[OF ok])
  next
    fix hdg e assume e: "fmlookup (bf_pendingHeaders ?bf2) hdg = Some e"
    show "entry_ok (bf_batchToHeaders ?bf2) (bf_pendingRequests ?bf2) hdg e"
    proof (cases "hdg = h_Digest h")
      case True
      with e have "e = \<lparr>phe_header = h, phe_missingBatch = fset_of_list ?ms, phe_createdAt = now\<rparr>"
        by (simp add: request_batches_frame track_header_def)
      moreover have "fset_of_list ?ms \<noteq> {||}"
        using ne by (metis fset_of_list_elem fempty_iff list.set_intros(1) neq_Nil_conv)
      ultimately show ?thesis using True
        by (simp add: entry_ok_def bth fset_of_list_elem) (simp add: request_batches_frame)
    next
      case False
      with e have "fmlookup (bf_pendingHeaders bf) hdg = Some e"
        by (simp add: request_batches_frame track_header_def)
      then have "entry_ok (bf_batchToHeaders bf) (bf_pendingRequests bf) hdg e"
        using ok by (simp add: bf_ok_def)
      then show ?thesis
        by (rule entry_ok_mono) (auto simp: bth, simp add: request_batches_frame reqs1)
    qed
  qed
  then show ?thesis by (simp add: eq)
qed (simp add: ok)

subsection \<open>Arrivals\<close>

lemma resolve_headers_lookup:
  "fmlookup (fst (resolve_headers d hds m)) hdg =
     (case fmlookup m hdg of
        None \<Rightarrow> None
      | Some e \<Rightarrow> if hdg \<notin> set hds then Some e
                  else if phe_missingBatch e |-| {|d|} = {||} then None
                  else Some (e\<lparr>phe_missingBatch := phe_missingBatch e |-| {|d|}\<rparr>))"
  by (induction hds arbitrary: m) (auto simp: Let_def case_prod_unfold split: option.splits)

lemma resolve_headers_ready:
  assumes "\<forall>hdg e. fmlookup m hdg = Some e \<longrightarrow> h_Digest (phe_header e) = hdg"
  shows "filter (\<lambda>h. h_Digest h = hdg) (snd (resolve_headers d hds m)) =
     (case fmlookup m hdg of
        None \<Rightarrow> []
      | Some e \<Rightarrow> if hdg \<in> set hds \<and> phe_missingBatch e |-| {|d|} = {||} then [phe_header e] else [])"
  using assms
proof (induction hds arbitrary: m)
  case (Cons x hds)
  note digest = Cons.prems
  show ?case
  proof (cases "fmlookup m x")
    case None
    then show ?thesis using Cons.IH[OF digest] by (auto split: option.splits)
  next
    case (Some e)
    show ?thesis
    proof (cases "phe_missingBatch e |-| {|d|} = {||}")
      case True
      have "\<forall>hdg e. fmlookup (fmdrop x m) hdg = Some e \<longrightarrow> h_Digest (phe_header e) = hdg"
        using digest by simp
      note IH = Cons.IH[OF this]
      have "h_Digest (phe_header e) = x" using digest Some by blast
      then show ?thesis using Some True IH by (auto simp: Let_def case_prod_unfold split: option.splits)
    next
      case False
      let ?m = "fmupd x (e\<lparr>phe_missingBatch := phe_missingBatch e |-| {|d|}\<rparr>) m"
      have "\<forall>hdg e. fmlookup ?m hdg = Some e \<longrightarrow> h_Digest (phe_header e) = hdg"
        using digest Some by auto
      note IH = Cons.IH[OF this]
      show ?thesis using Some False IH by (auto simp: Let_def split: option.splits)
    qed
  qed
qed (simp split: option.splits)

text \<open>One arrival: the batch is no longer missing for any header, and exactly the headers that
  missed nothing else are delivered.\<close>

lemma Notify_lookup:
  assumes ok: "bf_ok bf" and e: "fmlookup (bf_pendingHeaders bf) hdg = Some e"
  shows "fmlookup (bf_pendingHeaders (fst (BatchFetcher_NotifyBatchReceived (Some b) bf))) hdg =
     (if phe_missingBatch e |-| {|b_Digest b|} = {||} then None
      else Some (e\<lparr>phe_missingBatch := phe_missingBatch e |-| {|b_Digest b|}\<rparr>))"
proof (cases "b_Digest b |\<in>| phe_missingBatch e")
  case True
  from bf_ok_entry(3)[OF ok e True]
  have "hdg \<in> set (map_slice (bf_batchToHeaders bf) (b_Digest b))" .
  then show ?thesis using e
    by (auto simp: BatchFetcher_NotifyBatchReceived_def Let_def case_prod_unfold resolve_headers_lookup)
next
  case False
  then have "phe_missingBatch e |-| {|b_Digest b|} = phe_missingBatch e" by auto
  then show ?thesis using e bf_ok_entry(2)[OF ok e]
    by (auto simp: BatchFetcher_NotifyBatchReceived_def Let_def case_prod_unfold resolve_headers_lookup)
qed

lemma Notify_absent:
  "fmlookup (bf_pendingHeaders bf) hdg = None \<Longrightarrow>
   fmlookup (bf_pendingHeaders (fst (BatchFetcher_NotifyBatchReceived mb bf))) hdg = None"
  by (auto simp: BatchFetcher_NotifyBatchReceived_def Let_def case_prod_unfold resolve_headers_lookup
      split: option.splits)

lemma Notify_ready:
  assumes ok: "bf_ok bf" and cb: "bf_headerReadyCallback bf"
  shows "filter (\<lambda>h. h_Digest h = hdg) (snd (BatchFetcher_NotifyBatchReceived (Some b) bf)) =
     (case fmlookup (bf_pendingHeaders bf) hdg of
        None \<Rightarrow> []
      | Some e \<Rightarrow> if phe_missingBatch e |-| {|b_Digest b|} = {||} then [phe_header e] else [])"
proof -
  let ?hds = "map_slice (bf_batchToHeaders bf) (b_Digest b)"
  have eq: "snd (BatchFetcher_NotifyBatchReceived (Some b) bf) =
      snd (resolve_headers (b_Digest b) ?hds (bf_pendingHeaders bf))"
    using cb by (auto simp: BatchFetcher_NotifyBatchReceived_def Let_def case_prod_unfold)
  have "hdg \<in> set ?hds" if e: "fmlookup (bf_pendingHeaders bf) hdg = Some e"
    and "phe_missingBatch e |-| {|b_Digest b|} = {||}" for e
  proof -
    obtain d where "d |\<in>| phe_missingBatch e" using bf_ok_entry(2)[OF ok e] by auto
    moreover from this that(2) have "d = b_Digest b" by auto
    ultimately show ?thesis using bf_ok_entry(3)[OF ok e] by simp
  qed
  moreover have "\<forall>hdg e. fmlookup (bf_pendingHeaders bf) hdg = Some e \<longrightarrow> h_Digest (phe_header e) = hdg"
    using bf_ok_entry(1)[OF ok] by blast
  ultimately show ?thesis
    unfolding eq resolve_headers_ready[OF \<open>\<forall>hdg e. _\<close>] by (auto split: option.splits)
qed

lemma Notify_ok:
  assumes ok: "bf_ok bf"
  shows "bf_ok (fst (BatchFetcher_NotifyBatchReceived mb bf))"
proof (cases mb)
  case (Some b)
  let ?bf = "fst (BatchFetcher_NotifyBatchReceived (Some b) bf)"
  have reqs: "bf_pendingRequests ?bf = fmdrop (b_Digest b) (bf_pendingRequests bf)"
    and bth: "bf_batchToHeaders ?bf = fmdrop (b_Digest b) (bf_batchToHeaders bf)"
    by (simp_all add: BatchFetcher_NotifyBatchReceived_def Let_def case_prod_unfold)
  have "bf_ok ?bf"
  proof (rule bf_okI)
    show "requests_keyed (bf_pendingRequests ?bf)" using bf_ok_request[OF ok] by (simp add: reqs)
  next
    fix hdg e' assume e': "fmlookup (bf_pendingHeaders ?bf) hdg = Some e'"
    then obtain e where e: "fmlookup (bf_pendingHeaders bf) hdg = Some e"
      using Notify_absent[of bf hdg "Some b"] by (cases "fmlookup (bf_pendingHeaders bf) hdg") auto
    then have "phe_missingBatch e |-| {|b_Digest b|} \<noteq> {||}"
      and "e' = e\<lparr>phe_missingBatch := phe_missingBatch e |-| {|b_Digest b|}\<rparr>"
      using e' Notify_lookup[OF ok e, of b] by (simp_all split: if_splits)
    then show "entry_ok (bf_batchToHeaders ?bf) (bf_pendingRequests ?bf) hdg e'"
      using bf_ok_entry[OF ok e] by (auto simp: entry_ok_def reqs bth)
  qed
  then show ?thesis by (simp add: Some)
qed (simp add: BatchFetcher_NotifyBatchReceived_def ok)

lemma HandleBatchResponse_ok:
  "bf_ok bf \<Longrightarrow> bf_ok (fst (BatchFetcher_HandleBatchResponse mb found from bs bf))"
  using Notify_ok[of bf mb]
  by (auto simp: BatchFetcher_HandleBatchResponse_def case_prod_unfold Let_def split: option.splits)

subsection \<open>Time-outs\<close>

lemma retryRequest_frame:
  assumes "requests_keyed (bf_pendingRequests bf)"
  shows "bf_pendingHeaders (fst (BatchFetcher_retryRequest req bf)) = bf_pendingHeaders bf"
    "bf_batchToHeaders (fst (BatchFetcher_retryRequest req bf)) = bf_batchToHeaders bf"
    "map_has (bf_pendingRequests (fst (BatchFetcher_retryRequest req bf))) d \<longleftrightarrow>
       map_has (bf_pendingRequests bf) d"
    "requests_keyed (bf_pendingRequests (fst (BatchFetcher_retryRequest req bf)))"
  using assms
  by (auto simp: BatchFetcher_retryRequest_def Let_def map_has_def intro!: requests_keyed_intros(2)
      dest: requests_keyedD split: option.splits)

lemma retry_all_frame:
  assumes "requests_keyed (bf_pendingRequests bf)"
  shows "bf_pendingHeaders (fst (retry_all reqs bf)) = bf_pendingHeaders bf \<and>
    bf_batchToHeaders (fst (retry_all reqs bf)) = bf_batchToHeaders bf \<and>
    (\<forall>d. map_has (bf_pendingRequests (fst (retry_all reqs bf))) d \<longleftrightarrow> map_has (bf_pendingRequests bf) d) \<and>
    requests_keyed (bf_pendingRequests (fst (retry_all reqs bf)))"
  using assms
proof (induction reqs arbitrary: bf)
  case (Cons req reqs)
  note frame = retryRequest_frame[OF Cons.prems, of req]
  show ?case using Cons.IH[OF frame(4)] frame by (simp add: case_prod_unfold Let_def)
qed simp

lemma update_requests:
  assumes "requests_keyed m"
  shows "requests_keyed (fold (\<lambda>req m. fmupd (pbr_digest req) req m) rs m) \<and>
    (\<forall>d. map_has m d \<longrightarrow> map_has (fold (\<lambda>req m. fmupd (pbr_digest req) req m) rs m) d)"
  using assms
proof (induction rs arbitrary: m)
  case (Cons r rs)
  have "requests_keyed (fmupd (pbr_digest r) r m)" using Cons.prems by simp
  from Cons.IH[OF this] show ?case by simp
qed simp

lemma failed_batches_loop:
  "fold (\<lambda>d (acc, m). (acc @ map_slice m d, fmdrop d m)) ds (acc, m) = (acc', m') \<Longrightarrow>
   m' = map_delete_all ds m \<and>
   set acc' = set acc \<union> (\<Union>d \<in> set ds. set (map_slice m d))"
proof (induction ds arbitrary: acc m)
  case (Cons d ds)
  then have "fold (\<lambda>d (acc, m). (acc @ map_slice m d, fmdrop d m)) ds
      (acc @ map_slice m d, fmdrop d m) = (acc', m')" by simp
  note IH = Cons.IH[OF this]
  have "(\<Union>d' \<in> set ds. set (map_slice (fmdrop d m) d')) \<union> set (map_slice m d) =
      (\<Union>d' \<in> set (d # ds). set (map_slice m d'))" by (auto split: if_splits)
  with IH show ?case by (simp add: Un_assoc Un_commute)
qed simp

lemma cleanupFailedBatchHeaders_ok:
  assumes reqs: "requests_keyed (bf_pendingRequests bf)"
    and entries: "\<forall>hdg e. fmlookup (bf_pendingHeaders bf) hdg = Some e \<longrightarrow>
      entry_ok (bf_batchToHeaders bf) all hdg e"
    and all: "\<forall>d. map_has all d \<longrightarrow> d \<notin> set failed \<longrightarrow> map_has (bf_pendingRequests bf) d"
  shows "bf_ok (BatchFetcher_cleanupFailedBatchHeaders failed bf)"
proof -
  obtain acc m where loop: "fold (\<lambda>d (acc, m). (acc @ map_slice m d, fmdrop d m)) failed
      ([], bf_batchToHeaders bf) = (acc, m)" by fastforce
  from failed_batches_loop[OF loop]
  have m: "m = map_delete_all failed (bf_batchToHeaders bf)"
    and acc: "set acc = (\<Union>d \<in> set failed. set (map_slice (bf_batchToHeaders bf) d))" by simp_all
  have eq: "BatchFetcher_cleanupFailedBatchHeaders failed bf =
      bf\<lparr>bf_batchToHeaders := m, bf_pendingHeaders := map_delete_all acc (bf_pendingHeaders bf)\<rparr>"
    by (simp add: BatchFetcher_cleanupFailedBatchHeaders_def loop)
  show ?thesis unfolding eq
  proof (rule bf_okI; simp add: reqs)
    fix hdg e assume "(if hdg \<in> set acc then None else fmlookup (bf_pendingHeaders bf) hdg) = Some e"
    then have notin: "hdg \<notin> set acc" and "entry_ok (bf_batchToHeaders bf) all hdg e"
      using entries by (simp_all split: if_splits)
    then have h: "h_Digest (phe_header e) = hdg" "phe_missingBatch e \<noteq> {||}"
      by (auto simp: entry_ok_def)
    have d: "hdg \<in> set (map_slice (bf_batchToHeaders bf) d)" "map_has all d"
      if "d |\<in>| phe_missingBatch e" for d
      using that \<open>entry_ok _ all hdg e\<close> by (auto simp: entry_ok_def)
    have fresh: "d \<notin> set failed" if "d |\<in>| phe_missingBatch e" for d
      using notin d(1)[OF that] acc by blast
    have "hdg \<in> set (map_slice m d) \<and> map_has (bf_pendingRequests bf) d"
      if "d |\<in>| phe_missingBatch e" for d
      using d[OF that] fresh[OF that] all by (simp add: m map_slice_def)
    with h show "entry_ok m (bf_pendingRequests bf) hdg e" by (simp add: entry_ok_def)
  qed
qed

lemma cleanupTimedOutRequests_ok:
  assumes ok: "bf_ok bf"
  shows "bf_ok (fst (BatchFetcher_cleanupTimedOutRequests ks now bf))"
proof -
  let ?expired = "filter (\<lambda>req. pbr_requestAt req < now - bfc_RequestTimeout (bf_cfg bf))
      (map_values ks (bf_pendingRequests bf))"
  define failed where "failed = map pbr_digest
      (filter (\<lambda>req. \<not> pbr_retries req < bfc_MaxRetries (bf_cfg bf)) ?expired)"
  define retried where "retried = map (\<lambda>req. req\<lparr>pbr_retries := pbr_retries req + 1, pbr_requestAt := now\<rparr>)
      (filter (\<lambda>req. pbr_retries req < bfc_MaxRetries (bf_cfg bf)) ?expired)"
  define m where "m = fold (\<lambda>req m. fmupd (pbr_digest req) req m) retried (bf_pendingRequests bf)"
  define bf1 where "bf1 = bf\<lparr>bf_pendingRequests := map_delete_all failed m,
      bf_requestTimeouts := bf_requestTimeouts bf + of_nat (length failed)\<rparr>"
  define bf2 where "bf2 = fst (retry_all retried bf1)"
  have eq: "fst (BatchFetcher_cleanupTimedOutRequests ks now bf) =
      (if length failed > 0 then BatchFetcher_cleanupFailedBatchHeaders failed bf2 else bf2)"
    by (simp add: BatchFetcher_cleanupTimedOutRequests_def Let_def case_prod_unfold
        failed_def retried_def m_def bf1_def bf2_def)
  have keyed: "requests_keyed m" and has: "\<forall>d. map_has (bf_pendingRequests bf) d \<longrightarrow> map_has m d"
    unfolding m_def using update_requests[OF bf_ok_request[OF ok]] by simp_all
  have keyed1: "requests_keyed (bf_pendingRequests bf1)" using keyed by (simp add: bf1_def)
  have frame2: "bf_pendingHeaders bf2 = bf_pendingHeaders bf" "bf_batchToHeaders bf2 = bf_batchToHeaders bf"
    "map_has (bf_pendingRequests bf2) d \<longleftrightarrow> d \<notin> set failed \<and> map_has m d"
    "requests_keyed (bf_pendingRequests bf2)" for d
    using retry_all_frame[OF keyed1, of retried] by (simp_all add: bf2_def bf1_def)
  have "bf_ok (BatchFetcher_cleanupFailedBatchHeaders failed bf2)"
    by (rule cleanupFailedBatchHeaders_ok[where all = "bf_pendingRequests bf"])
       (use ok has frame2 in \<open>simp_all add: bf_ok_def\<close>)
  moreover have "bf_ok bf2" if "failed = []"
  proof (rule bf_okI)
    fix hdg e assume "fmlookup (bf_pendingHeaders bf2) hdg = Some e"
    with ok frame2 have "entry_ok (bf_batchToHeaders bf) (bf_pendingRequests bf) hdg e"
      by (simp add: bf_ok_def)
    then show "entry_ok (bf_batchToHeaders bf2) (bf_pendingRequests bf2) hdg e"
      by (rule entry_ok_mono) (use frame2 has that in simp_all)
  qed (simp add: frame2)
  ultimately show ?thesis by (simp add: eq)
qed

lemma cleanupTimedOutHeaders_ok: "bf_ok bf \<Longrightarrow> bf_ok (BatchFetcher_cleanupTimedOutHeaders now bf)"
  by (auto simp: bf_ok_def BatchFetcher_cleanupTimedOutHeaders_def Let_def split: if_splits)

subsection \<open>Runs\<close>

inductive bf_run :: "BatchFetcher \<Rightarrow> bool" where
  new: "bf_run (NewBatchFetcher cfg)"
| on_request: "bf_run bf \<Longrightarrow> bf_run (BatchFetcher_SetRequestCallback cb bf)"
| on_ready: "bf_run bf \<Longrightarrow> bf_run (BatchFetcher_SetHeaderReadyCallback cb bf)"
| validators: "bf_run bf \<Longrightarrow> bf_run (BatchFetcher_UpdateValidators vs bf)"
| start: "bf_run bf \<Longrightarrow> bf_run (fst (BatchFetcher_Start bf))"
| stop: "bf_run bf \<Longrightarrow> bf_run (fst (BatchFetcher_Stop bf))"
| request: "bf_run bf \<Longrightarrow> bf_run (fst (BatchFetcher_RequestBatchesForHeader now bs mh bf))"
| received: "bf_run bf \<Longrightarrow> bf_run (fst (BatchFetcher_NotifyBatchReceived mb bf))"
| response: "bf_run bf \<Longrightarrow> bf_run (fst (BatchFetcher_HandleBatchResponse mb found from bs bf))"
| tick: "bf_run bf \<Longrightarrow> bf_run (fst (BatchFetcher_cleanup_tick ks now bf))"

lemma bf_run_ok: "bf_run bf \<Longrightarrow> bf_ok bf"
proof (induction rule: bf_run.induct)
  case (new cfg)
  show ?case by (simp add: bf_ok_def NewBatchFetcher_def)
next
  case (on_request bf cb)
  from this(2) show ?case by (rule bf_ok_cong) (simp_all add: BatchFetcher_SetRequestCallback_def)
next
  case (on_ready bf cb)
  from this(2) show ?case by (rule bf_ok_cong) (simp_all add: BatchFetcher_SetHeaderReadyCallback_def)
next
  case (validators bf vs)
  from this(2) show ?case by (rule bf_ok_cong) (simp_all add: BatchFetcher_UpdateValidators_def)
next
  case (start bf)
  from this(2) show ?case by (rule bf_ok_cong) (simp_all add: BatchFetcher_Start_def)
next
  case (stop bf)
  from this(2) show ?case by (rule bf_ok_cong) (simp_all add: BatchFetcher_Stop_def)
next
  case (tick bf ks now)
  then show ?case
    by (simp add: BatchFetcher_cleanup_tick_def case_prod_unfold Let_def cleanupTimedOutHeaders_ok
        cleanupTimedOutRequests_ok)
qed (simp_all add: RequestBatchesForHeader_ok Notify_ok HandleBatchResponse_ok)

text \<open>A sequence of arrivals and the headers it delivers.\<close>

primrec receive_all :: "Batch list \<Rightarrow> BatchFetcher \<Rightarrow> BatchFetcher \<times> Header list" where
  "receive_all [] bf = (bf, [])"
| "receive_all (b # bs) bf =
     (let (bf1, r1) = BatchFetcher_NotifyBatchReceived (Some b) bf; (bf2, r2) = receive_all bs bf1
      in (bf2, r1 @ r2))"

abbreviation delivered :: "hash \<Rightarrow> Header list \<Rightarrow> Header list" where
  "delivered hdg hs \<equiv> filter (\<lambda>h. h_Digest h = hdg) hs"

lemma Notify_callback:
  "bf_headerReadyCallback (fst (BatchFetcher_NotifyBatchReceived mb bf)) = bf_headerReadyCallback bf"
  by (auto simp: BatchFetcher_NotifyBatchReceived_def Let_def case_prod_unfold split: option.splits)

lemma receive_all_absent:
  assumes "bf_ok bf" and "bf_headerReadyCallback bf" and "fmlookup (bf_pendingHeaders bf) hdg = None"
  shows "delivered hdg (snd (receive_all bs bf)) = [] \<and>
    fmlookup (bf_pendingHeaders (fst (receive_all bs bf))) hdg = None"
  using assms
proof (induction bs arbitrary: bf)
  case (Cons b bs)
  show ?case
    using Cons.IH[OF Notify_ok[OF Cons.prems(1)], of "Some b"] Cons.prems Notify_absent[of bf hdg "Some b"]
      Notify_ready[OF Cons.prems(1,2), of hdg b]
    by (simp add: Notify_callback case_prod_unfold Let_def)
qed simp

lemma receive_all_pending:
  assumes "bf_ok bf" and "bf_headerReadyCallback bf" and "fmlookup (bf_pendingHeaders bf) hdg = Some e"
  shows "delivered hdg (snd (receive_all bs bf)) =
      (if phe_missingBatch e |\<subseteq>| b_Digest |`| fset_of_list bs then [phe_header e] else []) \<and>
    fmlookup (bf_pendingHeaders (fst (receive_all bs bf))) hdg =
      (if phe_missingBatch e |\<subseteq>| b_Digest |`| fset_of_list bs then None
       else Some (e\<lparr>phe_missingBatch := phe_missingBatch e |-| b_Digest |`| fset_of_list bs\<rparr>))"
  using assms
proof (induction bs arbitrary: bf e)
  case Nil
  then show ?case using bf_ok_entry(2)[OF Nil(1,3)] by simp
next
  case (Cons b bs)
  let ?bf1 = "fst (BatchFetcher_NotifyBatchReceived (Some b) bf)"
  let ?rest = "phe_missingBatch e |-| {|b_Digest b|}"
  note ok1 = Notify_ok[OF Cons.prems(1), of "Some b"]
  have cb1: "bf_headerReadyCallback ?bf1" using Cons.prems(2) by (simp add: Notify_callback)
  note now = Notify_ready[OF Cons.prems(1,2), of hdg b] Notify_lookup[OF Cons.prems(1,3), of b]
  show ?case
  proof (cases "?rest = {||}")
    case True
    then have "phe_missingBatch e |\<subseteq>| b_Digest |`| fset_of_list (b # bs)" by auto
    then show ?thesis
      using True now Cons.prems(3) receive_all_absent[OF ok1 cb1, of hdg bs]
      by (simp add: case_prod_unfold Let_def)
  next
    case False
    then have "fmlookup (bf_pendingHeaders ?bf1) hdg = Some (e\<lparr>phe_missingBatch := ?rest\<rparr>)"
      using now by simp
    note IH = Cons.IH[OF ok1 cb1 this]
    have "?rest |\<subseteq>| b_Digest |`| fset_of_list bs \<longleftrightarrow>
        phe_missingBatch e |\<subseteq>| b_Digest |`| fset_of_list (b # bs)" by auto
    moreover have "?rest |-| b_Digest |`| fset_of_list bs =
        phe_missingBatch e |-| b_Digest |`| fset_of_list (b # bs)" by auto
    ultimately show ?thesis using IH now Cons.prems(3) False
      by (simp add: case_prod_unfold Let_def del: fset_of_list_simps)
  qed
qed

section \<open>Properties\<close>

definition demo_batch :: "u16 \<Rightarrow> Batch" where
  "demo_batch w = NewBatch demo_crypto 0 w 0 0 []"

definition demo_waiting :: BatchFetcher where
  "demo_waiting = fst (BatchFetcher_RequestBatchesForHeader 5 NewMemoryBatchStore
     (Some (NewHeader demo_crypto 9 1 2 1 (map (Batch_GetDigest \<circ> demo_batch) [0, 1]) []))
     (BatchFetcher_SetHeaderReadyCallback True (NewBatchFetcher DefaultBatchFetcherConfig)))"

text \<open>
  \<^bold>\<open>C34\<close>: a header that waits for batches in a fetcher reached by any sequence of its operations
  has an outstanding request for every batch it misses. When batches arrive, in any order and mixed
  with batches of other headers, the header is handed to the ready callback exactly once if all its
  missing batches are among them, and is not pending afterwards; otherwise it is not handed out and
  stays pending with exactly the batches that did not arrive.
\<close>

theorem fetched_header_delivered:
  assumes "bf_run bf" and "bf_headerReadyCallback bf" and "fmlookup (bf_pendingHeaders bf) hdg = Some e"
    and "receive_all bs bf = (bf', ready)"
  shows "(\<forall>d. d |\<in>| phe_missingBatch e \<longrightarrow> map_has (bf_pendingRequests bf) d) \<and>
    (phe_missingBatch e |\<subseteq>| b_Digest |`| fset_of_list bs \<longrightarrow>
       delivered hdg ready = [phe_header e] \<and> \<not> map_has (bf_pendingHeaders bf') hdg) \<and>
    (\<not> phe_missingBatch e |\<subseteq>| b_Digest |`| fset_of_list bs \<longrightarrow>
       delivered hdg ready = [] \<and> fmlookup (bf_pendingHeaders bf') hdg =
         Some (e\<lparr>phe_missingBatch := phe_missingBatch e |-| b_Digest |`| fset_of_list bs\<rparr>))"
  using receive_all_pending[OF bf_run_ok[OF assms(1)] assms(2,3), of bs] assms(4)
    bf_ok_entry(4)[OF bf_run_ok[OF assms(1)] assms(3)]
  by (simp add: map_has_def)

lemma demo_waiting_run: "bf_run demo_waiting"
  unfolding demo_waiting_def by (intro bf_run.request bf_run.on_ready bf_run.new)

lemma RequestBatchesForHeader_pending:
  assumes "missing_batches bs h \<noteq> []"
    and "int (map_len (bf_pendingHeaders bf)) < bfc_MaxPendingHeaders (bf_cfg bf)"
  shows "fmlookup (bf_pendingHeaders (fst (BatchFetcher_RequestBatchesForHeader now bs (Some h) bf))) (h_Digest h) =
    Some \<lparr>phe_header = h, phe_missingBatch = fset_of_list (missing_batches bs h), phe_createdAt = now\<rparr>"
  using assms
  by (auto simp: BatchFetcher_RequestBatchesForHeader_def Let_def case_prod_unfold request_batches_frame
      track_header_def missing_batches_def)

lemma demo_waiting_state:
  "bf_headerReadyCallback demo_waiting"
  "\<exists>hdg e. fmlookup (bf_pendingHeaders demo_waiting) hdg = Some e \<and>
     phe_missingBatch e = {|b_Digest (demo_batch 0), b_Digest (demo_batch 1)|}"
proof -
  show "bf_headerReadyCallback demo_waiting" by code_simp
  let ?h = "NewHeader demo_crypto 9 1 2 1 (map (Batch_GetDigest \<circ> demo_batch) [0, 1]) []"
  have "missing_batches NewMemoryBatchStore ?h = map (b_Digest \<circ> demo_batch) [0, 1]"
    by (simp add: missing_batches_def MemoryBatchStore_HasBatch_def NewMemoryBatchStore_def
        Batch_GetDigest_def NewHeader_def Let_def)
  moreover have "int (map_len (bf_pendingHeaders (BatchFetcher_SetHeaderReadyCallback True
      (NewBatchFetcher DefaultBatchFetcherConfig)))) < bfc_MaxPendingHeaders (bf_cfg
      (BatchFetcher_SetHeaderReadyCallback True (NewBatchFetcher DefaultBatchFetcherConfig)))"
    by (simp add: BatchFetcher_SetHeaderReadyCallback_def NewBatchFetcher_def DefaultBatchFetcherConfig_def
        fcard.rep_eq)
  ultimately have "fmlookup (bf_pendingHeaders demo_waiting) (h_Digest ?h) =
      Some \<lparr>phe_header = ?h, phe_missingBatch = fset_of_list (map (b_Digest \<circ> demo_batch) [0, 1]),
            phe_createdAt = 5\<rparr>"
    unfolding demo_waiting_def by (subst RequestBatchesForHeader_pending) simp_all
  then show "\<exists>hdg e. fmlookup (bf_pendingHeaders demo_waiting) hdg = Some e \<and>
     phe_missingBatch e = {|b_Digest (demo_batch 0), b_Digest (demo_batch 1)|}"
    by (intro exI conjI) (assumption, simp)
qed

theorem fetched_header_delivered_witness:
  "\<exists>hdg e. fmlookup (bf_pendingHeaders demo_waiting) hdg = Some e \<and>
     delivered hdg (snd (receive_all [demo_batch 1, demo_batch 2, demo_batch 0] demo_waiting)) = [phe_header e] \<and>
     \<not> map_has (bf_pendingHeaders (fst (receive_all [demo_batch 1, demo_batch 2, demo_batch 0] demo_waiting))) hdg"
proof -
  obtain hdg e where e: "fmlookup (bf_pendingHeaders demo_waiting) hdg = Some e"
    and m: "phe_missingBatch e = {|b_Digest (demo_batch 0), b_Digest (demo_batch 1)|}"
    using demo_waiting_state(2) by blast
  show ?thesis
    using fetched_header_delivered[OF demo_waiting_run demo_waiting_state(1) e,
        of "[demo_batch 1, demo_batch 2, demo_batch 0]" "fst (receive_all [demo_batch 1, demo_batch 2, demo_batch 0] demo_waiting)"
        "snd (receive_all [demo_batch 1, demo_batch 2, demo_batch 0] demo_waiting)"] e m
    by (auto simp del: receive_all.simps)
qed

end
