(* ===== verification/Primary.thy ===== *)
theory Primary
  imports Vote_Tracker Batch_Fetcher "HOL-Library.Sublist"
begin

text \<open>
  The primary (\<^verbatim>\<open>primary/primary.go\<close>): headers, votes, certificates and rounds. The certificate
  store \<open>cs\<close>, the batch store \<open>bs\<close> and the batch fetcher \<open>bf\<close> are shared with the rest of the
  node and are arguments. What the primary hands to its callbacks is part of the result.
\<close>

section \<open>State\<close>

record PrimaryConfig =
  pc_HeaderTimeout :: int
  pc_MaxBatchesPerHeader :: int
  pc_VoteTimeout :: int
  pc_MaxRoundGap :: u64
  pc_AllowEmptyHeaders :: bool

definition DefaultPrimaryConfig :: PrimaryConfig where
  "DefaultPrimaryConfig =
     \<lparr>pc_HeaderTimeout = 500 * 1000000, pc_MaxBatchesPerHeader = 100, pc_VoteTimeout = 30 * 1000000000,
      pc_MaxRoundGap = 10, pc_AllowEmptyHeaders = True\<rparr>"

record pendingVoteEntry =
  pve_votes :: "Vote list"
  pve_createdAt :: time

text \<open>The three callbacks and the fetcher are installed or nil; the acknowledgment checker is a
  parameter of the operation that asks it.\<close>

record Primary =
  pr_validatorID :: u16
  pr_signer :: signer
  pr_cfg :: PrimaryConfig
  pr_currentRound :: u64
  pr_epoch :: u64
  pr_batchDigests :: "BatchDigest list"
  pr_voteTracker :: VoteTracker
  pr_pendingVotes :: "(hash, pendingVoteEntry) fmap"
  pr_maxPendingAge :: int
  pr_validatorSet :: SimpleValidatorSet
  pr_certCallback :: bool
  pr_headerCallback :: bool
  pr_voteCallback :: bool
  pr_batchFetcher :: bool
  pr_running :: bool

definition NewPrimary :: "u16 \<Rightarrow> signer \<Rightarrow> PrimaryConfig \<Rightarrow> SimpleValidatorSet \<Rightarrow> Primary" where
  "NewPrimary validatorID sg cfg validatorSet =
     \<lparr>pr_validatorID = validatorID, pr_signer = sg, pr_cfg = cfg, pr_currentRound = 0, pr_epoch = 0,
      pr_batchDigests = [], pr_voteTracker = NewVoteTracker (pc_VoteTimeout cfg), pr_pendingVotes = fmempty,
      pr_maxPendingAge = 2 * pc_VoteTimeout cfg, pr_validatorSet = validatorSet, pr_certCallback = False,
      pr_headerCallback = False, pr_voteCallback = False, pr_batchFetcher = False, pr_running = False\<rparr>"

definition Primary_SetCertificateCallback :: "bool \<Rightarrow> Primary \<Rightarrow> Primary" where
  "Primary_SetCertificateCallback cb p = p\<lparr>pr_certCallback := cb\<rparr>"

definition Primary_SetHeaderCallback :: "bool \<Rightarrow> Primary \<Rightarrow> Primary" where
  "Primary_SetHeaderCallback cb p = p\<lparr>pr_headerCallback := cb\<rparr>"

definition Primary_SetVoteCallback :: "bool \<Rightarrow> Primary \<Rightarrow> Primary" where
  "Primary_SetVoteCallback cb p = p\<lparr>pr_voteCallback := cb\<rparr>"

definition Primary_SetBatchFetcher :: "bool \<Rightarrow> Primary \<Rightarrow> Primary" where
  "Primary_SetBatchFetcher bf p = p\<lparr>pr_batchFetcher := bf\<rparr>"

definition Primary_Start :: "Primary \<Rightarrow> Primary \<times> err option" where
  "Primary_Start p =
     (if pr_running p then (p, Some ErrAlreadyRunning) else (p\<lparr>pr_running := True\<rparr>, None))"

definition Primary_Stop :: "Primary \<Rightarrow> Primary \<times> err option" where
  "Primary_Stop p =
     (if \<not> pr_running p then (p, Some ErrNotRunning)
      else (p\<lparr>pr_running := False, pr_voteTracker := VoteTracker_Close (pr_voteTracker p)\<rparr>, None))"

definition Primary_SetRound :: "u64 \<Rightarrow> Primary \<Rightarrow> Primary" where
  "Primary_SetRound rnd p = p\<lparr>pr_currentRound := rnd\<rparr>"

definition Primary_SetEpoch :: "u64 \<Rightarrow> Primary \<Rightarrow> Primary" where
  "Primary_SetEpoch epoch p = p\<lparr>pr_epoch := epoch\<rparr>"

definition Primary_UpdateValidatorSet :: "SimpleValidatorSet \<Rightarrow> Primary \<Rightarrow> Primary" where
  "Primary_UpdateValidatorSet vs p = p\<lparr>pr_validatorSet := vs\<rparr>"

definition Primary_AddBatchDigest :: "BatchDigest \<Rightarrow> Primary \<Rightarrow> Primary" where
  "Primary_AddBatchDigest digest p = p\<lparr>pr_batchDigests := pr_batchDigests p @ [digest]\<rparr>"

definition Primary_PendingHeadersOlderThan :: "hash list \<Rightarrow> time \<Rightarrow> int \<Rightarrow> Primary \<Rightarrow> Header list" where
  "Primary_PendingHeadersOlderThan ks now minAge p =
     VoteTracker_PendingHeadersOlderThan ks now minAge (pr_voteTracker p)"

section \<open>Headers of other validators\<close>

definition Primary_validateHeader ::
  "crypto \<Rightarrow> MemoryCertificateStore \<Rightarrow> Header \<Rightarrow> Primary \<Rightarrow> err option" where
  "Primary_validateHeader C cs header p =
     (if h_Round header < pr_currentRound p then Some ErrRoundMismatch
      else if h_Round header > pr_currentRound p + pc_MaxRoundGap (pr_cfg p) then Some ErrRoundMismatch
      else if h_Epoch header \<noteq> pr_epoch p then Some ErrEpochMismatch
      else case ValidatorSet_GetByIndex (pr_validatorSet p) (h_Author header) of
        None \<Rightarrow> Some ErrValidatorNotFound
      | Some author \<Rightarrow>
          if \<not> Header_Verify C header (val_PublicKey author) then Some ErrInvalidSignature
          else if h_Round header > 0 then
            (if int (length (h_Parents header)) < ValidatorSet_Quorum (pr_validatorSet p) then Some ErrMissingParents
             else if \<exists>parent \<in> set (h_Parents header). \<not> MemoryCertificateStore_HasCertificate (cr_Digest parent) cs
             then Some ErrMissingParents
             else None)
          else None)"

definition Primary_HandleHeader ::
  "crypto \<Rightarrow> time \<Rightarrow> MemoryBatchStore \<Rightarrow> MemoryCertificateStore \<Rightarrow> Header \<Rightarrow> Primary \<Rightarrow> BatchFetcher \<Rightarrow>
   BatchFetcher \<times> batch_request list \<times> (Vote \<times> u16) option \<times> err option" where
  "Primary_HandleHeader C now bs cs header p bf =
     (if \<not> pr_running p then (bf, [], None, Some ErrNotRunning)
      else case Primary_validateHeader C cs header p of
        Some e \<Rightarrow> (bf, [], None, Some e)
      | None \<Rightarrow>
          (let (bf1, reqs, available) =
                 (if pr_batchFetcher p then BatchFetcher_RequestBatchesForHeader now bs (Some header) bf
                  else (bf, [], \<forall>batchRef \<in> set (h_BatchRefs header).
                                   MemoryBatchStore_HasBatch (bd_Digest batchRef) bs))
           in if \<not> available then (bf1, reqs, None, None)
              else case Vote_Sign (pr_signer p) (NewVote (h_Digest header) (pr_validatorID p)) of
                Inl e \<Rightarrow> (bf1, reqs, None, Some e)
              | Inr vote \<Rightarrow>
                  (bf1, reqs, if pr_voteCallback p then Some (vote, h_Author header) else None, None)))"

section \<open>Votes and certificates\<close>

text \<open>What happens when a certificate is formed: it is stored and the header is no longer tracked.\<close>

definition certificate_formed ::
  "hash \<Rightarrow> Certificate \<Rightarrow> Primary \<Rightarrow> MemoryCertificateStore \<Rightarrow> Primary \<times> MemoryCertificateStore" where
  "certificate_formed digest cert p cs =
     (p\<lparr>pr_voteTracker := VoteTracker_RemoveHeader digest (pr_voteTracker p)\<rparr>,
      fst (MemoryCertificateStore_SaveCertificate cert cs))"

definition Primary_record ::
  "vote_order \<Rightarrow> time \<Rightarrow> hash \<Rightarrow> Vote \<Rightarrow> Primary \<Rightarrow> MemoryCertificateStore \<Rightarrow>
   Primary \<times> MemoryCertificateStore \<times> Certificate option" where
  "Primary_record ord now digest vote p cs =
     (let (vt, r) = VoteTracker_RecordVote ord now vote (ValidatorSet_Quorum (pr_validatorSet p)) (pr_voteTracker p);
          p1 = p\<lparr>pr_voteTracker := vt\<rparr>
      in case r of
           None \<Rightarrow> (p1, cs, None)
         | Some cert \<Rightarrow> (let (p2, cs2) = certificate_formed digest cert p1 cs
                         in (p2, cs2, Some cert)))"

definition buffer_vote :: "time \<Rightarrow> Vote \<Rightarrow> Primary \<Rightarrow> Primary" where
  "buffer_vote now vote p =
     (let entry = (case fmlookup (pr_pendingVotes p) (v_HeaderDigest vote) of
                     None \<Rightarrow> \<lparr>pve_votes = [], pve_createdAt = now\<rparr> | Some e \<Rightarrow> e)
      in p\<lparr>pr_pendingVotes := fmupd (v_HeaderDigest vote)
             (entry\<lparr>pve_votes := pve_votes entry @ [vote]\<rparr>) (pr_pendingVotes p)\<rparr>)"

definition Primary_HandleVote ::
  "crypto \<Rightarrow> vote_order \<Rightarrow> time \<Rightarrow> Vote option \<Rightarrow> Primary \<Rightarrow> MemoryCertificateStore \<Rightarrow>
   Primary \<times> MemoryCertificateStore \<times> Certificate option" where
  "Primary_HandleVote C ord now mvote p cs =
     (case mvote of
        None \<Rightarrow> (p, cs, None)
      | Some vote \<Rightarrow>
          if \<not> pr_running p then (p, cs, None)
          else case ValidatorSet_GetByIndex (pr_validatorSet p) (v_Validator vote) of
            None \<Rightarrow> (p, cs, None)
          | Some validator \<Rightarrow>
              if \<not> Vote_Verify C vote (val_PublicKey validator) then (p, cs, None)
              else if \<not> VoteTracker_HasHeader (v_HeaderDigest vote) (pr_voteTracker p)
              then (buffer_vote now vote p, cs, None)
              else Primary_record ord now (v_HeaderDigest vote) vote p cs)"

definition Primary_tryAdvanceRound :: "MemoryCertificateStore \<Rightarrow> Primary \<Rightarrow> Primary \<times> bool" where
  "Primary_tryAdvanceRound cs p =
     (case MemoryCertificateStore_GetCertificatesByRound (pr_currentRound p) cs of
        Inl _ \<Rightarrow> (p, False)
      | Inr certs \<Rightarrow>
          if int (length certs) \<ge> ValidatorSet_Quorum (pr_validatorSet p)
          then (p\<lparr>pr_currentRound := pr_currentRound p + 1\<rparr>, True)
          else (p, False))"

definition Primary_HandleCertificate ::
  "crypto \<Rightarrow> Certificate \<Rightarrow> Primary \<Rightarrow> MemoryCertificateStore \<Rightarrow>
   Primary \<times> MemoryCertificateStore \<times> err option" where
  "Primary_HandleCertificate C cert p cs =
     (if \<not> pr_running p then (p, cs, Some ErrNotRunning)
      else case Certificate_Verify C (pr_validatorSet p) cert of
        Some e \<Rightarrow> (p, cs, Some e)
      | None \<Rightarrow>
          (case MemoryCertificateStore_SaveCertificate cert cs of
             (cs1, Some e) \<Rightarrow> (p, cs1, Some e)
           | (cs1, None) \<Rightarrow> (fst (Primary_tryAdvanceRound cs1 p), cs1, None)))"

section \<open>Own headers\<close>

text \<open>\<open>acked\<close> is the acknowledgment checker, \<open>None\<close> when there is none.\<close>

fun split_digests ::
  "int \<Rightarrow> (hash \<Rightarrow> bool) option \<Rightarrow> BatchDigest list \<Rightarrow> BatchDigest list \<Rightarrow> BatchDigest list \<Rightarrow>
   BatchDigest list \<times> BatchDigest list" where
  "split_digests maxBatches acked ready remaining [] = (ready, remaining)"
| "split_digests maxBatches acked ready remaining (d # ds) =
     (if int (length ready) \<ge> maxBatches then split_digests maxBatches acked ready (remaining @ [d]) ds
      else if (case acked of None \<Rightarrow> True | Some has \<Rightarrow> has (bd_Digest d))
      then split_digests maxBatches acked (ready @ [d]) remaining ds
      else split_digests maxBatches acked ready (remaining @ [d]) ds)"

definition Primary_selectParents :: "u64 \<Rightarrow> MemoryCertificateStore \<Rightarrow> Primary \<Rightarrow> CertificateRef list" where
  "Primary_selectParents rnd cs p =
     (if rnd = 0 then []
      else case MemoryCertificateStore_GetCertificatesByRound (rnd - 1) cs of
        Inl _ \<Rightarrow> []
      | Inr certs \<Rightarrow>
          if length certs = 0 then []
          else let sorted_certs = sort_key Certificate_Author certs;
                   quorum = ValidatorSet_Quorum (pr_validatorSet p)
               in map Certificate_GetRef
                    (if int (length sorted_certs) > quorum then take (nat quorum) sorted_certs else sorted_certs))"

fun record_pending ::
  "vote_order \<Rightarrow> time \<Rightarrow> hash \<Rightarrow> Vote list \<Rightarrow> Primary \<Rightarrow> MemoryCertificateStore \<Rightarrow>
   Primary \<times> MemoryCertificateStore \<times> Certificate option" where
  "record_pending ord now headerDigest [] p cs = (p, cs, None)"
| "record_pending ord now headerDigest (vote # votes) p cs =
     (case Primary_record ord now headerDigest vote p cs of
        (p1, cs1, Some cert) \<Rightarrow> (p1, cs1, Some cert)
      | (p1, cs1, None) \<Rightarrow> record_pending ord now headerDigest votes p1 cs1)"

definition Primary_processPendingVotes ::
  "vote_order \<Rightarrow> time \<Rightarrow> hash \<Rightarrow> Primary \<Rightarrow> MemoryCertificateStore \<Rightarrow>
   Primary \<times> MemoryCertificateStore \<times> Certificate option" where
  "Primary_processPendingVotes ord now headerDigest p cs =
     (case fmlookup (pr_pendingVotes p) headerDigest of
        None \<Rightarrow> (p, cs, None)
      | Some entry \<Rightarrow>
          record_pending ord now headerDigest (pve_votes entry)
            (p\<lparr>pr_pendingVotes := fmdrop headerDigest (pr_pendingVotes p)\<rparr>) cs)"

text \<open>The self-vote: when it completes the quorum, the round may advance at once.\<close>

definition self_vote ::
  "vote_order \<Rightarrow> time \<Rightarrow> hash \<Rightarrow> Primary \<Rightarrow> MemoryCertificateStore \<Rightarrow>
   Primary \<times> MemoryCertificateStore \<times> Certificate option" where
  "self_vote ord now digest p cs =
     (case Vote_Sign (pr_signer p) (NewVote digest (pr_validatorID p)) of
        Inl _ \<Rightarrow> (p, cs, None)
      | Inr selfVote \<Rightarrow>
          (case Primary_record ord now digest selfVote p cs of
             (p1, cs1, None) \<Rightarrow> (p1, cs1, None)
           | (p1, cs1, Some cert) \<Rightarrow> (fst (Primary_tryAdvanceRound cs1 p1), cs1, Some cert)))"

definition Primary_publish ::
  "vote_order \<Rightarrow> time \<Rightarrow> Header \<Rightarrow> Primary \<Rightarrow> MemoryCertificateStore \<Rightarrow>
   Primary \<times> MemoryCertificateStore \<times> Certificate list" where
  "Primary_publish ord now header p cs =
     (let p1 = p\<lparr>pr_voteTracker := VoteTracker_TrackHeader now header (pr_voteTracker p)\<rparr>;
          (p2, cs2, c2) = self_vote ord now (h_Digest header) p1 cs;
          (p3, cs3, c3) = Primary_processPendingVotes ord now (h_Digest header) p2 cs2
      in (p3, cs3, (case c2 of None \<Rightarrow> [] | Some c \<Rightarrow> [c]) @ (case c3 of None \<Rightarrow> [] | Some c \<Rightarrow> [c])))"

text \<open>The result lists the certificates formed and the header for the header callback.\<close>

definition Primary_tryCreateHeader ::
  "crypto \<Rightarrow> vote_order \<Rightarrow> (hash \<Rightarrow> bool) option \<Rightarrow> time \<Rightarrow> Primary \<Rightarrow> MemoryCertificateStore \<Rightarrow>
   Primary \<times> MemoryCertificateStore \<times> Certificate list \<times> Header option" where
  "Primary_tryCreateHeader C ord acked now p cs =
     (if \<not> pr_running p then (p, cs, [], None)
      else if length (pr_batchDigests p) = 0 \<and> \<not> pc_AllowEmptyHeaders (pr_cfg p) then (p, cs, [], None)
      else let (digests, remaining) =
                 split_digests (pc_MaxBatchesPerHeader (pr_cfg p)) acked [] [] (pr_batchDigests p);
               p1 = p\<lparr>pr_batchDigests := remaining\<rparr>;
               rnd = pr_currentRound p1;
               parents = Primary_selectParents rnd cs p1
           in if rnd > 0 \<and> length parents = 0 \<and> length digests = 0 then (p1, cs, [], None)
              else case Header_Sign (pr_signer p1)
                     (NewHeader C now (pr_validatorID p1) rnd (pr_epoch p1) digests parents) of
                Inl _ \<Rightarrow> (p1, cs, [], None)
              | Inr header \<Rightarrow>
                  (let (p2, cs2, certs) = Primary_publish ord now header p1 cs
                   in (p2, cs2, certs, if pr_headerCallback p2 then Some header else None)))"

section \<open>Periodic work\<close>

definition Primary_cleanupPendingVotes :: "hash list \<Rightarrow> time \<Rightarrow> Primary \<Rightarrow> Primary" where
  "Primary_cleanupPendingVotes ks now p =
     (let cutoff = now - pr_maxPendingAge p
      in p\<lparr>pr_pendingVotes := map_delete_all
             (filter (\<lambda>d. case fmlookup (pr_pendingVotes p) d of Some e \<Rightarrow> pve_createdAt e < cutoff | None \<Rightarrow> False)
                (map_keys (pr_pendingVotes p))) (pr_pendingVotes p),
           pr_voteTracker := fst (VoteTracker_RemoveTimedOut ks now (pr_voteTracker p))\<rparr>)"

datatype header_event = HeaderTick "(hash \<Rightarrow> bool) option" | CleanupTick "hash list"

text \<open>One iteration of \<^verbatim>\<open>headerLoop\<close>.\<close>

definition Primary_headerLoop_step ::
  "crypto \<Rightarrow> vote_order \<Rightarrow> time \<Rightarrow> header_event \<Rightarrow> Primary \<Rightarrow> MemoryCertificateStore \<Rightarrow>
   Primary \<times> MemoryCertificateStore \<times> Certificate list \<times> Header option" where
  "Primary_headerLoop_step C ord now ev p cs =
     (case ev of
        HeaderTick acked \<Rightarrow> Primary_tryCreateHeader C ord acked now p cs
      | CleanupTick ks \<Rightarrow> (Primary_cleanupPendingVotes ks now p, cs, [], None))"

section \<open>The primary's certificates\<close>

definition signer_ok :: "crypto \<Rightarrow> SimpleValidatorSet \<Rightarrow> u16 \<Rightarrow> signer \<Rightarrow> bool" where
  "signer_ok C vs i sg \<longleftrightarrow> (\<exists>a. ValidatorSet_GetByIndex vs i = Some a \<and>
     (\<forall>d s. sg_Sign sg d = Inr s \<longrightarrow> PublicKey_Verify C (val_PublicKey a) d s))"

definition own_header :: "crypto \<Rightarrow> SimpleValidatorSet \<Rightarrow> u16 \<Rightarrow> Header \<Rightarrow> bool" where
  "own_header C vs i h \<longleftrightarrow> h_Author h = i \<and>
     (\<exists>a. ValidatorSet_GetByIndex vs i = Some a \<and> Header_Verify C h (val_PublicKey a))"

definition good_votes :: "crypto \<Rightarrow> SimpleValidatorSet \<Rightarrow> Vote set \<Rightarrow> bool" where
  "good_votes C vs V \<longleftrightarrow> (\<forall>v \<in> V. vote_valid C vs (v_HeaderDigest v) v)"

definition buffered_votes_ok :: "crypto \<Rightarrow> SimpleValidatorSet \<Rightarrow> (hash, pendingVoteEntry) fmap \<Rightarrow> bool" where
  "buffered_votes_ok C vs m \<longleftrightarrow> (\<forall>d e. fmlookup m d = Some e \<longrightarrow> good_votes C vs (set (pve_votes e)))"

definition primary_inv :: "crypto \<Rightarrow> SimpleValidatorSet \<Rightarrow> u16 \<Rightarrow> signer \<Rightarrow> Primary \<Rightarrow> bool" where
  "primary_inv C vs i sg p \<longleftrightarrow> pr_validatorSet p = vs \<and> pr_validatorID p = i \<and> pr_signer p = sg \<and>
     (\<exists>V. vt_run (pr_voteTracker p) V \<and> good_votes C vs V) \<and>
     tracked_all (own_header C vs i) (pr_voteTracker p) \<and> buffered_votes_ok C vs (pr_pendingVotes p)"

definition good_certificate :: "crypto \<Rightarrow> SimpleValidatorSet \<Rightarrow> u16 \<Rightarrow> Certificate \<Rightarrow> bool" where
  "good_certificate C vs i c \<longleftrightarrow> Certificate_Author c = i \<and> Certificate_Verify C vs c = None \<and>
     distinct (map v_Validator (c_Votes c)) \<and> int (length (c_Votes c)) = ValidatorSet_Quorum vs"

lemma primary_invD:
  assumes "primary_inv C vs i sg p"
  shows "pr_validatorSet p = vs" "pr_validatorID p = i" "pr_signer p = sg"
    "tracked_all (own_header C vs i) (pr_voteTracker p)" "buffered_votes_ok C vs (pr_pendingVotes p)"
  using assms by (simp_all add: primary_inv_def)

lemma primary_inv_tracker:
  assumes "primary_inv C vs i sg p"
  obtains V where "vt_run (pr_voteTracker p) V" "good_votes C vs V"
  using assms unfolding primary_inv_def by blast

lemma primary_inv_cong:
  assumes "primary_inv C vs i sg p" and "pr_validatorSet p' = pr_validatorSet p"
    and "pr_validatorID p' = pr_validatorID p" and "pr_signer p' = pr_signer p"
    and "pr_voteTracker p' = pr_voteTracker p" and "pr_pendingVotes p' = pr_pendingVotes p"
  shows "primary_inv C vs i sg p'"
  using assms by (simp add: primary_inv_def)

lemma primary_inv_set_tracker:
  assumes "primary_inv C vs i sg p" and "vt_run vt V" and "good_votes C vs V"
    and "tracked_all (own_header C vs i) vt"
  shows "primary_inv C vs i sg (p\<lparr>pr_voteTracker := vt\<rparr>)"
  using assms unfolding primary_inv_def by auto

text \<open>Recording a valid vote keeps the invariant, and a certificate it completes is good.\<close>

lemma RecordVote_good:
  assumes "vt_run vt V" and "good_votes C vs V" and "tracked_all (own_header C vs i) vt"
    and "vote_valid C vs (v_HeaderDigest v) v" and "go_order ord"
    and r: "VoteTracker_RecordVote ord now v (ValidatorSet_Quorum vs) vt = (vt', Some c)"
  shows "good_certificate C vs i c"
proof -
  note s = RecordVote_sound[OF assms(1,5) ValidatorSet_Quorum_pos r]
  have "tracked_all (own_header C vs i) vt'"
    using RecordVote_tracked_all[OF vt_run_ok[OF assms(1)] assms(3), of ord now v "ValidatorSet_Quorum vs"] r by simp
  then have own: "own_header C vs i (c_Header c)"
    using s by (auto simp: VoteTracker_GetHeader_def tracked_all_def) metis
  have "vote_valid C vs (Certificate_Digest c) w" if "w \<in> set (c_Votes c)" for w
  proof -
    have "v_HeaderDigest w = Certificate_Digest c" "w = v \<or> w \<in> V" using s that by auto
    with assms(2,4) show ?thesis unfolding good_votes_def by metis
  qed
  then show ?thesis using s own
    by (simp add: good_certificate_def Certificate_Verify_None own_header_def Certificate_Author_def)
qed

lemma Primary_record_inv:
  assumes inv: "primary_inv C vs i sg p" and v: "vote_valid C vs (v_HeaderDigest v) v"
    and "go_order ord"
    and r: "Primary_record ord now d v p cs = (p', cs', r)"
  shows "primary_inv C vs i sg p' \<and> (\<forall>c. r = Some c \<longrightarrow> good_certificate C vs i c)"
proof -
  obtain V where V: "vt_run (pr_voteTracker p) V" "good_votes C vs V" using primary_inv_tracker[OF inv] .
  note tr = primary_invD(4)[OF inv]
  obtain vt1 r1 where vt1: "VoteTracker_RecordVote ord now v (ValidatorSet_Quorum vs) (pr_voteTracker p) = (vt1, r1)"
    by fastforce
  have run1: "vt_run vt1 (insert v V)" "good_votes C vs (insert v V)"
    using vt_run.vote[OF V(1), of ord now v "ValidatorSet_Quorum vs"] vt1 V(2) v by (simp_all add: good_votes_def)
  have tr1: "tracked_all (own_header C vs i) vt1"
    using RecordVote_tracked_all[OF vt_run_ok[OF V(1)] tr, of ord now v "ValidatorSet_Quorum vs"] vt1 by simp
  have inv1: "primary_inv C vs i sg (p\<lparr>pr_voteTracker := vt1\<rparr>)"
    using primary_inv_set_tracker[OF inv run1 tr1] .
  show ?thesis
  proof (cases r1)
    case None
    then show ?thesis using r inv1 vt1 primary_invD(1)[OF inv] by (auto simp: Primary_record_def)
  next
    case (Some c)
    have "primary_inv C vs i sg (p\<lparr>pr_voteTracker := VoteTracker_RemoveHeader d vt1\<rparr>)"
      using primary_inv_set_tracker[OF inv vt_run.remove[OF run1(1)] run1(2) tracked_all_intros(3)[OF tr1]] .
    moreover have "good_certificate C vs i c"
      using RecordVote_good[OF V tr v assms(3)] vt1 Some by blast
    ultimately show ?thesis using r vt1 Some primary_invD(1)[OF inv]
      by (auto simp: Primary_record_def certificate_formed_def)
  qed
qed

lemma buffer_vote_inv:
  assumes "primary_inv C vs i sg p" and "vote_valid C vs (v_HeaderDigest v) v"
  shows "primary_inv C vs i sg (buffer_vote now v p)"
  using assms
  by (auto simp: primary_inv_def buffer_vote_def Let_def buffered_votes_ok_def good_votes_def split: option.splits)

lemma HandleVote_inv:
  assumes inv: "primary_inv C vs i sg p" and "go_order ord"
    and r: "Primary_HandleVote C ord now mv p cs = (p', cs', r)"
  shows "primary_inv C vs i sg p' \<and> (\<forall>c. r = Some c \<longrightarrow> good_certificate C vs i c)"
proof (cases "\<exists>v a. mv = Some v \<and> pr_running p \<and> ValidatorSet_GetByIndex vs (v_Validator v) = Some a \<and>
    Vote_Verify C v (val_PublicKey a)")
  case False
  then have "p' = p \<and> r = None" using r primary_invD(1)[OF inv]
    by (auto simp: Primary_HandleVote_def split: option.splits if_splits)
  then show ?thesis using inv by simp
next
  case True
  then obtain v a where v: "mv = Some v" "pr_running p" "ValidatorSet_GetByIndex vs (v_Validator v) = Some a"
    "Vote_Verify C v (val_PublicKey a)" by blast
  then have valid: "vote_valid C vs (v_HeaderDigest v) v" by (simp add: vote_valid_def Vote_Verify_def)
  show ?thesis
  proof (cases "VoteTracker_HasHeader (v_HeaderDigest v) (pr_voteTracker p)")
    case True
    then have "Primary_record ord now (v_HeaderDigest v) v p cs = (p', cs', r)"
      using v r primary_invD(1)[OF inv] by (simp add: Primary_HandleVote_def)
    then show ?thesis using Primary_record_inv[OF inv valid assms(2)] by blast
  next
    case False
    then have "p' = buffer_vote now v p" "r = None"
      using v r primary_invD(1)[OF inv] by (simp_all add: Primary_HandleVote_def)
    then show ?thesis using buffer_vote_inv[OF inv valid] by simp
  qed
qed

lemma tryAdvanceRound_inv: "primary_inv C vs i sg p \<Longrightarrow> primary_inv C vs i sg (fst (Primary_tryAdvanceRound cs p))"
  by (auto simp: Primary_tryAdvanceRound_def primary_inv_def split: sum.splits)

lemma HandleCertificate_inv:
  "primary_inv C vs i sg p \<Longrightarrow> primary_inv C vs i sg (fst (Primary_HandleCertificate C c p cs))"
  using tryAdvanceRound_inv
  by (auto simp: Primary_HandleCertificate_def split: option.splits prod.splits)

lemma record_pending_inv:
  assumes "primary_inv C vs i sg p" and "good_votes C vs (set vts)"
    and "go_order ord"
    and "record_pending ord now d vts p cs = (p', cs', r)"
  shows "primary_inv C vs i sg p' \<and> (\<forall>c. r = Some c \<longrightarrow> good_certificate C vs i c)"
  using assms
proof (induction vts arbitrary: p cs)
  case (Cons v vts)
  obtain p1 cs1 r1 where 1: "Primary_record ord now d v p cs = (p1, cs1, r1)" by (rule prod_cases3)
  have "vote_valid C vs (v_HeaderDigest v) v" "good_votes C vs (set vts)"
    using Cons.prems(2) by (simp_all add: good_votes_def)
  note inv1 = Primary_record_inv[OF Cons.prems(1) this(1) Cons.prems(3) 1]
  show ?case
  proof (cases r1)
    case None
    then have "record_pending ord now d vts p1 cs1 = (p', cs', r)" using 1 Cons.prems(4) by simp
    then show ?thesis using Cons.IH inv1 \<open>good_votes C vs (set vts)\<close> Cons.prems(3) by blast
  next
    case (Some c)
    then show ?thesis using 1 inv1 Cons.prems(4) by auto
  qed
qed auto

lemma processPendingVotes_inv:
  assumes inv: "primary_inv C vs i sg p" and "go_order ord"
    and r: "Primary_processPendingVotes ord now d p cs = (p', cs', r)"
  shows "primary_inv C vs i sg p' \<and> (\<forall>c. r = Some c \<longrightarrow> good_certificate C vs i c)"
proof (cases "fmlookup (pr_pendingVotes p) d")
  case None
  then show ?thesis using r inv by (simp add: Primary_processPendingVotes_def)
next
  case (Some e)
  have "primary_inv C vs i sg (p\<lparr>pr_pendingVotes := fmdrop d (pr_pendingVotes p)\<rparr>)"
    using inv by (auto simp: primary_inv_def buffered_votes_ok_def)
  moreover have "good_votes C vs (set (pve_votes e))"
    using primary_invD(5)[OF inv] Some by (simp add: buffered_votes_ok_def)
  ultimately show ?thesis
    using record_pending_inv[OF _ _ assms(2)] r Some by (simp add: Primary_processPendingVotes_def)
qed

lemma self_vote_inv:
  assumes inv: "primary_inv C vs i sg p" and "go_order ord" and "signer_ok C vs i sg"
    and r: "self_vote ord now d p cs = (p', cs', r)"
  shows "primary_inv C vs i sg p' \<and> (\<forall>c. r = Some c \<longrightarrow> good_certificate C vs i c)"
proof (cases "Vote_Sign sg (NewVote d i)")
  case (Inl e)
  then show ?thesis using r inv primary_invD[OF inv] by (simp add: self_vote_def)
next
  case (Inr v)
  then have "vote_valid C vs (v_HeaderDigest v) v"
    using assms(3) by (auto simp: Vote_Sign_def NewVote_def signer_ok_def vote_valid_def split: sum.splits)
  moreover obtain p1 cs1 r1 where 1: "Primary_record ord now d v p cs = (p1, cs1, r1)" by (rule prod_cases3)
  ultimately have inv1: "primary_inv C vs i sg p1 \<and> (\<forall>c. r1 = Some c \<longrightarrow> good_certificate C vs i c)"
    using Primary_record_inv[OF inv _ assms(2)] by blast
  then show ?thesis
    using r Inr 1 primary_invD[OF inv] tryAdvanceRound_inv[of C vs i sg p1 cs1]
    by (auto simp: self_vote_def split: option.splits)
qed

lemma publish_inv:
  assumes inv: "primary_inv C vs i sg p" and "go_order ord" and "signer_ok C vs i sg"
    and "own_header C vs i h" and r: "Primary_publish ord now h p cs = (p', cs', certs)"
  shows "primary_inv C vs i sg p' \<and> (\<forall>c \<in> set certs. good_certificate C vs i c)"
proof -
  obtain V where V: "vt_run (pr_voteTracker p) V" "good_votes C vs V" using primary_inv_tracker[OF inv] .
  let ?p1 = "p\<lparr>pr_voteTracker := VoteTracker_TrackHeader now h (pr_voteTracker p)\<rparr>"
  have inv1: "primary_inv C vs i sg ?p1"
    using primary_inv_set_tracker[OF inv vt_run.track[OF V(1)] V(2)
        tracked_all_intros(2)[OF primary_invD(4)[OF inv] assms(4)]] .
  obtain p2 cs2 c2 where 2: "self_vote ord now (h_Digest h) ?p1 cs = (p2, cs2, c2)" by (rule prod_cases3)
  note inv2 = self_vote_inv[OF inv1 assms(2,3) 2]
  obtain p3 cs3 c3 where 3: "Primary_processPendingVotes ord now (h_Digest h) p2 cs2 = (p3, cs3, c3)"
    by (rule prod_cases3)
  have inv3: "primary_inv C vs i sg p3 \<and> (\<forall>c. c3 = Some c \<longrightarrow> good_certificate C vs i c)"
    using processPendingVotes_inv[OF _ assms(2) 3] inv2 by blast
  show ?thesis using r 2 3 inv2 inv3 by (auto simp: Primary_publish_def Let_def split: option.splits)
qed

lemma signed_header_own:
  assumes "signer_ok C vs i sg" and "Header_Sign sg (NewHeader C now i rnd ep digests parents) = Inr h"
  shows "own_header C vs i h"
  using assms
  by (auto simp: Header_Sign_def own_header_def signer_ok_def NewHeader_def Let_def Header_Verify_def
      split: sum.splits)

lemma tryCreateHeader_inv:
  assumes inv: "primary_inv C vs i sg p" and "go_order ord" and "signer_ok C vs i sg"
    and r: "Primary_tryCreateHeader C ord acked now p cs = (p', cs', certs, mh)"
  shows "primary_inv C vs i sg p' \<and> (\<forall>c \<in> set certs. good_certificate C vs i c)"
proof -
  obtain digests remaining where
    split: "split_digests (pc_MaxBatchesPerHeader (pr_cfg p)) acked [] [] (pr_batchDigests p) = (digests, remaining)"
    by fastforce
  let ?p1 = "p\<lparr>pr_batchDigests := remaining\<rparr>"
  have inv1: "primary_inv C vs i sg ?p1" using inv by (rule primary_inv_cong) simp_all
  let ?parents = "Primary_selectParents (pr_currentRound p) cs ?p1"
  let ?h = "NewHeader C now i (pr_currentRound p) (pr_epoch p) digests ?parents"
  consider "p' \<in> {p, ?p1}" "certs = []"
    | h p2 cs2 certs2 where "Header_Sign sg ?h = Inr h" "Primary_publish ord now h ?p1 cs = (p2, cs2, certs2)"
      "p' = p2" "certs = certs2"
    using r primary_invD(2,3)[OF inv]
    by (auto simp: Primary_tryCreateHeader_def split Let_def split: if_splits sum.splits prod.splits)
  then show ?thesis
  proof cases
    case 1
    then show ?thesis using inv inv1 by auto
  next
    case 2
    then show ?thesis using publish_inv[OF inv1 assms(2,3) signed_header_own[OF assms(3)]] by blast
  qed
qed

lemma cleanupPendingVotes_inv:
  assumes inv: "primary_inv C vs i sg p"
  shows "primary_inv C vs i sg (Primary_cleanupPendingVotes ks now p)"
proof -
  obtain V where V: "vt_run (pr_voteTracker p) V" "good_votes C vs V" using primary_inv_tracker[OF inv] .
  have "primary_inv C vs i sg (p\<lparr>pr_voteTracker := fst (VoteTracker_RemoveTimedOut ks now (pr_voteTracker p))\<rparr>)"
    using primary_inv_set_tracker[OF inv vt_run.timeout[OF V(1)] V(2)
        RemoveTimedOut_tracked_all[OF primary_invD(4)[OF inv]]] .
  then show ?thesis
    by (simp add: primary_inv_def Primary_cleanupPendingVotes_def Let_def buffered_votes_ok_def)
qed

subsection \<open>Runs\<close>

text \<open>
  Runs of a primary with a fixed validator set: any interleaving of its operations, with the
  certificate store changed by the rest of the node in between (\<open>store\<close>). The last argument lists
  the certificates the primary has formed.
\<close>

inductive primary_run ::
  "crypto \<Rightarrow> SimpleValidatorSet \<Rightarrow> u16 \<Rightarrow> signer \<Rightarrow> Primary \<Rightarrow> MemoryCertificateStore \<Rightarrow> Certificate list \<Rightarrow> bool"
  for C vs i sg where
  new: "primary_run C vs i sg (NewPrimary i sg cfg vs) cs []"
| cert_cb: "primary_run C vs i sg p cs formed \<Longrightarrow> primary_run C vs i sg (Primary_SetCertificateCallback cb p) cs formed"
| header_cb: "primary_run C vs i sg p cs formed \<Longrightarrow> primary_run C vs i sg (Primary_SetHeaderCallback cb p) cs formed"
| vote_cb: "primary_run C vs i sg p cs formed \<Longrightarrow> primary_run C vs i sg (Primary_SetVoteCallback cb p) cs formed"
| fetcher: "primary_run C vs i sg p cs formed \<Longrightarrow> primary_run C vs i sg (Primary_SetBatchFetcher b p) cs formed"
| start: "primary_run C vs i sg p cs formed \<Longrightarrow> primary_run C vs i sg (fst (Primary_Start p)) cs formed"
| stop: "primary_run C vs i sg p cs formed \<Longrightarrow> primary_run C vs i sg (fst (Primary_Stop p)) cs formed"
| round: "primary_run C vs i sg p cs formed \<Longrightarrow> primary_run C vs i sg (Primary_SetRound r p) cs formed"
| epoch: "primary_run C vs i sg p cs formed \<Longrightarrow> primary_run C vs i sg (Primary_SetEpoch e p) cs formed"
| digest: "primary_run C vs i sg p cs formed \<Longrightarrow> primary_run C vs i sg (Primary_AddBatchDigest d p) cs formed"
| store: "primary_run C vs i sg p cs formed \<Longrightarrow> primary_run C vs i sg p cs' formed"
| vote: "primary_run C vs i sg p cs formed \<Longrightarrow> go_order ord \<Longrightarrow>
    Primary_HandleVote C ord now mv p cs = (p', cs', r) \<Longrightarrow>
    primary_run C vs i sg p' cs' (formed @ (case r of None \<Rightarrow> [] | Some c \<Rightarrow> [c]))"
| cert: "primary_run C vs i sg p cs formed \<Longrightarrow>
    Primary_HandleCertificate C c p cs = (p', cs', e) \<Longrightarrow> primary_run C vs i sg p' cs' formed"
| tick: "primary_run C vs i sg p cs formed \<Longrightarrow> go_order ord \<Longrightarrow>
    Primary_headerLoop_step C ord now ev p cs = (p', cs', certs, mh) \<Longrightarrow>
    primary_run C vs i sg p' cs' (formed @ certs)"

lemma primary_run_inv:
  assumes "signer_ok C vs i sg" and "primary_run C vs i sg p cs formed"
  shows "primary_inv C vs i sg p \<and> (\<forall>c \<in> set formed. good_certificate C vs i c)"
  using assms(2)
proof (induction rule: primary_run.induct)
  case (new cfg cs)
  have "vt_run (NewVoteTracker (pc_VoteTimeout cfg)) {}" by (rule vt_run.new)
  then show ?case
    by (auto simp: primary_inv_def NewPrimary_def good_votes_def tracked_all_intros buffered_votes_ok_def)
next
  case (stop p cs formed)
  then obtain V where V: "vt_run (pr_voteTracker p) V" "good_votes C vs V" using primary_inv_tracker by blast
  have "primary_inv C vs i sg (p\<lparr>pr_voteTracker := VoteTracker_Close (pr_voteTracker p)\<rparr>)"
    using primary_inv_set_tracker[OF _ vt_run.close[OF V(1)] V(2) tracked_all_intros(4)] stop.IH by blast
  then have "primary_inv C vs i sg (p\<lparr>pr_running := False, pr_voteTracker := VoteTracker_Close (pr_voteTracker p)\<rparr>)"
    by (rule primary_inv_cong) simp_all
  then show ?case using stop.IH by (simp add: Primary_Stop_def)
next
  case (vote p cs formed ord now mv p' cs' r)
  then show ?case using HandleVote_inv[OF _ vote.hyps(2,3)] by (auto split: option.splits)
next
  case (cert p cs formed c p' cs' e)
  then show ?case using HandleCertificate_inv[of C vs i sg p c cs] by simp
next
  case (tick p cs formed ord now ev p' cs' certs mh)
  then show ?case
    using tryCreateHeader_inv[OF _ tick.hyps(2) assms(1)] cleanupPendingVotes_inv
    by (cases ev) (fastforce simp: Primary_headerLoop_step_def)+
qed (auto simp: Primary_SetCertificateCallback_def Primary_SetHeaderCallback_def Primary_SetVoteCallback_def
    Primary_SetBatchFetcher_def Primary_Start_def Primary_SetRound_def Primary_SetEpoch_def
    Primary_AddBatchDigest_def elim: primary_inv_cong)

section \<open>Own headers\<close>

abbreviation acked_digest :: "(hash \<Rightarrow> bool) option \<Rightarrow> BatchDigest \<Rightarrow> bool" where
  "acked_digest acked d \<equiv> (case acked of None \<Rightarrow> True | Some has \<Rightarrow> has (bd_Digest d))"

lemma split_digests_full:
  "int (length ready) \<ge> m \<Longrightarrow> split_digests m acked ready remaining ds = (ready, remaining @ ds)"
  by (induction ds arbitrary: remaining) auto

lemma split_digests_correct:
  assumes "split_digests m acked ready0 rem0 ds = (ready, rem)" and "int (length ready0) \<le> m"
  shows "ready = ready0 @ take (nat m - length ready0) (filter (acked_digest acked) ds) \<and>
    (\<exists>rest. rem = rem0 @ rest \<and> subseq rest ds \<and>
       filter (\<lambda>d. \<not> acked_digest acked d) rest = filter (\<lambda>d. \<not> acked_digest acked d) ds \<and>
       filter (acked_digest acked) rest = drop (nat m - length ready0) (filter (acked_digest acked) ds))"
  using assms
proof (induction ds arbitrary: ready0 rem0)
  case (Cons d ds)
  show ?case
  proof (cases "int (length ready0) \<ge> m")
    case True
    then have "split_digests m acked ready0 rem0 (d # ds) = (ready0, rem0 @ d # ds)"
      by (rule split_digests_full)
    then show ?thesis using Cons.prems True by auto
  next
    case False
    show ?thesis
    proof (cases "acked_digest acked d")
      case True
      then have "split_digests m acked (ready0 @ [d]) rem0 ds = (ready, rem)" using Cons.prems(1) False by simp
      from Cons.IH[OF this] obtain rest where
        "ready = (ready0 @ [d]) @ take (nat m - length (ready0 @ [d])) (filter (acked_digest acked) ds)"
        "rem = rem0 @ rest" "subseq rest ds"
        "filter (\<lambda>d. \<not> acked_digest acked d) rest = filter (\<lambda>d. \<not> acked_digest acked d) ds"
        "filter (acked_digest acked) rest = drop (nat m - length (ready0 @ [d])) (filter (acked_digest acked) ds)"
        using False by auto
      moreover have "nat m - length ready0 = Suc (nat m - length (ready0 @ [d]))" using False by simp
      ultimately show ?thesis using True by auto
    next
      case notacked: False
      then have "split_digests m acked ready0 (rem0 @ [d]) ds = (ready, rem)" using Cons.prems(1) False by simp
      from Cons.IH[OF this Cons.prems(2)] obtain rest where
        "ready = ready0 @ take (nat m - length ready0) (filter (acked_digest acked) ds)"
        "rem = rem0 @ d # rest" "subseq rest ds"
        "filter (\<lambda>d. \<not> acked_digest acked d) rest = filter (\<lambda>d. \<not> acked_digest acked d) ds"
        "filter (acked_digest acked) rest = drop (nat m - length ready0) (filter (acked_digest acked) ds)"
        by auto
      then show ?thesis using notacked by (intro conjI exI[of _ "d # rest"]) simp_all
    qed
  qed
qed auto

lemma Primary_record_digests:
  "Primary_record ord now d v p cs = (p', cs', r) \<Longrightarrow>
     pr_batchDigests p' = pr_batchDigests p \<and> pr_headerCallback p' = pr_headerCallback p"
  by (auto simp: Primary_record_def certificate_formed_def Let_def split: option.splits prod.splits)

lemma record_pending_digests:
  "record_pending ord now d vts p cs = (p', cs', r) \<Longrightarrow>
     pr_batchDigests p' = pr_batchDigests p \<and> pr_headerCallback p' = pr_headerCallback p"
proof (induction vts arbitrary: p cs)
  case (Cons v vts)
  then show ?case
    using Primary_record_digests[of ord now d v p cs] by (fastforce split: option.splits prod.splits)
qed simp

lemma publish_digests:
  assumes "Primary_publish ord now h p cs = (p', cs', certs)"
  shows "pr_batchDigests p' = pr_batchDigests p \<and> pr_headerCallback p' = pr_headerCallback p"
proof -
  let ?p1 = "p\<lparr>pr_voteTracker := VoteTracker_TrackHeader now h (pr_voteTracker p)\<rparr>"
  obtain p2 cs2 c2 where 2: "self_vote ord now (h_Digest h) ?p1 cs = (p2, cs2, c2)" by (rule prod_cases3)
  have "pr_batchDigests p2 = pr_batchDigests p \<and> pr_headerCallback p2 = pr_headerCallback p"
  proof (cases "Vote_Sign (pr_signer p) (NewVote (h_Digest h) (pr_validatorID p))")
    case (Inr v)
    obtain p3 cs3 c3 where 3: "Primary_record ord now (h_Digest h) v ?p1 cs = (p3, cs3, c3)" by (rule prod_cases3)
    then show ?thesis using 2 Inr Primary_record_digests[OF 3]
      by (auto simp: self_vote_def Primary_tryAdvanceRound_def split: option.splits sum.splits if_splits)
  qed (use 2 in \<open>auto simp: self_vote_def\<close>)
  then show ?thesis using assms 2
    by (auto simp: Primary_publish_def Let_def Primary_processPendingVotes_def
        dest: record_pending_digests split: option.splits prod.splits)
qed

lemma selectParents_eq:
  assumes "MemoryCertificateStore_GetCertificatesByRound (rnd - 1) cs = Inr certs" and "rnd \<noteq> 0"
  shows "Primary_selectParents rnd cs p =
    map Certificate_GetRef (take (nat (ValidatorSet_Quorum (pr_validatorSet p))) (sort_key Certificate_Author certs))"
  using assms ValidatorSet_Quorum_pos[of "pr_validatorSet p"] by (auto simp: Primary_selectParents_def Let_def)

lemma tryCreateHeader_cases:
  assumes "pr_running p" and "pr_batchDigests p \<noteq> [] \<or> pc_AllowEmptyHeaders (pr_cfg p)"
    and "0 \<le> pc_MaxBatchesPerHeader (pr_cfg p)" and "pr_headerCallback p"
    and r: "Primary_tryCreateHeader C ord acked now p cs = (p', cs', certs, mh)"
  defines "ready \<equiv> take (nat (pc_MaxBatchesPerHeader (pr_cfg p))) (filter (acked_digest acked) (pr_batchDigests p))"
    and "parents \<equiv> Primary_selectParents (pr_currentRound p) cs p"
  defines "h \<equiv> NewHeader C now (pr_validatorID p) (pr_currentRound p) (pr_epoch p) ready parents"
  obtains rem where "split_digests (pc_MaxBatchesPerHeader (pr_cfg p)) acked [] [] (pr_batchDigests p) = (ready, rem)"
    and "pr_batchDigests p' = rem"
    and "mh = (if pr_currentRound p > 0 \<and> parents = [] \<and> ready = [] then None
               else case sg_Sign (pr_signer p) (h_Digest h) of
                 Inl _ \<Rightarrow> None | Inr s \<Rightarrow> Some (h\<lparr>h_Signature := s\<rparr>))"
proof -
  obtain rdy rem where
    split: "split_digests (pc_MaxBatchesPerHeader (pr_cfg p)) acked [] [] (pr_batchDigests p) = (rdy, rem)"
    by fastforce
  have rdy: "rdy = ready" using split_digests_correct[OF split] assms(3) by (simp add: ready_def)
  let ?p1 = "p\<lparr>pr_batchDigests := rem\<rparr>"
  have par: "Primary_selectParents rnd cs ?p1 = Primary_selectParents rnd cs p" for rnd
    by (simp add: Primary_selectParents_def Let_def split: sum.split)
  show ?thesis
  proof (rule that)
    show "split_digests (pc_MaxBatchesPerHeader (pr_cfg p)) acked [] [] (pr_batchDigests p) = (ready, rem)"
      using split rdy by simp
    show "pr_batchDigests p' = rem"
      using r assms(1,2)
      by (auto simp: Primary_tryCreateHeader_def split Let_def dest: publish_digests
          split: if_splits sum.splits prod.splits)
    show "mh = (if pr_currentRound p > 0 \<and> parents = [] \<and> ready = [] then None
               else case sg_Sign (pr_signer p) (h_Digest h) of
                 Inl _ \<Rightarrow> None | Inr s \<Rightarrow> Some (h\<lparr>h_Signature := s\<rparr>))"
      using r assms(1,2,4)
      by (auto simp: Primary_tryCreateHeader_def split rdy par Let_def parents_def h_def Header_Sign_def
          dest: publish_digests split: if_splits sum.splits prod.splits)
  qed
qed

section \<open>Properties\<close>

text \<open>
  Every certificate the primary forms is good. In every run of a primary with a fixed
  well-formed validator set that contains the primary's own key, with any interleaving of header
  ticks, votes of anybody, certificates, restarts and changes of the store, each certificate formed
  passes \<^verbatim>\<open>Certificate.Verify\<close>, is authored by the primary and carries exactly a quorum of votes
  of pairwise distinct members.
\<close>

lemma primary_certificates_verify:
  assumes "signer_ok C vs i sg" and "vs_wf vs" and "primary_run C vs i sg p cs formed" and "c \<in> set formed"
  shows "Certificate_Verify C vs c = None \<and> Certificate_Author c = i \<and>
    distinct (map v_Validator (c_Votes c)) \<and> int (length (c_Votes c)) = ValidatorSet_Quorum vs \<and>
    svs.is_quorum vs (cert_voters c)"
  using primary_run_inv[OF assms(1,3)] assms(2,4) verified_voters_quorum[OF assms(2)]
  by (auto simp: good_certificate_def)


definition demo_signer :: "u16 \<Rightarrow> signer" where
  "demo_signer i = \<lparr>sg_Sign = (\<lambda>d. Inr (demo_sign (100 + ucast i) d)), sg_PublicKey = 100 + ucast i,
                    sg_ValidatorIndex = i\<rparr>"

definition demo_primary :: Primary where
  "demo_primary = Primary_SetHeaderCallback True (Primary_SetVoteCallback True
     (fst (Primary_Start (NewPrimary 0 (demo_signer 0) DefaultPrimaryConfig demo_vs))))"

definition demo_own_header :: Header where
  "demo_own_header = (let h = NewHeader demo_crypto 7 0 0 0 [] []
     in h\<lparr>h_Signature := demo_sign 100 (h_Digest h)\<rparr>)"

lemma demo_signer_ok: "i \<in> {0, 1, 2, 3} \<Longrightarrow> signer_ok demo_crypto demo_vs i (demo_signer i)"
  by (simp add: signer_ok_def demo_signer_def)

lemma demo_primary_run: "primary_run demo_crypto demo_vs 0 (demo_signer 0) demo_primary cs []"
  unfolding demo_primary_def by (intro primary_run.header_cb primary_run.vote_cb primary_run.start primary_run.new)

definition demo_after_tick :: "Primary \<times> MemoryCertificateStore \<times> Certificate list \<times> Header option" where
  "demo_after_tick = Primary_headerLoop_step demo_crypto map_keys 7 (HeaderTick None) demo_primary NewMemoryCertificateStore"

definition demo_after_votes :: "Primary \<times> MemoryCertificateStore \<times> Certificate option" where
  "demo_after_votes =
     (let (p1, cs1, _, _) = demo_after_tick; d = h_Digest demo_own_header;
          (p2, cs2, _) = Primary_HandleVote demo_crypto map_keys 8 (Some (demo_vote d 2)) p1 cs1
      in Primary_HandleVote demo_crypto map_keys 9 (Some (demo_vote d 1)) p2 cs2)"

lemma demo_votes_certify: "snd (snd demo_after_votes) \<noteq> None"
  by code_simp

lemma primary_certificates_verify_example:
  "\<exists>c. snd (snd demo_after_votes) = Some c \<and> Certificate_Verify demo_crypto demo_vs c = None \<and>
       svs.is_quorum demo_vs (cert_voters c)"
proof -
  obtain p1 cs1 certs mh where 1: "demo_after_tick = (p1, cs1, certs, mh)" by (rule prod_cases4)
  let ?v = "\<lambda>i. Some (demo_vote (h_Digest demo_own_header) i)"
  obtain p2 cs2 r2 where 2: "Primary_HandleVote demo_crypto map_keys 8 (?v 2) p1 cs1 = (p2, cs2, r2)"
    by (rule prod_cases3)
  have eq: "demo_after_votes = Primary_HandleVote demo_crypto map_keys 9 (?v 1) p2 cs2"
    by (simp add: demo_after_votes_def 1 2 Let_def)
  obtain p3 cs3 c where 3: "Primary_HandleVote demo_crypto map_keys 9 (?v 1) p2 cs2 = (p3, cs3, Some c)"
    and c: "snd (snd demo_after_votes) = Some c"
    using demo_votes_certify unfolding eq by (cases "Primary_HandleVote demo_crypto map_keys 9 (?v 1) p2 cs2") auto
  have "primary_run demo_crypto demo_vs 0 (demo_signer 0) p1 cs1 ([] @ certs)"
    using primary_run.tick[OF demo_primary_run go_order_map_keys 1[unfolded demo_after_tick_def]] .
  note run = primary_run.vote[OF primary_run.vote[OF this go_order_map_keys 2] go_order_map_keys 3]
  have "signer_ok demo_crypto demo_vs 0 (demo_signer 0)" by (simp add: demo_signer_ok)
  from primary_certificates_verify[OF this demo_vs_wf run, of c] c show ?thesis by simp
qed

definition demo_digest :: "hash \<Rightarrow> BatchDigest" where
  "demo_digest d = \<lparr>bd_Digest = d, bd_WorkerID = 0, bd_ValidatorID = 0\<rparr>"

definition demo_queue :: Primary where
  "demo_queue = fold Primary_AddBatchDigest (map demo_digest [11, 12, 13])
     (demo_primary\<lparr>pr_cfg := DefaultPrimaryConfig\<lparr>pc_MaxBatchesPerHeader := 1\<rparr>\<rparr>)"

lemma demo_queue_sel:
  "pr_running demo_queue" "pr_headerCallback demo_queue" "pr_currentRound demo_queue = 0"
  "pr_batchDigests demo_queue = map demo_digest [11, 12, 13]" "pc_MaxBatchesPerHeader (pr_cfg demo_queue) = 1"
  "sg_Sign (pr_signer demo_queue) d = Inr (demo_sign 100 d)"
  by (simp_all add: demo_queue_def Primary_AddBatchDigest_def demo_primary_def Primary_Start_def NewPrimary_def
      Primary_SetHeaderCallback_def Primary_SetVoteCallback_def demo_signer_def)


text \<open>
  \<^bold>\<open>C13\<close>: when a running primary votes. A vote goes to the author exactly if the round lies in the
  window from the current round to the current round plus \<^verbatim>\<open>MaxRoundGap\<close> (computed with wrap-around),
  the epoch is the current one, the signature over the header's digest field verifies for the
  author's key, a header after round 0 lists at least a quorum of parents, all of them stored, and
  every batch is stored. The vote is for the digest field. The state of the primary does not change,
  so an earlier vote for another header of the same author and round never prevents a vote, and the
  digest field, the rounds of the parents and repetitions among them play no role.
\<close>

theorem HandleHeader_votes_exactly:
  assumes "pr_running p" and "pr_voteCallback p" and "sg_Sign (pr_signer p) (h_Digest h) = Inr s"
    and "Primary_HandleHeader C now bs cs h p bf = (bf', reqs, mv, e)"
  shows "(mv \<noteq> None \<longleftrightarrow>
      pr_currentRound p \<le> h_Round h \<and> h_Round h \<le> pr_currentRound p + pc_MaxRoundGap (pr_cfg p) \<and>
      h_Epoch h = pr_epoch p \<and>
      (\<exists>a. ValidatorSet_GetByIndex (pr_validatorSet p) (h_Author h) = Some a \<and>
           EdVerify C (val_PublicKey a) (h_Digest h) (h_Signature h)) \<and>
      (0 < h_Round h \<longrightarrow> ValidatorSet_Quorum (pr_validatorSet p) \<le> int (length (h_Parents h)) \<and>
         (\<forall>r \<in> set (h_Parents h). MemoryCertificateStore_HasCertificate (cr_Digest r) cs)) \<and>
      (\<forall>r \<in> set (h_BatchRefs h). MemoryBatchStore_HasBatch (bd_Digest r) bs)) \<and>
    (mv \<noteq> None \<longrightarrow> mv = Some (\<lparr>v_HeaderDigest = h_Digest h, v_Validator = pr_validatorID p, v_Signature = s\<rparr>,
                                h_Author h) \<and> e = None \<and> reqs = [] \<and> bf' = bf)"
proof -
  let ?all = "\<forall>r \<in> set (h_BatchRefs h). MemoryBatchStore_HasBatch (bd_Digest r) bs"
  obtain bf1 reqs1 av where f: "(if pr_batchFetcher p then BatchFetcher_RequestBatchesForHeader now bs (Some h) bf
      else (bf, [], ?all)) = (bf1, reqs1, av)" by (rule prod_cases3)
  have av: "av \<longleftrightarrow> ?all" "av \<Longrightarrow> bf1 = bf \<and> reqs1 = []"
    using f by (auto simp: BatchFetcher_RequestBatchesForHeader_def missing_batches_def Let_def filter_empty_conv
        split: if_splits prod.splits)
  have valid: "Primary_validateHeader C cs h p = None \<longleftrightarrow>
      pr_currentRound p \<le> h_Round h \<and> h_Round h \<le> pr_currentRound p + pc_MaxRoundGap (pr_cfg p) \<and>
      h_Epoch h = pr_epoch p \<and>
      (\<exists>a. ValidatorSet_GetByIndex (pr_validatorSet p) (h_Author h) = Some a \<and>
           EdVerify C (val_PublicKey a) (h_Digest h) (h_Signature h)) \<and>
      (0 < h_Round h \<longrightarrow> ValidatorSet_Quorum (pr_validatorSet p) \<le> int (length (h_Parents h)) \<and>
         (\<forall>r \<in> set (h_Parents h). MemoryCertificateStore_HasCertificate (cr_Digest r) cs))"
    unfolding Primary_validateHeader_def Header_Verify_def PublicKey_Verify_def by (auto split: option.splits)
  have "(bf', reqs, mv, e) = (case Primary_validateHeader C cs h p of
      Some e \<Rightarrow> (bf, [], None, Some e)
    | None \<Rightarrow> if \<not> av then (bf1, reqs1, None, None)
        else (bf1, reqs1, Some (\<lparr>v_HeaderDigest = h_Digest h, v_Validator = pr_validatorID p, v_Signature = s\<rparr>,
                                h_Author h), None))"
    using assms f by (auto simp: Primary_HandleHeader_def Vote_Sign_def NewVote_def split: option.splits)
  then have key: "(mv \<noteq> None \<longleftrightarrow> Primary_validateHeader C cs h p = None \<and> av) \<and>
    (mv \<noteq> None \<longrightarrow> mv = Some (\<lparr>v_HeaderDigest = h_Digest h, v_Validator = pr_validatorID p, v_Signature = s\<rparr>,
                                h_Author h) \<and> e = None \<and> reqs = [] \<and> bf' = bf)"
    using av(2) by (auto split: option.splits if_splits)
  from key[unfolded valid av(1) conj_assoc] show ?thesis .
qed

definition demo_peer_header :: "int \<Rightarrow> Header" where
  "demo_peer_header t = (let h = NewHeader demo_crypto t 1 0 0 [] []
     in h\<lparr>h_Signature := demo_sign 101 (h_Digest h)\<rparr>)"

lemma demo_primary_sel:
  "pr_running demo_primary" "pr_voteCallback demo_primary" "pr_currentRound demo_primary = 0"
  "pr_epoch demo_primary = 0" "pr_validatorSet demo_primary = demo_vs" "pr_validatorID demo_primary = 0"
  "sg_Sign (pr_signer demo_primary) d = Inr (demo_sign 100 d)"
  by (simp_all add: demo_primary_def Primary_Start_def NewPrimary_def Primary_SetHeaderCallback_def
      Primary_SetVoteCallback_def demo_signer_def)

text \<open>Two headers of one author and round with different digests both get the primary's vote.\<close>

theorem HandleHeader_votes_exactly_witness:
  "h_Digest (demo_peer_header 7) \<noteq> h_Digest (demo_peer_header 8) \<and>
   (\<forall>t. \<exists>bf e reqs. Primary_HandleHeader demo_crypto 9 NewMemoryBatchStore NewMemoryCertificateStore
      (demo_peer_header t) demo_primary (NewBatchFetcher DefaultBatchFetcherConfig) =
      (bf, reqs, Some (\<lparr>v_HeaderDigest = h_Digest (demo_peer_header t), v_Validator = 0,
                         v_Signature = demo_sign 100 (h_Digest (demo_peer_header t))\<rparr>, 1), e))"
proof (intro conjI allI)
  show "h_Digest (demo_peer_header 7) \<noteq> h_Digest (demo_peer_header 8)" by code_simp
  fix t
  let ?h = "demo_peer_header t" and ?bf = "NewBatchFetcher DefaultBatchFetcherConfig"
  obtain bf reqs mv e where r: "Primary_HandleHeader demo_crypto 9 NewMemoryBatchStore NewMemoryCertificateStore
      ?h demo_primary ?bf = (bf, reqs, mv, e)" by (rule prod_cases4)
  have sel: "h_Round ?h = 0" "h_Epoch ?h = 0" "h_Author ?h = 1" "h_Parents ?h = []" "h_BatchRefs ?h = []"
    "EdVerify demo_crypto 101 (h_Digest ?h) (h_Signature ?h)"
    by (simp_all add: demo_peer_header_def NewHeader_def Let_def demo_crypto_def demo_sign_def)
  have val: "\<exists>a. ValidatorSet_GetByIndex demo_vs 1 = Some a \<and> val_PublicKey a = 101" by simp
  have "mv = Some (\<lparr>v_HeaderDigest = h_Digest ?h, v_Validator = 0, v_Signature = demo_sign 100 (h_Digest ?h)\<rparr>, 1)"
    using HandleHeader_votes_exactly[OF demo_primary_sel(1,2,7) r] sel val by (auto simp: demo_primary_sel)
  with r show "\<exists>bf e reqs. Primary_HandleHeader demo_crypto 9 NewMemoryBatchStore NewMemoryCertificateStore ?h
      demo_primary ?bf = (bf, reqs, Some (\<lparr>v_HeaderDigest = h_Digest ?h, v_Validator = 0,
        v_Signature = demo_sign 100 (h_Digest ?h)\<rparr>, 1), e)" by blast
qed

end
