(* ===== verification/Gc_Manager.thy ===== *)
theory Gc_Manager
  imports Dag
begin

text \<open>
  Garbage collection (\<^verbatim>\<open>gc/gc.go\<close>): the cutoff below the committed round, the recovery of
  transactions of batches taken to be uncommitted, and the deletion of old rounds from the DAG and
  the stores. The DAG, the batch store and the transaction index are shared with the node; the
  certificate store is the one of the DAG.

  The recovery callback runs in the middle of a collection. It is a parameter \<open>cb\<close> that gets the
  transactions and the transaction index of that moment and changes the callee's state \<open>w\<close>.
\<close>

section \<open>State\<close>

record GcConfig =
  gcc_GCDepth :: u64
  gcc_GCInterval :: int
  gcc_RecoverUncommittedTxs :: bool

definition DefaultGcConfig :: GcConfig where
  "DefaultGcConfig = \<lparr>gcc_GCDepth = 100, gcc_GCInterval = 30 * 1000000000, gcc_RecoverUncommittedTxs = True\<rparr>"

record GCMetrics =
  gm_TotalGCRuns :: u64
  gm_TotalGCFailures :: u64
  gm_LastGCRound :: u64
  gm_LastGCDuration :: int
  gm_TotalTxRecovered :: u64

record GCManager =
  gc_cfg :: GcConfig
  gc_committedRound :: u64
  gc_lastGCRound :: u64
  gc_uncommittedBatches :: "(hash, u64) fmap"
  gc_totalGCRuns :: u64
  gc_totalGCFailures :: u64
  gc_lastGCDuration :: int
  gc_totalTxRecovered :: u64
  gc_running :: bool

type_synonym 'w recovery = "transaction list \<Rightarrow> MemoryTxIndex \<Rightarrow> 'w \<Rightarrow> 'w"

definition NewGCManager :: "GcConfig \<Rightarrow> GCManager" where
  "NewGCManager cfg =
     \<lparr>gc_cfg = cfg, gc_committedRound = 0, gc_lastGCRound = 0, gc_uncommittedBatches = fmempty,
      gc_totalGCRuns = 0, gc_totalGCFailures = 0, gc_lastGCDuration = 0, gc_totalTxRecovered = 0,
      gc_running = False\<rparr>"

definition GCManager_TrackBatch :: "hash \<Rightarrow> u64 \<Rightarrow> GCManager \<Rightarrow> GCManager" where
  "GCManager_TrackBatch digest rnd gc =
     gc\<lparr>gc_uncommittedBatches := fmupd digest rnd (gc_uncommittedBatches gc)\<rparr>"

definition GCManager_MarkBatchCommitted :: "hash \<Rightarrow> GCManager \<Rightarrow> GCManager" where
  "GCManager_MarkBatchCommitted digest gc =
     gc\<lparr>gc_uncommittedBatches := fmdrop digest (gc_uncommittedBatches gc)\<rparr>"

definition GCManager_MarkBatchesCommitted :: "hash list \<Rightarrow> GCManager \<Rightarrow> GCManager" where
  "GCManager_MarkBatchesCommitted digests gc =
     gc\<lparr>gc_uncommittedBatches := map_delete_all digests (gc_uncommittedBatches gc)\<rparr>"

definition GCManager_UncommittedBatchCount :: "GCManager \<Rightarrow> nat" where
  "GCManager_UncommittedBatchCount gc = map_len (gc_uncommittedBatches gc)"

definition GCManager_Start :: "GCManager \<Rightarrow> GCManager \<times> err option" where
  "GCManager_Start gc =
     (if gc_running gc then (gc, Some ErrAlreadyRunning) else (gc\<lparr>gc_running := True\<rparr>, None))"

definition GCManager_Stop :: "GCManager \<Rightarrow> GCManager \<times> err option" where
  "GCManager_Stop gc =
     (if \<not> gc_running gc then (gc, Some ErrNotRunning) else (gc\<lparr>gc_running := False\<rparr>, None))"

definition GCManager_calculateGCRound :: "GCManager \<Rightarrow> u64" where
  "GCManager_calculateGCRound gc =
     (if gc_committedRound gc \<le> gcc_GCDepth (gc_cfg gc) then 0
      else gc_committedRound gc - gcc_GCDepth (gc_cfg gc))"

section \<open>Transactions of uncommitted batches\<close>

definition remove_batch_txs :: "hash \<Rightarrow> MemoryTxIndex \<Rightarrow> MemoryTxIndex" where
  "remove_batch_txs digest idx = fst (MemoryTxIndex_RemoveTxsForBatch digest idx)"

definition committed_batches :: "Certificate list \<Rightarrow> hash fset" where
  "committed_batches certs =
     fset_of_list (concat (map (\<lambda>cert. map bd_Digest (h_BatchRefs (c_Header cert))) certs))"

fun recover_batches ::
  "hash fset \<Rightarrow> Batch list \<Rightarrow> transaction list \<times> MemoryTxIndex \<Rightarrow> transaction list \<times> MemoryTxIndex" where
  "recover_batches committed [] s = s"
| "recover_batches committed (batch # batches) (txs, idx) =
     (if b_Digest batch |\<notin>| committed
      then recover_batches committed batches (txs @ b_Transactions batch, remove_batch_txs (b_Digest batch) idx)
      else recover_batches committed batches (txs, idx))"

definition fallback_round ::
  "cert_order \<Rightarrow> DAG \<Rightarrow> MemoryBatchStore \<Rightarrow> u64 \<Rightarrow> transaction list \<times> MemoryTxIndex \<Rightarrow>
   transaction list \<times> MemoryTxIndex" where
  "fallback_round ord d bs rnd s =
     (case MemoryBatchStore_GetBatchesByRound rnd bs of
        Inl _ \<Rightarrow> s
      | Inr batches \<Rightarrow>
          if length batches = 0 then s
          else let committed = committed_batches (DAG_GetCertificatesForRound ord rnd d)
               in recover_batches committed batches s)"

function fallback_loop ::
  "cert_order \<Rightarrow> DAG \<Rightarrow> MemoryBatchStore \<Rightarrow> u64 \<Rightarrow> u64 \<Rightarrow> transaction list \<times> MemoryTxIndex \<Rightarrow>
   transaction list \<times> MemoryTxIndex" where
  "fallback_loop ord d bs rnd beforeRound s =
     (if rnd < beforeRound
      then fallback_loop ord d bs (rnd + 1) beforeRound (fallback_round ord d bs rnd s)
      else s)"
  by pat_completeness auto
termination
proof (relation "measure (\<lambda>(ord, d, bs, rnd, beforeRound, s). unat beforeRound - unat rnd)")
  fix ord :: cert_order and d :: DAG and bs and rnd beforeRound :: u64 and s :: "transaction list \<times> MemoryTxIndex"
  assume lt: "rnd < beforeRound"
  then have "unat (rnd + 1) = unat rnd + 1" by unat_arith
  then show "((ord, d, bs, rnd + 1, beforeRound, fallback_round ord d bs rnd s), (ord, d, bs, rnd, beforeRound, s))
      \<in> measure (\<lambda>(ord, d, bs, rnd, beforeRound, s). unat beforeRound - unat rnd)"
    using lt by (simp add: word_less_nat_alt)
qed simp

declare fallback_loop.simps [simp del]

definition GCManager_extractUncommittedTxsFallback ::
  "cert_order \<Rightarrow> u64 \<Rightarrow> GCManager \<Rightarrow> DAG \<Rightarrow> MemoryBatchStore \<Rightarrow> MemoryTxIndex \<Rightarrow>
   transaction list \<times> MemoryTxIndex" where
  "GCManager_extractUncommittedTxsFallback ord beforeRound gc d bs idx =
     (let startRound = gc_lastGCRound gc;
          startRound' = (if startRound > 0 then startRound + 1 else startRound)
      in fallback_loop ord d bs startRound' beforeRound ([], idx))"

text \<open>\<open>ks\<close> is the order in which the index of uncommitted batches is visited.\<close>

definition GCManager_extractUncommittedTxs ::
  "cert_order \<Rightarrow> hash list \<Rightarrow> u64 \<Rightarrow> GCManager \<Rightarrow> DAG \<Rightarrow> MemoryBatchStore \<Rightarrow> MemoryTxIndex \<Rightarrow>
   GCManager \<times> MemoryTxIndex \<times> transaction list" where
  "GCManager_extractUncommittedTxs ord ks beforeRound gc d bs idx =
     (let batchesToRemove = filter (\<lambda>digest. case fmlookup (gc_uncommittedBatches gc) digest of
              Some rnd \<Rightarrow> rnd < beforeRound | None \<Rightarrow> False) ks;
          uncommittedTxs = concat (map (\<lambda>digest. case MemoryBatchStore_GetBatch digest bs of
              Inr batch \<Rightarrow> b_Transactions batch | Inl _ \<Rightarrow> []) batchesToRemove);
          gc1 = gc\<lparr>gc_uncommittedBatches := map_delete_all batchesToRemove (gc_uncommittedBatches gc)\<rparr>;
          idx1 = fold remove_batch_txs batchesToRemove idx
      in if length uncommittedTxs = 0 \<and> length batchesToRemove = 0
         then let (txs, idx2) = GCManager_extractUncommittedTxsFallback ord beforeRound gc1 d bs idx1
              in (gc1, idx2, txs)
         else (gc1, idx1, uncommittedTxs))"

section \<open>Collection\<close>

definition gc_recover ::
  "'w recovery option \<Rightarrow> cert_order \<Rightarrow> hash list \<Rightarrow> u64 \<Rightarrow> GCManager \<Rightarrow> DAG \<Rightarrow> MemoryBatchStore \<Rightarrow>
   MemoryTxIndex \<Rightarrow> 'w \<Rightarrow> GCManager \<times> MemoryTxIndex \<times> 'w" where
  "gc_recover cb ord ks beforeRound gc d bs idx w =
     (case cb of
        None \<Rightarrow> (gc, idx, w)
      | Some recover \<Rightarrow>
          if \<not> gcc_RecoverUncommittedTxs (gc_cfg gc) then (gc, idx, w)
          else let (gc1, idx1, txs) = GCManager_extractUncommittedTxs ord ks beforeRound gc d bs idx
               in if length txs > 0
                  then (gc1\<lparr>gc_totalTxRecovered := gc_totalTxRecovered gc1 + of_nat (length txs)\<rparr>, idx1,
                        recover txs idx1 w)
                  else (gc1, idx1, w))"

definition delete_certificates :: "u64 \<Rightarrow> DAG \<Rightarrow> DAG \<times> err option" where
  "delete_certificates beforeRound d =
     (case d_certStore d of
        None \<Rightarrow> (d, None)
      | Some cs \<Rightarrow> (let (cs', e) = MemoryCertificateStore_DeleteCertificatesBefore beforeRound cs
                    in (d\<lparr>d_certStore := Some cs'\<rparr>, e)))"

definition GCManager_performGC ::
  "'w recovery option \<Rightarrow> cert_order \<Rightarrow> hash list \<Rightarrow> u64 \<Rightarrow> GCManager \<Rightarrow> DAG \<Rightarrow> MemoryBatchStore \<Rightarrow>
   MemoryTxIndex \<Rightarrow> 'w \<Rightarrow> GCManager \<times> DAG \<times> MemoryBatchStore \<times> MemoryTxIndex \<times> 'w \<times> err option" where
  "GCManager_performGC cb ord ks beforeRound gc d bs idx w =
     (let (gc1, idx1, w1) = gc_recover cb ord ks beforeRound gc d bs idx w;
          d1 = DAG_PruneRoundsBefore beforeRound d
      in case MemoryBatchStore_DeleteBatchesBefore beforeRound bs of
           (bs1, Some e) \<Rightarrow> (gc1, d1, bs1, idx1, w1, Some e)
         | (bs1, None) \<Rightarrow>
             (case delete_certificates beforeRound d1 of
                (d2, Some e) \<Rightarrow> (gc1, d2, bs1, idx1, w1, Some e)
              | (d2, None) \<Rightarrow>
                  (case MemoryTxIndex_PruneOlderThan beforeRound idx1 of
                     (idx2, Inl e) \<Rightarrow> (gc1, d2, bs1, idx2, w1, Some e)
                   | (idx2, Inr _) \<Rightarrow>
                       (if beforeRound > 0 then gc1\<lparr>gc_lastGCRound := beforeRound - 1\<rparr> else gc1,
                        d2, bs1, idx2, w1, None))))"

definition GCManager_ForceGC ::
  "'w recovery option \<Rightarrow> cert_order \<Rightarrow> hash list \<Rightarrow> GCManager \<Rightarrow> DAG \<Rightarrow> MemoryBatchStore \<Rightarrow>
   MemoryTxIndex \<Rightarrow> 'w \<Rightarrow> GCManager \<times> DAG \<times> MemoryBatchStore \<times> MemoryTxIndex \<times> 'w \<times> err option" where
  "GCManager_ForceGC cb ord ks gc d bs idx w =
     (let gcRound = GCManager_calculateGCRound gc
      in if gcRound = 0 then (gc, d, bs, idx, w, None)
         else GCManager_performGC cb ord ks gcRound gc d bs idx w)"

definition GCManager_NotifyCommitted ::
  "'w recovery option \<Rightarrow> cert_order \<Rightarrow> hash list \<Rightarrow> u64 \<Rightarrow> GCManager \<Rightarrow> DAG \<Rightarrow> MemoryBatchStore \<Rightarrow>
   MemoryTxIndex \<Rightarrow> 'w \<Rightarrow> GCManager \<times> DAG \<times> MemoryBatchStore \<times> MemoryTxIndex \<times> 'w \<times> err option" where
  "GCManager_NotifyCommitted cb ord ks rnd gc d bs idx w =
     (let (gc1, d1) = (if rnd > gc_committedRound gc
                       then (gc\<lparr>gc_committedRound := rnd\<rparr>, DAG_SetCommittedRound rnd d) else (gc, d));
          gcRound = GCManager_calculateGCRound gc1
      in if gcRound = 0 then (gc1, d1, bs, idx, w, None)
         else GCManager_performGC cb ord ks gcRound gc1 d1 bs idx w)"

text \<open>One tick of \<^verbatim>\<open>gcLoop\<close>; \<open>duration\<close> is the time the collection takes.\<close>

definition GCManager_gcLoop_tick ::
  "'w recovery option \<Rightarrow> cert_order \<Rightarrow> hash list \<Rightarrow> int \<Rightarrow> GCManager \<Rightarrow> DAG \<Rightarrow> MemoryBatchStore \<Rightarrow>
   MemoryTxIndex \<Rightarrow> 'w \<Rightarrow> GCManager \<times> DAG \<times> MemoryBatchStore \<times> MemoryTxIndex \<times> 'w" where
  "GCManager_gcLoop_tick cb ord ks duration gc d bs idx w =
     (let gcRound = GCManager_calculateGCRound gc
      in if gcRound > 0
         then (case GCManager_performGC cb ord ks gcRound gc d bs idx w of
                 (gc1, d1, bs1, idx1, w1, Some _) \<Rightarrow>
                   (gc1\<lparr>gc_totalGCFailures := gc_totalGCFailures gc1 + 1\<rparr>, d1, bs1, idx1, w1)
               | (gc1, d1, bs1, idx1, w1, None) \<Rightarrow>
                   (gc1\<lparr>gc_totalGCRuns := gc_totalGCRuns gc1 + 1, gc_lastGCDuration := duration\<rparr>,
                    d1, bs1, idx1, w1))
         else (gc, d, bs, idx, w))"

definition GCManager_GetGCRound :: "GCManager \<Rightarrow> u64" where
  "GCManager_GetGCRound gc = GCManager_calculateGCRound gc"

definition GCManager_Metrics :: "GCManager \<Rightarrow> GCMetrics" where
  "GCManager_Metrics gc =
     \<lparr>gm_TotalGCRuns = gc_totalGCRuns gc, gm_TotalGCFailures = gc_totalGCFailures gc,
      gm_LastGCRound = gc_lastGCRound gc, gm_LastGCDuration = gc_lastGCDuration gc,
      gm_TotalTxRecovered = gc_totalTxRecovered gc\<rparr>"

section \<open>What a collection removes\<close>

lemma prune_index_rounds: "fmlookup (d_rounds (prune_index r d)) q = (if q = r then None else fmlookup (d_rounds d) q)"
  by (simp add: prune_index_def)

lemma prune_index_store: "d_certStore (prune_index r d) = d_certStore d"
  by (simp add: prune_index_def)

lemma prune_fold:
  "fmlookup (d_rounds (fold (\<lambda>r d. if r < rnd then prune_index r d else d) rs d)) q =
     (if q \<in> set rs \<and> q < rnd then None else fmlookup (d_rounds d) q)"
  "d_certStore (fold (\<lambda>r d. if r < rnd then prune_index r d else d) rs d) = d_certStore d"
  by (induction rs arbitrary: d) (auto simp: prune_index_rounds prune_index_store)

lemma PruneRoundsBefore_rounds:
  "fmlookup (d_rounds (DAG_PruneRoundsBefore rnd d)) q = (if q < rnd then None else fmlookup (d_rounds d) q)"
  "d_certStore (DAG_PruneRoundsBefore rnd d) = d_certStore d"
  by (auto simp: DAG_PruneRoundsBefore_def DAG_invalidateHistoryCacheLocked_def prune_fold map_has_def)

lemma extract_frame:
  assumes "GCManager_extractUncommittedTxs ord ks r gc d bs idx = (gc', idx', txs)"
  shows "gc_committedRound gc' = gc_committedRound gc" "gc_lastGCRound gc' = gc_lastGCRound gc"
    "gc_cfg gc' = gc_cfg gc"
  using assms by (auto simp: GCManager_extractUncommittedTxs_def Let_def split: if_splits prod.splits)

lemma remove_batch_txs_ok: "mti_ok idx \<Longrightarrow> mti_ok (remove_batch_txs dg idx)"
  using mti.remove_ok by (simp add: remove_batch_txs_def)

lemma recover_batches_ok: "mti_ok (snd s) \<Longrightarrow> mti_ok (snd (recover_batches Q batches s))"
  by (induction Q batches s rule: recover_batches.induct) (simp_all add: remove_batch_txs_ok)

lemma fallback_round_ok: "mti_ok (snd s) \<Longrightarrow> mti_ok (snd (fallback_round ord d bs r s))"
  by (simp add: fallback_round_def Let_def recover_batches_ok split: sum.split)

lemma fallback_loop_ok: "mti_ok (snd s) \<Longrightarrow> mti_ok (snd (fallback_loop ord d bs r q s))"
proof (induction ord d bs r q s rule: fallback_loop.induct)
  case (1 ord d bs r q s)
  then show ?case
    by (subst fallback_loop.simps) (simp add: fallback_round_ok)
qed

lemma fold_remove_ok: "mti_ok idx \<Longrightarrow> mti_ok (fold remove_batch_txs ds idx)"
  by (induction ds arbitrary: idx) (simp_all add: remove_batch_txs_ok)

lemma extract_ok:
  assumes "mti_ok idx" and "GCManager_extractUncommittedTxs ord ks r gc d bs idx = (gc', idx', txs)"
  shows "mti_ok idx'"
proof -
  have "mti_ok i" if "fallback_loop ord d bs q r ([], idx) = (ts, i)" for q ts i
    using fallback_loop_ok[of "([], idx)" ord d bs q r] assms(1) that by simp
  then show ?thesis
    using assms fold_remove_ok[OF assms(1)]
    by (auto simp: GCManager_extractUncommittedTxs_def GCManager_extractUncommittedTxsFallback_def Let_def
        split: if_splits prod.splits)
qed

lemma recover_frame:
  assumes "gc_recover cb ord ks r gc d bs idx w = (gc', idx', w')"
  shows "gc_committedRound gc' = gc_committedRound gc" "gc_lastGCRound gc' = gc_lastGCRound gc"
    "mti_ok idx \<Longrightarrow> mti_ok idx'"
proof -
  obtain gc1 idx1 txs where x: "GCManager_extractUncommittedTxs ord ks r gc d bs idx = (gc1, idx1, txs)"
    by (rule prod_cases3)
  note frame = extract_frame[OF x] extract_ok[OF _ x]
  show "gc_committedRound gc' = gc_committedRound gc" "gc_lastGCRound gc' = gc_lastGCRound gc"
    "mti_ok idx \<Longrightarrow> mti_ok idx'"
    using assms frame by (auto simp: gc_recover_def x Let_def split: option.splits if_splits)
qed

lemma prune_index_snd: "mti_ok idx \<Longrightarrow> \<exists>n. snd (MemoryTxIndex_PruneOlderThan r idx) = Inr n"
  by (auto simp: MemoryTxIndex_PruneOlderThan_def mti_ok_def Let_def)

lemma performGC_effect:
  assumes "mbs_ok bs" and "mti_ok idx" and "d_certStore d = Some cs" and "mcs_ok cs"
    and r: "GCManager_performGC cb ord ks q gc d bs idx w = (gc', d', bs', idx', w', e)"
  shows "e = None" "bs' = fst (MemoryBatchStore_DeleteBatchesBefore q bs)"
    "d_certStore d' = Some (fst (MemoryCertificateStore_DeleteCertificatesBefore q cs))"
    "fmlookup (d_rounds d') k = (if k < q then None else fmlookup (d_rounds d) k)"
    "gc_committedRound gc' = gc_committedRound gc" "0 < q \<Longrightarrow> gc_lastGCRound gc' = q - 1"
proof -
  obtain gc1 idx1 w1 where 1: "gc_recover cb ord ks q gc d bs idx w = (gc1, idx1, w1)" by (rule prod_cases3)
  note frame = recover_frame[OF 1]
  obtain bs1 where bs1: "MemoryBatchStore_DeleteBatchesBefore q bs = (bs1, None)"
    using mbs.delete_ok[OF assms(1), of q] by (metis prod.collapse)
  obtain cs1 where cs1: "MemoryCertificateStore_DeleteCertificatesBefore q cs = (cs1, None)"
    using mcs.delete_ok[OF assms(4), of q] by (metis prod.collapse)
  obtain idx2 n where idx2: "MemoryTxIndex_PruneOlderThan q idx1 = (idx2, Inr n)"
    using prune_index_snd[OF frame(3)[OF assms(2)], of q] by (metis prod.collapse)
  have "d_certStore (DAG_PruneRoundsBefore q d) = Some cs"
    by (simp add: PruneRoundsBefore_rounds assms(3))
  then have res: "(gc', d', bs', idx', w', e) = (if q > 0 then gc1\<lparr>gc_lastGCRound := q - 1\<rparr> else gc1,
      DAG_PruneRoundsBefore q d\<lparr>d_certStore := Some cs1\<rparr>, bs1, idx2, w1, None)"
    using r 1 bs1 cs1 idx2 by (simp add: GCManager_performGC_def delete_certificates_def)
  then show "e = None" "bs' = fst (MemoryBatchStore_DeleteBatchesBefore q bs)"
    "d_certStore d' = Some (fst (MemoryCertificateStore_DeleteCertificatesBefore q cs))"
    "fmlookup (d_rounds d') k = (if k < q then None else fmlookup (d_rounds d) k)"
    "gc_committedRound gc' = gc_committedRound gc" "0 < q \<Longrightarrow> gc_lastGCRound gc' = q - 1"
    using bs1 cs1 frame by (simp_all add: PruneRoundsBefore_rounds)
qed

section \<open>What the fallback recovers\<close>

lemma recover_batches_txs:
  "set (fst s) \<subseteq> set (fst (recover_batches Q batches s)) \<and>
   (\<forall>b \<in> set batches. b_Digest b |\<notin>| Q \<longrightarrow> set (b_Transactions b) \<subseteq> set (fst (recover_batches Q batches s)))"
  by (induction Q batches s rule: recover_batches.induct) auto

lemma fallback_round_mono: "set (fst s) \<subseteq> set (fst (fallback_round ord d bs r s))"
  using recover_batches_txs by (auto simp: fallback_round_def Let_def split: sum.split)

lemma fallback_loop_mono: "set (fst s) \<subseteq> set (fst (fallback_loop ord d bs r q s))"
proof (induction ord d bs r q s rule: fallback_loop.induct)
  case (1 ord d bs r q s)
  then show ?case
    using fallback_round_mono[of s ord d bs r] by (subst fallback_loop.simps) auto
qed

lemma fallback_loop_recovers:
  assumes "mbs_ok bs" and "fmlookup (mbs_batches bs) (b_Digest b) = Some b"
    and "r \<le> b_Round b" and "b_Round b < q"
    and "b_Digest b |\<notin>| committed_batches (DAG_GetCertificatesForRound ord (b_Round b) d)"
  shows "set (b_Transactions b) \<subseteq> set (fst (fallback_loop ord d bs r q s))"
  using assms
proof (induction ord d bs r q s rule: fallback_loop.induct)
  case (1 ord d bs r q s)
  have lt: "r < q" using 1(4,5) by order
  show ?case
  proof (cases "r = b_Round b")
    case True
    obtain bts where bts: "MemoryBatchStore_GetBatchesByRound r bs = Inr bts" "b \<in> set bts"
      using mbs.by_round_contents[OF 1(2), of r] 1(3) True by blast
    let ?Q = "committed_batches (DAG_GetCertificatesForRound ord r d)"
    have "fallback_round ord d bs r s = recover_batches ?Q bts s"
      using bts by (auto simp: fallback_round_def Let_def)
    then have "set (b_Transactions b) \<subseteq> set (fst (fallback_round ord d bs r s))"
      using conjunct2[OF recover_batches_txs[of s ?Q bts]] 1(6) bts(2) unfolding True by simp
    with fallback_loop_mono[of "fallback_round ord d bs r s" ord d bs "r + 1" q]
    show ?thesis unfolding fallback_loop.simps[of ord d bs r] using lt by simp
  next
    case False
    then have "r < b_Round b" using 1(4) by order
    then have "r + 1 \<le> b_Round b" by unat_arith
    from 1(1)[OF lt 1(2,3) this 1(5,6)] show ?thesis unfolding fallback_loop.simps[of ord d bs r] using lt by simp
  qed
qed

lemma recover_fallback:
  assumes "mbs_ok bs" and "fmlookup (mbs_batches bs) (b_Digest b) = Some b" and "b_Transactions b \<noteq> []"
    and "gc_lastGCRound gc = 0 \<or> gc_lastGCRound gc < b_Round b" and "b_Round b < q"
    and "b_Digest b |\<notin>| committed_batches (DAG_GetCertificatesForRound ord (b_Round b) d)"
    and "gc_uncommittedBatches gc = fmempty" and "gcc_RecoverUncommittedTxs (gc_cfg gc)"
  shows "\<exists>txs idx1. set (b_Transactions b) \<subseteq> set txs \<and>
    snd (snd (gc_recover (Some recover) ord ks q gc d bs idx w)) = recover txs idx1 w"
proof -
  let ?start = "if gc_lastGCRound gc > 0 then gc_lastGCRound gc + 1 else gc_lastGCRound gc"
  have "?start \<le> b_Round b"
  proof (cases "gc_lastGCRound gc = 0")
    case False
    then have "gc_lastGCRound gc < b_Round b" using assms(4) by simp
    then have "gc_lastGCRound gc + 1 \<le> b_Round b" by unat_arith
    then show ?thesis using False by (simp add: word_neq_0_conv)
  qed simp
  obtain txs idx1 where l: "fallback_loop ord d bs ?start q ([], idx) = (txs, idx1)" by fastforce
  have sub: "set (b_Transactions b) \<subseteq> set txs"
    using fallback_loop_recovers[OF assms(1,2) \<open>?start \<le> b_Round b\<close> assms(5,6), of "([], idx)"] l by simp
  then have "0 < length txs" using assms(3) by (cases txs) auto
  then have "snd (snd (gc_recover (Some recover) ord ks q gc d bs idx w)) = recover txs idx1 w"
    using l assms(7,8)
    by (auto simp: gc_recover_def GCManager_extractUncommittedTxs_def GCManager_extractUncommittedTxsFallback_def
        Let_def case_prod_unfold)
  with sub show ?thesis by blast
qed

section \<open>Properties\<close>

definition gc_cutoff :: "GCManager \<Rightarrow> u64 \<Rightarrow> u64" where
  "gc_cutoff gc rnd =
     (let c = max rnd (gc_committedRound gc)
      in if c \<le> gcc_GCDepth (gc_cfg gc) then 0 else c - gcc_GCDepth (gc_cfg gc))"

text \<open>
  \<^bold>\<open>C24\<close>: what a commit notification collects. With working stores \<^verbatim>\<open>NotifyCommitted\<close> succeeds,
  records the highest committed round seen, and removes from the DAG, the certificate store and the
  batch store exactly what belongs to rounds below the cutoff, which lies \<^verbatim>\<open>GCDepth\<close> rounds below
  that committed round and is 0 for the first \<^verbatim>\<open>GCDepth\<close> rounds; every later round is kept.
\<close>

theorem NotifyCommitted_collects:
  assumes "mbs_ok bs" and "mti_ok idx" and "d_certStore d = Some cs" and "mcs_ok cs"
    and "GCManager_NotifyCommitted cb ord ks rnd gc d bs idx w = (gc', d', bs', idx', w', e)"
  shows "e = None \<and> gc_committedRound gc' = max rnd (gc_committedRound gc) \<and>
    (\<forall>k. DAG_GetRound k d' \<noteq> None \<longleftrightarrow> gc_cutoff gc rnd \<le> k \<and> DAG_GetRound k d \<noteq> None) \<and>
    (\<exists>cs'. d_certStore d' = Some cs' \<and>
       (\<forall>dg c. MemoryCertificateStore_GetCertificate dg cs' = Inr c \<longleftrightarrow>
          MemoryCertificateStore_GetCertificate dg cs = Inr c \<and> gc_cutoff gc rnd \<le> Certificate_Round c)) \<and>
    (\<forall>dg b. MemoryBatchStore_GetBatch dg bs' = Inr b \<longleftrightarrow>
       MemoryBatchStore_GetBatch dg bs = Inr b \<and> gc_cutoff gc rnd \<le> b_Round b)"
proof -
  define gc1 where "gc1 = (if rnd > gc_committedRound gc then gc\<lparr>gc_committedRound := rnd\<rparr> else gc)"
  define d1 where "d1 = (if rnd > gc_committedRound gc then DAG_SetCommittedRound rnd d else d)"
  have d1: "d_certStore d1 = Some cs" "DAG_GetRound k d1 \<noteq> None \<longleftrightarrow> DAG_GetRound k d \<noteq> None" for k
    using assms(3) by (auto simp: d1_def DAG_SetCommittedRound_def DAG_GetRound_def)
  have gc1: "gc_committedRound gc1 = max rnd (gc_committedRound gc)" "GCManager_calculateGCRound gc1 = gc_cutoff gc rnd"
    by (auto simp: gc1_def gc_cutoff_def GCManager_calculateGCRound_def max_def)
  have run: "(if gc_cutoff gc rnd = 0 then (gc1, d1, bs, idx, w, None)
      else GCManager_performGC cb ord ks (gc_cutoff gc rnd) gc1 d1 bs idx w) = (gc', d', bs', idx', w', e)"
    using assms(5) unfolding GCManager_NotifyCommitted_def
    by (simp add: gc1(2)[symmetric] gc1_def d1_def Let_def split: if_splits)
  show ?thesis
  proof (cases "gc_cutoff gc rnd = 0")
    case True
    then show ?thesis using run gc1 d1 by auto
  next
    case False
    then have p: "GCManager_performGC cb ord ks (gc_cutoff gc rnd) gc1 d1 bs idx w = (gc', d', bs', idx', w', e)"
      using run by simp
    note eff = performGC_effect[OF assms(1,2) d1(1) assms(4) p]
    have "MemoryCertificateStore_GetCertificate dg (fst (MemoryCertificateStore_DeleteCertificatesBefore q cs)) = Inr c \<longleftrightarrow>
        MemoryCertificateStore_GetCertificate dg cs = Inr c \<and> q \<le> Certificate_Round c" for q dg c
      using mcs.get_after_delete[OF assms(4), of dg q c] by auto
    moreover have "MemoryBatchStore_GetBatch dg (fst (MemoryBatchStore_DeleteBatchesBefore q bs)) = Inr b \<longleftrightarrow>
        MemoryBatchStore_GetBatch dg bs = Inr b \<and> q \<le> b_Round b" for q dg b
      using mbs.get_after_delete[OF assms(1), of dg q b] by auto
    moreover have "DAG_GetRound k d' \<noteq> None \<longleftrightarrow> gc_cutoff gc rnd \<le> k \<and> DAG_GetRound k d \<noteq> None" for k
      using eff(4)[of k] d1(2)[of k] by (auto simp: DAG_GetRound_def)
    ultimately show ?thesis using eff(1,2,3,5) gc1(1) by simp
  qed
qed

definition demo_gc :: GCManager where
  "demo_gc = NewGCManager \<lparr>gcc_GCDepth = 2, gcc_GCInterval = 1, gcc_RecoverUncommittedTxs = True\<rparr>"

definition demo_gc_batch :: Batch where
  "demo_gc_batch = NewBatch demo_crypto 5 0 1 0 [[7]]"

definition demo_gc_batches :: MemoryBatchStore where
  "demo_gc_batches = fst (MemoryBatchStore_SaveBatch demo_gc_batch NewMemoryBatchStore)"

definition demo_gc_cert :: Certificate where
  "demo_gc_cert = NewCertificate (NewHeader demo_crypto 9 1 9 0 [Batch_GetDigest demo_gc_batch] []) []"

definition demo_gc_certs :: MemoryCertificateStore where
  "demo_gc_certs = fst (MemoryCertificateStore_SaveCertificate demo_gc_cert NewMemoryCertificateStore)"

lemma demo_gc_ok: "mbs_ok demo_gc_batches" "mcs_ok demo_gc_certs" "mti_ok NewMemoryTxIndex"
  "d_certStore (NewDAG (Some demo_gc_certs) DefaultDagConfig) = Some demo_gc_certs"
  using mbs.save_ok[OF NewMemoryBatchStore_ok] mcs.save_ok[OF NewMemoryCertificateStore_ok]
  by (simp_all add: demo_gc_batches_def demo_gc_certs_def NewDAG_def)

lemma demo_gc_contents:
  "MemoryBatchStore_GetBatch (b_Digest demo_gc_batch) demo_gc_batches = Inr demo_gc_batch"
  "MemoryCertificateStore_GetCertificate (Certificate_Digest demo_gc_cert) demo_gc_certs = Inr demo_gc_cert"
  "b_Round demo_gc_batch = 0" "b_Transactions demo_gc_batch = [[7]]" "Certificate_Round demo_gc_cert = 9"
  "h_BatchRefs (c_Header demo_gc_cert) = [Batch_GetDigest demo_gc_batch]"
  by (simp_all add: demo_gc_batches_def MemoryBatchStore_SaveBatch_def NewMemoryBatchStore_def
      MemoryBatchStore_GetBatch_def demo_gc_certs_def MemoryCertificateStore_SaveCertificate_def
      NewMemoryCertificateStore_def MemoryCertificateStore_GetCertificate_def demo_gc_batch_def
      demo_gc_cert_def NewBatch_def NewHeader_def Let_def)

lemma demo_gc_cutoff: "gc_cutoff demo_gc 6 = 4"
  by (simp add: gc_cutoff_def demo_gc_def NewGCManager_def)

theorem NotifyCommitted_collects_witness:
  "let (gc', d', bs', idx', w', e) = GCManager_NotifyCommitted (None :: unit recovery option) map_keys [] 6 demo_gc
         (NewDAG (Some demo_gc_certs) DefaultDagConfig) demo_gc_batches NewMemoryTxIndex ()
   in e = None \<and> MemoryBatchStore_GetBatch (b_Digest demo_gc_batch) bs' \<noteq> Inr demo_gc_batch \<and>
      (\<exists>cs'. d_certStore d' = Some cs' \<and>
         MemoryCertificateStore_GetCertificate (Certificate_Digest demo_gc_cert) cs' = Inr demo_gc_cert)"
proof -
  obtain gc' d' bs' idx' w' e where
    r: "GCManager_NotifyCommitted (None :: unit recovery option) map_keys [] 6 demo_gc
         (NewDAG (Some demo_gc_certs) DefaultDagConfig) demo_gc_batches NewMemoryTxIndex () = (gc', d', bs', idx', w', e)"
    by (rule prod_cases6)
  have "(4::u64) \<le> 9" "\<not> (4::u64) \<le> 0" by simp_all
  then show ?thesis
    using NotifyCommitted_collects[OF demo_gc_ok(1,3,4,2) r] unfolding r demo_gc_cutoff
    by (auto simp: demo_gc_contents)
qed



end
