(* ===== verification/Messages.thy ===== *)
theory Messages
  imports Certificates
begin

text \<open>
  The messages of the network interface (\<^verbatim>\<open>network/network.go\<close>) and the bytes a batch
  acknowledgment signs. The network itself is outside of the model: a handler returns the list of
  the calls it makes on the interface (\<open>net_call\<close>), and where the code looks at the error of a call,
  the handler takes the errors as an argument.
\<close>

record BatchMessage =
  bm_Batch :: "Batch option"
  bm_From :: u16

record BatchAckMessage =
  ba_BatchDigest :: hash
  ba_Validator :: u16
  ba_Round :: u64
  ba_Signature :: signature

definition BatchAckSignBytes :: "crypto \<Rightarrow> hash \<Rightarrow> u16 \<Rightarrow> u64 \<Rightarrow> hash" where
  "BatchAckSignBytes C batchDigest validator rnd =
     HashBytes C (hash_bytes batchDigest @ be_bytes 2 validator @ be_bytes 8 rnd)"

record BatchRequestMessage =
  brq_BatchDigest :: hash
  brq_Requester :: u16

record BatchResponseMessage =
  brs_Batch :: "Batch option"
  brs_Found :: bool
  brs_From :: u16

record HeaderMessage =
  hm_Header :: "Header option"
  hm_From :: u16

record VoteMessage =
  vm_Vote :: "Vote option"
  vm_From :: u16

record CertificateMessage =
  cm_Certificate :: "Certificate option"
  cm_From :: u16

record SyncRequest =
  srq_FromRound :: u64
  srq_ToRound :: u64
  srq_Requester :: u16

record SyncResponse =
  srs_Certificates :: "Certificate list"
  srs_Batches :: "Batch list"
  srs_FromRound :: u64
  srs_ToRound :: u64

record SyncResponseMessage =
  srm_Response :: "SyncResponse option"
  srm_From :: u16

datatype net_call =
    BroadcastBatch Batch
  | BroadcastHeader Header
  | BroadcastCertificate Certificate
  | SendVote u16 Vote
  | SendBatchAck u16 BatchAckMessage
  | SendBatchRequest u16 BatchRequestMessage
  | SendBatchResponse u16 BatchResponseMessage
  | SendSyncRequest u16 SyncRequest
  | SendSyncResponse u16 SyncResponse

text \<open>The signed bytes determine the batch, the validator and the round.\<close>

lemma BatchAckSignBytes_inj:
  assumes "inj (Sha256 C)"
  shows "BatchAckSignBytes C d v r = BatchAckSignBytes C d' v' r' \<longleftrightarrow> d = d' \<and> v = v' \<and> r = r'"
proof -
  have "BatchAckSignBytes C d v r = BatchAckSignBytes C d' v' r' \<longleftrightarrow>
      hash_bytes d @ be_bytes 2 v @ be_bytes 8 r = hash_bytes d' @ be_bytes 2 v' @ be_bytes 8 r'"
    using assms by (simp add: BatchAckSignBytes_def HashBytes_def inj_eq)
  also have "\<dots> \<longleftrightarrow> hash_bytes d = hash_bytes d' \<and> (be_bytes 2 v :: byte list) = be_bytes 2 v' \<and>
      (be_bytes 8 r :: byte list) = be_bytes 8 r'"
    by simp
  also have "\<dots> \<longleftrightarrow> d = d' \<and> v = v' \<and> r = r'"
    using be_bytes_inj[of 2 v v'] be_bytes_inj[of 8 r r'] by (auto simp: hash_bytes_inj)
  finally show ?thesis .
qed

end
