(* ===== verification/Sync_Manager.thy ===== *)
theory Sync_Manager
  imports Messages Dag_Properties
begin

text \<open>
  Synchronisation with peers (\<^verbatim>\<open>network/sync.go\<close>): requests with retries, the answer to a request,
  the processing of an answer and the periodic probing. \<open>me\<close> is the validator of the node and
  \<open>sent\<close> gives the error of a call that sends a sync request, both properties of the network.
\<close>

section \<open>State\<close>

record SyncConfig =
  sc_SyncInterval :: int
  sc_SyncThreshold :: u64
  sc_SyncBatchSize :: int
  sc_SyncTimeout :: int
  sc_MaxRetries :: int
  sc_InitialBackoff :: int
  sc_MaxBackoff :: int

definition DefaultSyncConfig :: SyncConfig where
  "DefaultSyncConfig =
     \<lparr>sc_SyncInterval = 10 * 1000000000, sc_SyncThreshold = 5, sc_SyncBatchSize = 100,
      sc_SyncTimeout = 30 * 1000000000, sc_MaxRetries = 5, sc_InitialBackoff = 1 * 1000000000,
      sc_MaxBackoff = 30 * 1000000000\<rparr>"

text \<open>Pending requests are shared objects; \<open>psr_ref\<close> is the identity of the object.\<close>

record pendingSyncRequest =
  psr_ref :: nat
  psr_fromRound :: u64
  psr_toRound :: u64
  psr_sentAt :: time
  psr_retryCount :: int
  psr_lastRetryAt :: time
  psr_nextRetryAt :: time
  psr_targetPeer :: u16

record SyncManager =
  sm_validatorSet :: SimpleValidatorSet
  sm_cfg :: SyncConfig
  sm_pendingReqs :: "(u16, pendingSyncRequest) fmap"
  sm_peerHighest :: "(u16, u64) fmap"
  sm_running :: bool
  sm_refs :: nat

definition NewSyncManager :: "SimpleValidatorSet \<Rightarrow> SyncConfig \<Rightarrow> SyncManager" where
  "NewSyncManager validatorSet cfg =
     \<lparr>sm_validatorSet = validatorSet, sm_cfg = cfg, sm_pendingReqs = fmempty, sm_peerHighest = fmempty,
      sm_running = False, sm_refs = 0\<rparr>"

definition SyncManager_Start :: "SyncManager \<Rightarrow> SyncManager \<times> err option" where
  "SyncManager_Start s =
     (if sm_running s then (s, Some ErrAlreadyRunning) else (s\<lparr>sm_running := True\<rparr>, None))"

definition SyncManager_Stop :: "SyncManager \<Rightarrow> SyncManager \<times> err option" where
  "SyncManager_Stop s =
     (if \<not> sm_running s then (s, Some ErrNotRunning) else (s\<lparr>sm_running := False\<rparr>, None))"

definition SyncManager_UpdateValidatorSet :: "SimpleValidatorSet \<Rightarrow> SyncManager \<Rightarrow> SyncManager" where
  "SyncManager_UpdateValidatorSet vs s = s\<lparr>sm_validatorSet := vs\<rparr>"

section \<open>Requests\<close>

definition SyncManager_RequestSync ::
  "u16 \<Rightarrow> (u16 \<Rightarrow> err option) \<Rightarrow> time \<Rightarrow> u16 \<Rightarrow> u64 \<Rightarrow> u64 \<Rightarrow> SyncManager \<Rightarrow>
   SyncManager \<times> net_call list \<times> err option" where
  "SyncManager_RequestSync me sent now validator fromRound toRound s =
     (if \<not> sm_running s then (s, [], Some ErrNotRunning)
      else (s\<lparr>sm_pendingReqs := fmupd validator
                \<lparr>psr_ref = sm_refs s, psr_fromRound = fromRound, psr_toRound = toRound, psr_sentAt = now,
                 psr_retryCount = 0, psr_lastRetryAt = now,
                 psr_nextRetryAt = now + sc_InitialBackoff (sm_cfg s), psr_targetPeer = validator\<rparr>
                (sm_pendingReqs s),
              sm_refs := sm_refs s + 1\<rparr>,
            [SendSyncRequest validator
              \<lparr>srq_FromRound = fromRound, srq_ToRound = toRound, srq_Requester = me\<rparr>],
            sent validator))"

definition next_from :: "u64 \<Rightarrow> u64" where
  "next_from currentRound = (if currentRound = 0 then 0 else currentRound + 1)"

fun catch_up_loop ::
  "u16 \<Rightarrow> (u16 \<Rightarrow> err option) \<Rightarrow> time \<Rightarrow> u64 \<Rightarrow> u64 \<Rightarrow> Validator list \<Rightarrow> SyncManager \<Rightarrow>
   SyncManager \<times> net_call list \<times> err option" where
  "catch_up_loop me sent now fromRound targetRound [] s = (s, [], Some ErrValidatorNotFound)"
| "catch_up_loop me sent now fromRound targetRound (v # vs) s =
     (if val_Index v = me then catch_up_loop me sent now fromRound targetRound vs s
      else case SyncManager_RequestSync me sent now (val_Index v) fromRound targetRound s of
        (s1, calls1, None) \<Rightarrow> (s1, calls1, None)
      | (s1, calls1, Some _) \<Rightarrow>
          (let (s2, calls2, e) = catch_up_loop me sent now fromRound targetRound vs s1
           in (s2, calls1 @ calls2, e)))"

definition SyncManager_CatchUp ::
  "u16 \<Rightarrow> (u16 \<Rightarrow> err option) \<Rightarrow> time \<Rightarrow> u64 \<Rightarrow> DAG \<Rightarrow> SyncManager \<Rightarrow> SyncManager \<times> net_call list \<times> err option" where
  "SyncManager_CatchUp me sent now targetRound d s =
     (if \<not> sm_running s then (s, [], Some ErrNotRunning)
      else let currentRound = DAG_HighestRound d
           in if currentRound \<ge> targetRound then (s, [], None)
              else catch_up_loop me sent now (next_from currentRound) targetRound
                     (svs_validators (sm_validatorSet s)) s)"

fun probe_peers ::
  "u16 \<Rightarrow> (u16 \<Rightarrow> err option) \<Rightarrow> time \<Rightarrow> u64 \<Rightarrow> Validator list \<Rightarrow> SyncManager \<Rightarrow> SyncManager \<times> net_call list" where
  "probe_peers me sent now localRound [] s = (s, [])"
| "probe_peers me sent now localRound (v # vs) s =
     (if val_Index v = me then probe_peers me sent now localRound vs s
      else if map_has (sm_pendingReqs s) (val_Index v) then probe_peers me sent now localRound vs s
      else let (s1, calls1, _) = SyncManager_RequestSync me sent now (val_Index v) (next_from localRound) 0 s;
               (s2, calls2) = probe_peers me sent now localRound vs s1
           in (s2, calls1 @ calls2))"

definition SyncManager_checkAndSync ::
  "u16 \<Rightarrow> (u16 \<Rightarrow> err option) \<Rightarrow> time \<Rightarrow> DAG \<Rightarrow> SyncManager \<Rightarrow> SyncManager \<times> net_call list" where
  "SyncManager_checkAndSync me sent now d s =
     (if \<not> sm_running s then (s, [])
      else let localRound = DAG_HighestRound d;
               threshold = (if sc_SyncThreshold (sm_cfg s) = 0 then 1 else sc_SyncThreshold (sm_cfg s));
               target = fold (\<lambda>r target. if r > target then r else target)
                          (map_values (map_keys (sm_peerHighest s)) (sm_peerHighest s)) 0;
               (s1, calls1) = (if target > localRound \<and> target - localRound \<ge> threshold
                               then (let (s', calls', _) = SyncManager_CatchUp me sent now target d s in (s', calls'))
                               else (s, []));
               (s2, calls2) = probe_peers me sent now localRound (svs_validators (sm_validatorSet s1)) s1
           in (s2, calls1 @ calls2))"

definition SyncManager_RequestPeerCatchUp ::
  "u16 \<Rightarrow> (u16 \<Rightarrow> err option) \<Rightarrow> time \<Rightarrow> u16 \<Rightarrow> SyncManager \<Rightarrow> SyncManager \<times> net_call list \<times> err option" where
  "SyncManager_RequestPeerCatchUp me sent now peerIdx s =
     (if \<not> sm_running s then (s, [], Some ErrNotRunning)
      else if map_has (sm_pendingReqs s) peerIdx then (s, [], None)
      else SyncManager_RequestSync me sent now peerIdx 0 0 s)"

section \<open>Answers\<close>

fun collect_batches :: "MemoryBatchStore \<Rightarrow> hash list \<Rightarrow> hash list \<Rightarrow> Batch list" where
  "collect_batches bs seenBatches [] = []"
| "collect_batches bs seenBatches (digest # digests) =
     (if digest \<in> set seenBatches then collect_batches bs seenBatches digests
      else (case MemoryBatchStore_GetBatch digest bs of
              Inr batch \<Rightarrow> [batch] | Inl _ \<Rightarrow> []) @ collect_batches bs (digest # seenBatches) digests)"

definition sync_limit :: "SyncConfig \<Rightarrow> u64 \<Rightarrow> u64 \<Rightarrow> u64" where
  "sync_limit cfg fromRound toRound =
     (if toRound - fromRound + 1 > word_of_int (sc_SyncBatchSize cfg)
      then fromRound + word_of_int (sc_SyncBatchSize cfg) - 1 else toRound)"

text \<open>\<open>None\<close> when the search for the certificates does not return.\<close>

definition SyncManager_HandleSyncRequest ::
  "cert_order \<Rightarrow> SyncRequest \<Rightarrow> MemoryBatchStore \<Rightarrow> DAG \<Rightarrow> SyncManager \<Rightarrow> (net_call list \<times> err option) option" where
  "SyncManager_HandleSyncRequest ord req bs d s =
     (if \<not> sm_running s then Some ([], Some ErrNotRunning)
      else let fromRound = srq_FromRound req;
               toRound = (if srq_ToRound req = 0 then DAG_HighestRound d else srq_ToRound req);
               toRound' = sync_limit (sm_cfg s) fromRound toRound
           in case DAG_GetOrderedCertificates ord fromRound toRound' d of
                None \<Rightarrow> None
              | Some certs \<Rightarrow>
                  Some ([SendSyncResponse (srq_Requester req)
                          \<lparr>srs_Certificates = certs,
                           srs_Batches = collect_batches bs []
                             (concat (map (\<lambda>cert. map bd_Digest (h_BatchRefs (c_Header cert))) certs)),
                           srs_FromRound = fromRound, srs_ToRound = toRound'\<rparr>], None))"

definition SyncManager_recordPeerHighestRound :: "u16 \<Rightarrow> u64 \<Rightarrow> SyncManager \<Rightarrow> SyncManager" where
  "SyncManager_recordPeerHighestRound peer rnd s =
     (case fmlookup (sm_peerHighest s) peer of
        Some cur \<Rightarrow> if rnd > cur then s\<lparr>sm_peerHighest := fmupd peer rnd (sm_peerHighest s)\<rparr> else s
      | None \<Rightarrow> s\<lparr>sm_peerHighest := fmupd peer rnd (sm_peerHighest s)\<rparr>)"

definition SyncManager_PeerHighestRound :: "u16 \<Rightarrow> SyncManager \<Rightarrow> u64" where
  "SyncManager_PeerHighestRound peer s =
     (case fmlookup (sm_peerHighest s) peer of Some r \<Rightarrow> r | None \<Rightarrow> 0)"

fun save_batches :: "Batch list \<Rightarrow> MemoryBatchStore \<Rightarrow> MemoryBatchStore \<times> err option" where
  "save_batches [] bs = (bs, None)"
| "save_batches (batch # batches) bs =
     (case MemoryBatchStore_SaveBatch batch bs of
        (bs1, Some e) \<Rightarrow> (bs1, Some e)
      | (bs1, None) \<Rightarrow> save_batches batches bs1)"

text \<open>
  \<open>deliver\<close> is the callback for received certificates; it acts on the state \<open>w\<close> of the consumer.
  Without it a certificate goes to the DAG \<open>d\<close>, whatever the outcome.
\<close>

definition sync_deliver ::
  "(Certificate \<Rightarrow> 'w \<Rightarrow> 'w) option \<Rightarrow> crypto \<Rightarrow> SimpleValidatorSet \<Rightarrow> Certificate \<Rightarrow> DAG \<times> 'w \<Rightarrow> DAG \<times> 'w" where
  "sync_deliver deliver C vs cert s =
     (if Certificate_Verify C vs cert \<noteq> None then s
      else case deliver of
        Some f \<Rightarrow> (fst s, f cert (snd s))
      | None \<Rightarrow> (fst (DAG_AddCertificate (Some cert) (fst s)), snd s))"

definition SyncManager_HandleSyncResponse ::
  "(Certificate \<Rightarrow> 'w \<Rightarrow> 'w) option \<Rightarrow> crypto \<Rightarrow> SyncResponse \<Rightarrow> u16 \<Rightarrow> MemoryBatchStore \<Rightarrow> SyncManager \<Rightarrow>
   DAG \<times> 'w \<Rightarrow> SyncManager \<times> MemoryBatchStore \<times> (DAG \<times> 'w) \<times> (u64 \<times> u64) option \<times> err option" where
  "SyncManager_HandleSyncResponse deliver C resp from bs s w =
     (if \<not> sm_running s then (s, bs, w, None, Some ErrNotRunning)
      else let s1 = SyncManager_recordPeerHighestRound from (srs_ToRound resp)
                      (s\<lparr>sm_pendingReqs := fmdrop from (sm_pendingReqs s)\<rparr>)
           in case save_batches (srs_Batches resp) bs of
                (bs1, Some e) \<Rightarrow> (s1, bs1, w, None, Some e)
              | (bs1, None) \<Rightarrow>
                  (s1, bs1, fold (sync_deliver deliver C (sm_validatorSet s1)) (srs_Certificates resp) w,
                   if length (srs_Certificates resp) > 0
                   then Some (srs_FromRound resp, srs_ToRound resp) else None, None))"

section \<open>Retries\<close>

fun backoff_loop :: "int \<Rightarrow> nat \<Rightarrow> int \<Rightarrow> int" where
  "backoff_loop maxBackoff 0 backoff = backoff"
| "backoff_loop maxBackoff (Suc n) backoff =
     (if backoff < maxBackoff
      then backoff_loop maxBackoff n (if backoff * 2 > maxBackoff then maxBackoff else backoff * 2)
      else backoff)"

definition schedule_retry :: "SyncConfig \<Rightarrow> time \<Rightarrow> pendingSyncRequest \<Rightarrow> pendingSyncRequest" where
  "schedule_retry cfg now req =
     req\<lparr>psr_retryCount := psr_retryCount req + 1, psr_lastRetryAt := now,
         psr_nextRetryAt := now + backoff_loop (sc_MaxBackoff cfg) (nat (psr_retryCount req + 1)) (sc_InitialBackoff cfg)\<rparr>"

definition other_peer :: "u16 \<Rightarrow> u16 \<Rightarrow> Validator list \<Rightarrow> u16" where
  "other_peer me current validators =
     (if length validators > 1
      then (case filter (\<lambda>v. val_Index v \<noteq> me \<and> val_Index v \<noteq> current) validators of
              v # _ \<Rightarrow> val_Index v | [] \<Rightarrow> current)
      else current)"

definition SyncManager_retrySyncRequest ::
  "u16 \<Rightarrow> pendingSyncRequest \<Rightarrow> SyncManager \<Rightarrow> SyncManager \<times> net_call list" where
  "SyncManager_retrySyncRequest me req s =
     (if \<not> sm_running s then (s, [])
      else let targetPeer = other_peer me (psr_targetPeer req) (svs_validators (sm_validatorSet s));
               s1 = (case fmlookup (sm_pendingReqs s) (psr_targetPeer req) of
                       Some existing \<Rightarrow>
                         if psr_ref existing = psr_ref req
                         then s\<lparr>sm_pendingReqs := fmupd targetPeer (req\<lparr>psr_targetPeer := targetPeer\<rparr>)
                                  (fmdrop (psr_targetPeer req) (sm_pendingReqs s))\<rparr>
                         else s
                     | None \<Rightarrow> s)
           in (s1, [SendSyncRequest targetPeer
                     \<lparr>srq_FromRound = psr_fromRound req, srq_ToRound = psr_toRound req, srq_Requester = me\<rparr>]))"

fun retry_requests :: "u16 \<Rightarrow> pendingSyncRequest list \<Rightarrow> SyncManager \<Rightarrow> SyncManager \<times> net_call list" where
  "retry_requests me [] s = (s, [])"
| "retry_requests me (req # reqs) s =
     (let (s1, calls1) = SyncManager_retrySyncRequest me req s; (s2, calls2) = retry_requests me reqs s1
      in (s2, calls1 @ calls2))"

text \<open>\<open>ks\<close> is the order in which the pending requests are visited.\<close>

definition SyncManager_cleanupTimedOutRequests ::
  "u16 \<Rightarrow> u16 list \<Rightarrow> time \<Rightarrow> SyncManager \<Rightarrow> SyncManager \<times> net_call list" where
  "SyncManager_cleanupTimedOutRequests me ks now s =
     (let expired = (\<lambda>v. case fmlookup (sm_pendingReqs s) v of
                        Some req \<Rightarrow> psr_nextRetryAt req < now | None \<Rightarrow> False);
          exhausted = (\<lambda>v. case fmlookup (sm_pendingReqs s) v of
                        Some req \<Rightarrow> psr_retryCount req \<ge> sc_MaxRetries (sm_cfg s) | None \<Rightarrow> False);
          toRemove = filter (\<lambda>v. expired v \<and> exhausted v) ks;
          toRetry = filter (\<lambda>v. expired v \<and> \<not> exhausted v) ks;
          m1 = map_delete_all toRemove (sm_pendingReqs s);
          m2 = fmmap_keys (\<lambda>v req. if v \<in> set toRetry then schedule_retry (sm_cfg s) now req else req) m1
      in retry_requests me (map_values toRetry m2) (s\<lparr>sm_pendingReqs := m2\<rparr>))"

datatype sync_event = SyncTick | TimeoutTick "u16 list"

text \<open>One iteration of \<^verbatim>\<open>syncLoop\<close>.\<close>

definition SyncManager_syncLoop_step ::
  "u16 \<Rightarrow> (u16 \<Rightarrow> err option) \<Rightarrow> time \<Rightarrow> sync_event \<Rightarrow> DAG \<Rightarrow> SyncManager \<Rightarrow> SyncManager \<times> net_call list" where
  "SyncManager_syncLoop_step me sent now ev d s =
     (case ev of
        SyncTick \<Rightarrow> SyncManager_checkAndSync me sent now d s
      | TimeoutTick ks \<Rightarrow> SyncManager_cleanupTimedOutRequests me ks now s)"

section \<open>Inspection\<close>

definition SyncManager_GetRetryCount :: "u16 \<Rightarrow> SyncManager \<Rightarrow> int" where
  "SyncManager_GetRetryCount validator s =
     (case fmlookup (sm_pendingReqs s) validator of Some req \<Rightarrow> psr_retryCount req | None \<Rightarrow> - 1)"

definition SyncManager_GetPendingRequestCount :: "SyncManager \<Rightarrow> nat" where
  "SyncManager_GetPendingRequestCount s = map_len (sm_pendingReqs s)"

record SyncDiagnostics =
  sd_PeerHighest :: "(u16, u64) fmap"
  sd_PendingReqs :: "(u16, int) fmap"

definition SyncManager_Diagnostics :: "SyncManager \<Rightarrow> SyncDiagnostics" where
  "SyncManager_Diagnostics s =
     \<lparr>sd_PeerHighest = sm_peerHighest s, sd_PendingReqs = fmmap psr_retryCount (sm_pendingReqs s)\<rparr>"

section \<open>The range of an answer\<close>

lemma word_of_batch_size:
  assumes "0 \<le> b" and "b < 2 ^ 64"
  shows "uint (word_of_int b :: u64) = b"
  using assms by (simp add: uint_word_of_int)

lemma sync_limit_range:
  assumes "0 < sc_SyncBatchSize cfg" and "sc_SyncBatchSize cfg < 2 ^ 64" and "a \<le> b" and "b \<noteq> - 1"
  shows "uint (sync_limit cfg a b) = min (uint b) (uint a + sc_SyncBatchSize cfg - 1)" "sync_limit cfg a b \<noteq> - 1"
proof -
  let ?n = "sc_SyncBatchSize cfg"
  have n: "uint (word_of_int ?n :: u64) = ?n" using assms(1,2) by (simp add: word_of_batch_size)
  have ab: "uint a \<le> uint b" using assms(3) by (simp add: word_le_def)
  have top: "uint b < 2 ^ 64 - 1"
  proof -
    have "b < - 1" using assms(4) word_n1_ge[of b] by (simp add: order_less_le)
    then show ?thesis by (simp add: word_less_def unsigned_minus_1_eq_mask mask_eq_exp_minus_1)
  qed
  have sub: "uint (b - a) = uint b - uint a" using assms(3) by (simp add: uint_minus_simple_alt)
  have diff: "uint (b - a + 1) = uint b - uint a + 1"
  proof -
    have "uint (b - a + 1) = (uint b - uint a + 1) mod 2 ^ 64" by (simp add: uint_word_ariths(1) sub)
    also have "\<dots> = uint b - uint a + 1"
      by (rule mod_pos_pos_trivial) (use top ab uint_ge_0[of a] in linarith)+
    finally show ?thesis .
  qed
  have eq: "uint (sync_limit cfg a b) = min (uint b) (uint a + ?n - 1)"
  proof (cases "uint b - uint a + 1 > ?n")
    case True
    then have "(uint a + ?n - 1) mod 2 ^ 64 = uint a + ?n - 1"
      by (intro mod_pos_pos_trivial) (use top assms(1) uint_ge_0[of a] in linarith)+
    then have "uint (a + word_of_int ?n - 1) = uint a + ?n - 1" by (simp add: uint_word_ariths n mod_simps)
    then show ?thesis using True by (simp add: sync_limit_def word_less_def diff n)
  qed (simp add: sync_limit_def word_less_def diff n)
  then show "uint (sync_limit cfg a b) = min (uint b) (uint a + ?n - 1)" .
  show "sync_limit cfg a b \<noteq> - 1"
    using eq top by (auto simp: unsigned_minus_1_eq_mask mask_eq_exp_minus_1)
qed

lemma ordered_certificates_return: "b \<noteq> - 1 \<Longrightarrow> \<exists>cs. DAG_GetOrderedCertificates ord a b d = Some cs"
  by (simp add: DAG_GetOrderedCertificates_def ordered_loop_eq)

lemma collect_batches_set:
  "b \<in> set (collect_batches bs seen ds) \<longleftrightarrow> (\<exists>d \<in> set ds - set seen. MemoryBatchStore_GetBatch d bs = Inr b)"
proof (induction ds arbitrary: seen)
  case (Cons d ds)
  show ?case
  proof (cases "d \<in> set seen")
    case True
    then show ?thesis using Cons.IH[of seen] by auto
  next
    case False
    then show ?thesis using Cons.IH[of "d # seen"] by (auto split: sum.splits)
  qed
qed simp

section \<open>Properties\<close>


definition demo_sync :: SyncManager where
  "demo_sync = fst (SyncManager_Start (NewSyncManager demo_vs DefaultSyncConfig))"

lemma demo_sync_sel: "sm_running demo_sync" "sc_SyncBatchSize (sm_cfg demo_sync) = 100"
  by (simp_all add: demo_sync_def SyncManager_Start_def NewSyncManager_def DefaultSyncConfig_def)




end
