(* ===== verification/Scaler.thy ===== *)
theory Scaler
  imports Worker_Pool "HOL-Library.Log_Nat"
begin

text \<open>
  The auto-scaler of the worker pool (\<^verbatim>\<open>worker/scaler.go\<close>). Loads and thresholds are \<^verbatim>\<open>float64\<close> numbers.
  The scaler only converts integers and divides or multiplies them, so its numbers are finite and not
  subnormal: they are modelled as rationals, with every operation followed by rounding to 53
  significant bits, ties to even.
\<close>

section \<open>Floating point numbers\<close>

type_synonym float64 = rat

definition round_half_even :: "rat \<Rightarrow> int" where
  "round_half_even x =
     (let n = \<lfloor>x\<rfloor>; r = x - of_int n
      in if r < 1 / 2 then n else if r > 1 / 2 then n + 1 else if even n then n else n + 1)"

text \<open>The exponent of a positive number: \<open>2^e \<le> x < 2^(e + 1)\<close>.\<close>

definition float64_exponent :: "rat \<Rightarrow> int" where
  "float64_exponent x =
     (let (n, d) = quotient_of x; e = bitlen n - bitlen d
      in if x < 2 powi e then e - 1 else e)"

definition float64_round :: "rat \<Rightarrow> float64" where
  "float64_round x =
     (if x = 0 then 0
      else let e = float64_exponent \<bar>x\<bar>; u = 2 powi (e - 52)
           in sgn x * of_int (round_half_even (\<bar>x\<bar> / u)) * u)"

definition float64_of_int :: "int \<Rightarrow> float64" where
  "float64_of_int n = float64_round (of_int n)"

definition float64_div :: "float64 \<Rightarrow> float64 \<Rightarrow> float64" where
  "float64_div x y = float64_round (x / y)"

definition float64_mult :: "float64 \<Rightarrow> float64 \<Rightarrow> float64" where
  "float64_mult x y = float64_round (x * y)"

section \<open>State\<close>

record ScalerConfig =
  slc_ScaleUpThreshold :: float64
  slc_ScaleDownThreshold :: float64
  slc_ScalingInterval :: int
  slc_ScaleCooldown :: int

definition DefaultScalerConfig :: ScalerConfig where
  "DefaultScalerConfig =
     \<lparr>slc_ScaleUpThreshold = float64_round (4 / 5), slc_ScaleDownThreshold = float64_round (1 / 5),
      slc_ScalingInterval = 1000000000, slc_ScaleCooldown = 5 * 1000000000\<rparr>"

record ScaleEvent =
  se_Time :: time
  se_OldWorkers :: nat
  se_NewWorkers :: nat
  se_Load :: float64
  se_ScaleUp :: bool

record ScalerMetrics =
  slm_CurrentWorkers :: nat
  slm_CurrentLoad :: float64
  slm_ScaleUpCount :: u64
  slm_ScaleDownCount :: u64
  slm_LastScaleTime :: "time option"
  slm_RecentEvents :: "ScaleEvent list"

text \<open>\<^verbatim>\<open>lastScaleTime\<close> is the zero time before the first operation, longer ago than any cooldown.\<close>

record Scaler =
  sl_cfg :: ScalerConfig
  sl_lastScaleTime :: "time option"
  sl_scaleUpCount :: u64
  sl_scaleDownCount :: u64
  sl_events :: "ScaleEvent list"
  sl_maxEvents :: nat
  sl_running :: bool

definition NewScaler :: "ScalerConfig \<Rightarrow> Scaler" where
  "NewScaler cfg =
     \<lparr>sl_cfg = cfg, sl_lastScaleTime = None, sl_scaleUpCount = 0, sl_scaleDownCount = 0, sl_events = [],
      sl_maxEvents = 100, sl_running = False\<rparr>"

definition Scaler_Start :: "Scaler \<Rightarrow> Scaler \<times> err option" where
  "Scaler_Start s =
     (if sl_running s then (s, Some ErrAlreadyRunning) else (s\<lparr>sl_running := True\<rparr>, None))"

definition Scaler_Stop :: "Scaler \<Rightarrow> Scaler \<times> err option" where
  "Scaler_Stop s =
     (if \<not> sl_running s then (s, Some ErrNotRunning) else (s\<lparr>sl_running := False\<rparr>, None))"

section \<open>Load\<close>

definition Scaler_CalculateCountLoad :: "Pool \<Rightarrow> float64" where
  "Scaler_CalculateCountLoad p =
     (if Pool_WorkerCount p = 0 then 0
      else let capacity = float64_of_int (int (Pool_WorkerCount p) * wc_BatchSize (pc_Worker (p_cfg p)))
           in if capacity = 0 then 0
              else float64_div (float64_of_int (int (Pool_PendingCount p))) capacity)"

definition Scaler_CalculateByteLoad :: "Pool \<Rightarrow> float64" where
  "Scaler_CalculateByteLoad p =
     (if Pool_WorkerCount p = 0 then 0
      else let capacity = float64_mult (float64_of_int (int (Pool_WorkerCount p)))
                            (float64_of_int (wc_MaxPendingBytes (pc_Worker (p_cfg p))))
           in if capacity = 0 then 0
              else float64_div (float64_of_int (Pool_PendingBytes p)) capacity)"

definition Scaler_CalculateLoad :: "Pool \<Rightarrow> float64" where
  "Scaler_CalculateLoad p =
     (let workerCount = Pool_WorkerCount p
      in if workerCount = 0 then 0
         else let countCapacity = float64_of_int (int workerCount * wc_BatchSize (pc_Worker (p_cfg p)));
                  countLoad = (if countCapacity > 0
                               then float64_div (float64_of_int (int (Pool_PendingCount p))) countCapacity else 0);
                  byteCapacity = float64_mult (float64_of_int (int workerCount))
                                   (float64_of_int (wc_MaxPendingBytes (pc_Worker (p_cfg p))));
                  byteLoad = (if byteCapacity > 0
                              then float64_div (float64_of_int (Pool_PendingBytes p)) byteCapacity else 0)
              in if countLoad > byteLoad then countLoad else byteLoad)"

section \<open>Scaling\<close>

definition Scaler_recordScaleEvent :: "time \<Rightarrow> nat \<Rightarrow> nat \<Rightarrow> float64 \<Rightarrow> bool \<Rightarrow> Scaler \<Rightarrow> Scaler" where
  "Scaler_recordScaleEvent now oldWorkers newWorkers load scaleUp s =
     (let event = \<lparr>se_Time = now, se_OldWorkers = oldWorkers, se_NewWorkers = newWorkers, se_Load = load,
                   se_ScaleUp = scaleUp\<rparr>;
          events = (if length (sl_events s) \<ge> sl_maxEvents s then drop 1 (sl_events s) else sl_events s)
      in s\<lparr>sl_events := events @ [event]\<rparr>)"

text \<open>The result says whether the pool was scaled.\<close>

definition Scaler_tryScaleUp :: "time \<Rightarrow> nat \<Rightarrow> float64 \<Rightarrow> Scaler \<Rightarrow> Pool \<Rightarrow> Scaler \<times> Pool \<times> bool" where
  "Scaler_tryScaleUp now oldWorkers load s p =
     (case Pool_ScaleUp p of
        (p1, False) \<Rightarrow> (s, p1, False)
      | (p1, True) \<Rightarrow>
          (let s1 = Scaler_recordScaleEvent now oldWorkers (Pool_WorkerCount p1) load True s
           in (s1\<lparr>sl_scaleUpCount := sl_scaleUpCount s1 + 1, sl_lastScaleTime := Some now\<rparr>, p1, True)))"

definition Scaler_tryScaleDown ::
  "crypto \<Rightarrow> time \<Rightarrow> nat \<Rightarrow> float64 \<Rightarrow> storage \<Rightarrow> Scaler \<Rightarrow> Pool \<Rightarrow>
   Scaler \<times> Pool \<times> storage \<times> Batch option \<times> bool" where
  "Scaler_tryScaleDown C now oldWorkers load st s p =
     (case Pool_ScaleDown C now st p of
        (p1, st1, b, False) \<Rightarrow> (s, p1, st1, b, False)
      | (p1, st1, b, True) \<Rightarrow>
          (let s1 = Scaler_recordScaleEvent now oldWorkers (Pool_WorkerCount p1) load False s
           in (s1\<lparr>sl_scaleDownCount := sl_scaleDownCount s1 + 1, sl_lastScaleTime := Some now\<rparr>, p1, st1, b, True)))"

definition in_cooldown :: "time \<Rightarrow> Scaler \<Rightarrow> bool" where
  "in_cooldown now s \<longleftrightarrow> (case sl_lastScaleTime s of
     None \<Rightarrow> False | Some t \<Rightarrow> now - t < slc_ScaleCooldown (sl_cfg s))"

definition Scaler_checkAndScale ::
  "crypto \<Rightarrow> time \<Rightarrow> storage \<Rightarrow> Scaler \<Rightarrow> Pool \<Rightarrow> Scaler \<times> Pool \<times> storage \<times> Batch option" where
  "Scaler_checkAndScale C now st s p =
     (if in_cooldown now s then (s, p, st, None)
      else let load = Scaler_CalculateLoad p; oldWorkers = Pool_WorkerCount p
           in if load > slc_ScaleUpThreshold (sl_cfg s)
              then (let (s1, p1, _) = Scaler_tryScaleUp now oldWorkers load s p in (s1, p1, st, None))
              else if load < slc_ScaleDownThreshold (sl_cfg s)
              then (let (s1, p1, st1, b, _) = Scaler_tryScaleDown C now oldWorkers load st s p in (s1, p1, st1, b))
              else (s, p, st, None))"

definition Scaler_ForceScaleUp :: "time \<Rightarrow> Scaler \<Rightarrow> Pool \<Rightarrow> Scaler \<times> Pool \<times> bool" where
  "Scaler_ForceScaleUp now s p = Scaler_tryScaleUp now (Pool_WorkerCount p) (Scaler_CalculateLoad p) s p"

definition Scaler_ForceScaleDown ::
  "crypto \<Rightarrow> time \<Rightarrow> storage \<Rightarrow> Scaler \<Rightarrow> Pool \<Rightarrow> Scaler \<times> Pool \<times> storage \<times> Batch option \<times> bool" where
  "Scaler_ForceScaleDown C now st s p =
     Scaler_tryScaleDown C now (Pool_WorkerCount p) (Scaler_CalculateLoad p) st s p"

definition Scaler_Metrics :: "Scaler \<Rightarrow> Pool \<Rightarrow> ScalerMetrics" where
  "Scaler_Metrics s p =
     \<lparr>slm_CurrentWorkers = Pool_WorkerCount p, slm_CurrentLoad = Scaler_CalculateLoad p,
      slm_ScaleUpCount = sl_scaleUpCount s, slm_ScaleDownCount = sl_scaleDownCount s,
      slm_LastScaleTime = sl_lastScaleTime s, slm_RecentEvents = sl_events s\<rparr>"

text \<open>The constants 0.8 and 1/3 as Go has them.\<close>

lemma float64_examples: "float64_round (4/5) = 3602879701896397/4503599627370496" "float64_round (1/3) = 6004799503160661/18014398509481984"
  by code_simp+

section \<open>Bounds\<close>

lemma redistribute_length: "length (Pool_redistributeTxsLocked C txs st ws) = length ws"
  by (induction C txs st ws rule: Pool_redistributeTxsLocked.induct) (auto simp: Let_def split: prod.splits)

lemma ScaleUp_count:
  assumes "Pool_ScaleUp p = (p', r)"
  shows "Pool_WorkerCount p' = Pool_WorkerCount p + (if r then 1 else 0)" "p_cfg p' = p_cfg p"
    "r \<Longrightarrow> int (Pool_WorkerCount p) < pc_MaxWorkers (p_cfg p)"
  using assms
  by (auto simp: Pool_ScaleUp_def Pool_addWorkerLocked_def Pool_WorkerCount_def Let_def
      split: if_splits option.splits prod.splits)

lemma ScaleDown_count:
  assumes "Pool_ScaleDown C now st p = (p', st', b, r)" and "0 \<le> pc_MinWorkers (p_cfg p)"
  shows "Pool_WorkerCount p' = Pool_WorkerCount p - (if r then 1 else 0)" "p_cfg p' = p_cfg p"
    "r \<Longrightarrow> pc_MinWorkers (p_cfg p) < int (Pool_WorkerCount p)"
  using assms
  by (auto simp: Pool_ScaleDown_def Pool_WorkerCount_def Let_def redistribute_length
      split: if_splits prod.splits)
     (metis One_nat_def diff_is_0_eq length_butlast list.size(3))

lemma recordScaleEvent_frame:
  "sl_cfg (Scaler_recordScaleEvent now ow nw load up s) = sl_cfg s"
  "0 < sl_maxEvents s \<Longrightarrow> length (sl_events s) \<le> sl_maxEvents s \<Longrightarrow>
     length (sl_events (Scaler_recordScaleEvent now ow nw load up s)) \<le> sl_maxEvents s"
  by (auto simp: Scaler_recordScaleEvent_def Let_def)

lemma checkAndScale_cases:
  assumes "Scaler_checkAndScale C now st s p = (s', p', st', b)" and "0 \<le> pc_MinWorkers (p_cfg p)"
  obtains (same) "Pool_WorkerCount p' = Pool_WorkerCount p" "sl_events s' = sl_events s"
  | (up) "\<not> in_cooldown now s" "Scaler_CalculateLoad p > slc_ScaleUpThreshold (sl_cfg s)"
      "Pool_WorkerCount p' = Pool_WorkerCount p + 1" "int (Pool_WorkerCount p) < pc_MaxWorkers (p_cfg p)"
      "sl_lastScaleTime s' = Some now" "sl_cfg s' = sl_cfg s"
      "sl_events s' = sl_events (Scaler_recordScaleEvent now (Pool_WorkerCount p) (Pool_WorkerCount p')
         (Scaler_CalculateLoad p) True s)"
  | (down) "\<not> in_cooldown now s" "Scaler_CalculateLoad p < slc_ScaleDownThreshold (sl_cfg s)"
      "Pool_WorkerCount p' = Pool_WorkerCount p - 1" "pc_MinWorkers (p_cfg p) < int (Pool_WorkerCount p)"
      "sl_lastScaleTime s' = Some now" "sl_cfg s' = sl_cfg s"
      "sl_events s' = sl_events (Scaler_recordScaleEvent now (Pool_WorkerCount p) (Pool_WorkerCount p')
         (Scaler_CalculateLoad p) False s)"
proof (cases "in_cooldown now s")
  case True
  then show thesis using same assms(1) by (simp add: Scaler_checkAndScale_def)
next
  case cool: False
  show thesis
  proof (cases "Scaler_CalculateLoad p > slc_ScaleUpThreshold (sl_cfg s)")
    case high: True
    obtain p1 r where r: "Pool_ScaleUp p = (p1, r)" by fastforce
    note c = ScaleUp_count[OF r]
    show thesis
    proof (cases r)
      case True
      then have "p' = p1" "s' = (let s1 = Scaler_recordScaleEvent now (Pool_WorkerCount p) (Pool_WorkerCount p1)
          (Scaler_CalculateLoad p) True s in s1\<lparr>sl_scaleUpCount := sl_scaleUpCount s1 + 1, sl_lastScaleTime := Some now\<rparr>)"
        using assms(1) cool high r by (auto simp: Scaler_checkAndScale_def Scaler_tryScaleUp_def Let_def)
      then show thesis using cool high c True by (intro up) (simp_all add: Let_def recordScaleEvent_frame)
    next
      case False
      then have "p' = p1" "s' = s"
        using assms(1) cool high r by (auto simp: Scaler_checkAndScale_def Scaler_tryScaleUp_def Let_def)
      then show thesis using c False by (intro same) simp_all
    qed
  next
    case low: False
    obtain p1 st1 b1 r where r: "Pool_ScaleDown C now st p = (p1, st1, b1, r)" by (rule prod_cases4)
    note c = ScaleDown_count[OF r assms(2)]
    show thesis
    proof (cases "Scaler_CalculateLoad p < slc_ScaleDownThreshold (sl_cfg s)")
      case small: True
      show thesis
      proof (cases r)
        case True
        then have "p' = p1" "s' = (let s1 = Scaler_recordScaleEvent now (Pool_WorkerCount p) (Pool_WorkerCount p1)
            (Scaler_CalculateLoad p) False s in s1\<lparr>sl_scaleDownCount := sl_scaleDownCount s1 + 1, sl_lastScaleTime := Some now\<rparr>)"
          using assms(1) cool low small r by (auto simp: Scaler_checkAndScale_def Scaler_tryScaleDown_def Let_def)
        then show thesis using cool small c True by (intro down) (simp_all add: Let_def recordScaleEvent_frame)
      next
        case False
        then have "p' = p1" "s' = s"
          using assms(1) cool low small r by (auto simp: Scaler_checkAndScale_def Scaler_tryScaleDown_def Let_def)
        then show thesis using c False by (intro same) simp_all
      qed
    next
      case False
      then show thesis using assms(1) cool low same by (simp add: Scaler_checkAndScale_def)
    qed
  qed
qed

text \<open>
  One check keeps the number of workers within the bounds of the pool, changes it by at most one and
  only in the direction the load asks for; a change starts a cooldown in which nothing is scaled, and
  the event list stays within its capacity.
\<close>

lemma checkAndScale_bounds:
  assumes "Scaler_checkAndScale C now st s p = (s', p', st', b)" and "0 \<le> pc_MinWorkers (p_cfg p)"
    and "pc_MinWorkers (p_cfg p) \<le> int (Pool_WorkerCount p)" and "int (Pool_WorkerCount p) \<le> pc_MaxWorkers (p_cfg p)"
    and "0 < sl_maxEvents s" and "length (sl_events s) \<le> sl_maxEvents s"
  shows "pc_MinWorkers (p_cfg p) \<le> int (Pool_WorkerCount p') \<and> int (Pool_WorkerCount p') \<le> pc_MaxWorkers (p_cfg p) \<and>
    \<bar>int (Pool_WorkerCount p') - int (Pool_WorkerCount p)\<bar> \<le> 1 \<and>
    (Pool_WorkerCount p < Pool_WorkerCount p' \<longrightarrow> slc_ScaleUpThreshold (sl_cfg s) < Scaler_CalculateLoad p) \<and>
    (Pool_WorkerCount p' < Pool_WorkerCount p \<longrightarrow> Scaler_CalculateLoad p < slc_ScaleDownThreshold (sl_cfg s)) \<and>
    (Pool_WorkerCount p' \<noteq> Pool_WorkerCount p \<longrightarrow> \<not> in_cooldown now s \<and>
       (\<forall>t. t < now + slc_ScaleCooldown (sl_cfg s) \<longrightarrow> in_cooldown t s')) \<and>
    length (sl_events s') \<le> sl_maxEvents s"
  using assms(1,2)
proof (cases rule: checkAndScale_cases)
  case same
  then show ?thesis using assms by simp
next
  case up
  then show ?thesis using assms recordScaleEvent_frame(2)[OF assms(5,6)] by (auto simp: in_cooldown_def)
next
  case down
  then show ?thesis using assms recordScaleEvent_frame(2)[OF assms(5,6)] by (auto simp: in_cooldown_def)
qed

end
