(* ===== verification/Node_Config.thy ===== *)
theory Node_Config
  imports Scaler Primary Sync_Manager Gc_Manager Flow_Control
begin

text \<open>
  The configuration of a node (\<^verbatim>\<open>config.go\<close>), its validation, and how a node derives the configurations
  of its components from it (\<^verbatim>\<open>initializeComponents\<close> in \<^verbatim>\<open>looseberry.go\<close>). Record and function names
  get the prefix \<open>Node\<close> where another package uses the same name.
\<close>

section \<open>Configuration\<close>

record NodeWorkerConfig =
  nw_MinWorkers :: int
  nw_MaxWorkers :: int
  nw_BatchSize :: int
  nw_BatchTimeout :: int
  nw_MaxBatchBytes :: int
  nw_MaxPendingTxs :: int
  nw_MaxPendingBytes :: int
  nw_ScalingInterval :: int
  nw_ScaleUpThreshold :: float64
  nw_ScaleDownThreshold :: float64
  nw_DrainTimeout :: int

record NodePrimaryConfig =
  np_HeaderTimeout :: int
  np_MaxBatchesPerHeader :: int
  np_MaxRoundGap :: u64
  np_VoteTimeout :: int
  np_AllowEmptyHeaders :: bool

record NodeSyncConfig =
  ns_SyncInterval :: int
  ns_SyncThreshold :: u64
  ns_SyncBatchSize :: int
  ns_SyncTimeout :: int

record StorageConfig =
  nst_DataDir :: string
  nst_InMemory :: bool

record GCConfig =
  ng_GCDepth :: int
  ng_RecoverTxs :: bool

record FlowControlConfig =
  nf_MaxUncommittedRounds :: int

record NodeConfig =
  nc_ValidatorIndex :: u16
  nc_Signer :: signer
  nc_TxValidator :: "TxValidator option"
  nc_Worker :: NodeWorkerConfig
  nc_Primary :: NodePrimaryConfig
  nc_Sync :: NodeSyncConfig
  nc_Storage :: StorageConfig
  nc_GC :: GCConfig
  nc_FlowControl :: FlowControlConfig

section \<open>Defaults\<close>

definition DefaultNodeWorkerConfig :: NodeWorkerConfig where
  "DefaultNodeWorkerConfig =
     \<lparr>nw_MinWorkers = 1, nw_MaxWorkers = 8, nw_BatchSize = 500, nw_BatchTimeout = 100 * 1000000,
      nw_MaxBatchBytes = 512 * 1024, nw_MaxPendingTxs = 10000, nw_MaxPendingBytes = 50 * 1024 * 1024,
      nw_ScalingInterval = 5 * 1000000000, nw_ScaleUpThreshold = float64_round (4 / 5),
      nw_ScaleDownThreshold = float64_round (1 / 5), nw_DrainTimeout = 30 * 1000000000\<rparr>"

definition DefaultNodePrimaryConfig :: NodePrimaryConfig where
  "DefaultNodePrimaryConfig =
     \<lparr>np_HeaderTimeout = 500 * 1000000, np_MaxBatchesPerHeader = 100, np_MaxRoundGap = 10,
      np_VoteTimeout = 30 * 1000000000, np_AllowEmptyHeaders = True\<rparr>"

definition DefaultNodeSyncConfig :: NodeSyncConfig where
  "DefaultNodeSyncConfig =
     \<lparr>ns_SyncInterval = 10 * 1000000000, ns_SyncThreshold = 5, ns_SyncBatchSize = 100,
      ns_SyncTimeout = 30 * 1000000000\<rparr>"

definition DefaultStorageConfig :: StorageConfig where
  "DefaultStorageConfig = \<lparr>nst_DataDir = ''data/looseberry'', nst_InMemory = False\<rparr>"

definition DefaultGCConfig :: GCConfig where
  "DefaultGCConfig = \<lparr>ng_GCDepth = 50, ng_RecoverTxs = True\<rparr>"

definition DefaultFlowControlConfig :: FlowControlConfig where
  "DefaultFlowControlConfig = \<lparr>nf_MaxUncommittedRounds = 100\<rparr>"

text \<open>\<^verbatim>\<open>DefaultConfig\<close> leaves the index 0 and the signer to the caller.\<close>

definition DefaultNodeConfig :: "signer \<Rightarrow> NodeConfig" where
  "DefaultNodeConfig sg =
     \<lparr>nc_ValidatorIndex = 0, nc_Signer = sg, nc_TxValidator = None, nc_Worker = DefaultNodeWorkerConfig,
      nc_Primary = DefaultNodePrimaryConfig, nc_Sync = DefaultNodeSyncConfig,
      nc_Storage = DefaultStorageConfig, nc_GC = DefaultGCConfig, nc_FlowControl = DefaultFlowControlConfig\<rparr>"

section \<open>Validation\<close>

text \<open>An error wrapped by \<^verbatim>\<open>fmt.Errorf\<close> with \<^verbatim>\<open>%w\<close>: the message grows, the kind of the error stays.\<close>

definition wrap_error :: "string \<Rightarrow> err \<Rightarrow> err" where
  "wrap_error msg e = (case e of ErrOther s \<Rightarrow> ErrOther (msg @ '': '' @ s) | _ \<Rightarrow> e)"

definition NodeWorkerConfig_Validate :: "NodeWorkerConfig \<Rightarrow> err option" where
  "NodeWorkerConfig_Validate c =
     (if nw_MinWorkers c < 1 then Some (ErrOther ''min_workers must be at least 1'')
      else if nw_MaxWorkers c < nw_MinWorkers c then Some (ErrOther ''max_workers must be >= min_workers'')
      else if nw_BatchSize c < 1 then Some (ErrOther ''batch_size must be at least 1'')
      else if nw_BatchTimeout c \<le> 0 then Some (ErrOther ''batch_timeout must be positive'')
      else if nw_MaxBatchBytes c < 1 then Some (ErrOther ''max_batch_bytes must be at least 1'')
      else if nw_MaxPendingTxs c < 1 then Some (ErrOther ''max_pending_txs must be at least 1'')
      else if nw_MaxPendingBytes c < 1 then Some (ErrOther ''max_pending_bytes must be at least 1'')
      else if nw_ScaleUpThreshold c \<le> nw_ScaleDownThreshold c
      then Some (ErrOther ''scale_up_threshold must be > scale_down_threshold'')
      else None)"

definition NodePrimaryConfig_Validate :: "NodePrimaryConfig \<Rightarrow> err option" where
  "NodePrimaryConfig_Validate c =
     (if np_HeaderTimeout c \<le> 0 then Some (ErrOther ''header_timeout must be positive'')
      else if np_MaxBatchesPerHeader c < 1 then Some (ErrOther ''max_batches_per_header must be at least 1'')
      else if np_MaxRoundGap c < 1 then Some (ErrOther ''max_round_gap must be at least 1'')
      else if np_VoteTimeout c \<le> 0 then Some (ErrOther ''vote_timeout must be positive'')
      else None)"

definition NodeSyncConfig_Validate :: "NodeSyncConfig \<Rightarrow> err option" where
  "NodeSyncConfig_Validate c =
     (if ns_SyncInterval c \<le> 0 then Some (ErrOther ''sync_interval must be positive'')
      else if ns_SyncThreshold c < 1 then Some (ErrOther ''sync_threshold must be at least 1'')
      else if ns_SyncBatchSize c < 1 then Some (ErrOther ''sync_batch_size must be at least 1'')
      else if ns_SyncTimeout c \<le> 0 then Some (ErrOther ''sync_timeout must be positive'')
      else None)"

definition GCConfig_Validate :: "GCConfig \<Rightarrow> err option" where
  "GCConfig_Validate c =
     (if ng_GCDepth c < 1 then Some (ErrOther ''gc_depth must be at least 1'') else None)"

definition FlowControlConfig_Validate :: "FlowControlConfig \<Rightarrow> err option" where
  "FlowControlConfig_Validate c =
     (if nf_MaxUncommittedRounds c < 1 then Some (ErrOther ''max_uncommitted_rounds must be at least 1'')
      else None)"

definition NodeConfig_Validate :: "NodeConfig \<Rightarrow> err option" where
  "NodeConfig_Validate c =
     (case NodeWorkerConfig_Validate (nc_Worker c) of
        Some e \<Rightarrow> Some (wrap_error ''worker config'' e)
      | None \<Rightarrow>
     (case NodePrimaryConfig_Validate (nc_Primary c) of
        Some e \<Rightarrow> Some (wrap_error ''primary config'' e)
      | None \<Rightarrow>
     (case NodeSyncConfig_Validate (nc_Sync c) of
        Some e \<Rightarrow> Some (wrap_error ''sync config'' e)
      | None \<Rightarrow>
     (case GCConfig_Validate (nc_GC c) of
        Some e \<Rightarrow> Some (wrap_error ''gc config'' e)
      | None \<Rightarrow>
     (case FlowControlConfig_Validate (nc_FlowControl c) of
        Some e \<Rightarrow> Some (wrap_error ''flow control config'' e)
      | None \<Rightarrow> None)))))"

section \<open>Configurations of the components\<close>

text \<open>Fields that a composite literal leaves out have the zero value: \<^verbatim>\<open>BatchBytes\<close> of the workers and
  the retry fields of the sync manager.\<close>

definition node_flow_config :: "NodeConfig \<Rightarrow> FlowConfig" where
  "node_flow_config c =
     \<lparr>fcfg_MaxUncommittedRounds = word_of_int (nf_MaxUncommittedRounds (nc_FlowControl c)),
      fcfg_MaxPendingBatches = 1000, fcfg_MaxPendingHeaders = 100\<rparr>"

definition node_pool_config :: "NodeConfig \<Rightarrow> PoolConfig" where
  "node_pool_config c =
     \<lparr>pc_MinWorkers = nw_MinWorkers (nc_Worker c), pc_MaxWorkers = nw_MaxWorkers (nc_Worker c),
      pc_Worker = \<lparr>wc_BatchSize = nw_BatchSize (nc_Worker c), wc_BatchBytes = 0,
                   wc_BatchTimeout = nw_BatchTimeout (nc_Worker c),
                   wc_MaxPendingTxs = nw_MaxPendingTxs (nc_Worker c),
                   wc_MaxPendingBytes = nw_MaxPendingBytes (nc_Worker c),
                   wc_AckTimeout = 30 * 1000000000\<rparr>\<rparr>"

definition node_scaler_config :: "NodeConfig \<Rightarrow> ScalerConfig" where
  "node_scaler_config c =
     \<lparr>slc_ScaleUpThreshold = nw_ScaleUpThreshold (nc_Worker c),
      slc_ScaleDownThreshold = nw_ScaleDownThreshold (nc_Worker c),
      slc_ScalingInterval = nw_ScalingInterval (nc_Worker c), slc_ScaleCooldown = 5 * 1000000000\<rparr>"

definition node_primary_config :: "NodeConfig \<Rightarrow> PrimaryConfig" where
  "node_primary_config c =
     \<lparr>pc_HeaderTimeout = np_HeaderTimeout (nc_Primary c),
      pc_MaxBatchesPerHeader = np_MaxBatchesPerHeader (nc_Primary c),
      pc_VoteTimeout = np_VoteTimeout (nc_Primary c), pc_MaxRoundGap = np_MaxRoundGap (nc_Primary c),
      pc_AllowEmptyHeaders = np_AllowEmptyHeaders (nc_Primary c)\<rparr>"

definition node_sync_config :: "NodeConfig \<Rightarrow> SyncConfig" where
  "node_sync_config c =
     \<lparr>sc_SyncInterval = ns_SyncInterval (nc_Sync c), sc_SyncThreshold = ns_SyncThreshold (nc_Sync c),
      sc_SyncBatchSize = ns_SyncBatchSize (nc_Sync c), sc_SyncTimeout = ns_SyncTimeout (nc_Sync c),
      sc_MaxRetries = 0, sc_InitialBackoff = 0, sc_MaxBackoff = 0\<rparr>"

definition node_gc_config :: "NodeConfig \<Rightarrow> GcConfig" where
  "node_gc_config c =
     \<lparr>gcc_GCDepth = word_of_int (ng_GCDepth (nc_GC c)), gcc_GCInterval = 30 * 1000000000,
      gcc_RecoverUncommittedTxs = ng_RecoverTxs (nc_GC c)\<rparr>"

section \<open>Facts\<close>

lemma NodeWorkerConfig_Validate_None:
  "NodeWorkerConfig_Validate c = None \<longleftrightarrow> 1 \<le> nw_MinWorkers c \<and> nw_MinWorkers c \<le> nw_MaxWorkers c \<and>
     1 \<le> nw_BatchSize c \<and> 0 < nw_BatchTimeout c \<and> 1 \<le> nw_MaxBatchBytes c \<and> 1 \<le> nw_MaxPendingTxs c \<and>
     1 \<le> nw_MaxPendingBytes c \<and> nw_ScaleDownThreshold c < nw_ScaleUpThreshold c"
  by (auto simp: NodeWorkerConfig_Validate_def)

lemma default_config_valid: "NodeConfig_Validate (DefaultNodeConfig sg) = None"
proof -
  have "NodeWorkerConfig_Validate DefaultNodeWorkerConfig = None" by code_simp
  then show ?thesis
    by (simp add: NodeConfig_Validate_def DefaultNodeConfig_def NodePrimaryConfig_Validate_def
        DefaultNodePrimaryConfig_def NodeSyncConfig_Validate_def DefaultNodeSyncConfig_def GCConfig_Validate_def
        DefaultGCConfig_def FlowControlConfig_Validate_def DefaultFlowControlConfig_def)
qed

text \<open>With the sync configuration of a node a request whose answer is late is dropped, never retried.\<close>

lemma node_sync_never_retries:
  assumes "sm_cfg s = node_sync_config c"
    and "\<forall>v req. fmlookup (sm_pendingReqs s) v = Some req \<longrightarrow> 0 \<le> psr_retryCount req"
  shows "SyncManager_cleanupTimedOutRequests me ks now s =
    (s\<lparr>sm_pendingReqs := map_delete_all (filter (\<lambda>v. case fmlookup (sm_pendingReqs s) v of
        Some req \<Rightarrow> psr_nextRetryAt req < now | None \<Rightarrow> False) ks) (sm_pendingReqs s)\<rparr>, [])"
proof -
  let ?exh = "\<lambda>v. case fmlookup (sm_pendingReqs s) v of
      Some req \<Rightarrow> psr_retryCount req \<ge> sc_MaxRetries (sm_cfg s) | None \<Rightarrow> False"
  let ?exp = "\<lambda>v. case fmlookup (sm_pendingReqs s) v of Some req \<Rightarrow> psr_nextRetryAt req < now | None \<Rightarrow> False"
  have iff: "?exp v \<Longrightarrow> ?exh v" for v
    using assms by (auto simp: node_sync_config_def split: option.splits)
  have "(\<lambda>v. ?exp v \<and> ?exh v) = ?exp" "(\<lambda>v. ?exp v \<and> \<not> ?exh v) = (\<lambda>_. False)"
    using iff by blast+
  moreover have "fmmap_keys (\<lambda>v req. req) m = m" for m :: "(u16, pendingSyncRequest) fmap"
    by (rule fmap_ext) (simp add: option.map_ident)
  ultimately show ?thesis
    unfolding SyncManager_cleanupTimedOutRequests_def Let_def by simp
qed

end
