(* ===== verification/Node.thy ===== *)
theory Node
  imports Node_Config Batch_Fetcher
begin

text \<open>
  The node (\<^verbatim>\<open>looseberry.go\<close>): its components, the handlers of the messages of other validators, the
  callbacks the components make, the loops, start and stop, and the mempool interface.

  A handler returns the new state of the node and its outputs in order: the calls on the network and
  the calls of the certificate observer. Work that the code hands to \<^verbatim>\<open>dispatchAsync\<close> is listed where
  it is dispatched. The stores are shared by reference with the components; the node holds them
  once and passes them to an operation of a component, in particular the certificate store to the DAG
  (\<open>node_dag\<close>, \<open>set_dag\<close>). A persistent store is represented by the in-memory store with its contents, what
  opening the databases of a directory gives is the parameter \<open>leveldb\<close>.
\<close>

section \<open>State\<close>

record CertifiedBatch =
  cb_Batch :: Batch
  cb_Certificate :: Certificate

text \<open>The components, created together by \<^verbatim>\<open>initializeComponents\<close>.\<close>

record components =
  lb_workerPool :: Pool
  lb_workerScaler :: Scaler
  lb_primaryNode :: Primary
  lb_batchFetcher :: BatchFetcher
  lb_dag :: DAG
  lb_syncManager :: SyncManager
  lb_gcManager :: GCManager
  lb_flowController :: FlowController

record Looseberry =
  lb_cfg :: NodeConfig
  lb_validatorSet :: "SimpleValidatorSet option"
  lb_txValidator :: "TxValidator option"
  lb_ackQuorumCallback :: bool
  lb_certQuorumCallback :: bool
  lb_components :: "components option"
  lb_batchStore :: "MemoryBatchStore option"
  lb_certStore :: "MemoryCertificateStore option"
  lb_txIndex :: "MemoryTxIndex option"
  lb_network :: bool
  lb_totalTxAdded :: u64
  lb_totalTxRejected :: u64
  lb_totalBatches :: u64
  lb_startNanos :: int
  lb_lastCommitNanos :: int
  lb_lastCommittedRound :: u64
  lb_totalRebroadcastFires :: u64
  lb_totalRebroadcastedBatches :: u64
  lb_totalRebroadcastedHeaders :: u64
  lb_orphanCerts :: "(hash, Certificate) fmap"
  lb_running :: bool

record NodeMetrics =
  nm_PendingTxCount :: nat
  nm_PendingTxBytes :: int
  nm_TotalTxAdded :: u64
  nm_TotalTxRejected :: u64
  nm_TotalTxCommitted :: u64
  nm_TotalBatches :: u64
  nm_TotalBatchesCertified :: u64
  nm_CurrentRound :: u64
  nm_CommittedRound :: u64
  nm_HighestRound :: u64
  nm_WorkerCount :: nat
  nm_WorkerLoad :: float64
  nm_IsPaused :: bool
  nm_PauseCount :: u64
  nm_ResumeCount :: u64
  nm_UncommittedGap :: u64
  nm_TotalCertificates :: u64
  nm_RebroadcastFires :: u64
  nm_RebroadcastedBatches :: u64
  nm_RebroadcastedHeaders :: u64

record leveldb =
  ldb_batches :: "string \<Rightarrow> MemoryBatchStore result"
  ldb_certs :: "string \<Rightarrow> MemoryCertificateStore result"
  ldb_txindex :: "string \<Rightarrow> MemoryTxIndex result"

datatype node_output = Net net_call | CertQuorum Certificate

type_synonym node_op = "Looseberry \<Rightarrow> Looseberry \<times> node_output list"

definition orphanCertCap :: nat where
  "orphanCertCap = 4096"

definition NewLooseberry :: "NodeConfig \<Rightarrow> Looseberry result" where
  "NewLooseberry cfg =
     (case NodeConfig_Validate cfg of
        Some e \<Rightarrow> Inl (wrap_error ''invalid config'' e)
      | None \<Rightarrow> Inr
          \<lparr>lb_cfg = cfg, lb_validatorSet = None, lb_txValidator = nc_TxValidator cfg, lb_ackQuorumCallback = False,
           lb_certQuorumCallback = False, lb_components = None, lb_batchStore = None, lb_certStore = None,
           lb_txIndex = None, lb_network = False, lb_totalTxAdded = 0, lb_totalTxRejected = 0, lb_totalBatches = 0,
           lb_startNanos = 0, lb_lastCommitNanos = 0, lb_lastCommittedRound = 0, lb_totalRebroadcastFires = 0,
           lb_totalRebroadcastedBatches = 0, lb_totalRebroadcastedHeaders = 0, lb_orphanCerts = fmempty,
           lb_running = False\<rparr>)"

definition Looseberry_SetValidatorSet :: "SimpleValidatorSet \<Rightarrow> Looseberry \<Rightarrow> Looseberry" where
  "Looseberry_SetValidatorSet validators l = l\<lparr>lb_validatorSet := Some validators\<rparr>"

definition Looseberry_SetNetwork :: "bool \<Rightarrow> Looseberry \<Rightarrow> Looseberry" where
  "Looseberry_SetNetwork net l = l\<lparr>lb_network := net\<rparr>"

definition Looseberry_SetAckQuorumCallback :: "bool \<Rightarrow> Looseberry \<Rightarrow> Looseberry" where
  "Looseberry_SetAckQuorumCallback cb l =
     l\<lparr>lb_ackQuorumCallback := cb,
       lb_components := map_option (\<lambda>c. c\<lparr>lb_workerPool := Pool_SetAckQuorumCallback cb (lb_workerPool c)\<rparr>)
         (lb_components l)\<rparr>"

definition Looseberry_SetCertQuorumCallback :: "bool \<Rightarrow> Looseberry \<Rightarrow> Looseberry" where
  "Looseberry_SetCertQuorumCallback cb l = l\<lparr>lb_certQuorumCallback := cb\<rparr>"

text \<open>Called before the first start: components keep the stores they were created with.\<close>

definition Looseberry_SetStores ::
  "MemoryBatchStore option \<Rightarrow> MemoryCertificateStore option \<Rightarrow> MemoryTxIndex option \<Rightarrow> Looseberry \<Rightarrow> Looseberry" where
  "Looseberry_SetStores batchStore certStore txIndex l =
     l\<lparr>lb_batchStore := batchStore, lb_certStore := certStore, lb_txIndex := txIndex\<rparr>"

section \<open>Sequences of operations\<close>

definition then_do :: "node_op \<Rightarrow> node_op \<Rightarrow> node_op" where
  "then_do f g l = (let (l1, o1) = f l; (l2, o2) = g l1 in (l2, o1 @ o2))"

fun for_each :: "('a \<Rightarrow> node_op) \<Rightarrow> 'a list \<Rightarrow> node_op" where
  "for_each f [] l = (l, [])"
| "for_each f (x # xs) l = then_do (f x) (for_each f xs) l"

text \<open>An operation of a node that has its components and its stores; otherwise nothing happens.\<close>

definition with_components ::
  "(components \<Rightarrow> MemoryBatchStore \<Rightarrow> MemoryCertificateStore \<Rightarrow> MemoryTxIndex \<Rightarrow> node_op) \<Rightarrow> node_op" where
  "with_components f l =
     (case (lb_components l, lb_batchStore l, lb_certStore l, lb_txIndex l) of
        (Some c, Some bs, Some cs, Some idx) \<Rightarrow> f c bs cs idx l
      | _ \<Rightarrow> (l, []))"

definition set_components :: "components \<Rightarrow> Looseberry \<Rightarrow> Looseberry" where
  "set_components c l = l\<lparr>lb_components := Some c\<rparr>"

definition node_dag :: "components \<Rightarrow> MemoryCertificateStore \<Rightarrow> DAG" where
  "node_dag c cs = (lb_dag c)\<lparr>d_certStore := Some cs\<rparr>"

definition set_dag :: "DAG \<Rightarrow> components \<Rightarrow> Looseberry \<Rightarrow> Looseberry" where
  "set_dag d c l = l\<lparr>lb_components := Some (c\<lparr>lb_dag := d\<rparr>), lb_certStore := d_certStore d\<rparr>"

definition node_storage :: "Looseberry \<Rightarrow> storage" where
  "node_storage l = \<lparr>st_batchStore = lb_batchStore l, st_txIndex = lb_txIndex l\<rparr>"

definition set_pool :: "Pool \<Rightarrow> storage \<Rightarrow> components \<Rightarrow> Looseberry \<Rightarrow> Looseberry" where
  "set_pool p st c l = l\<lparr>lb_components := Some (c\<lparr>lb_workerPool := p\<rparr>), lb_batchStore := st_batchStore st,
     lb_txIndex := st_txIndex st\<rparr>"

text \<open>\<^verbatim>\<open>dispatchAsync\<close>: no work is started once the node is stopping.\<close>

definition Looseberry_dispatchAsync :: "node_op \<Rightarrow> node_op" where
  "Looseberry_dispatchAsync fn l = (if \<not> lb_running l then (l, []) else fn l)"

definition send :: "net_call \<Rightarrow> node_op" where
  "send m l = (l, [Net m])"

section \<open>Callbacks of the components\<close>

definition Looseberry_onBatchRequest :: "batch_request \<Rightarrow> node_op" where
  "Looseberry_onBatchRequest req l =
     (if \<not> lb_network l then (l, [])
      else send (SendBatchRequest (fst req)
             \<lparr>brq_BatchDigest = snd req, brq_Requester = nc_ValidatorIndex (lb_cfg l)\<rparr>) l)"

definition Looseberry_onVoteCreated :: "Vote \<times> u16 \<Rightarrow> node_op" where
  "Looseberry_onVoteCreated v l =
     (if \<not> lb_network l then (l, []) else Looseberry_dispatchAsync (send (SendVote (snd v) (fst v))) l)"

definition Looseberry_onHeaderCreated :: "Header \<Rightarrow> node_op" where
  "Looseberry_onHeaderCreated header l =
     (if lb_network l then send (BroadcastHeader header) l else (l, []))"

text \<open>\<^verbatim>\<open>primary.HandleHeader\<close> with the callbacks it makes.\<close>

definition node_HandleHeader :: "crypto \<Rightarrow> time \<Rightarrow> Header \<Rightarrow> node_op" where
  "node_HandleHeader C now header =
     with_components (\<lambda>c bs cs idx l.
       let (bf, reqs, vote, e) =
             Primary_HandleHeader C now bs cs header (lb_primaryNode c) (lb_batchFetcher c)
       in then_do (for_each Looseberry_onBatchRequest reqs)
            (for_each Looseberry_onVoteCreated (case vote of None \<Rightarrow> [] | Some v \<Rightarrow> [v]))
            (set_components (c\<lparr>lb_batchFetcher := bf\<rparr>) l))"

definition Looseberry_onHeaderReady :: "crypto \<Rightarrow> time \<Rightarrow> Header \<Rightarrow> node_op" where
  "Looseberry_onHeaderReady C now header = node_HandleHeader C now header"

definition Looseberry_onCertificateFormed :: "Certificate \<Rightarrow> node_op" where
  "Looseberry_onCertificateFormed cert =
     with_components (\<lambda>c bs cs idx l.
       let d = fst (DAG_AddCertificate (Some cert) (node_dag c cs));
           fc = fst (FlowController_UpdateCurrentRound (h_Round (c_Header cert)) (lb_flowController c))
       in (set_dag d (c\<lparr>lb_flowController := fc\<rparr>) l,
           (if lb_network l then [Net (BroadcastCertificate cert)] else []) @
           (if lb_certQuorumCallback l then [CertQuorum cert] else [])))"

definition Looseberry_onBatchCreated :: "Batch \<Rightarrow> node_op" where
  "Looseberry_onBatchCreated batch l =
     (let l1 = l\<lparr>lb_totalBatches := lb_totalBatches l + 1\<rparr>;
          l2 = (case lb_components l1 of
                  None \<Rightarrow> l1
                | Some c \<Rightarrow> set_components (c\<lparr>lb_primaryNode := Primary_AddBatchDigest
                    \<lparr>bd_Digest = b_Digest batch, bd_WorkerID = b_WorkerID batch, bd_ValidatorID = b_ValidatorID batch\<rparr>
                    (lb_primaryNode c)\<rparr>) l1)
      in (l2, if lb_network l2 then [Net (BroadcastBatch batch)] else []))"

text \<open>Recovered transactions enter the pool like new ones; \<open>bs\<close> and \<open>idx\<close> are the stores of that moment.\<close>

definition Looseberry_onTxRecovered :: "crypto \<Rightarrow> MemoryBatchStore \<Rightarrow> Pool recovery" where
  "Looseberry_onTxRecovered C bs txs idx p =
     fold (\<lambda>tx p. fst (Pool_AddTx C tx \<lparr>st_batchStore = Some bs, st_txIndex = Some idx\<rparr> p)) txs p"

section \<open>Messages\<close>

definition Looseberry_sendBatchAck :: "crypto \<Rightarrow> u16 \<Rightarrow> Batch \<Rightarrow> node_op" where
  "Looseberry_sendBatchAck C frm batch l =
     (if \<not> lb_network l then (l, [])
      else let me = nc_ValidatorIndex (lb_cfg l)
           in case sg_Sign (nc_Signer (lb_cfg l)) (BatchAckSignBytes C (b_Digest batch) me (b_Round batch)) of
                Inl _ \<Rightarrow> (l, [])
              | Inr sig \<Rightarrow> Looseberry_dispatchAsync (send (SendBatchAck frm
                  \<lparr>ba_BatchDigest = b_Digest batch, ba_Validator = me, ba_Round = b_Round batch, ba_Signature = sig\<rparr>)) l)"

definition Looseberry_handleBatchMessage :: "crypto \<Rightarrow> time \<Rightarrow> BatchMessage \<Rightarrow> node_op" where
  "Looseberry_handleBatchMessage C now msg l =
     (case bm_Batch msg of
        None \<Rightarrow> (l, [])
      | Some batch \<Rightarrow>
          with_components (\<lambda>c bs cs idx l.
            let bs1 = fst (MemoryBatchStore_SaveBatch batch bs);
                idx1 = fst (MemoryTxIndex_AddBatch C batch idx);
                (bf, ready) = BatchFetcher_NotifyBatchReceived (Some batch) (lb_batchFetcher c)
            in then_do (for_each (Looseberry_onHeaderReady C now) ready) (Looseberry_sendBatchAck C (bm_From msg) batch)
                 (l\<lparr>lb_components := Some (c\<lparr>lb_batchFetcher := bf\<rparr>), lb_batchStore := Some bs1,
                    lb_txIndex := Some idx1\<rparr>)) l)"

definition Looseberry_handleHeaderMessage :: "crypto \<Rightarrow> time \<Rightarrow> HeaderMessage \<Rightarrow> node_op" where
  "Looseberry_handleHeaderMessage C now msg l =
     (case hm_Header msg of None \<Rightarrow> (l, []) | Some header \<Rightarrow> node_HandleHeader C now header l)"

definition Looseberry_handleVoteMessage :: "crypto \<Rightarrow> vote_order \<Rightarrow> time \<Rightarrow> VoteMessage \<Rightarrow> node_op" where
  "Looseberry_handleVoteMessage C ord now msg l =
     (case vm_Vote msg of
        None \<Rightarrow> (l, [])
      | Some vote \<Rightarrow>
          with_components (\<lambda>c bs cs idx l.
            let (p, cs1, cert) = Primary_HandleVote C ord now (Some vote) (lb_primaryNode c) cs
            in for_each Looseberry_onCertificateFormed (case cert of None \<Rightarrow> [] | Some x \<Rightarrow> [x])
                 (l\<lparr>lb_components := Some (c\<lparr>lb_primaryNode := p\<rparr>), lb_certStore := Some cs1\<rparr>)) l)"

definition Looseberry_bufferOrphanCert :: "Certificate \<Rightarrow> (hash, Certificate) fmap \<Rightarrow> (hash, Certificate) fmap" where
  "Looseberry_bufferOrphanCert cert orphans =
     (if map_len orphans \<ge> orphanCertCap then orphans
      else if map_has orphans (Certificate_Digest cert) then orphans
      else fmupd (Certificate_Digest cert) cert orphans)"

text \<open>One pass over the buffered certificates; the last component counts the added ones.\<close>

fun replay_pass ::
  "Certificate list \<Rightarrow> DAG \<Rightarrow> (hash, Certificate) fmap \<Rightarrow> DAG \<times> (hash, Certificate) fmap \<times> nat" where
  "replay_pass [] d orphans = (d, orphans, 0)"
| "replay_pass (cert # certs) d orphans =
     (case DAG_AddCertificate (Some cert) d of
        (d1, None) \<Rightarrow> (let (d2, orphans2, added) = replay_pass certs d1 (fmdrop (Certificate_Digest cert) orphans)
                       in (d2, orphans2, Suc added))
      | (d1, Some _) \<Rightarrow> replay_pass certs d1 orphans)"

type_synonym orphan_order = "(hash, Certificate) fmap \<Rightarrow> hash list"

text \<open>
  The loop of \<^verbatim>\<open>replayOrphanCertsLocked\<close> ends because a pass that adds a certificate fills a place in the
  DAG, the round and the author of a buffered certificate, that was free before.
\<close>

definition free_orphans :: "DAG \<Rightarrow> (hash, Certificate) fmap \<Rightarrow> hash set" where
  "free_orphans d orphans = {k. \<exists>cert. fmlookup orphans k = Some cert \<and> \<not> author_taken cert d}"

lemma finite_free_orphans: "finite (free_orphans d orphans)"
  by (rule finite_subset[of _ "fset (fmdom orphans)"]) (auto simp: free_orphans_def intro: fmdomI)

lemma round_of_with_round [simp]: "round_of q (with_round r d) = round_of q d"
  by (cases "q = r") (simp_all add: round_of_def[of _ "with_round r d"] with_round_lookup, simp add: round_of_def)

lemma round_of_accept [simp]:
  "round_of q (accept_certificate c d) =
     (if q = Certificate_Round c then RoundData_AddCertificate c (round_of q d) else round_of q d)"
  by (simp add: round_of_def[of _ "accept_certificate c d"]) (simp add: round_of_def)

lemma round_of_save [simp]: "round_of q (fst (DAG_save c d)) = round_of q d"
  by (simp add: round_of_def)

lemma AddCertificate_taken:
  "author_taken c' d \<Longrightarrow> author_taken c' (fst (DAG_AddCertificate (Some c) d))"
  "snd (DAG_AddCertificate (Some c) d) = None \<Longrightarrow>
     \<not> author_taken c d \<and> author_taken c (fst (DAG_AddCertificate (Some c) d))"
  by (auto simp: AddCertificate_eq RoundData_AddCertificate_def map_has_def split: if_splits)

definition shrinks :: "('k, 'v) fmap \<Rightarrow> ('k, 'v) fmap \<Rightarrow> bool" where
  "shrinks m m' \<longleftrightarrow> (\<forall>k v. fmlookup m' k = Some v \<longrightarrow> fmlookup m k = Some v)"

lemma shrinks_refl [simp]: "shrinks m m"
  by (simp add: shrinks_def)

lemma shrinks_drop: "shrinks (fmdrop k m) m' \<Longrightarrow> shrinks m m'"
  unfolding shrinks_def by (metis fmlookup_drop option.distinct(1))

lemma replay_pass_Cons:
  assumes "DAG_AddCertificate (Some cert) d = (d1, e)"
    and "replay_pass (cert # certs) d orphans = (d2, orphans2, n)"
  obtains (added) m where "e = None" "n = Suc m"
      "replay_pass certs d1 (fmdrop (Certificate_Digest cert) orphans) = (d2, orphans2, m)"
  | (rejected) err where "e = Some err" "replay_pass certs d1 orphans = (d2, orphans2, n)"
  using assms by (cases e) (auto split: prod.splits)

lemma replay_pass_taken:
  "replay_pass certs d orphans = (d', orphans', n) \<Longrightarrow> author_taken c d \<Longrightarrow> author_taken c d'"
proof (induction certs arbitrary: d orphans n)
  case (Cons cert certs)
  obtain d1 e where d1: "DAG_AddCertificate (Some cert) d = (d1, e)" by fastforce
  have "author_taken c d1" using AddCertificate_taken(1)[OF Cons.prems(2), of cert] d1 by simp
  then show ?case using replay_pass_Cons[OF d1 Cons.prems(1)] Cons.IH by metis
qed simp

lemma replay_pass_shrinks: "replay_pass certs d orphans = (d', orphans', n) \<Longrightarrow> shrinks orphans orphans'"
proof (induction certs arbitrary: d orphans n)
  case (Cons cert certs)
  obtain d1 e where d1: "DAG_AddCertificate (Some cert) d = (d1, e)" by fastforce
  from d1 Cons.prems show ?case
    by (cases rule: replay_pass_Cons) (blast intro: shrinks_drop Cons.IH)+
qed simp

lemma replay_pass_adds:
  "replay_pass certs d orphans = (d', orphans', n) \<Longrightarrow> n > 0 \<Longrightarrow>
     \<exists>c \<in> set certs. \<not> author_taken c d \<and> author_taken c d'"
proof (induction certs arbitrary: d orphans n)
  case (Cons cert certs)
  obtain d1 e where d1: "DAG_AddCertificate (Some cert) d = (d1, e)" by fastforce
  from d1 Cons.prems(1) show ?case
  proof (cases rule: replay_pass_Cons)
    case (added m)
    then have "\<not> author_taken cert d" "author_taken cert d1" using AddCertificate_taken(2)[of cert d] d1 by auto
    then show ?thesis using replay_pass_taken[OF added(3)] by (meson list.set_intros(1))
  next
    case (rejected err)
    then obtain c where "c \<in> set certs" "\<not> author_taken c d1" "author_taken c d'"
      using Cons.IH Cons.prems(2) by blast
    moreover then have "\<not> author_taken c d" using AddCertificate_taken(1)[of c d cert] d1 by auto
    ultimately show ?thesis by (meson list.set_intros(2))
  qed
qed simp

lemma replay_pass_progress:
  assumes "replay_pass (map_values ks orphans) d orphans = (d', orphans', n)" and "n > 0"
  shows "card (free_orphans d' orphans') < card (free_orphans d orphans)"
proof (rule psubset_card_mono[OF finite_free_orphans])
  note t = replay_pass_taken[OF assms(1)] replay_pass_shrinks[OF assms(1), unfolded shrinks_def, rule_format]
  obtain c k where c: "fmlookup orphans k = Some c" "\<not> author_taken c d" "author_taken c d'"
    using replay_pass_adds[OF assms] by (auto simp: set_map_values)
  have "k \<in> free_orphans d orphans" "k \<notin> free_orphans d' orphans'"
    using c t(2)[of k] by (auto simp: free_orphans_def)
  moreover have "free_orphans d' orphans' \<subseteq> free_orphans d orphans"
    using t unfolding free_orphans_def by blast
  ultimately show "free_orphans d' orphans' \<subset> free_orphans d orphans" by blast
qed

function Looseberry_replayOrphanCertsLocked ::
  "orphan_order \<Rightarrow> DAG \<Rightarrow> (hash, Certificate) fmap \<Rightarrow> DAG \<times> (hash, Certificate) fmap" where
  "Looseberry_replayOrphanCertsLocked ord d orphans =
     (if map_len orphans = 0 then (d, orphans)
      else let (d1, orphans1, added) = replay_pass (map_values (ord orphans) orphans) d orphans
           in if added = 0 then (d1, orphans1) else Looseberry_replayOrphanCertsLocked ord d1 orphans1)"
  by pat_completeness auto
termination
  by (relation "measure (\<lambda>(ord, d, orphans). card (free_orphans d orphans))")
     (auto intro: replay_pass_progress[OF sym])

declare Looseberry_replayOrphanCertsLocked.simps [simp del]

definition Looseberry_handleCertificateMessage :: "crypto \<Rightarrow> orphan_order \<Rightarrow> CertificateMessage \<Rightarrow> node_op" where
  "Looseberry_handleCertificateMessage C ord msg l =
     (case cm_Certificate msg of
        None \<Rightarrow> (l, [])
      | Some cert \<Rightarrow>
          with_components (\<lambda>c bs cs idx l.
            let (p, cs1, _) = Primary_HandleCertificate C cert (lb_primaryNode c) cs;
                (d1, e) = DAG_AddCertificate (Some cert) (node_dag c cs1);
                (d2, orphans) = (case e of
                    Some err \<Rightarrow> (d1, if err = ErrMissingParents
                                     then Looseberry_bufferOrphanCert cert (lb_orphanCerts l) else lb_orphanCerts l)
                  | None \<Rightarrow> Looseberry_replayOrphanCertsLocked ord d1 (lb_orphanCerts l));
                fc = fst (FlowController_UpdateCurrentRound (h_Round (c_Header cert)) (lb_flowController c))
            in (set_dag d2 (c\<lparr>lb_primaryNode := p, lb_flowController := fc\<rparr>) (l\<lparr>lb_orphanCerts := orphans\<rparr>), [])) l)"

definition Looseberry_handleBatchAckMessage :: "crypto \<Rightarrow> time \<Rightarrow> BatchAckMessage \<Rightarrow> node_op" where
  "Looseberry_handleBatchAckMessage C now msg l =
     (case lb_validatorSet l of
        None \<Rightarrow> (l, [])
      | Some vs \<Rightarrow>
          (case ValidatorSet_GetByIndex vs (ba_Validator msg) of
             None \<Rightarrow> (l, [])
           | Some validator \<Rightarrow>
               if \<not> PublicKey_Verify C (val_PublicKey validator)
                      (BatchAckSignBytes C (ba_BatchDigest msg) (ba_Validator msg) (ba_Round msg)) (ba_Signature msg)
               then (l, [])
               else (l\<lparr>lb_components := map_option (\<lambda>c. c\<lparr>lb_workerPool :=
                         fst (Pool_RecordAck now (ba_BatchDigest msg) (ba_Validator msg) (lb_workerPool c))\<rparr>)
                         (lb_components l)\<rparr>, [])))"

definition Looseberry_handleBatchRequestMessage :: "BatchRequestMessage \<Rightarrow> node_op" where
  "Looseberry_handleBatchRequestMessage req l =
     (if \<not> lb_network l then (l, [])
      else let me = nc_ValidatorIndex (lb_cfg l);
               resp = (case lb_batchStore l of
                   None \<Rightarrow> \<lparr>brs_Batch = None, brs_Found = False, brs_From = me\<rparr>
                 | Some bs \<Rightarrow> (case MemoryBatchStore_GetBatch (brq_BatchDigest req) bs of
                       Inl _ \<Rightarrow> \<lparr>brs_Batch = None, brs_Found = False, brs_From = me\<rparr>
                     | Inr batch \<Rightarrow> \<lparr>brs_Batch = Some batch, brs_Found = True, brs_From = me\<rparr>))
           in send (SendBatchResponse (brq_Requester req) resp) l)"

definition Looseberry_handleBatchResponseMessage :: "crypto \<Rightarrow> time \<Rightarrow> BatchResponseMessage \<Rightarrow> node_op" where
  "Looseberry_handleBatchResponseMessage C now resp =
     with_components (\<lambda>c bs cs idx l.
       let (bs1, idx1) = (case brs_Batch resp of
               Some batch \<Rightarrow> if brs_Found resp
                              then (fst (MemoryBatchStore_SaveBatch batch bs), fst (MemoryTxIndex_AddBatch C batch idx))
                              else (bs, idx)
             | None \<Rightarrow> (bs, idx));
           (bf, bs2, ready) =
             BatchFetcher_HandleBatchResponse (brs_Batch resp) (brs_Found resp) (brs_From resp) bs1 (lb_batchFetcher c)
       in for_each (Looseberry_onHeaderReady C now) ready
            (l\<lparr>lb_components := Some (c\<lparr>lb_batchFetcher := bf\<rparr>), lb_batchStore := Some bs2,
               lb_txIndex := Some idx1\<rparr>))"

text \<open>\<open>None\<close> when the search for the certificates does not return.\<close>

definition Looseberry_handleSyncRequest ::
  "cert_order \<Rightarrow> SyncRequest \<Rightarrow> Looseberry \<Rightarrow> (Looseberry \<times> node_output list) option" where
  "Looseberry_handleSyncRequest ord req l =
     (case (lb_components l, lb_batchStore l, lb_certStore l) of
        (Some c, Some bs, Some cs) \<Rightarrow>
          (case SyncManager_HandleSyncRequest ord req bs (node_dag c cs) (lb_syncManager c) of
             None \<Rightarrow> None
           | Some (calls, e) \<Rightarrow> Some (l, map Net calls))
      | _ \<Rightarrow> Some (l, []))"

definition Looseberry_handleSyncResponse :: "crypto \<Rightarrow> orphan_order \<Rightarrow> SyncResponseMessage \<Rightarrow> node_op" where
  "Looseberry_handleSyncResponse C ord msg l =
     (case srm_Response msg of
        None \<Rightarrow> (l, [])
      | Some resp \<Rightarrow>
          with_components (\<lambda>c bs cs idx l.
            let deliver = (\<lambda>cert l. fst (Looseberry_handleCertificateMessage C ord
                             \<lparr>cm_Certificate = Some cert, cm_From = 0\<rparr> l));
                (s, bs1, (_, l1), _) = SyncManager_HandleSyncResponse (Some deliver) C resp (srm_From msg) bs
                                         (lb_syncManager c) (lb_dag c, l)
            in (l1\<lparr>lb_batchStore := Some bs1,
                   lb_components := map_option (\<lambda>c. c\<lparr>lb_syncManager := s\<rparr>) (lb_components l1)\<rparr>, [])) l)"

end
