(* ===== verification/Node_Lifecycle.thy ===== *)
theory Node_Lifecycle
  imports Node
begin

text \<open>
  Start and stop of a node, its background loops, the mempool interface for the application and the
  inspection operations (\<^verbatim>\<open>looseberry.go\<close>). The result of starting the network and the errors of sent
  sync requests are arguments, as is the validator \<open>me\<close> that the network names.
\<close>

section \<open>Creating the components\<close>

definition open_store :: "string \<Rightarrow> bool \<Rightarrow> 'a \<Rightarrow> 'a result \<Rightarrow> 'a option \<Rightarrow> 'a result" where
  "open_store what inMemory mem db current =
     (case current of
        Some s \<Rightarrow> Inr s
      | None \<Rightarrow> if inMemory then Inr mem
                else (case db of Inl e \<Rightarrow> Inl (wrap_error (''create '' @ what) e) | Inr s \<Rightarrow> Inr s))"

definition Looseberry_initializeStores :: "leveldb \<Rightarrow> Looseberry \<Rightarrow> Looseberry \<times> err option" where
  "Looseberry_initializeStores db l =
     (let mem = nst_InMemory (nc_Storage (lb_cfg l)); dir = nst_DataDir (nc_Storage (lb_cfg l))
      in case open_store ''batch store'' mem NewMemoryBatchStore (ldb_batches db (dir @ ''/batches'')) (lb_batchStore l) of
        Inl e \<Rightarrow> (l, Some e)
      | Inr bs \<Rightarrow>
          (let l1 = l\<lparr>lb_batchStore := Some bs\<rparr>
           in case open_store ''cert store'' mem NewMemoryCertificateStore (ldb_certs db (dir @ ''/certs'')) (lb_certStore l) of
             Inl e \<Rightarrow> (l1, Some e)
           | Inr cs \<Rightarrow>
               (let l2 = l1\<lparr>lb_certStore := Some cs\<rparr>
                in case open_store ''tx index'' mem NewMemoryTxIndex (ldb_txindex db (dir @ ''/txindex'')) (lb_txIndex l) of
                  Inl e \<Rightarrow> (l2, Some e)
                | Inr idx \<Rightarrow> (l2\<lparr>lb_txIndex := Some idx\<rparr>, None))))"

definition Looseberry_peerValidatorIndices :: "Looseberry \<Rightarrow> u16 list" where
  "Looseberry_peerValidatorIndices l =
     (case lb_validatorSet l of
        None \<Rightarrow> []
      | Some vs \<Rightarrow> map val_Index (filter (\<lambda>v. val_Index v \<noteq> nc_ValidatorIndex (lb_cfg l)) (svs_validators vs)))"

definition node_pool :: "SimpleValidatorSet \<Rightarrow> Looseberry \<Rightarrow> Pool" where
  "node_pool vs l =
     (let cfg = lb_cfg l;
          p0 = Pool_SetBatchCallback True (NewPool (node_pool_config cfg) (nc_ValidatorIndex cfg) (ValidatorSet_Quorum vs));
          p1 = (if lb_ackQuorumCallback l then Pool_SetAckQuorumCallback True p0 else p0)
      in case lb_txValidator l of None \<Rightarrow> p1 | Some v \<Rightarrow> Pool_SetTxValidator (Some v) p1)"

definition node_primary :: "SimpleValidatorSet \<Rightarrow> NodeConfig \<Rightarrow> Primary" where
  "node_primary vs cfg =
     Primary_SetBatchFetcher True (Primary_SetCertificateCallback True (Primary_SetVoteCallback True
       (Primary_SetHeaderCallback True
         (NewPrimary (nc_ValidatorIndex cfg) (nc_Signer cfg) (node_primary_config cfg) vs))))"

definition Looseberry_initializeComponents :: "SimpleValidatorSet \<Rightarrow> Looseberry \<Rightarrow> Looseberry" where
  "Looseberry_initializeComponents vs l =
     (let cfg = lb_cfg l
      in l\<lparr>lb_components := Some
            \<lparr>lb_workerPool = node_pool vs l,
             lb_workerScaler = NewScaler (node_scaler_config cfg),
             lb_primaryNode = node_primary vs cfg,
             lb_batchFetcher = BatchFetcher_UpdateValidators (Looseberry_peerValidatorIndices l)
               (BatchFetcher_SetHeaderReadyCallback True (BatchFetcher_SetRequestCallback True
                 (NewBatchFetcher DefaultBatchFetcherConfig))),
             lb_dag = NewDAG (lb_certStore l) DefaultDagConfig,
             lb_syncManager = NewSyncManager vs (node_sync_config cfg),
             lb_gcManager = NewGCManager (node_gc_config cfg),
             lb_flowController = NewFlowController (node_flow_config cfg)\<rparr>\<rparr>)"

section \<open>Starting and stopping the components\<close>

definition stop_pool :: "crypto \<Rightarrow> time \<Rightarrow> node_op" where
  "stop_pool C now l =
     (case lb_components l of
        None \<Rightarrow> (l, [])
      | Some c \<Rightarrow> (let (p, st, batches, e) = Pool_Stop C now (node_storage l) (lb_workerPool c)
                   in for_each Looseberry_onBatchCreated batches (set_pool p st c l)))"

definition start_pool :: "crypto \<Rightarrow> time \<Rightarrow> Looseberry \<Rightarrow> Looseberry \<times> node_output list \<times> err option" where
  "start_pool C now l =
     (case lb_components l of
        None \<Rightarrow> (l, [], None)
      | Some c \<Rightarrow> (let (p, st, batches, e) = Pool_Start C now (node_storage l) (lb_workerPool c);
                       (l1, out) = for_each Looseberry_onBatchCreated batches (set_pool p st c l)
                   in (l1, out, e)))"

definition stop_scaler :: "Looseberry \<Rightarrow> Looseberry" where
  "stop_scaler l = l\<lparr>lb_components := map_option (\<lambda>c. c\<lparr>lb_workerScaler := fst (Scaler_Stop (lb_workerScaler c))\<rparr>) (lb_components l)\<rparr>"

definition stop_primary :: "Looseberry \<Rightarrow> Looseberry" where
  "stop_primary l = l\<lparr>lb_components := map_option (\<lambda>c. c\<lparr>lb_primaryNode := fst (Primary_Stop (lb_primaryNode c))\<rparr>) (lb_components l)\<rparr>"

definition stop_fetcher :: "Looseberry \<Rightarrow> Looseberry" where
  "stop_fetcher l = l\<lparr>lb_components := map_option (\<lambda>c. c\<lparr>lb_batchFetcher := fst (BatchFetcher_Stop (lb_batchFetcher c))\<rparr>) (lb_components l)\<rparr>"

definition stop_sync :: "Looseberry \<Rightarrow> Looseberry" where
  "stop_sync l = l\<lparr>lb_components := map_option (\<lambda>c. c\<lparr>lb_syncManager := fst (SyncManager_Stop (lb_syncManager c))\<rparr>) (lb_components l)\<rparr>"

definition stop_gc :: "Looseberry \<Rightarrow> Looseberry" where
  "stop_gc l = l\<lparr>lb_components := map_option (\<lambda>c. c\<lparr>lb_gcManager := fst (GCManager_Stop (lb_gcManager c))\<rparr>) (lb_components l)\<rparr>"

definition Looseberry_stopComponents :: "crypto \<Rightarrow> time \<Rightarrow> node_op" where
  "Looseberry_stopComponents C now l =
     stop_pool C now (stop_scaler (stop_primary (stop_fetcher (stop_sync (stop_gc l)))))"

text \<open>The components start one after the other; the first error stops those already started.\<close>

definition Looseberry_startComponents :: "crypto \<Rightarrow> time \<Rightarrow> Looseberry \<Rightarrow> Looseberry \<times> node_output list \<times> err option" where
  "Looseberry_startComponents C now l =
     (case start_pool C now l of
        (l1, out, Some e) \<Rightarrow> (l1, out, Some (wrap_error ''start worker pool'' e))
      | (l1, out, None) \<Rightarrow>
     (case lb_components l1 of None \<Rightarrow> (l1, out, None) | Some c \<Rightarrow>
     (case Scaler_Start (lb_workerScaler c) of
        (_, Some e) \<Rightarrow> (let (l2, out2) = stop_pool C now l1 in (l2, out @ out2, Some (wrap_error ''start worker scaler'' e)))
      | (sl, None) \<Rightarrow>
     (case Primary_Start (lb_primaryNode c) of
        (_, Some e) \<Rightarrow> (let (l2, out2) = stop_pool C now (stop_scaler (set_components (c\<lparr>lb_workerScaler := sl\<rparr>) l1))
                        in (l2, out @ out2, Some (wrap_error ''start primary'' e)))
      | (pr, None) \<Rightarrow>
     (case BatchFetcher_Start (lb_batchFetcher c) of
        (_, Some e) \<Rightarrow> (let (l2, out2) = stop_pool C now (stop_scaler (stop_primary
                              (set_components (c\<lparr>lb_workerScaler := sl, lb_primaryNode := pr\<rparr>) l1)))
                        in (l2, out @ out2, Some (wrap_error ''start batch fetcher'' e)))
      | (bf, None) \<Rightarrow>
     (case SyncManager_Start (lb_syncManager c) of
        (_, Some e) \<Rightarrow> (let (l2, out2) = stop_pool C now (stop_scaler (stop_primary (stop_fetcher
                              (set_components (c\<lparr>lb_workerScaler := sl, lb_primaryNode := pr, lb_batchFetcher := bf\<rparr>) l1))))
                        in (l2, out @ out2, Some (wrap_error ''start sync manager'' e)))
      | (sm, None) \<Rightarrow>
     (case GCManager_Start (lb_gcManager c) of
        (_, Some e) \<Rightarrow> (let (l2, out2) = stop_pool C now (stop_scaler (stop_primary (stop_fetcher (stop_sync
                              (set_components (c\<lparr>lb_workerScaler := sl, lb_primaryNode := pr, lb_batchFetcher := bf,
                                 lb_syncManager := sm\<rparr>) l1)))))
                        in (l2, out @ out2, Some (wrap_error ''start gc manager'' e)))
      | (gc, None) \<Rightarrow>
          (set_components (c\<lparr>lb_workerScaler := sl, lb_primaryNode := pr, lb_batchFetcher := bf, lb_syncManager := sm,
             lb_gcManager := gc\<rparr>) l1, out, None))))))))"

section \<open>Start and stop\<close>

definition Looseberry_Start ::
  "crypto \<Rightarrow> leveldb \<Rightarrow> err option \<Rightarrow> time \<Rightarrow> Looseberry \<Rightarrow> Looseberry \<times> node_output list \<times> err option" where
  "Looseberry_Start C db netStart now l0 =
     (if lb_running l0 then (l0, [], Some ErrAlreadyRunning)
      else let l = l0\<lparr>lb_running := True\<rparr> in
      case lb_validatorSet l of
        None \<Rightarrow> (l\<lparr>lb_running := False\<rparr>, [], Some (ErrOther ''validator set not set''))
      | Some vs \<Rightarrow>
          if \<not> lb_network l then (l\<lparr>lb_running := False\<rparr>, [], Some (ErrOther ''network not set''))
          else case Looseberry_initializeStores db l of
            (l1, Some e) \<Rightarrow> (l1\<lparr>lb_running := False\<rparr>, [], Some (wrap_error ''initialize stores'' e))
          | (l1, None) \<Rightarrow>
              (case Looseberry_startComponents C now (Looseberry_initializeComponents vs l1) of
                 (l2, out, Some e) \<Rightarrow> (l2\<lparr>lb_running := False\<rparr>, out, Some (wrap_error ''start components'' e))
               | (l2, out, None) \<Rightarrow>
                   (case netStart of
                      Some e \<Rightarrow> (let (l3, out3) = Looseberry_stopComponents C now l2
                                 in (l3\<lparr>lb_running := False\<rparr>, out @ out3, Some (wrap_error ''start network'' e)))
                    | None \<Rightarrow> (l2\<lparr>lb_startNanos := now, lb_lastCommitNanos := now\<rparr>, out, None))))"

definition Looseberry_Stop :: "crypto \<Rightarrow> time \<Rightarrow> Looseberry \<Rightarrow> Looseberry \<times> node_output list \<times> err option" where
  "Looseberry_Stop C now l =
     (if \<not> lb_running l then (l, [], Some ErrNotRunning)
      else let (l1, out) = Looseberry_stopComponents C now (l\<lparr>lb_running := False\<rparr>)
           in (l1\<lparr>lb_batchStore := map_option (\<lambda>s. fst (MemoryBatchStore_Close s)) (lb_batchStore l1),
                  lb_certStore := map_option (\<lambda>s. fst (MemoryCertificateStore_Close s)) (lb_certStore l1),
                  lb_txIndex := map_option (\<lambda>s. fst (MemoryTxIndex_Close s)) (lb_txIndex l1)\<rparr>, out, None))"

definition Looseberry_IsRunning :: "Looseberry \<Rightarrow> bool" where
  "Looseberry_IsRunning l = lb_running l"

section \<open>Recovery of a stuck cluster\<close>

definition rebroadcastStartupGrace :: int where
  "rebroadcastStartupGrace = 15 * 1000000000"

definition stuckRebroadcastThreshold :: int where
  "stuckRebroadcastThreshold = 3 * 1000000000"

definition rebroadcastMinAge :: int where
  "rebroadcastMinAge = 2 * 1000000000"

definition syncStuckGrace :: int where
  "syncStuckGrace = 2 * 1000000000"

text \<open>\<open>word\<close> and \<open>hord\<close> are the orders in which the pending batches of a worker and the tracked headers are visited.\<close>

definition Looseberry_rebroadcastIfStuck :: "(Worker \<Rightarrow> hash list) \<Rightarrow> hash list \<Rightarrow> time \<Rightarrow> node_op" where
  "Looseberry_rebroadcastIfStuck word hord now l =
     (if lb_startNanos l = 0 then (l, [])
      else if now - lb_startNanos l < rebroadcastStartupGrace then (l, [])
      else if now - lb_lastCommitNanos l < stuckRebroadcastThreshold then (l, [])
      else case lb_components l of
        None \<Rightarrow> (l, [])
      | Some c \<Rightarrow>
          if \<not> lb_network l then (l, [])
          else let batches = Pool_PendingBatchesBelowQuorum word now rebroadcastMinAge (lb_workerPool c);
                   headers = Primary_PendingHeadersOlderThan hord now rebroadcastMinAge (lb_primaryNode c)
               in if length batches = 0 \<and> length headers = 0 then (l, [])
                  else then_do
                    (for_each (\<lambda>b. Looseberry_dispatchAsync (send (BroadcastBatch b))) batches)
                    (for_each (\<lambda>h. Looseberry_dispatchAsync (send (BroadcastHeader h))) headers)
                    (l\<lparr>lb_totalRebroadcastFires := lb_totalRebroadcastFires l + 1,
                       lb_totalRebroadcastedBatches := lb_totalRebroadcastedBatches l + of_nat (length batches),
                       lb_totalRebroadcastedHeaders := lb_totalRebroadcastedHeaders l + of_nat (length headers)\<rparr>))"

definition node_RequestPeerCatchUp :: "u16 \<Rightarrow> (u16 \<Rightarrow> err option) \<Rightarrow> time \<Rightarrow> u16 \<Rightarrow> node_op" where
  "node_RequestPeerCatchUp me sent now peerIdx l =
     (case lb_components l of
        None \<Rightarrow> (l, [])
      | Some c \<Rightarrow> (let (s, calls, e) = SyncManager_RequestPeerCatchUp me sent now peerIdx (lb_syncManager c)
                   in (set_components (c\<lparr>lb_syncManager := s\<rparr>) l, map Net calls)))"

definition Looseberry_RequestPeerCatchUp :: "u16 \<Rightarrow> (u16 \<Rightarrow> err option) \<Rightarrow> time \<Rightarrow> u16 \<Rightarrow> node_op" where
  "Looseberry_RequestPeerCatchUp me sent now peerIdx =
     Looseberry_dispatchAsync (node_RequestPeerCatchUp me sent now peerIdx)"

text \<open>The node's own index, or the first one of the set if its own is not there.\<close>

definition stuck_myID :: "NodeConfig \<Rightarrow> Validator list \<Rightarrow> u16" where
  "stuck_myID cfg vs =
     (if list_ex (\<lambda>v. val_Index v = nc_ValidatorIndex cfg) vs then nc_ValidatorIndex cfg else val_Index (vs ! 0))"

text \<open>\<open>None\<close> is the panic of \<^verbatim>\<open>Validators()[0]\<close> on an empty validator set.\<close>

definition Looseberry_syncIfStuck ::
  "u16 \<Rightarrow> (u16 \<Rightarrow> err option) \<Rightarrow> time \<Rightarrow> Looseberry \<Rightarrow> (Looseberry \<times> node_output list) option" where
  "Looseberry_syncIfStuck me sent now l =
     (if lb_startNanos l = 0 then Some (l, [])
      else if now - lb_startNanos l < syncStuckGrace then Some (l, [])
      else case (lb_components l, lb_validatorSet l) of
        (Some c, Some vs) \<Rightarrow>
          if pr_currentRound (lb_primaryNode c) \<noteq> 0 then Some (l, [])
          else if length (svs_validators vs) = 0 then None
          else let myID = stuck_myID (lb_cfg l) (svs_validators vs)
               in Some (for_each (Looseberry_RequestPeerCatchUp me sent now)
                    (map val_Index (filter (\<lambda>v. val_Index v \<noteq> myID) (svs_validators vs))) l)
      | _ \<Rightarrow> Some (l, []))"

section \<open>The mempool interface\<close>

definition Looseberry_AddTx :: "crypto \<Rightarrow> transaction \<Rightarrow> Looseberry \<Rightarrow> Looseberry \<times> err option" where
  "Looseberry_AddTx C tx l =
     (if \<not> lb_running l then (l, Some ErrNotRunning)
      else case lb_components l of
        None \<Rightarrow> (l\<lparr>lb_totalTxRejected := lb_totalTxRejected l + 1\<rparr>, Some ErrNotRunning)
      | Some c \<Rightarrow>
          if FlowController_IsPaused (lb_flowController c)
          then (l\<lparr>lb_totalTxRejected := lb_totalTxRejected l + 1\<rparr>, Some ErrFlowControlPaused)
          else case Pool_AddTx C tx (node_storage l) (lb_workerPool c) of
            (p, Some e) \<Rightarrow> ((set_components (c\<lparr>lb_workerPool := p\<rparr>) l)\<lparr>lb_totalTxRejected := lb_totalTxRejected l + 1\<rparr>, Some e)
          | (p, None) \<Rightarrow> ((set_components (c\<lparr>lb_workerPool := p\<rparr>) l)\<lparr>lb_totalTxAdded := lb_totalTxAdded l + 1\<rparr>, None))"

text \<open>
  The two nested loops of \<^verbatim>\<open>ReapCertifiedBatches\<close> over the certificates and the batches they cite; the first
  arguments are the digests seen, the bytes so far and the result so far.
\<close>

fun reap_loop ::
  "MemoryBatchStore \<Rightarrow> int \<Rightarrow> hash list \<Rightarrow> int \<Rightarrow> CertifiedBatch list \<Rightarrow> (Certificate \<times> hash) list \<Rightarrow> CertifiedBatch list" where
  "reap_loop bs maxBytes seen totalBytes result [] = result"
| "reap_loop bs maxBytes seen totalBytes result ((cert, digest) # refs) =
     (if digest \<in> set seen then reap_loop bs maxBytes seen totalBytes result refs
      else case MemoryBatchStore_GetBatch digest bs of
        Inl _ \<Rightarrow> reap_loop bs maxBytes seen totalBytes result refs
      | Inr batch \<Rightarrow>
          (let batchSize = Batch_Size batch
           in if totalBytes + batchSize > maxBytes \<and> length result > 0 then result
              else reap_loop bs maxBytes (digest # seen) (totalBytes + batchSize)
                     (result @ [\<lparr>cb_Batch = batch, cb_Certificate = cert\<rparr>]) refs))"

definition cited :: "Certificate list \<Rightarrow> (Certificate \<times> hash) list" where
  "cited certs = concat (map (\<lambda>cert. map (\<lambda>ref. (cert, bd_Digest ref)) (h_BatchRefs (c_Header cert))) certs)"

text \<open>\<open>None\<close> when the search for the certificates does not return.\<close>

definition Looseberry_ReapCertifiedBatches :: "cert_order \<Rightarrow> int \<Rightarrow> Looseberry \<Rightarrow> CertifiedBatch list option" where
  "Looseberry_ReapCertifiedBatches ord maxBytes l =
     (case (lb_components l, lb_batchStore l, lb_certStore l) of
        (Some c, Some bs, Some cs) \<Rightarrow>
          (let d = node_dag c cs; currentRound = DAG_HighestRound d
           in if DAG_HasCommitted d \<and> currentRound \<le> DAG_CommittedRound d then Some []
              else let fromRound = (if DAG_HasCommitted d then DAG_CommittedRound d + 1 else 0)
                   in case DAG_GetOrderedCertificates ord fromRound currentRound d of
                        None \<Rightarrow> None
                      | Some certs \<Rightarrow> Some (reap_loop bs maxBytes [] 0 [] (cited certs)))
      | _ \<Rightarrow> Some [])"

definition Looseberry_NotifyCommitted ::
  "crypto \<Rightarrow> cert_order \<Rightarrow> hash list \<Rightarrow> time \<Rightarrow> u64 \<Rightarrow> Looseberry \<Rightarrow> Looseberry" where
  "Looseberry_NotifyCommitted C ord ks now rnd l =
     (let l1 = fst (with_components (\<lambda>c bs cs idx l.
                 let d = DAG_SetCommittedRound rnd (node_dag c cs);
                     fc = fst (FlowController_UpdateCommittedRound rnd (lb_flowController c));
                     cb = (if ng_RecoverTxs (nc_GC (lb_cfg l)) then Some (Looseberry_onTxRecovered C bs) else None);
                     (gc, d1, bs1, idx1, pool, e) =
                       GCManager_NotifyCommitted cb ord ks rnd (lb_gcManager c) d bs idx (lb_workerPool c)
                 in (set_dag d1 (c\<lparr>lb_flowController := fc, lb_gcManager := gc, lb_workerPool := pool\<rparr>)
                       (l\<lparr>lb_batchStore := Some bs1, lb_txIndex := Some idx1\<rparr>), [])) l)
      in if rnd > lb_lastCommittedRound l1
         then l1\<lparr>lb_lastCommittedRound := rnd, lb_lastCommitNanos := now\<rparr> else l1)"

definition Looseberry_UpdateValidatorSet :: "SimpleValidatorSet \<Rightarrow> Looseberry \<Rightarrow> Looseberry" where
  "Looseberry_UpdateValidatorSet validators l =
     (let l1 = l\<lparr>lb_validatorSet := Some validators\<rparr>
      in l1\<lparr>lb_components := map_option (\<lambda>c. c
             \<lparr>lb_workerPool := Pool_UpdateQuorum (ValidatorSet_Quorum validators) (lb_workerPool c),
              lb_primaryNode := Primary_UpdateValidatorSet validators (lb_primaryNode c),
              lb_syncManager := SyncManager_UpdateValidatorSet validators (lb_syncManager c),
              lb_batchFetcher := BatchFetcher_UpdateValidators (Looseberry_peerValidatorIndices l1) (lb_batchFetcher c)\<rparr>)
             (lb_components l1)\<rparr>)"

text \<open>\<^verbatim>\<open>copy\<close> into a 32-byte array: a longer slice is cut, a shorter one is padded with zeros.\<close>

definition Looseberry_HasTx :: "byte list \<Rightarrow> Looseberry \<Rightarrow> bool" where
  "Looseberry_HasTx hash l =
     (case lb_txIndex l of
        None \<Rightarrow> False
      | Some idx \<Rightarrow> MemoryTxIndex_HasTx (be_word (take 32 (hash @ replicate 32 0))) idx)"

definition Looseberry_Size :: "Looseberry \<Rightarrow> nat" where
  "Looseberry_Size l = (case lb_components l of None \<Rightarrow> 0 | Some c \<Rightarrow> Pool_PendingCount (lb_workerPool c))"

definition Looseberry_SizeBytes :: "Looseberry \<Rightarrow> int" where
  "Looseberry_SizeBytes l = (case lb_components l of None \<Rightarrow> 0 | Some c \<Rightarrow> Pool_PendingBytes (lb_workerPool c))"

definition Looseberry_Flush :: "crypto \<Rightarrow> time \<Rightarrow> node_op" where
  "Looseberry_Flush C now l =
     (if \<not> lb_running l then (l, [])
      else then_do (stop_pool C now) (\<lambda>l. let (l1, out, _) = start_pool C now l in (l1, out)) l)"

definition Looseberry_CurrentRound :: "Looseberry \<Rightarrow> u64" where
  "Looseberry_CurrentRound l =
     (case lb_components l of None \<Rightarrow> 0 | Some c \<Rightarrow> pr_currentRound (lb_primaryNode c))"

definition Looseberry_HighestRound :: "Looseberry \<Rightarrow> u64" where
  "Looseberry_HighestRound l = (case lb_components l of None \<Rightarrow> 0 | Some c \<Rightarrow> DAG_HighestRound (lb_dag c))"

section \<open>Inspection and catching up\<close>

definition Looseberry_CatchUpPeerCerts :: "cert_order \<Rightarrow> Looseberry \<Rightarrow> (Looseberry \<times> node_output list) option" where
  "Looseberry_CatchUpPeerCerts ord l =
     (case (lb_components l, lb_certStore l) of
        (Some c, Some cs) \<Rightarrow>
          if \<not> lb_network l then Some (l, [])
          else (case DAG_GetOrderedCertificates ord 0 (DAG_HighestRound (node_dag c cs)) (node_dag c cs) of
                  None \<Rightarrow> None
                | Some certs \<Rightarrow>
                    Some (for_each (\<lambda>cert. Looseberry_dispatchAsync (send (BroadcastCertificate cert))) certs l))
      | _ \<Rightarrow> Some (l, []))"

definition Looseberry_SyncDiagnostics :: "Looseberry \<Rightarrow> SyncDiagnostics" where
  "Looseberry_SyncDiagnostics l =
     (case lb_components l of
        None \<Rightarrow> \<lparr>sd_PeerHighest = fmempty, sd_PendingReqs = fmempty\<rparr>
      | Some c \<Rightarrow> SyncManager_Diagnostics (lb_syncManager c))"

definition Looseberry_CertStoreRoundCount :: "u64 \<Rightarrow> Looseberry \<Rightarrow> nat" where
  "Looseberry_CertStoreRoundCount rnd l =
     (case lb_certStore l of
        None \<Rightarrow> 0
      | Some cs \<Rightarrow> (case MemoryCertificateStore_GetCertificatesByRound rnd cs of Inl _ \<Rightarrow> 0 | Inr certs \<Rightarrow> length certs))"

definition Looseberry_DAGRoundCount :: "cert_order \<Rightarrow> u64 \<Rightarrow> Looseberry \<Rightarrow> nat" where
  "Looseberry_DAGRoundCount ord rnd l =
     (case (lb_components l, lb_certStore l) of
        (Some c, Some cs) \<Rightarrow> length (DAG_GetCertificatesForRound ord rnd (node_dag c cs))
      | _ \<Rightarrow> 0)"

definition Looseberry_DAGRoundAuthors :: "cert_order \<Rightarrow> u64 \<Rightarrow> Looseberry \<Rightarrow> u16 list" where
  "Looseberry_DAGRoundAuthors ord rnd l =
     (case (lb_components l, lb_certStore l) of
        (Some c, Some cs) \<Rightarrow> map Certificate_Author (DAG_GetCertificatesForRound ord rnd (node_dag c cs))
      | _ \<Rightarrow> [])"

text \<open>The counters of committed transactions, certified batches and certificates are never set.\<close>

definition Looseberry_Metrics :: "Looseberry \<Rightarrow> NodeMetrics" where
  "Looseberry_Metrics l =
     (let m = \<lparr>nm_PendingTxCount = 0, nm_PendingTxBytes = 0, nm_TotalTxAdded = lb_totalTxAdded l,
               nm_TotalTxRejected = lb_totalTxRejected l, nm_TotalTxCommitted = 0, nm_TotalBatches = lb_totalBatches l,
               nm_TotalBatchesCertified = 0, nm_CurrentRound = 0, nm_CommittedRound = 0, nm_HighestRound = 0,
               nm_WorkerCount = 0, nm_WorkerLoad = 0, nm_IsPaused = False, nm_PauseCount = 0, nm_ResumeCount = 0,
               nm_UncommittedGap = 0, nm_TotalCertificates = 0, nm_RebroadcastFires = lb_totalRebroadcastFires l,
               nm_RebroadcastedBatches = lb_totalRebroadcastedBatches l,
               nm_RebroadcastedHeaders = lb_totalRebroadcastedHeaders l\<rparr>
      in case lb_components l of
           None \<Rightarrow> m
         | Some c \<Rightarrow>
             (let f = FlowController_Metrics (lb_flowController c)
              in m\<lparr>nm_PendingTxCount := Pool_PendingCount (lb_workerPool c),
                   nm_PendingTxBytes := Pool_PendingBytes (lb_workerPool c),
                   nm_WorkerCount := Pool_WorkerCount (lb_workerPool c),
                   nm_WorkerLoad := slm_CurrentLoad (Scaler_Metrics (lb_workerScaler c) (lb_workerPool c)),
                   nm_CommittedRound := DAG_CommittedRound (lb_dag c), nm_HighestRound := DAG_HighestRound (lb_dag c),
                   nm_CurrentRound := pr_currentRound (lb_primaryNode c),
                   nm_IsPaused := fm_IsPaused f, nm_PauseCount := fm_PauseCount f, nm_ResumeCount := fm_ResumeCount f,
                   nm_UncommittedGap := fm_UncommittedGap f\<rparr>))"

end
