(* ===== verification/Node_Runs.thy ===== *)
theory Node_Runs
  imports Node_Lifecycle
begin

text \<open>
  Runs of a node: the message loop, the loops of the components and the calls of the application as events of
  one step function, sequences of such steps, and an invariant of all of them with a small calculus for
  operations that keep it (\<open>safe\<close>).
\<close>

section \<open>Steps\<close>

text \<open>What a step needs of its surroundings: cryptography, the orders in which maps are visited, the validator
  that the network names and the errors of sent sync requests.\<close>

record node_env =
  ne_crypto :: crypto
  ne_votes :: vote_order
  ne_certs :: cert_order
  ne_orphans :: orphan_order
  ne_me :: u16
  ne_sent :: "u16 \<Rightarrow> err option"

datatype node_message =
    BatchMsg BatchMessage
  | HeaderMsg HeaderMessage
  | VoteMsg VoteMessage
  | CertificateMsg CertificateMessage
  | BatchAckMsg BatchAckMessage
  | BatchRequestMsg BatchRequestMessage
  | BatchResponseMsg BatchResponseMessage
  | SyncRequestMsg SyncRequest
  | SyncResponseMsg SyncResponseMessage

definition Looseberry_messageLoop_step ::
  "node_env \<Rightarrow> time \<Rightarrow> node_message \<Rightarrow> Looseberry \<Rightarrow> (Looseberry \<times> node_output list) option" where
  "Looseberry_messageLoop_step env now msg l =
     (case msg of
        BatchMsg m \<Rightarrow> Some (Looseberry_handleBatchMessage (ne_crypto env) now m l)
      | HeaderMsg m \<Rightarrow> Some (Looseberry_handleHeaderMessage (ne_crypto env) now m l)
      | VoteMsg m \<Rightarrow> Some (Looseberry_handleVoteMessage (ne_crypto env) (ne_votes env) now m l)
      | CertificateMsg m \<Rightarrow> Some (Looseberry_handleCertificateMessage (ne_crypto env) (ne_orphans env) m l)
      | BatchAckMsg m \<Rightarrow> Some (Looseberry_handleBatchAckMessage (ne_crypto env) now m l)
      | BatchRequestMsg m \<Rightarrow> Some (Looseberry_handleBatchRequestMessage m l)
      | BatchResponseMsg m \<Rightarrow> Some (Looseberry_handleBatchResponseMessage (ne_crypto env) now m l)
      | SyncRequestMsg m \<Rightarrow> Looseberry_handleSyncRequest (ne_certs env) m l
      | SyncResponseMsg m \<Rightarrow> Some (Looseberry_handleSyncResponse (ne_crypto env) (ne_orphans env) m l))"

text \<open>One tick of \<^verbatim>\<open>rebroadcastLoop\<close>.\<close>

definition Looseberry_rebroadcastLoop_tick ::
  "node_env \<Rightarrow> (Worker \<Rightarrow> hash list) \<Rightarrow> hash list \<Rightarrow> time \<Rightarrow> Looseberry \<Rightarrow> (Looseberry \<times> node_output list) option" where
  "Looseberry_rebroadcastLoop_tick env word hord now l =
     (let (l1, o1) = Looseberry_rebroadcastIfStuck word hord now l
      in case Looseberry_syncIfStuck (ne_me env) (ne_sent env) now l1 of
           None \<Rightarrow> None
         | Some (l2, o2) \<Rightarrow> Some (l2, o1 @ o2))"

text \<open>The loops of the components, with the callbacks they make.\<close>

definition node_worker_step :: "crypto \<Rightarrow> time \<Rightarrow> nat \<Rightarrow> loop_event \<Rightarrow> node_op" where
  "node_worker_step C now i ev l =
     (case lb_components l of
        None \<Rightarrow> (l, [])
      | Some c \<Rightarrow>
          (let p = lb_workerPool c
           in if i < length (p_workers p)
              then let (w, st, b, _) = Worker_batchLoop_step C now ev (node_storage l) (p_workers p ! i)
                   in for_each Looseberry_onBatchCreated (case b of None \<Rightarrow> [] | Some x \<Rightarrow> [x])
                        (set_pool (p\<lparr>p_workers := (p_workers p)[i := w]\<rparr>) st c l)
              else (l, [])))"

definition node_scaler_step :: "crypto \<Rightarrow> time \<Rightarrow> node_op" where
  "node_scaler_step C now l =
     (case lb_components l of
        None \<Rightarrow> (l, [])
      | Some c \<Rightarrow>
          (let (s, p, st, b) = Scaler_checkAndScale C now (node_storage l) (lb_workerScaler c) (lb_workerPool c)
           in for_each Looseberry_onBatchCreated (case b of None \<Rightarrow> [] | Some x \<Rightarrow> [x])
                (set_pool p st (c\<lparr>lb_workerScaler := s\<rparr>) l)))"

definition node_header_tick :: "crypto \<Rightarrow> vote_order \<Rightarrow> time \<Rightarrow> node_op" where
  "node_header_tick C ord now =
     with_components (\<lambda>c bs cs idx l.
       let acked = Some (\<lambda>digest. Pool_HasBatchAckQuorum digest (lb_workerPool c));
           (p, cs1, certs, header) = Primary_headerLoop_step C ord now (HeaderTick acked) (lb_primaryNode c) cs
       in then_do (for_each Looseberry_onCertificateFormed certs)
            (for_each Looseberry_onHeaderCreated (case header of None \<Rightarrow> [] | Some h \<Rightarrow> [h]))
            (l\<lparr>lb_components := Some (c\<lparr>lb_primaryNode := p\<rparr>), lb_certStore := Some cs1\<rparr>))"

definition node_primary_cleanup :: "hash list \<Rightarrow> time \<Rightarrow> node_op" where
  "node_primary_cleanup ks now l =
     (l\<lparr>lb_components := map_option (\<lambda>c. c\<lparr>lb_primaryNode := Primary_cleanupPendingVotes ks now (lb_primaryNode c)\<rparr>)
          (lb_components l)\<rparr>, [])"

definition node_fetcher_tick :: "hash list \<Rightarrow> time \<Rightarrow> node_op" where
  "node_fetcher_tick ks now l =
     (case lb_components l of
        None \<Rightarrow> (l, [])
      | Some c \<Rightarrow> (let (bf, reqs) = BatchFetcher_cleanup_tick ks now (lb_batchFetcher c)
                   in for_each Looseberry_onBatchRequest reqs (set_components (c\<lparr>lb_batchFetcher := bf\<rparr>) l)))"

definition node_sync_tick :: "node_env \<Rightarrow> time \<Rightarrow> sync_event \<Rightarrow> node_op" where
  "node_sync_tick env now ev =
     with_components (\<lambda>c bs cs idx l.
       let (s, calls) = SyncManager_syncLoop_step (ne_me env) (ne_sent env) now ev (node_dag c cs) (lb_syncManager c)
       in (set_components (c\<lparr>lb_syncManager := s\<rparr>) l, map Net calls))"

definition node_gc_tick :: "node_env \<Rightarrow> hash list \<Rightarrow> int \<Rightarrow> node_op" where
  "node_gc_tick env ks duration =
     with_components (\<lambda>c bs cs idx l.
       let cb = (if ng_RecoverTxs (nc_GC (lb_cfg l)) then Some (Looseberry_onTxRecovered (ne_crypto env) bs) else None);
           (gc, d, bs1, idx1, pool) =
             GCManager_gcLoop_tick cb (ne_certs env) ks duration (lb_gcManager c) (node_dag c cs) bs idx (lb_workerPool c)
       in (set_dag d (c\<lparr>lb_gcManager := gc, lb_workerPool := pool\<rparr>)
             (l\<lparr>lb_batchStore := Some bs1, lb_txIndex := Some idx1\<rparr>), []))"

datatype node_event =
    Message node_message
  | WorkerEvent nat loop_event
  | ScalerTick
  | NodeHeaderTick
  | PrimaryCleanup "hash list"
  | FetcherTick "hash list"
  | SyncEvent sync_event
  | GcTick "hash list" int
  | RebroadcastTick "Worker \<Rightarrow> hash list" "hash list"
  | AppAddTx transaction
  | AppCommitted "hash list" u64
  | AppFlush
  | AppCatchUp
  | AppRequestCatchUp u16

definition node_step ::
  "node_env \<Rightarrow> time \<Rightarrow> node_event \<Rightarrow> Looseberry \<Rightarrow> (Looseberry \<times> node_output list) option" where
  "node_step env now ev l =
     (let C = ne_crypto env in
      case ev of
        Message m \<Rightarrow> Looseberry_messageLoop_step env now m l
      | WorkerEvent i e \<Rightarrow> Some (node_worker_step C now i e l)
      | ScalerTick \<Rightarrow> Some (node_scaler_step C now l)
      | NodeHeaderTick \<Rightarrow> Some (node_header_tick C (ne_votes env) now l)
      | PrimaryCleanup ks \<Rightarrow> Some (node_primary_cleanup ks now l)
      | FetcherTick ks \<Rightarrow> Some (node_fetcher_tick ks now l)
      | SyncEvent e \<Rightarrow> Some (node_sync_tick env now e l)
      | GcTick ks duration \<Rightarrow> Some (node_gc_tick env ks duration l)
      | RebroadcastTick word hord \<Rightarrow> Looseberry_rebroadcastLoop_tick env word hord now l
      | AppAddTx tx \<Rightarrow> Some (fst (Looseberry_AddTx C tx l), [])
      | AppCommitted ks rnd \<Rightarrow> Some (Looseberry_NotifyCommitted C (ne_certs env) ks now rnd l, [])
      | AppFlush \<Rightarrow> Some (Looseberry_Flush C now l)
      | AppCatchUp \<Rightarrow> Looseberry_CatchUpPeerCerts (ne_certs env) l
      | AppRequestCatchUp peer \<Rightarrow> Some (Looseberry_RequestPeerCatchUp (ne_me env) (ne_sent env) now peer l))"

text \<open>
  Runs with a fixed configuration and validator set. The last arguments are the acknowledgments received and
  the outputs so far. The errors of sent sync requests may differ from step to step.
\<close>

inductive node_run ::
  "node_env \<Rightarrow> NodeConfig \<Rightarrow> SimpleValidatorSet \<Rightarrow> Looseberry \<Rightarrow> BatchAckMessage set \<Rightarrow> node_output list \<Rightarrow> bool"
  for env cfg vs where
  new: "NewLooseberry cfg = Inr l \<Longrightarrow>
    node_run env cfg vs (Looseberry_SetNetwork True (Looseberry_SetValidatorSet vs l)) {} []"
| stores: "node_run env cfg vs l M out \<Longrightarrow> lb_components l = None \<Longrightarrow>
    node_run env cfg vs (Looseberry_SetStores bs cs idx l) M out"
| ack_cb: "node_run env cfg vs l M out \<Longrightarrow> node_run env cfg vs (Looseberry_SetAckQuorumCallback cb l) M out"
| cert_cb: "node_run env cfg vs l M out \<Longrightarrow> node_run env cfg vs (Looseberry_SetCertQuorumCallback cb l) M out"
| start: "node_run env cfg vs l M out \<Longrightarrow> Looseberry_Start (ne_crypto env) db netStart now l = (l', out', e) \<Longrightarrow>
    node_run env cfg vs l' M (out @ out')"
| stop: "node_run env cfg vs l M out \<Longrightarrow> Looseberry_Stop (ne_crypto env) now l = (l', out', e) \<Longrightarrow>
    node_run env cfg vs l' M (out @ out')"
| step: "node_run env cfg vs l M out \<Longrightarrow> node_step (env\<lparr>ne_sent := sent\<rparr>) now ev l = Some (l', out') \<Longrightarrow>
    node_run env cfg vs l' (case ev of Message (BatchAckMsg m) \<Rightarrow> insert m M | _ \<Rightarrow> M) (out @ out')"

end
