(* ===== verification/Mock_Network.thy ===== *)
theory Mock_Network
  imports Node_Runs
begin

text \<open>
  The in-process network (\<^verbatim>\<open>network/mock.go\<close>) that implements the \<^verbatim>\<open>Network\<close> interface by putting messages into the
  channels of the connected peers, and its refinement to queues of messages.

  The networks are objects that refer to each other. A reference is a number and the heap \<open>h\<close> gives the object of each
  reference; an operation on a network takes its reference and the heap and returns the new heap. A channel is the list
  of the messages in it. It holds at most \<open>BufferSize\<close> messages: a send in a \<^verbatim>\<open>select\<close> with a default succeeds exactly
  if there is room. A channel without a buffer, which hands a message to a reader that waits, is not modelled.
  The order in which a broadcast visits the map of the peers is the argument \<open>ord\<close>.
\<close>

section \<open>State\<close>

record NetworkConfig =
  nwc_BufferSize :: int
  nwc_SyncBatchSize :: int
  nwc_SyncTimeout :: int

definition DefaultNetworkConfig :: NetworkConfig where
  "DefaultNetworkConfig = \<lparr>nwc_BufferSize = 1000, nwc_SyncBatchSize = 100, nwc_SyncTimeout = 30000\<rparr>"

record MockNetworkStats =
  ms_BatchesBroadcast :: int
  ms_HeadersBroadcast :: int
  ms_CertificatesBroadcast :: int
  ms_VotesSent :: int
  ms_BatchAcksSent :: int
  ms_BatchRequestsSent :: int
  ms_BatchResponsesSent :: int
  ms_SyncRequestsSent :: int
  ms_SyncResponsesSent :: int

definition zero_stats :: MockNetworkStats where
  "zero_stats = \<lparr>ms_BatchesBroadcast = 0, ms_HeadersBroadcast = 0, ms_CertificatesBroadcast = 0, ms_VotesSent = 0,
     ms_BatchAcksSent = 0, ms_BatchRequestsSent = 0, ms_BatchResponsesSent = 0, ms_SyncRequestsSent = 0, ms_SyncResponsesSent = 0\<rparr>"

record MockNetwork =
  mn_validatorID :: u16
  mn_cfg :: NetworkConfig
  mn_batchCh :: "BatchMessage list"
  mn_batchAckCh :: "BatchAckMessage list"
  mn_batchReqCh :: "BatchRequestMessage list"
  mn_batchRespCh :: "BatchResponseMessage list"
  mn_headerCh :: "HeaderMessage list"
  mn_voteCh :: "VoteMessage list"
  mn_certCh :: "CertificateMessage list"
  mn_syncReqCh :: "SyncRequest list"
  mn_syncRespCh :: "SyncResponseMessage list"
  mn_peers :: "(u16, nat) fmap"
  mn_running :: bool
  mn_stopClosed :: bool
  mn_stats :: MockNetworkStats

type_synonym mock_heap = "nat \<Rightarrow> MockNetwork"
type_synonym peer_order = "(u16, nat) fmap \<Rightarrow> u16 list"

text \<open>\<open>None\<close> is the panic of \<^verbatim>\<open>make\<close> for a negative size.\<close>

definition NewMockNetwork :: "u16 \<Rightarrow> NetworkConfig \<Rightarrow> MockNetwork option" where
  "NewMockNetwork validatorID cfg =
     (if nwc_BufferSize cfg < 0 then None
      else Some \<lparr>mn_validatorID = validatorID, mn_cfg = cfg, mn_batchCh = [], mn_batchAckCh = [], mn_batchReqCh = [],
        mn_batchRespCh = [], mn_headerCh = [], mn_voteCh = [], mn_certCh = [], mn_syncReqCh = [], mn_syncRespCh = [],
        mn_peers = fmempty, mn_running = False, mn_stopClosed = False, mn_stats = zero_stats\<rparr>)"

text \<open>The non-blocking send: the new channel and whether the message was taken.\<close>

definition chan_send :: "MockNetwork \<Rightarrow> 'a \<Rightarrow> 'a list \<Rightarrow> 'a list \<times> bool" where
  "chan_send m msg ch = (if int (length ch) < nwc_BufferSize (mn_cfg m) then (ch @ [msg], True) else (ch, False))"

section \<open>Connections and lifecycle\<close>

definition MockNetwork_Connect :: "nat \<Rightarrow> nat \<Rightarrow> mock_heap \<Rightarrow> mock_heap" where
  "MockNetwork_Connect m peer h =
     (let h1 = h(m := (h m)\<lparr>mn_peers := fmupd (mn_validatorID (h peer)) peer (mn_peers (h m))\<rparr>)
      in h1(peer := (h1 peer)\<lparr>mn_peers := fmupd (mn_validatorID (h1 m)) m (mn_peers (h1 peer))\<rparr>))"

definition MockNetwork_Disconnect :: "nat \<Rightarrow> u16 \<Rightarrow> mock_heap \<Rightarrow> mock_heap" where
  "MockNetwork_Disconnect m validatorID h =
     (let peer = fmlookup (mn_peers (h m)) validatorID;
          h1 = h(m := (h m)\<lparr>mn_peers := fmdrop validatorID (mn_peers (h m))\<rparr>)
      in case peer of
           None \<Rightarrow> h1
         | Some p \<Rightarrow> h1(p := (h1 p)\<lparr>mn_peers := fmdrop (mn_validatorID (h1 m)) (mn_peers (h1 p))\<rparr>))"

definition MockNetwork_Start :: "nat \<Rightarrow> mock_heap \<Rightarrow> mock_heap \<times> err option" where
  "MockNetwork_Start m h =
     (h(m := (h m)\<lparr>mn_running := True\<rparr>), if mn_running (h m) then Some ErrAlreadyRunning else None)"

text \<open>\<open>None\<close> is the panic of closing a closed channel.\<close>

definition MockNetwork_Stop :: "nat \<Rightarrow> mock_heap \<Rightarrow> (mock_heap \<times> err option) option" where
  "MockNetwork_Stop m h =
     (let h1 = h(m := (h m)\<lparr>mn_running := False\<rparr>)
      in if \<not> mn_running (h m) then Some (h1, Some ErrNotRunning)
         else if mn_stopClosed (h m) then None
         else Some (h1(m := (h1 m)\<lparr>mn_stopClosed := True\<rparr>), None))"

definition MockNetwork_ValidatorID :: "nat \<Rightarrow> mock_heap \<Rightarrow> u16" where
  "MockNetwork_ValidatorID m h = mn_validatorID (h m)"

section \<open>Broadcasts\<close>

definition MockNetwork_BroadcastBatch :: "peer_order \<Rightarrow> nat \<Rightarrow> Batch \<Rightarrow> mock_heap \<Rightarrow> mock_heap \<times> err option" where
  "MockNetwork_BroadcastBatch ord m batch h =
     (if \<not> mn_running (h m) then (h, Some ErrNotRunning)
      else let h1 = h(m := (h m)\<lparr>mn_stats := (mn_stats (h m))\<lparr>ms_BatchesBroadcast := ms_BatchesBroadcast (mn_stats (h m)) + 1\<rparr>\<rparr>);
               msg = \<lparr>bm_Batch = Some batch, bm_From = mn_validatorID (h m)\<rparr>
           in (fold (\<lambda>peer h. h(peer := (h peer)\<lparr>mn_batchCh := fst (chan_send (h peer) msg (mn_batchCh (h peer)))\<rparr>))
                 (map_values (ord (mn_peers (h m))) (mn_peers (h m))) h1, None))"

definition MockNetwork_BroadcastHeader :: "peer_order \<Rightarrow> nat \<Rightarrow> Header \<Rightarrow> mock_heap \<Rightarrow> mock_heap \<times> err option" where
  "MockNetwork_BroadcastHeader ord m header h =
     (if \<not> mn_running (h m) then (h, Some ErrNotRunning)
      else let h1 = h(m := (h m)\<lparr>mn_stats := (mn_stats (h m))\<lparr>ms_HeadersBroadcast := ms_HeadersBroadcast (mn_stats (h m)) + 1\<rparr>\<rparr>);
               msg = \<lparr>hm_Header = Some header, hm_From = mn_validatorID (h m)\<rparr>
           in (fold (\<lambda>peer h. h(peer := (h peer)\<lparr>mn_headerCh := fst (chan_send (h peer) msg (mn_headerCh (h peer)))\<rparr>))
                 (map_values (ord (mn_peers (h m))) (mn_peers (h m))) h1, None))"

definition MockNetwork_BroadcastCertificate :: "peer_order \<Rightarrow> nat \<Rightarrow> Certificate \<Rightarrow> mock_heap \<Rightarrow> mock_heap \<times> err option" where
  "MockNetwork_BroadcastCertificate ord m cert h =
     (if \<not> mn_running (h m) then (h, Some ErrNotRunning)
      else let h1 = h(m := (h m)\<lparr>mn_stats := (mn_stats (h m))\<lparr>ms_CertificatesBroadcast := ms_CertificatesBroadcast (mn_stats (h m)) + 1\<rparr>\<rparr>);
               msg = \<lparr>cm_Certificate = Some cert, cm_From = mn_validatorID (h m)\<rparr>
           in (fold (\<lambda>peer h. h(peer := (h peer)\<lparr>mn_certCh := fst (chan_send (h peer) msg (mn_certCh (h peer)))\<rparr>))
                 (map_values (ord (mn_peers (h m))) (mn_peers (h m))) h1, None))"

section \<open>Sends\<close>

definition MockNetwork_SendVote :: "nat \<Rightarrow> u16 \<Rightarrow> Vote \<Rightarrow> mock_heap \<Rightarrow> mock_heap \<times> err option" where
  "MockNetwork_SendVote m validator vote h =
     (if \<not> mn_running (h m) then (h, Some ErrNotRunning)
      else let h1 = h(m := (h m)\<lparr>mn_stats := (mn_stats (h m))\<lparr>ms_VotesSent := ms_VotesSent (mn_stats (h m)) + 1\<rparr>\<rparr>)
           in case fmlookup (mn_peers (h1 m)) validator of
                None \<Rightarrow> (h1, Some ErrValidatorNotFound)
              | Some peer \<Rightarrow>
                  (let msg = \<lparr>vm_Vote = Some vote, vm_From = mn_validatorID (h m)\<rparr>;
                       (ch, ok) = chan_send (h1 peer) msg (mn_voteCh (h1 peer))
                   in if ok then (h1(peer := (h1 peer)\<lparr>mn_voteCh := ch\<rparr>), None) else (h1, Some ErrMempoolFull)))"

definition MockNetwork_SendBatchAck :: "nat \<Rightarrow> u16 \<Rightarrow> BatchAckMessage \<Rightarrow> mock_heap \<Rightarrow> mock_heap \<times> err option" where
  "MockNetwork_SendBatchAck m validator ack h =
     (if \<not> mn_running (h m) then (h, Some ErrNotRunning)
      else let h1 = h(m := (h m)\<lparr>mn_stats := (mn_stats (h m))\<lparr>ms_BatchAcksSent := ms_BatchAcksSent (mn_stats (h m)) + 1\<rparr>\<rparr>)
           in case fmlookup (mn_peers (h1 m)) validator of
                None \<Rightarrow> (h1, Some ErrValidatorNotFound)
              | Some peer \<Rightarrow>
                  (let msg = ack;
                       (ch, ok) = chan_send (h1 peer) msg (mn_batchAckCh (h1 peer))
                   in if ok then (h1(peer := (h1 peer)\<lparr>mn_batchAckCh := ch\<rparr>), None) else (h1, Some ErrMempoolFull)))"

definition MockNetwork_SendBatchRequest :: "nat \<Rightarrow> u16 \<Rightarrow> BatchRequestMessage \<Rightarrow> mock_heap \<Rightarrow> mock_heap \<times> err option" where
  "MockNetwork_SendBatchRequest m validator req h =
     (if \<not> mn_running (h m) then (h, Some ErrNotRunning)
      else let h1 = h(m := (h m)\<lparr>mn_stats := (mn_stats (h m))\<lparr>ms_BatchRequestsSent := ms_BatchRequestsSent (mn_stats (h m)) + 1\<rparr>\<rparr>)
           in case fmlookup (mn_peers (h1 m)) validator of
                None \<Rightarrow> (h1, Some ErrValidatorNotFound)
              | Some peer \<Rightarrow>
                  (let msg = req;
                       (ch, ok) = chan_send (h1 peer) msg (mn_batchReqCh (h1 peer))
                   in if ok then (h1(peer := (h1 peer)\<lparr>mn_batchReqCh := ch\<rparr>), None) else (h1, Some ErrMempoolFull)))"

definition MockNetwork_SendBatchResponse :: "nat \<Rightarrow> u16 \<Rightarrow> BatchResponseMessage \<Rightarrow> mock_heap \<Rightarrow> mock_heap \<times> err option" where
  "MockNetwork_SendBatchResponse m validator resp h =
     (if \<not> mn_running (h m) then (h, Some ErrNotRunning)
      else let h1 = h(m := (h m)\<lparr>mn_stats := (mn_stats (h m))\<lparr>ms_BatchResponsesSent := ms_BatchResponsesSent (mn_stats (h m)) + 1\<rparr>\<rparr>)
           in case fmlookup (mn_peers (h1 m)) validator of
                None \<Rightarrow> (h1, Some ErrValidatorNotFound)
              | Some peer \<Rightarrow>
                  (let msg = resp;
                       (ch, ok) = chan_send (h1 peer) msg (mn_batchRespCh (h1 peer))
                   in if ok then (h1(peer := (h1 peer)\<lparr>mn_batchRespCh := ch\<rparr>), None) else (h1, Some ErrMempoolFull)))"

definition MockNetwork_SendSyncRequest :: "nat \<Rightarrow> u16 \<Rightarrow> SyncRequest \<Rightarrow> mock_heap \<Rightarrow> mock_heap \<times> err option" where
  "MockNetwork_SendSyncRequest m validator req h =
     (if \<not> mn_running (h m) then (h, Some ErrNotRunning)
      else let h1 = h(m := (h m)\<lparr>mn_stats := (mn_stats (h m))\<lparr>ms_SyncRequestsSent := ms_SyncRequestsSent (mn_stats (h m)) + 1\<rparr>\<rparr>)
           in case fmlookup (mn_peers (h1 m)) validator of
                None \<Rightarrow> (h1, Some ErrValidatorNotFound)
              | Some peer \<Rightarrow>
                  (let msg = req;
                       (ch, ok) = chan_send (h1 peer) msg (mn_syncReqCh (h1 peer))
                   in if ok then (h1(peer := (h1 peer)\<lparr>mn_syncReqCh := ch\<rparr>), None) else (h1, Some ErrMempoolFull)))"

definition MockNetwork_SendSyncResponse :: "nat \<Rightarrow> u16 \<Rightarrow> SyncResponse \<Rightarrow> mock_heap \<Rightarrow> mock_heap \<times> err option" where
  "MockNetwork_SendSyncResponse m validator resp h =
     (if \<not> mn_running (h m) then (h, Some ErrNotRunning)
      else let h1 = h(m := (h m)\<lparr>mn_stats := (mn_stats (h m))\<lparr>ms_SyncResponsesSent := ms_SyncResponsesSent (mn_stats (h m)) + 1\<rparr>\<rparr>)
           in case fmlookup (mn_peers (h1 m)) validator of
                None \<Rightarrow> (h1, Some ErrValidatorNotFound)
              | Some peer \<Rightarrow>
                  (let msg = \<lparr>srm_Response = Some resp, srm_From = mn_validatorID (h m)\<rparr>;
                       (ch, ok) = chan_send (h1 peer) msg (mn_syncRespCh (h1 peer))
                   in if ok then (h1(peer := (h1 peer)\<lparr>mn_syncRespCh := ch\<rparr>), None) else (h1, Some ErrMempoolFull)))"

section \<open>Channels, statistics and injection\<close>

definition MockNetwork_BatchMessages :: "MockNetwork \<Rightarrow> BatchMessage list" where
  "MockNetwork_BatchMessages m = mn_batchCh m"

definition MockNetwork_BatchAckMessages :: "MockNetwork \<Rightarrow> BatchAckMessage list" where
  "MockNetwork_BatchAckMessages m = mn_batchAckCh m"

definition MockNetwork_BatchRequestMessages :: "MockNetwork \<Rightarrow> BatchRequestMessage list" where
  "MockNetwork_BatchRequestMessages m = mn_batchReqCh m"

definition MockNetwork_BatchResponseMessages :: "MockNetwork \<Rightarrow> BatchResponseMessage list" where
  "MockNetwork_BatchResponseMessages m = mn_batchRespCh m"

definition MockNetwork_HeaderMessages :: "MockNetwork \<Rightarrow> HeaderMessage list" where
  "MockNetwork_HeaderMessages m = mn_headerCh m"

definition MockNetwork_VoteMessages :: "MockNetwork \<Rightarrow> VoteMessage list" where
  "MockNetwork_VoteMessages m = mn_voteCh m"

definition MockNetwork_CertificateMessages :: "MockNetwork \<Rightarrow> CertificateMessage list" where
  "MockNetwork_CertificateMessages m = mn_certCh m"

definition MockNetwork_SyncRequests :: "MockNetwork \<Rightarrow> SyncRequest list" where
  "MockNetwork_SyncRequests m = mn_syncReqCh m"

definition MockNetwork_SyncResponses :: "MockNetwork \<Rightarrow> SyncResponseMessage list" where
  "MockNetwork_SyncResponses m = mn_syncRespCh m"

definition MockNetwork_Stats :: "MockNetwork \<Rightarrow> MockNetworkStats" where
  "MockNetwork_Stats m = mn_stats m"

definition MockNetwork_ResetStats :: "MockNetwork \<Rightarrow> MockNetwork" where
  "MockNetwork_ResetStats m = m\<lparr>mn_stats := zero_stats\<rparr>"

definition MockNetwork_PeerCount :: "MockNetwork \<Rightarrow> nat" where
  "MockNetwork_PeerCount m = map_len (mn_peers m)"

definition MockNetwork_InjectBatchMessage :: "BatchMessage \<Rightarrow> MockNetwork \<Rightarrow> MockNetwork" where
  "MockNetwork_InjectBatchMessage msg m = m\<lparr>mn_batchCh := fst (chan_send m msg (mn_batchCh m))\<rparr>"

definition MockNetwork_InjectHeaderMessage :: "HeaderMessage \<Rightarrow> MockNetwork \<Rightarrow> MockNetwork" where
  "MockNetwork_InjectHeaderMessage msg m = m\<lparr>mn_headerCh := fst (chan_send m msg (mn_headerCh m))\<rparr>"

definition MockNetwork_InjectVoteMessage :: "VoteMessage \<Rightarrow> MockNetwork \<Rightarrow> MockNetwork" where
  "MockNetwork_InjectVoteMessage msg m = m\<lparr>mn_voteCh := fst (chan_send m msg (mn_voteCh m))\<rparr>"

definition MockNetwork_InjectCertificateMessage :: "CertificateMessage \<Rightarrow> MockNetwork \<Rightarrow> MockNetwork" where
  "MockNetwork_InjectCertificateMessage msg m = m\<lparr>mn_certCh := fst (chan_send m msg (mn_certCh m))\<rparr>"

definition MockNetwork_InjectSyncRequest :: "SyncRequest \<Rightarrow> MockNetwork \<Rightarrow> MockNetwork" where
  "MockNetwork_InjectSyncRequest req m = m\<lparr>mn_syncReqCh := fst (chan_send m req (mn_syncReqCh m))\<rparr>"

definition MockNetwork_InjectSyncResponse :: "SyncResponseMessage \<Rightarrow> MockNetwork \<Rightarrow> MockNetwork" where
  "MockNetwork_InjectSyncResponse resp m = m\<lparr>mn_syncRespCh := fst (chan_send m resp (mn_syncRespCh m))\<rparr>"

section \<open>The interface\<close>

text \<open>A call of a node on its network, and the reading end: the first message of a channel and the network without it.\<close>

definition mock_call :: "peer_order \<Rightarrow> nat \<Rightarrow> net_call \<Rightarrow> mock_heap \<Rightarrow> mock_heap \<times> err option" where
  "mock_call ord m call h = (case call of
      BroadcastBatch b \<Rightarrow> MockNetwork_BroadcastBatch ord m b h
    | BroadcastHeader x \<Rightarrow> MockNetwork_BroadcastHeader ord m x h
    | BroadcastCertificate c \<Rightarrow> MockNetwork_BroadcastCertificate ord m c h
    | SendVote v x \<Rightarrow> MockNetwork_SendVote m v x h
    | SendBatchAck v a \<Rightarrow> MockNetwork_SendBatchAck m v a h
    | SendBatchRequest v r \<Rightarrow> MockNetwork_SendBatchRequest m v r h
    | SendBatchResponse v r \<Rightarrow> MockNetwork_SendBatchResponse m v r h
    | SendSyncRequest v r \<Rightarrow> MockNetwork_SendSyncRequest m v r h
    | SendSyncResponse v r \<Rightarrow> MockNetwork_SendSyncResponse m v r h)"

datatype channel = BatchCh | BatchAckCh | BatchReqCh | BatchRespCh | HeaderCh | VoteCh | CertCh | SyncReqCh | SyncRespCh

fun take_message :: "channel \<Rightarrow> MockNetwork \<Rightarrow> (node_message \<times> MockNetwork) option" where
  "take_message BatchCh m = (case MockNetwork_BatchMessages m of [] \<Rightarrow> None | x # xs \<Rightarrow> Some (BatchMsg x, m\<lparr>mn_batchCh := xs\<rparr>))"
| "take_message BatchAckCh m = (case MockNetwork_BatchAckMessages m of [] \<Rightarrow> None | x # xs \<Rightarrow> Some (BatchAckMsg x, m\<lparr>mn_batchAckCh := xs\<rparr>))"
| "take_message BatchReqCh m = (case MockNetwork_BatchRequestMessages m of [] \<Rightarrow> None | x # xs \<Rightarrow> Some (BatchRequestMsg x, m\<lparr>mn_batchReqCh := xs\<rparr>))"
| "take_message BatchRespCh m = (case MockNetwork_BatchResponseMessages m of [] \<Rightarrow> None | x # xs \<Rightarrow> Some (BatchResponseMsg x, m\<lparr>mn_batchRespCh := xs\<rparr>))"
| "take_message HeaderCh m = (case MockNetwork_HeaderMessages m of [] \<Rightarrow> None | x # xs \<Rightarrow> Some (HeaderMsg x, m\<lparr>mn_headerCh := xs\<rparr>))"
| "take_message VoteCh m = (case MockNetwork_VoteMessages m of [] \<Rightarrow> None | x # xs \<Rightarrow> Some (VoteMsg x, m\<lparr>mn_voteCh := xs\<rparr>))"
| "take_message CertCh m = (case MockNetwork_CertificateMessages m of [] \<Rightarrow> None | x # xs \<Rightarrow> Some (CertificateMsg x, m\<lparr>mn_certCh := xs\<rparr>))"
| "take_message SyncReqCh m = (case MockNetwork_SyncRequests m of [] \<Rightarrow> None | x # xs \<Rightarrow> Some (SyncRequestMsg x, m\<lparr>mn_syncReqCh := xs\<rparr>))"
| "take_message SyncRespCh m = (case MockNetwork_SyncResponses m of [] \<Rightarrow> None | x # xs \<Rightarrow> Some (SyncResponseMsg x, m\<lparr>mn_syncRespCh := xs\<rparr>))"

section \<open>The network as queues of messages\<close>

text \<open>The abstract network: a queue per network and channel.\<close>

fun queue :: "MockNetwork \<Rightarrow> channel \<Rightarrow> node_message list" where
  "queue m BatchCh = map BatchMsg (mn_batchCh m)"
| "queue m BatchAckCh = map BatchAckMsg (mn_batchAckCh m)"
| "queue m BatchReqCh = map BatchRequestMsg (mn_batchReqCh m)"
| "queue m BatchRespCh = map BatchResponseMsg (mn_batchRespCh m)"
| "queue m HeaderCh = map HeaderMsg (mn_headerCh m)"
| "queue m VoteCh = map VoteMsg (mn_voteCh m)"
| "queue m CertCh = map CertificateMsg (mn_certCh m)"
| "queue m SyncReqCh = map SyncRequestMsg (mn_syncReqCh m)"
| "queue m SyncRespCh = map SyncResponseMsg (mn_syncRespCh m)"

fun channel_of :: "net_call \<Rightarrow> channel" where
  "channel_of (BroadcastBatch _) = BatchCh"
| "channel_of (BroadcastHeader _) = HeaderCh"
| "channel_of (BroadcastCertificate _) = CertCh"
| "channel_of (SendVote _ _) = VoteCh"
| "channel_of (SendBatchAck _ _) = BatchAckCh"
| "channel_of (SendBatchRequest _ _) = BatchReqCh"
| "channel_of (SendBatchResponse _ _) = BatchRespCh"
| "channel_of (SendSyncRequest _ _) = SyncReqCh"
| "channel_of (SendSyncResponse _ _) = SyncRespCh"

text \<open>The message that a call of validator \<open>i\<close> puts into a channel.\<close>

fun message_of :: "u16 \<Rightarrow> net_call \<Rightarrow> node_message" where
  "message_of i (BroadcastBatch b) = BatchMsg \<lparr>bm_Batch = Some b, bm_From = i\<rparr>"
| "message_of i (BroadcastHeader x) = HeaderMsg \<lparr>hm_Header = Some x, hm_From = i\<rparr>"
| "message_of i (BroadcastCertificate c) = CertificateMsg \<lparr>cm_Certificate = Some c, cm_From = i\<rparr>"
| "message_of i (SendVote _ v) = VoteMsg \<lparr>vm_Vote = Some v, vm_From = i\<rparr>"
| "message_of i (SendBatchAck _ a) = BatchAckMsg a"
| "message_of i (SendBatchRequest _ r) = BatchRequestMsg r"
| "message_of i (SendBatchResponse _ r) = BatchResponseMsg r"
| "message_of i (SendSyncRequest _ r) = SyncRequestMsg r"
| "message_of i (SendSyncResponse _ r) = SyncResponseMsg \<lparr>srm_Response = Some r, srm_From = i\<rparr>"

text \<open>The validator a call is addressed to; a broadcast goes to every peer.\<close>

fun receiver :: "net_call \<Rightarrow> u16 option" where
  "receiver (SendVote v _) = Some v"
| "receiver (SendBatchAck v _) = Some v"
| "receiver (SendBatchRequest v _) = Some v"
| "receiver (SendBatchResponse v _) = Some v"
| "receiver (SendSyncRequest v _) = Some v"
| "receiver (SendSyncResponse v _) = Some v"
| "receiver _ = None"

definition targets :: "net_call \<Rightarrow> MockNetwork \<Rightarrow> nat set" where
  "targets call m = (case receiver call of
     Some v \<Rightarrow> set_option (fmlookup (mn_peers m) v)
   | None \<Rightarrow> {p. \<exists>v. fmlookup (mn_peers m) v = Some p})"

definition has_room :: "mock_heap \<Rightarrow> channel \<Rightarrow> nat \<Rightarrow> bool" where
  "has_room h ch j \<longleftrightarrow> int (length (queue (h j) ch)) < nwc_BufferSize (mn_cfg (h j))"

text \<open>What a call does to the queues, and the error it returns.\<close>

definition queue_after :: "nat \<Rightarrow> net_call \<Rightarrow> mock_heap \<Rightarrow> nat \<Rightarrow> channel \<Rightarrow> node_message list" where
  "queue_after m call h j ch = queue (h j) ch @
     (if mn_running (h m) \<and> ch = channel_of call \<and> j \<in> targets call (h m) \<and> has_room h ch j
      then [message_of (mn_validatorID (h m)) call] else [])"

definition call_error :: "nat \<Rightarrow> net_call \<Rightarrow> mock_heap \<Rightarrow> err option" where
  "call_error m call h =
     (if \<not> mn_running (h m) then Some ErrNotRunning
      else case receiver call of
        None \<Rightarrow> None
      | Some v \<Rightarrow> (case fmlookup (mn_peers (h m)) v of
          None \<Rightarrow> Some ErrValidatorNotFound
        | Some j \<Rightarrow> if has_room h (channel_of call) j then None else Some ErrMempoolFull))"

section \<open>Calls refine the queues\<close>

text \<open>A peer is listed under its own number.\<close>

definition peers_ok :: "mock_heap \<Rightarrow> bool" where
  "peers_ok h \<longleftrightarrow> (\<forall>i v j. fmlookup (mn_peers (h i)) v = Some j \<longrightarrow> mn_validatorID (h j) = v)"

lemma peers_okD: "peers_ok h \<Longrightarrow> fmlookup (mn_peers (h i)) v = Some j \<Longrightarrow> mn_validatorID (h j) = v"
  unfolding peers_ok_def by blast

lemma fold_visit: "distinct ps \<Longrightarrow> fold (\<lambda>p h. h(p := f (h p))) ps h j = (if j \<in> set ps then f (h j) else h j)"
  by (induction ps arbitrary: h) auto

lemma visited_peers:
  assumes "go_order ord" and "peers_ok h"
  shows "distinct (map_values (ord (mn_peers (h m))) (mn_peers (h m)))"
    "set (map_values (ord (mn_peers (h m))) (mn_peers (h m))) = {p. \<exists>v. fmlookup (mn_peers (h m)) v = Some p}"
proof -
  let ?P = "mn_peers (h m)"
  have io: "iter_order (ord ?P) ?P" using assms(1) by (simp add: go_order_def)
  show "set (map_values (ord ?P) ?P) = {p. \<exists>v. fmlookup ?P v = Some p}"
    using map_values_order[OF io] by blast
  have "distinct (map (\<lambda>j. mn_validatorID (h j)) (map_values (ord ?P) ?P))"
    by (rule distinct_map_values_key) (use peers_okD[OF assms(2)] iter_orderD(1)[OF io] in auto)
  then show "distinct (map_values (ord ?P) ?P)" by (simp add: distinct_map)
qed

lemma queue_stats [simp]: "queue (m\<lparr>mn_stats := st\<rparr>) ch = queue m ch" "queue (m\<lparr>mn_peers := ps\<rparr>) ch = queue m ch"
  "queue (m\<lparr>mn_running := b\<rparr>) ch = queue m ch" "queue (m\<lparr>mn_stopClosed := b\<rparr>) ch = queue m ch"
  by (cases ch; simp)+

lemma broadcast_visits:
  "distinct ps \<Longrightarrow> fold (\<lambda>p h. h(p := (h p)\<lparr>mn_batchCh := fst (chan_send (h p) bmsg (mn_batchCh (h p)))\<rparr>)) ps h j =
     (if j \<in> set ps then (h j)\<lparr>mn_batchCh := fst (chan_send (h j) bmsg (mn_batchCh (h j)))\<rparr> else h j)"
  "distinct ps \<Longrightarrow> fold (\<lambda>p h. h(p := (h p)\<lparr>mn_headerCh := fst (chan_send (h p) hmsg (mn_headerCh (h p)))\<rparr>)) ps h j =
     (if j \<in> set ps then (h j)\<lparr>mn_headerCh := fst (chan_send (h j) hmsg (mn_headerCh (h j)))\<rparr> else h j)"
  "distinct ps \<Longrightarrow> fold (\<lambda>p h. h(p := (h p)\<lparr>mn_certCh := fst (chan_send (h p) cmsg (mn_certCh (h p)))\<rparr>)) ps h j =
     (if j \<in> set ps then (h j)\<lparr>mn_certCh := fst (chan_send (h j) cmsg (mn_certCh (h j)))\<rparr> else h j)"
  by (rule fold_visit, assumption)+

lemmas broadcast_defs = MockNetwork_BroadcastBatch_def MockNetwork_BroadcastHeader_def MockNetwork_BroadcastCertificate_def

lemmas send_defs = MockNetwork_SendVote_def MockNetwork_SendBatchAck_def MockNetwork_SendBatchRequest_def
  MockNetwork_SendBatchResponse_def MockNetwork_SendSyncRequest_def MockNetwork_SendSyncResponse_def

lemma broadcast_refines:
  assumes ord: "go_order ord" and ok: "peers_ok h" and b: "receiver call = None"
  shows "queue (fst (mock_call ord m call h) j) ch = queue_after m call h j ch" "snd (mock_call ord m call h) = call_error m call h"
proof -
  note v = visited_peers[OF ord ok, of m]
  show "snd (mock_call ord m call h) = call_error m call h"
    using b by (cases call) (simp_all add: mock_call_def broadcast_defs Let_def call_error_def)
  show "queue (fst (mock_call ord m call h) j) ch = queue_after m call h j ch"
    using b by (cases call; cases ch; simp add: mock_call_def broadcast_defs Let_def broadcast_visits[OF v(1)] v(2) queue_after_def
        targets_def has_room_def) (auto simp: chan_send_def)
qed

lemma send_refines:
  assumes s: "receiver call = Some v"
  shows "queue (fst (mock_call ord m call h) j) ch = queue_after m call h j ch" "snd (mock_call ord m call h) = call_error m call h"
proof -
  show "snd (mock_call ord m call h) = call_error m call h"
    using s by (cases call) (auto simp: mock_call_def send_defs Let_def call_error_def chan_send_def has_room_def split: option.split)
  show "queue (fst (mock_call ord m call h) j) ch = queue_after m call h j ch"
    using s by (cases call; cases ch)
      (auto simp: mock_call_def send_defs Let_def queue_after_def targets_def has_room_def chan_send_def split: option.splits if_splits)
qed

section \<open>Runs of the networks\<close>

text \<open>Everything that can happen to the networks: new ones, connections, starts, stops, calls, reads and injected messages.\<close>

inductive mock_run :: "peer_order \<Rightarrow> mock_heap \<Rightarrow> bool" for ord where
  new: "(\<And>i. NewMockNetwork (ids i) (cfgs i) = Some (h i)) \<Longrightarrow> mock_run ord h"
| connect: "mock_run ord h \<Longrightarrow> mock_run ord (MockNetwork_Connect m p h)"
| disconnect: "mock_run ord h \<Longrightarrow> mock_run ord (MockNetwork_Disconnect m v h)"
| start: "mock_run ord h \<Longrightarrow> mock_run ord (fst (MockNetwork_Start m h))"
| stop: "mock_run ord h \<Longrightarrow> MockNetwork_Stop m h = Some (h', e) \<Longrightarrow> mock_run ord h'"
| call: "mock_run ord h \<Longrightarrow> mock_run ord (fst (mock_call ord m x h))"
| read: "mock_run ord h \<Longrightarrow> take_message ch (h m) = Some (msg, n) \<Longrightarrow> mock_run ord (h(m := n))"
| reset: "mock_run ord h \<Longrightarrow> mock_run ord (h(m := MockNetwork_ResetStats (h m)))"
| inject_batch: "mock_run ord h \<Longrightarrow> mock_run ord (h(m := MockNetwork_InjectBatchMessage bm (h m)))"
| inject_header: "mock_run ord h \<Longrightarrow> mock_run ord (h(m := MockNetwork_InjectHeaderMessage hm (h m)))"
| inject_vote: "mock_run ord h \<Longrightarrow> mock_run ord (h(m := MockNetwork_InjectVoteMessage vm (h m)))"
| inject_cert: "mock_run ord h \<Longrightarrow> mock_run ord (h(m := MockNetwork_InjectCertificateMessage cm (h m)))"
| inject_sync_request: "mock_run ord h \<Longrightarrow> mock_run ord (h(m := MockNetwork_InjectSyncRequest sq (h m)))"
| inject_sync_response: "mock_run ord h \<Longrightarrow> mock_run ord (h(m := MockNetwork_InjectSyncResponse sr (h m)))"

text \<open>The parts of a network that only connections change.\<close>

definition links :: "MockNetwork \<Rightarrow> u16 \<times> NetworkConfig \<times> (u16, nat) fmap" where
  "links m = (mn_validatorID m, mn_cfg m, mn_peers m)"

lemma links_eq: "links m = links n \<longleftrightarrow> mn_validatorID m = mn_validatorID n \<and> mn_cfg m = mn_cfg n \<and> mn_peers m = mn_peers n"
  by (auto simp: links_def)

lemma mock_call_links: "links (fst (mock_call ord m x h) j) = links (h j)"
proof -
  have keep: "links (fold (\<lambda>p h. h(p := f (h p))) ps g j) = links (g j)" if "\<And>n. links (f n) = links n" for f ps g
    by (induction ps arbitrary: g) (simp_all add: that fun_upd_def)
  have b: "links (fold (\<lambda>p h. h(p := (h p)\<lparr>mn_batchCh := fst (chan_send (h p) bm (mn_batchCh (h p)))\<rparr>)) ps g j) = links (g j)"
    "links (fold (\<lambda>p h. h(p := (h p)\<lparr>mn_headerCh := fst (chan_send (h p) hm (mn_headerCh (h p)))\<rparr>)) ps g j) = links (g j)"
    "links (fold (\<lambda>p h. h(p := (h p)\<lparr>mn_certCh := fst (chan_send (h p) cm (mn_certCh (h p)))\<rparr>)) ps g j) = links (g j)" for bm hm cm ps g
    by (rule keep, simp add: links_def)+
  show ?thesis
    by (cases x; simp add: mock_call_def broadcast_defs b send_defs Let_def split: option.split prod.split) (auto simp: links_def)
qed

lemma take_message_links: "take_message ch m = Some (msg, n) \<Longrightarrow> links n = links m"
  by (cases ch) (auto simp: links_eq split: list.splits)

lemmas inject_defs = MockNetwork_InjectBatchMessage_def MockNetwork_InjectHeaderMessage_def MockNetwork_InjectVoteMessage_def
  MockNetwork_InjectCertificateMessage_def MockNetwork_InjectSyncRequest_def MockNetwork_InjectSyncResponse_def

lemmas accessor_defs = MockNetwork_BatchMessages_def MockNetwork_BatchAckMessages_def MockNetwork_BatchRequestMessages_def
  MockNetwork_BatchResponseMessages_def MockNetwork_HeaderMessages_def MockNetwork_VoteMessages_def
  MockNetwork_CertificateMessages_def MockNetwork_SyncRequests_def MockNetwork_SyncResponses_def

lemma peers_ok_links:
  assumes "peers_ok h" and "\<And>j. links (h' j) = links (h j)"
  shows "peers_ok h'"
  using assms unfolding peers_ok_def links_eq by metis

lemma peers_ok_connect: "peers_ok h \<Longrightarrow> peers_ok (MockNetwork_Connect m p h)"
  unfolding peers_ok_def by (auto simp: MockNetwork_Connect_def Let_def split: if_splits)

lemma peers_ok_disconnect: "peers_ok h \<Longrightarrow> peers_ok (MockNetwork_Disconnect m v h)"
  unfolding peers_ok_def by (auto simp: MockNetwork_Disconnect_def Let_def split: if_splits option.splits)

definition within_buffers :: "mock_heap \<Rightarrow> bool" where
  "within_buffers h \<longleftrightarrow> (\<forall>j ch. int (length (queue (h j) ch)) \<le> nwc_BufferSize (mn_cfg (h j)))"

lemma take_message_queue:
  assumes "take_message ch m = Some (msg, n)"
  shows "queue m ch = msg # queue n ch" and "c \<noteq> ch \<Longrightarrow> queue n c = queue m c"
proof -
  show "queue m ch = msg # queue n ch" using assms by (cases ch) (auto simp: accessor_defs split: list.splits)
  show "queue n c = queue m c" if "c \<noteq> ch"
    using assms that by (cases ch; cases c) (auto simp: accessor_defs split: list.splits)
qed

text \<open>An injected message is like a sent one: it is appended if there is room.\<close>

lemma inject_queue:
  "length (queue (MockNetwork_InjectBatchMessage bm m) ch) \<le> length (queue m ch) + (if int (length (queue m ch)) < nwc_BufferSize (mn_cfg m) then 1 else 0)"
  "length (queue (MockNetwork_InjectHeaderMessage hm m) ch) \<le> length (queue m ch) + (if int (length (queue m ch)) < nwc_BufferSize (mn_cfg m) then 1 else 0)"
  "length (queue (MockNetwork_InjectVoteMessage vm m) ch) \<le> length (queue m ch) + (if int (length (queue m ch)) < nwc_BufferSize (mn_cfg m) then 1 else 0)"
  "length (queue (MockNetwork_InjectCertificateMessage cm m) ch) \<le> length (queue m ch) + (if int (length (queue m ch)) < nwc_BufferSize (mn_cfg m) then 1 else 0)"
  "length (queue (MockNetwork_InjectSyncRequest sq m) ch) \<le> length (queue m ch) + (if int (length (queue m ch)) < nwc_BufferSize (mn_cfg m) then 1 else 0)"
  "length (queue (MockNetwork_InjectSyncResponse sr m) ch) \<le> length (queue m ch) + (if int (length (queue m ch)) < nwc_BufferSize (mn_cfg m) then 1 else 0)"
  by (cases ch; simp add: inject_defs chan_send_def)+

lemma inject_links:
  "links (MockNetwork_InjectBatchMessage bm m) = links m" "links (MockNetwork_InjectHeaderMessage hm m) = links m"
  "links (MockNetwork_InjectVoteMessage vm m) = links m" "links (MockNetwork_InjectCertificateMessage cm m) = links m"
  "links (MockNetwork_InjectSyncRequest sq m) = links m" "links (MockNetwork_InjectSyncResponse sr m) = links m"
  by (simp_all add: inject_defs links_def)

text \<open>An update of one network.\<close>

lemma mock_ok_update:
  assumes "peers_ok h \<and> within_buffers h" and "links n = links (h m)"
    and "\<And>ch. length (queue n ch) \<le> length (queue (h m) ch) + (if int (length (queue (h m) ch)) < nwc_BufferSize (mn_cfg (h m)) then 1 else 0)"
  shows "peers_ok (h(m := n)) \<and> within_buffers (h(m := n))"
proof
  show "peers_ok (h(m := n))" using assms(1,2) by (auto intro!: peers_ok_links[of h])
  have "int (length (queue n ch)) \<le> nwc_BufferSize (mn_cfg n)" for ch
  proof -
    have "int (length (queue (h m) ch)) \<le> nwc_BufferSize (mn_cfg (h m))" using assms(1) by (simp add: within_buffers_def)
    moreover have "mn_cfg n = mn_cfg (h m)" using assms(2) by (simp add: links_eq)
    ultimately show ?thesis using assms(3)[of ch] by (auto split: if_splits)
  qed
  then show "within_buffers (h(m := n))" using assms(1) by (auto simp: within_buffers_def)
qed

lemma NewMockNetwork_empty:
  assumes "NewMockNetwork i cfg = Some m"
  shows "0 \<le> nwc_BufferSize (mn_cfg m) \<and> mn_peers m = fmempty \<and> queue m ch = [] \<and> mn_validatorID m = i"
  using assms by (cases ch) (auto simp: NewMockNetwork_def split: if_splits)

lemma mock_run_ok:
  assumes "go_order ord" and "mock_run ord h"
  shows "peers_ok h \<and> within_buffers h"
  using assms(2)
proof (induction rule: mock_run.induct)
  case (new ids cfgs h)
  have *: "0 \<le> nwc_BufferSize (mn_cfg (h j)) \<and> mn_peers (h j) = fmempty \<and> queue (h j) ch = []" for j ch
    using NewMockNetwork_empty[OF new[of j]] by blast
  show ?case using * by (simp add: peers_ok_def within_buffers_def)
next
  case (connect h m p)
  then have "within_buffers (MockNetwork_Connect m p h)" by (auto simp: within_buffers_def MockNetwork_Connect_def Let_def)
  then show ?case using connect peers_ok_connect by blast
next
  case (disconnect h m v)
  then have "within_buffers (MockNetwork_Disconnect m v h)"
    by (auto simp: within_buffers_def MockNetwork_Disconnect_def Let_def split: option.split)
  then show ?case using disconnect peers_ok_disconnect by blast
next
  case (start h m)
  show ?case unfolding MockNetwork_Start_def fst_conv by (rule mock_ok_update[OF start.IH]) (simp_all add: links_def)
next
  case (stop h m h' e)
  have "h' \<in> {h(m := (h m)\<lparr>mn_running := False\<rparr>), h(m := (h m)\<lparr>mn_running := False, mn_stopClosed := True\<rparr>)}"
    using stop.hyps(2) by (auto simp: MockNetwork_Stop_def Let_def split: if_splits)
  moreover have "peers_ok (h(m := (h m)\<lparr>mn_running := False\<rparr>)) \<and> within_buffers (h(m := (h m)\<lparr>mn_running := False\<rparr>))"
    by (rule mock_ok_update[OF stop.IH]) (simp_all add: links_def)
  moreover have "peers_ok (h(m := (h m)\<lparr>mn_running := False, mn_stopClosed := True\<rparr>)) \<and>
      within_buffers (h(m := (h m)\<lparr>mn_running := False, mn_stopClosed := True\<rparr>))"
    by (rule mock_ok_update[OF stop.IH]) (simp_all add: links_def)
  ultimately show ?case by blast
next
  case (call h m x)
  have q: "queue (fst (mock_call ord m x h) j) ch = queue_after m x h j ch" for j ch
    using broadcast_refines(1)[OF assms(1), of h x m j ch] send_refines(1)[of x _ ord m h j ch] call.IH by (cases "receiver x") auto
  have "mn_cfg (fst (mock_call ord m x h) j) = mn_cfg (h j)" for j using mock_call_links[of ord m x h j] by (simp add: links_eq)
  moreover have "int (length (queue_after m x h j ch)) \<le> nwc_BufferSize (mn_cfg (h j))" for j ch
    using call.IH by (auto simp: queue_after_def has_room_def within_buffers_def)
  ultimately have "within_buffers (fst (mock_call ord m x h))" by (simp add: within_buffers_def q)
  moreover have "peers_ok (fst (mock_call ord m x h))"
    by (rule peers_ok_links[OF conjunct1[OF call.IH]]) (rule mock_call_links)
  ultimately show ?case by blast
next
  case (read h ch m msg n)
  have "length (queue n c) \<le> length (queue (h m) c)" for c
    using take_message_queue(1)[OF read.hyps(2)] take_message_queue(2)[OF read.hyps(2), of c] by (cases "c = ch") auto
  then show ?case by (intro mock_ok_update[OF read.IH take_message_links[OF read.hyps(2)]]) (simp add: trans_le_add1)
next
  case (reset h m)
  show ?case by (rule mock_ok_update[OF reset.IH]) (simp_all add: MockNetwork_ResetStats_def links_def)
qed (rule mock_ok_update, assumption, rule inject_links, rule inject_queue)+

text \<open>
  \<^bold>\<open>C28\<close> The mock network is a family of bounded first-in first-out queues. In every state that the networks reach by
  connecting, starting, stopping, calling, reading and injecting, every channel is within its buffer. A call of the
  \<^verbatim>\<open>Network\<close> interface appends its message, with the caller as the sender, at the end of the one channel of its kind at
  each receiver that has room (the addressed peer, or all peers for a broadcast) and changes no other channel. It
  returns \<^verbatim>\<open>ErrNotRunning\<close>, \<^verbatim>\<open>ErrValidatorNotFound\<close> or \<^verbatim>\<open>ErrMempoolFull\<close> exactly if the caller is not running, the
  addressed peer is unknown or its channel is full; a broadcast drops the message for full peers without an error. All this holds
  for every order in which Go visits the peers.
\<close>

theorem mock_network_refines_queues:
  assumes "go_order ord" and "mock_run ord h" and "mock_call ord m call h = (h', e)"
  shows "queue (h' j) ch = queue_after m call h j ch \<and> e = call_error m call h \<and>
    int (length (queue (h j) ch)) \<le> nwc_BufferSize (mn_cfg (h j))"
proof -
  have ok: "peers_ok h" "within_buffers h" using mock_run_ok[OF assms(1,2)] by blast+
  have "queue (fst (mock_call ord m call h) j) ch = queue_after m call h j ch \<and> snd (mock_call ord m call h) = call_error m call h"
    using broadcast_refines[OF assms(1) ok(1), of call] send_refines[of call] by (cases "receiver call") auto
  then show ?thesis using ok(2) assms(3) by (simp add: within_buffers_def)
qed

definition new_net :: "nat \<Rightarrow> MockNetwork" where
  "new_net i = the (NewMockNetwork (of_nat i) DefaultNetworkConfig)"

text \<open>Network 0, connected to 1 and 2 and started, broadcasts a header: it arrives at network 2.\<close>

theorem mock_network_refines_queues_witness:
  "\<exists>h h' e. h = fst (MockNetwork_Start 0 (MockNetwork_Connect 0 2 (MockNetwork_Connect 0 1 new_net))) \<and>
    mock_call map_keys 0 (BroadcastHeader (demo_header 3 0)) h = (h', e) \<and>
    queue (h' 2) HeaderCh = [HeaderMsg \<lparr>hm_Header = Some (demo_header 3 0), hm_From = 0\<rparr>]"
proof -
  let ?h = "fst (MockNetwork_Start 0 (MockNetwork_Connect 0 2 (MockNetwork_Connect 0 1 new_net)))"
  obtain h' e where r: "mock_call map_keys 0 (BroadcastHeader (demo_header 3 0)) ?h = (h', e)" by fastforce
  have "mock_run map_keys new_net"
    by (rule mock_run.new[where ids = of_nat and cfgs = "\<lambda>_. DefaultNetworkConfig"])
      (simp add: new_net_def NewMockNetwork_def DefaultNetworkConfig_def)
  then have run: "mock_run map_keys ?h" by (intro mock_run.start mock_run.connect)
  have "queue_after 0 (BroadcastHeader (demo_header 3 0)) ?h 2 HeaderCh = [HeaderMsg \<lparr>hm_Header = Some (demo_header 3 0), hm_From = 0\<rparr>]"
    by (auto simp: queue_after_def targets_def has_room_def MockNetwork_Start_def MockNetwork_Connect_def Let_def new_net_def
        NewMockNetwork_def DefaultNetworkConfig_def intro!: exI[of _ 2])
  then show ?thesis using mock_network_refines_queues[OF go_order_map_keys run r, of 2 HeaderCh] r by auto
qed

text \<open>The channel that \<^verbatim>\<open>Stop\<close> closes is made once, so a network that was stopped and started again panics at the next stop.\<close>

lemma second_stop_panics:
  assumes "MockNetwork_Stop m h = Some (h1, None)" and "MockNetwork_Start m h1 = (h2, None)"
  shows "MockNetwork_Stop m h2 = None"
  using assms by (auto simp: MockNetwork_Stop_def MockNetwork_Start_def Let_def split: if_splits)

end
