(* ===== verification/Pool_Safety.thy ===== *)
theory Pool_Safety
  imports Scaler
begin

text \<open>
  Two facts that every operation of workers and pool keeps as long as nobody sets the round of the pool: an
  acknowledgment that a tracker counts is in \<open>A\<close>, the acknowledgments given for the digest, and every batch
  that is made has round 0. The node relies on both.
\<close>

named_theorems safe_intros

type_synonym ack_sets = "hash \<Rightarrow> u16 set"

definition tracker_safe :: "int \<Rightarrow> ack_sets \<Rightarrow> AckTracker \<Rightarrow> bool" where
  "tracker_safe q A trk \<longleftrightarrow> at_quorum trk = q \<and> (\<forall>d p. fmlookup (at_pending trk) d = Some p \<longrightarrow>
     fset (fmdom (pb_Acks p)) \<subseteq> A d \<and> b_Round (pb_Batch p) = 0)"

definition worker_safe :: "int \<Rightarrow> ack_sets \<Rightarrow> u16 \<Rightarrow> Worker \<Rightarrow> bool" where
  "worker_safe q A me w \<longleftrightarrow> w_validatorID w = me \<and> w_round w = 0 \<and> tracker_safe q A (w_ackTracker w)"

definition pool_safe :: "int \<Rightarrow> ack_sets \<Rightarrow> u16 \<Rightarrow> Pool \<Rightarrow> bool" where
  "pool_safe q A me p \<longleftrightarrow> p_quorum p = q \<and> p_validatorID p = me \<and> p_round p = 0 \<and> 0 \<le> pc_MinWorkers (p_cfg p) \<and>
     list_all (worker_safe q A me) (p_workers p)"

definition round0 :: "Batch option \<Rightarrow> bool" where
  "round0 mb \<longleftrightarrow> (case mb of None \<Rightarrow> True | Some b \<Rightarrow> b_Round b = 0)"

section \<open>Trackers\<close>

lemma NewAckTracker_safe [safe_intros]: "tracker_safe q A (NewAckTracker q t)"
  by (simp add: tracker_safe_def NewAckTracker_def)

lemma TrackBatch_safe [safe_intros]:
  "tracker_safe q A trk \<Longrightarrow> b_Round b = 0 \<Longrightarrow> tracker_safe q A (AckTracker_TrackBatch now b trk)"
  by (auto simp: tracker_safe_def AckTracker_TrackBatch_def)

lemma RecordAck_safe [safe_intros]:
  "tracker_safe q A trk \<Longrightarrow> v \<in> A d \<Longrightarrow> tracker_safe q A (fst (AckTracker_RecordAck now d v trk))"
  by (auto simp: tracker_safe_def AckTracker_RecordAck_def Let_def split: option.splits)

lemma AckTracker_Close_safe [safe_intros]: "tracker_safe q A trk \<Longrightarrow> tracker_safe q A (AckTracker_Close trk)"
  by (simp add: tracker_safe_def AckTracker_Close_def)

lemma SetQuorumCallback_safe [safe_intros]:
  "tracker_safe q A trk \<Longrightarrow> tracker_safe q A (AckTracker_SetQuorumCallback cb trk)"
  by (simp add: tracker_safe_def AckTracker_SetQuorumCallback_def)

lemma tracker_safe_mono:
  assumes "tracker_safe q A trk" and "\<And>d. A d \<subseteq> A' d"
  shows "tracker_safe q A' trk"
  using assms unfolding tracker_safe_def by (meson subset_trans)

lemma safe_quorum:
  assumes "tracker_safe q A trk" and "AckTracker_HasQuorum d trk"
  shows "\<exists>S. S \<subseteq> A d \<and> finite S \<and> q \<le> int (card S)"
proof -
  obtain p where p: "fmlookup (at_pending trk) d = Some p" using assms(2) by (auto simp: HasQuorum_iff map_has_def)
  then have "acked trk d = fset (fmdom (pb_Acks p))" by (simp add: acked_def)
  then have "acked trk d \<subseteq> A d" "finite (acked trk d)" using assms(1) p by (auto simp: tracker_safe_def)
  then show ?thesis using assms by (auto simp: HasQuorum_iff tracker_safe_def)
qed

section \<open>Workers\<close>

lemma NewWorker_safe [safe_intros]: "worker_safe q A me (NewWorker wid me cfg q)"
  by (simp add: worker_safe_def NewWorker_def NewAckTracker_safe)

lemma worker_safe_cong:
  assumes "worker_safe q A me w" and "w_validatorID w' = w_validatorID w" and "w_round w' = w_round w"
    and "w_ackTracker w' = w_ackTracker w"
  shows "worker_safe q A me w'"
  using assms by (simp add: worker_safe_def)

lemma worker_setters_safe [safe_intros]:
  assumes "worker_safe q A me w"
  shows "worker_safe q A me (Worker_SetTxValidator v w)" "worker_safe q A me (Worker_SetBatchCallback cb w)"
    "worker_safe q A me (Worker_SetAckQuorumCallback cb w)" "worker_safe q A me (fst (Worker_Start w))"
    "worker_safe q A me (Worker_SetEpoch e w)" "worker_safe q A me (Worker_SetRound 0 w)"
    "worker_safe q A me (fst (Worker_DrainPending w))"
  using assms
  by (auto simp: worker_safe_def Worker_SetTxValidator_def Worker_SetBatchCallback_def Worker_SetAckQuorumCallback_def
      Worker_Start_def Worker_SetEpoch_def Worker_SetRound_def Worker_DrainPending_def intro: safe_intros)

lemma push_pending_tracker_frame [simp]:
  "w_validatorID (push_pending C tx pr w) = w_validatorID w" "w_round (push_pending C tx pr w) = w_round w"
  "w_ackTracker (push_pending C tx pr w) = w_ackTracker w"
  by (simp_all add: push_pending_def Let_def)

lemma Worker_AddTx_safe [safe_intros]:
  "worker_safe q A me w \<Longrightarrow> worker_safe q A me (fst (Worker_AddTx C tx st w))"
  by (erule worker_safe_cong) (auto simp: AddTx_eq split: sum.splits)

lemma requeue_frame:
  "w_validatorID (Worker_requeueTransactions C txs w) = w_validatorID w"
  "w_round (Worker_requeueTransactions C txs w) = w_round w"
  "w_ackTracker (Worker_requeueTransactions C txs w) = w_ackTracker w"
  by (induction C txs w rule: Worker_requeueTransactions.induct) auto

lemma Worker_RecordAck_safe [safe_intros]:
  "worker_safe q A me w \<Longrightarrow> v \<in> A d \<Longrightarrow> worker_safe q A me (fst (Worker_RecordAck now d v w))"
  using RecordAck_safe[of q A "w_ackTracker w" v d now]
  by (auto simp: worker_safe_def Worker_RecordAck_def split: prod.splits)

lemma NewBatch_round [simp]: "b_Round (NewBatch C now wid v r txs) = r"
  by (simp add: NewBatch_def Let_def)

lemma finish_batch_safe:
  assumes "worker_safe q A me w" and "\<And>d. me \<in> A d" and "finish_batch C now txs st w = (w', st', b, cb)"
  shows "worker_safe q A me w' \<and> round0 b"
proof -
  let ?b = "NewBatch C now (w_id w) (w_validatorID w) (w_round w) txs"
  let ?trk = "AckTracker_TrackBatch now ?b (w_ackTracker w)"
  obtain st1 e where s: "save_batch ?b st = (st1, e)" by fastforce
  obtain at2 r cb2 where a: "AckTracker_RecordAck now (b_Digest ?b) (w_validatorID w) ?trk = (at2, r, cb2)"
    by (rule prod_cases3)
  show ?thesis
  proof (cases e)
    case None
    have "tracker_safe q A (fst (AckTracker_RecordAck now (b_Digest ?b) (w_validatorID w) ?trk))"
      using assms(1,2) by (intro safe_intros) (simp_all add: worker_safe_def)
    then show ?thesis using assms(1,3) s a None
      by (auto simp: finish_batch_def Let_def worker_safe_def round0_def)
  next
    case (Some x)
    then show ?thesis using assms(1,3) s
      by (auto simp: finish_batch_def Let_def worker_safe_def round0_def requeue_frame)
  qed
qed

lemma tryCreateBatch_safe:
  assumes "worker_safe q A me w" and "\<And>d. me \<in> A d" and "Worker_tryCreateBatch C now st w = (w', st', b, cb)"
  shows "worker_safe q A me w' \<and> round0 b"
proof (cases "priorityQueue_Len (w_pending w) = 0")
  case True
  then show ?thesis using assms by (auto simp: Worker_tryCreateBatch_def round0_def)
next
  case False
  obtain txs bytes pq ps where
    c: "collect_batch C (wc_BatchBytes (w_cfg w)) (nat (batch_maxCount w)) [] 0 (w_pending w) (w_pendingSet w) =
      (txs, bytes, pq, ps)" by (rule prod_cases4)
  let ?w = "w\<lparr>w_pending := pq, w_pendingSet := ps, w_pendingBytes := w_pendingBytes w - bytes\<rparr>"
  have "worker_safe q A me ?w" using assms(1) by (rule worker_safe_cong) simp_all
  then show ?thesis using finish_batch_safe[OF _ assms(2)] assms(3) False c
    by (simp add: Worker_tryCreateBatch_def)
qed

lemma Worker_Stop_safe:
  assumes "worker_safe q A me w" and "\<And>d. me \<in> A d" and "Worker_Stop C now st w = (w', st', b, e)"
  shows "worker_safe q A me w' \<and> round0 b"
proof (cases "w_running w")
  case True
  obtain w1 st1 b1 cb where 1: "Worker_tryCreateBatch C now st (w\<lparr>w_running := False\<rparr>) = (w1, st1, b1, cb)"
    by (rule prod_cases4)
  have "worker_safe q A me (w\<lparr>w_running := False\<rparr>)" using assms(1) by (rule worker_safe_cong) simp_all
  note safe = tryCreateBatch_safe[OF this assms(2) 1]
  then show ?thesis using assms(3) True 1 by (auto simp: Worker_Stop_def worker_safe_def intro: safe_intros)
qed (use assms in \<open>auto simp: Worker_Stop_def round0_def\<close>)

lemma batchLoop_step_safe:
  assumes "worker_safe q A me w" and "\<And>d. me \<in> A d" and "Worker_batchLoop_step C now ev st w = (w', st', b, cb)"
  shows "worker_safe q A me w' \<and> round0 b"
proof -
  have "worker_safe q A me (w\<lparr>w_triggerCh := False\<rparr>)" using assms(1) by (rule worker_safe_cong) simp_all
  then show ?thesis
    using tryCreateBatch_safe[OF assms(1,2)] tryCreateBatch_safe[OF _ assms(2)] assms(1,3)
    by (cases ev) (auto simp: Worker_batchLoop_step_def round0_def split: if_splits)
qed

section \<open>The pool\<close>

lemma pool_safe_workers: "pool_safe q A me p \<Longrightarrow> w \<in> set (p_workers p) \<Longrightarrow> worker_safe q A me w"
  by (simp add: pool_safe_def list_all_iff)

lemma pool_safe_update:
  assumes "pool_safe q A me p" and "worker_safe q A me w"
  shows "pool_safe q A me (p\<lparr>p_workers := (p_workers p)[i := w]\<rparr>)"
  using assms set_update_subset_insert[of "p_workers p" i w] by (fastforce simp: pool_safe_def list_all_iff)

lemma pool_safe_mono:
  assumes "pool_safe q A me p" and "\<And>d. A d \<subseteq> A' d"
  shows "pool_safe q A' me p"
  using assms tracker_safe_mono[of q A _ A'] by (auto simp: pool_safe_def worker_safe_def list_all_iff)

lemma NewPool_safe [safe_intros]: "0 \<le> pc_MinWorkers cfg \<Longrightarrow> pool_safe q A me (NewPool cfg me q)"
  by (simp add: pool_safe_def NewPool_def)

lemma pool_setters_safe [safe_intros]:
  assumes "pool_safe q A me p"
  shows "pool_safe q A me (Pool_SetTxValidator v p)" "pool_safe q A me (Pool_SetBatchCallback cb p)"
    "pool_safe q A me (Pool_SetAckQuorumCallback cb p)"
  using assms worker_setters_safe
  by (auto simp: pool_safe_def Pool_SetTxValidator_def Pool_SetBatchCallback_def Pool_SetAckQuorumCallback_def list_all_iff)

lemma pool_safe_running [simp]: "pool_safe q A me (p\<lparr>p_running := r\<rparr>) = pool_safe q A me p"
  by (simp add: pool_safe_def)

lemma addWorkerLocked_safe:
  assumes "pool_safe q A me p"
  shows "pool_safe q A me (fst (Pool_addWorkerLocked p))"
proof -
  let ?w0 = "Worker_SetEpoch (p_epoch p) (Worker_SetRound (p_round p)
      (NewWorker (ucast (p_nextID p + 1 - 1)) (p_validatorID p) (pc_Worker (p_cfg p)) (p_quorum p)))"
  let ?w1 = "case p_txValidator p of None \<Rightarrow> ?w0 | Some v \<Rightarrow> Worker_SetTxValidator (Some v) ?w0"
  let ?w2 = "if p_batchCallback p then Worker_SetBatchCallback True ?w1 else ?w1"
  let ?w3 = "if p_quorumCallback p then Worker_SetAckQuorumCallback True ?w2 else ?w2"
  have "worker_safe q A me ?w0"
    using assms worker_setters_safe(5,6) NewWorker_safe by (simp add: pool_safe_def)
  then have "worker_safe q A me ?w1" by (simp add: worker_setters_safe split: option.split)
  then have "worker_safe q A me ?w2" by (simp add: worker_setters_safe)
  then have safe: "worker_safe q A me (fst (Worker_Start ?w3))" by (simp add: worker_setters_safe)
  obtain w e where w: "Worker_Start ?w3 = (w, e)" by fastforce
  have "fst (Pool_addWorkerLocked p) = (case e of
      Some err \<Rightarrow> p\<lparr>p_nextID := p_nextID p + 1\<rparr>
    | None \<Rightarrow> p\<lparr>p_nextID := p_nextID p + 1, p_workers := p_workers p @ [w]\<rparr>)"
    unfolding Pool_addWorkerLocked_def Let_def w by (simp split: option.split)
  then show ?thesis using safe[unfolded w] assms by (simp add: pool_safe_def split: option.split)
qed

lemma add_workers_safe: "pool_safe q A me p \<Longrightarrow> pool_safe q A me (fst (add_workers n p))"
proof (induction n arbitrary: p)
  case (Suc n)
  obtain p1 e where p1: "Pool_addWorkerLocked p = (p1, e)" by fastforce
  then show ?case using addWorkerLocked_safe[OF Suc.prems] Suc.IH[of p1] by (cases e) simp_all
qed simp

lemma stop_workers_safe:
  "list_all (worker_safe q A me) ws \<Longrightarrow> (\<And>d. me \<in> A d) \<Longrightarrow>
     list_all (\<lambda>b. b_Round b = 0) (snd (stop_workers C now st ws))"
proof (induction ws arbitrary: st)
  case (Cons w ws)
  obtain w' st1 b e where 1: "Worker_Stop C now st w = (w', st1, b, e)" by (rule prod_cases4)
  obtain st2 bs where 2: "stop_workers C now st1 ws = (st2, bs)" by fastforce
  have "round0 b" using Worker_Stop_safe[OF _ _ 1] Cons.prems by auto
  then show ?case using Cons.IH[of st1] Cons.prems 1 2 by (auto simp: round0_def split: option.splits)
qed simp

lemma Pool_Stop_safe:
  assumes "pool_safe q A me p" and "\<And>d. me \<in> A d" and "Pool_Stop C now st p = (p', st', bs, e)"
  shows "pool_safe q A me p' \<and> list_all (\<lambda>b. b_Round b = 0) bs"
  using assms(1,3) stop_workers_safe[of q A me "p_workers p" C now st] assms(2)
  by (auto simp: Pool_Stop_def pool_safe_def split: if_splits prod.splits)

lemma Pool_Start_safe:
  assumes "pool_safe q A me p" and "\<And>d. me \<in> A d" and "Pool_Start C now st p = (p', st', bs, e)"
  shows "pool_safe q A me p' \<and> list_all (\<lambda>b. b_Round b = 0) bs"
proof -
  obtain p1 e1 where 1: "add_workers (nat (pc_MinWorkers (p_cfg p))) (p\<lparr>p_running := True\<rparr>) = (p1, e1)" by fastforce
  have s: "pool_safe q A me p1" using add_workers_safe[of q A me "p\<lparr>p_running := True\<rparr>"] assms(1) 1
    by (metis fst_conv pool_safe_running)
  obtain p2 st2 bs2 e2 where 2: "Pool_Stop C now st p1 = (p2, st2, bs2, e2)" by (rule prod_cases4)
  show ?thesis using assms(1,3) s 1 2 Pool_Stop_safe[OF s assms(2) 2]
    by (cases e1) (auto simp: Pool_Start_def split: if_splits)
qed

lemma Pool_AddTx_safe [safe_intros]: "pool_safe q A me p \<Longrightarrow> pool_safe q A me (fst (Pool_AddTx C tx st p))"
proof -
  assume safe: "pool_safe q A me p"
  show ?thesis
  proof (cases "p_running p \<and> length (p_workers p) \<noteq> 0")
    case True
    let ?i = "route (Transaction_Hash C tx) (length (p_workers p))"
    show ?thesis
    proof (cases "?i < length (p_workers p)")
      case i: True
      then have "worker_safe q A me (fst (Worker_AddTx C tx st (p_workers p ! ?i)))"
        by (intro safe_intros pool_safe_workers[OF safe]) simp
      then show ?thesis using pool_safe_update[OF safe] True
        by (simp add: Pool_AddTx_def Let_def case_prod_beta)
    next
      case False
      then show ?thesis using safe True by (simp add: Pool_AddTx_def Let_def case_prod_beta list_update_beyond)
    qed
  qed (use safe in \<open>auto simp: Pool_AddTx_def\<close>)
qed

lemma record_ack_workers_safe:
  "list_all (worker_safe q A me) ws \<Longrightarrow> v \<in> A d \<Longrightarrow>
     list_all (worker_safe q A me) (fst (record_ack_workers now d v ws))"
proof (induction ws)
  case (Cons w ws)
  obtain w' r cb where 1: "Worker_RecordAck now d v w = (w', r, cb)" by (rule prod_cases3)
  have "worker_safe q A me w'" using Worker_RecordAck_safe[of q A me w v d now] Cons.prems 1 by simp
  then show ?case using Cons 1 by (simp add: case_prod_beta)
qed simp

lemma Pool_RecordAck_safe [safe_intros]:
  "pool_safe q A me p \<Longrightarrow> v \<in> A d \<Longrightarrow> pool_safe q A me (fst (Pool_RecordAck now d v p))"
  using record_ack_workers_safe[of q A me "p_workers p" v d now]
  by (simp add: pool_safe_def Pool_RecordAck_def case_prod_beta)

lemma ScaleUp_safe: "pool_safe q A me p \<Longrightarrow> pool_safe q A me (fst (Pool_ScaleUp p))"
  using addWorkerLocked_safe[of q A me p]
  by (auto simp: Pool_ScaleUp_def split: prod.splits option.splits)

lemma redistribute_safe:
  "list_all (worker_safe q A me) ws \<Longrightarrow> list_all (worker_safe q A me) (Pool_redistributeTxsLocked C txs st ws)"
proof (induction C txs st ws rule: Pool_redistributeTxsLocked.induct)
  case (2 C tx txs st ws)
  let ?i = "route (Transaction_Hash C tx) (length ws)"
  obtain w e where w: "Worker_AddTx C tx st (ws ! ?i) = (w, e)" by fastforce
  have "list_all (worker_safe q A me) (ws[?i := w])"
  proof (cases "?i < length ws")
    case True
    then have "worker_safe q A me w" using Worker_AddTx_safe[of q A me "ws ! ?i" C tx st] "2.prems" w
      by (simp add: list_all_iff)
    then show ?thesis using "2.prems" set_update_subset_insert[of ws ?i w] by (fastforce simp: list_all_iff)
  qed (use 2 in \<open>simp add: list_update_beyond\<close>)
  then show ?case using 2 w by simp
qed simp

lemma ScaleDown_safe:
  assumes "pool_safe q A me p" and "\<And>d. me \<in> A d" and "Pool_ScaleDown C now st p = (p', st', b, r)"
  shows "pool_safe q A me p' \<and> round0 b"
proof (cases "p_running p \<and> \<not> int (length (p_workers p)) \<le> pc_MinWorkers (p_cfg p) \<and> p_workers p \<noteq> []")
  case True
  let ?w = "last (p_workers p)" and ?ws = "butlast (p_workers p)"
  obtain w1 pend where 1: "Worker_DrainPending ?w = (w1, pend)" by fastforce
  obtain w2 st1 b1 e where 2: "Worker_Stop C now st w1 = (w2, st1, b1, e)" by (rule prod_cases4)
  have "worker_safe q A me w1"
    using worker_setters_safe(7)[OF pool_safe_workers[OF assms(1)], of ?w] True 1 by simp
  then have b: "round0 b1" using Worker_Stop_safe[OF _ assms(2) 2] by simp
  have ws: "list_all (worker_safe q A me) ?ws" using assms(1) by (auto simp: pool_safe_def list_all_iff dest: in_set_butlastD)
  show ?thesis using assms(1,3) True 1 2 b ws redistribute_safe[OF ws]
    by (auto simp: Pool_ScaleDown_def Let_def pool_safe_def)
next
  case False
  then have "p' = p" "b = None"
    using assms(1,3) by (auto simp: Pool_ScaleDown_def pool_safe_def split: if_splits)
  then show ?thesis using assms(1) by (simp add: round0_def)
qed

lemma checkAndScale_safe:
  assumes "pool_safe q A me p" and "\<And>d. me \<in> A d" and "Scaler_checkAndScale C now st s p = (s', p', st', b)"
  shows "pool_safe q A me p' \<and> round0 b"
proof -
  obtain p1 r1 where 1: "Pool_ScaleUp p = (p1, r1)" by fastforce
  obtain p2 st2 b2 r2 where 2: "Pool_ScaleDown C now st p = (p2, st2, b2, r2)" by (rule prod_cases4)
  have "pool_safe q A me p1" using ScaleUp_safe[OF assms(1)] 1 by simp
  then show ?thesis using assms(1,3) 1 2 ScaleDown_safe[OF assms(1,2) 2]
    by (cases r1; cases r2)
       (auto simp: Scaler_checkAndScale_def Scaler_tryScaleUp_def Scaler_tryScaleDown_def Let_def round0_def
         split: if_splits)
qed

lemma safe_HasBatchAckQuorum:
  assumes "pool_safe q A me p" and "Pool_HasBatchAckQuorum d p"
  shows "\<exists>S. S \<subseteq> A d \<and> finite S \<and> q \<le> int (card S)"
  using assms safe_quorum by (fastforce simp: Pool_HasBatchAckQuorum_def list_ex_iff pool_safe_def list_all_iff worker_safe_def)

lemma safe_PendingBatches:
  assumes "pool_safe q A me p" and "b \<in> set (Pool_PendingBatchesBelowQuorum ord now minAge p)"
  shows "b_Round b = 0"
  using assms
  by (fastforce simp: Pool_PendingBatchesBelowQuorum_def AckTracker_PendingBelowQuorum_def pool_safe_def list_all_iff
      worker_safe_def tracker_safe_def set_map_values split: if_splits)

end
