(* ===== verification/Node_Safety.thy ===== *)
theory Node_Safety
  imports Node_Runs Pool_Safety
begin

text \<open>
  An invariant of all runs of a node and what follows for its outputs: the certificates it forms verify, its
  headers cite only batches that a quorum has acknowledged, and all its batches have round 0.
\<close>

section \<open>Operations that keep an invariant\<close>

text \<open>\<open>safe I Q f\<close>: the operation keeps \<open>I\<close>, and from a state with \<open>I\<close> its outputs satisfy \<open>Q\<close>.\<close>

definition safe_result :: "(Looseberry \<Rightarrow> bool) \<Rightarrow> (node_output \<Rightarrow> bool) \<Rightarrow> Looseberry \<times> node_output list \<Rightarrow> bool" where
  "safe_result I Q r \<longleftrightarrow> I (fst r) \<and> list_all Q (snd r)"

definition safe :: "(Looseberry \<Rightarrow> bool) \<Rightarrow> (node_output \<Rightarrow> bool) \<Rightarrow> node_op \<Rightarrow> bool" where
  "safe I Q f \<longleftrightarrow> (\<forall>l. I l \<longrightarrow> safe_result I Q (f l))"

lemma safeD: "safe I Q f \<Longrightarrow> I l \<Longrightarrow> safe_result I Q (f l)"
  by (simp add: safe_def)

lemma safeI: "(\<And>l. I l \<Longrightarrow> safe_result I Q (f l)) \<Longrightarrow> safe I Q f"
  by (simp add: safe_def)

lemma safe_result_Pair [simp]: "safe_result I Q (l, out) \<longleftrightarrow> I l \<and> list_all Q out"
  by (simp add: safe_result_def)

lemma safe_then_do [safe_intros]: "safe I Q f \<Longrightarrow> safe I Q g \<Longrightarrow> safe I Q (then_do f g)"
  by (auto simp: safe_def safe_result_def then_do_def case_prod_unfold Let_def)

lemma safe_for_each [safe_intros]: "(\<And>x. x \<in> set xs \<Longrightarrow> safe I Q (f x)) \<Longrightarrow> safe I Q (for_each f xs)"
proof (induction xs)
  case (Cons x xs)
  then have "safe I Q (then_do (f x) (for_each f xs))" by (intro safe_then_do) simp_all
  then show ?case by (simp add: safe_def)
qed (simp add: safe_def)

lemma safe_dispatch [safe_intros]: "safe I Q f \<Longrightarrow> safe I Q (Looseberry_dispatchAsync f)"
  by (auto simp: safe_def Looseberry_dispatchAsync_def)

lemma safe_send [safe_intros]: "Q (Net m) \<Longrightarrow> safe I Q (send m)"
  by (simp add: safe_def send_def)

lemma safe_with_components:
  assumes "\<And>c bs cs idx l. I l \<Longrightarrow> lb_components l = Some c \<Longrightarrow> lb_batchStore l = Some bs \<Longrightarrow>
    lb_certStore l = Some cs \<Longrightarrow> lb_txIndex l = Some idx \<Longrightarrow> safe_result I Q (f c bs cs idx l)"
  shows "safe I Q (with_components f)"
  using assms by (auto simp: safe_def with_components_def split: option.splits)

section \<open>The invariant\<close>

definition ack_valid :: "crypto \<Rightarrow> SimpleValidatorSet \<Rightarrow> BatchAckMessage \<Rightarrow> bool" where
  "ack_valid C vs m \<longleftrightarrow> (\<exists>v. ValidatorSet_GetByIndex vs (ba_Validator m) = Some v \<and>
     PublicKey_Verify C (val_PublicKey v)
       (BatchAckSignBytes C (ba_BatchDigest m) (ba_Validator m) (ba_Round m)) (ba_Signature m))"

text \<open>The node itself and the validators of which it has received a signed acknowledgment of the batch.\<close>

definition ackers :: "crypto \<Rightarrow> SimpleValidatorSet \<Rightarrow> u16 \<Rightarrow> BatchAckMessage set \<Rightarrow> hash \<Rightarrow> u16 set" where
  "ackers C vs me M d =
     insert me {ba_Validator m | m. m \<in> M \<and> ba_BatchDigest m = d \<and> ack_valid C vs m}"

type_synonym node_core = "NodeConfig \<times> SimpleValidatorSet option \<times> (Primary \<times> Pool) option"

definition core :: "Looseberry \<Rightarrow> node_core" where
  "core l = (lb_cfg l, lb_validatorSet l,
     case lb_components l of None \<Rightarrow> None | Some c \<Rightarrow> Some (lb_primaryNode c, lb_workerPool c))"

definition node_inv :: "crypto \<Rightarrow> NodeConfig \<Rightarrow> SimpleValidatorSet \<Rightarrow> BatchAckMessage set \<Rightarrow> Looseberry \<Rightarrow> bool" where
  "node_inv C cfg vs M l \<longleftrightarrow> 0 \<le> nw_MinWorkers (nc_Worker cfg) \<and>
     (\<exists>x. core l = (cfg, Some vs, x) \<and>
       (\<forall>p pool. x = Some (p, pool) \<longrightarrow> primary_inv C vs (nc_ValidatorIndex cfg) (nc_Signer cfg) p \<and>
         pool_safe (ValidatorSet_Quorum vs) (ackers C vs (nc_ValidatorIndex cfg) M) (nc_ValidatorIndex cfg) pool))"

fun out_ok :: "crypto \<Rightarrow> NodeConfig \<Rightarrow> SimpleValidatorSet \<Rightarrow> node_output \<Rightarrow> bool" where
  "out_ok C cfg vs (CertQuorum c) \<longleftrightarrow> good_certificate C vs (nc_ValidatorIndex cfg) c"
| "out_ok C cfg vs (Net (BroadcastBatch b)) \<longleftrightarrow> b_Round b = 0"
| "out_ok C cfg vs (Net (BroadcastHeader h)) \<longleftrightarrow> own_header C vs (nc_ValidatorIndex cfg) h"
| "out_ok C cfg vs (Net (SendVote _ v)) \<longleftrightarrow> v_Validator v = nc_ValidatorIndex cfg \<and>
     sg_Sign (nc_Signer cfg) (v_HeaderDigest v) = Inr (v_Signature v)"
| "out_ok C cfg vs (Net _) \<longleftrightarrow> True"

lemma self_acker: "me \<in> ackers C vs me M d"
  by (simp add: ackers_def)

lemma ackers_mono: "M \<subseteq> M' \<Longrightarrow> ackers C vs me M d \<subseteq> ackers C vs me M' d"
  by (auto simp: ackers_def)

lemma node_inv_core: "core l' = core l \<Longrightarrow> node_inv C cfg vs M l' = node_inv C cfg vs M l"
  by (simp add: node_inv_def)

lemma node_inv_mono:
  assumes "node_inv C cfg vs M l" and "M \<subseteq> M'"
  shows "node_inv C cfg vs M' l"
proof -
  have "pool_safe q (ackers C vs me M) me p \<Longrightarrow> pool_safe q (ackers C vs me M') me p" for q me p
    by (erule pool_safe_mono) (rule ackers_mono[OF assms(2)])
  then show ?thesis using assms(1) unfolding node_inv_def by blast
qed

lemma node_invD:
  assumes "node_inv C cfg vs M l" and "lb_components l = Some c"
  shows "primary_inv C vs (nc_ValidatorIndex cfg) (nc_Signer cfg) (lb_primaryNode c)"
    "pool_safe (ValidatorSet_Quorum vs) (ackers C vs (nc_ValidatorIndex cfg) M) (nc_ValidatorIndex cfg) (lb_workerPool c)"
  using assms by (auto simp: node_inv_def core_def)

lemma node_inv_cfg: "node_inv C cfg vs M l \<Longrightarrow> lb_cfg l = cfg \<and> lb_validatorSet l = Some vs"
  by (auto simp: node_inv_def core_def)

lemma node_inv_set:
  assumes "node_inv C cfg vs M l" and "lb_cfg l' = lb_cfg l" and "lb_validatorSet l' = lb_validatorSet l"
    and "lb_components l' = Some c'"
    and "primary_inv C vs (nc_ValidatorIndex cfg) (nc_Signer cfg) (lb_primaryNode c')"
    and "pool_safe (ValidatorSet_Quorum vs) (ackers C vs (nc_ValidatorIndex cfg) M) (nc_ValidatorIndex cfg) (lb_workerPool c')"
  shows "node_inv C cfg vs M l'"
  using assms by (auto simp: node_inv_def core_def)

lemma core_update [simp]:
  "core (l\<lparr>lb_batchStore := bs\<rparr>) = core l" "core (l\<lparr>lb_certStore := cs\<rparr>) = core l" "core (l\<lparr>lb_txIndex := idx\<rparr>) = core l"
  "core (l\<lparr>lb_totalTxAdded := n\<rparr>) = core l" "core (l\<lparr>lb_totalTxRejected := n\<rparr>) = core l" "core (l\<lparr>lb_totalBatches := n\<rparr>) = core l"
  "core (l\<lparr>lb_startNanos := t\<rparr>) = core l" "core (l\<lparr>lb_lastCommitNanos := t\<rparr>) = core l"
  "core (l\<lparr>lb_lastCommittedRound := n\<rparr>) = core l" "core (l\<lparr>lb_totalRebroadcastFires := n\<rparr>) = core l"
  "core (l\<lparr>lb_totalRebroadcastedBatches := n\<rparr>) = core l" "core (l\<lparr>lb_totalRebroadcastedHeaders := n\<rparr>) = core l"
  "core (l\<lparr>lb_orphanCerts := os\<rparr>) = core l" "core (l\<lparr>lb_running := b\<rparr>) = core l"
  "core (l\<lparr>lb_ackQuorumCallback := b\<rparr>) = core l" "core (l\<lparr>lb_certQuorumCallback := b\<rparr>) = core l"
  by (simp_all add: core_def)

lemma node_inv_update [simp]:
  "node_inv C cfg vs M (l\<lparr>lb_batchStore := bs\<rparr>) = node_inv C cfg vs M l"
  "node_inv C cfg vs M (l\<lparr>lb_certStore := cs\<rparr>) = node_inv C cfg vs M l"
  "node_inv C cfg vs M (l\<lparr>lb_txIndex := idx\<rparr>) = node_inv C cfg vs M l"
  "node_inv C cfg vs M (l\<lparr>lb_totalTxAdded := n\<rparr>) = node_inv C cfg vs M l"
  "node_inv C cfg vs M (l\<lparr>lb_totalTxRejected := n\<rparr>) = node_inv C cfg vs M l"
  "node_inv C cfg vs M (l\<lparr>lb_totalBatches := n\<rparr>) = node_inv C cfg vs M l"
  "node_inv C cfg vs M (l\<lparr>lb_startNanos := t\<rparr>) = node_inv C cfg vs M l"
  "node_inv C cfg vs M (l\<lparr>lb_lastCommitNanos := t\<rparr>) = node_inv C cfg vs M l"
  "node_inv C cfg vs M (l\<lparr>lb_lastCommittedRound := n\<rparr>) = node_inv C cfg vs M l"
  "node_inv C cfg vs M (l\<lparr>lb_totalRebroadcastFires := n\<rparr>) = node_inv C cfg vs M l"
  "node_inv C cfg vs M (l\<lparr>lb_totalRebroadcastedBatches := n\<rparr>) = node_inv C cfg vs M l"
  "node_inv C cfg vs M (l\<lparr>lb_totalRebroadcastedHeaders := n\<rparr>) = node_inv C cfg vs M l"
  "node_inv C cfg vs M (l\<lparr>lb_orphanCerts := os\<rparr>) = node_inv C cfg vs M l"
  "node_inv C cfg vs M (l\<lparr>lb_running := b\<rparr>) = node_inv C cfg vs M l"
  "node_inv C cfg vs M (l\<lparr>lb_ackQuorumCallback := b\<rparr>) = node_inv C cfg vs M l"
  "node_inv C cfg vs M (l\<lparr>lb_certQuorumCallback := b\<rparr>) = node_inv C cfg vs M l"
  by (simp_all add: node_inv_def)

text \<open>Replacing the components by ones with the same primary and pool.\<close>

lemma node_inv_same:
  assumes "node_inv C cfg vs M l" and "lb_components l = Some c"
    and "lb_primaryNode c' = lb_primaryNode c" and "lb_workerPool c' = lb_workerPool c"
  shows "node_inv C cfg vs M (l\<lparr>lb_components := Some c'\<rparr>)"
  using assms by (auto simp: node_inv_def core_def)

lemma node_inv_fetcher:
  "lb_components l = Some c \<Longrightarrow>
     node_inv C cfg vs M (l\<lparr>lb_components := Some (c\<lparr>lb_batchFetcher := bf\<rparr>)\<rparr>) = node_inv C cfg vs M l"
  by (simp add: node_inv_def core_def)

lemma node_inv_pool:
  assumes "node_inv C cfg vs M l" and "lb_components l = Some c"
    and "lb_primaryNode c' = lb_primaryNode c"
    and "pool_safe (ValidatorSet_Quorum vs) (ackers C vs (nc_ValidatorIndex cfg) M) (nc_ValidatorIndex cfg) (lb_workerPool c')"
  shows "node_inv C cfg vs M (l\<lparr>lb_components := Some c'\<rparr>)"
  using assms by (auto simp: node_inv_def core_def)

lemma node_inv_primary:
  assumes "node_inv C cfg vs M l" and "lb_components l = Some c"
    and "lb_workerPool c' = lb_workerPool c"
    and "primary_inv C vs (nc_ValidatorIndex cfg) (nc_Signer cfg) (lb_primaryNode c')"
  shows "node_inv C cfg vs M (l\<lparr>lb_components := Some c'\<rparr>)"
  using assms by (auto simp: node_inv_def core_def)


abbreviation nsafe :: "crypto \<Rightarrow> NodeConfig \<Rightarrow> SimpleValidatorSet \<Rightarrow> BatchAckMessage set \<Rightarrow> node_op \<Rightarrow> bool" where
  "nsafe C cfg vs M \<equiv> safe (node_inv C cfg vs M) (out_ok C cfg vs)"

abbreviation nresult ::
  "crypto \<Rightarrow> NodeConfig \<Rightarrow> SimpleValidatorSet \<Rightarrow> BatchAckMessage set \<Rightarrow> Looseberry \<times> node_output list \<Rightarrow> bool" where
  "nresult C cfg vs M \<equiv> safe_result (node_inv C cfg vs M) (out_ok C cfg vs)"

section \<open>Callbacks\<close>

lemma onBatchRequest_safe [safe_intros]: "nsafe C cfg vs M (Looseberry_onBatchRequest r)"
  by (simp add: safe_def Looseberry_onBatchRequest_def send_def)

lemma onVoteCreated_safe [safe_intros]:
  "out_ok C cfg vs (Net (SendVote (snd v) (fst v))) \<Longrightarrow> nsafe C cfg vs M (Looseberry_onVoteCreated v)"
  by (simp add: safe_def Looseberry_onVoteCreated_def Looseberry_dispatchAsync_def send_def)

lemma onHeaderCreated_safe [safe_intros]:
  "out_ok C cfg vs (Net (BroadcastHeader h)) \<Longrightarrow> nsafe C cfg vs M (Looseberry_onHeaderCreated h)"
  by (simp add: safe_def Looseberry_onHeaderCreated_def send_def)

text \<open>The votes of the primary carry its number and the signature of its signer.\<close>

lemma HandleHeader_vote_signed:
  assumes "primary_inv C vs i sg p" and "Primary_HandleHeader C' now bs cs h p bf = (bf', reqs, Some (v, a), e)"
  shows "v_Validator v = i \<and> sg_Sign sg (v_HeaderDigest v) = Inr (v_Signature v)"
  using assms(2) primary_invD(2,3)[OF assms(1)]
  by (auto simp: Primary_HandleHeader_def Vote_Sign_def NewVote_def Let_def split: if_splits option.splits sum.splits prod.splits)

lemma node_HandleHeader_safe [safe_intros]: "nsafe C cfg vs M (node_HandleHeader C' now h)"
  unfolding node_HandleHeader_def
proof (rule safe_with_components)
  fix c bs cs idx l
  assume l: "node_inv C cfg vs M l" "lb_components l = Some c"
  obtain bf reqs vote e where
    r: "Primary_HandleHeader C' now bs cs h (lb_primaryNode c) (lb_batchFetcher c) = (bf, reqs, vote, e)"
    by (rule prod_cases4)
  have "node_inv C cfg vs M (set_components (c\<lparr>lb_batchFetcher := bf\<rparr>) l)"
    unfolding set_components_def by (rule node_inv_same[OF l]) simp_all
  then show "nresult C cfg vs M (let (bf, reqs, vote, e) =
      Primary_HandleHeader C' now bs cs h (lb_primaryNode c) (lb_batchFetcher c)
     in then_do (for_each Looseberry_onBatchRequest reqs)
          (for_each Looseberry_onVoteCreated (case vote of None \<Rightarrow> [] | Some v \<Rightarrow> [v]))
          (set_components (c\<lparr>lb_batchFetcher := bf\<rparr>) l))"
    unfolding r Let_def prod.case
  proof (intro safeD[of _ _ "then_do _ _"] safe_then_do safe_for_each onBatchRequest_safe onVoteCreated_safe)
    fix v
    assume "v \<in> set (case vote of None \<Rightarrow> [] | Some v \<Rightarrow> [v])"
    then have "vote = Some (fst v, snd v)" by (cases vote) auto
    from HandleHeader_vote_signed[OF node_invD(1)[OF l] r[unfolded this]]
    show "out_ok C cfg vs (Net (SendVote (snd v) (fst v)))" by simp
  qed
qed

lemma onHeaderReady_safe [safe_intros]: "nsafe C cfg vs M (Looseberry_onHeaderReady C' now h)"
  unfolding Looseberry_onHeaderReady_def by (rule safe_intros)

lemma onCertificateFormed_safe [safe_intros]:
  assumes "good_certificate C vs (nc_ValidatorIndex cfg) cert"
  shows "nsafe C cfg vs M (Looseberry_onCertificateFormed cert)"
  unfolding Looseberry_onCertificateFormed_def
  by (rule safe_with_components)
     (auto simp: Let_def set_dag_def assms intro: node_inv_same)

lemma onBatchCreated_safe [safe_intros]:
  assumes "b_Round b = 0"
  shows "nsafe C cfg vs M (Looseberry_onBatchCreated b)"
proof (rule safeI)
  fix l
  assume l: "node_inv C cfg vs M l"
  show "nresult C cfg vs M (Looseberry_onBatchCreated b l)"
  proof (cases "lb_components l")
    case None
    then show ?thesis using l assms by (simp add: Looseberry_onBatchCreated_def)
  next
    case (Some c)
    let ?p = "Primary_AddBatchDigest \<lparr>bd_Digest = b_Digest b, bd_WorkerID = b_WorkerID b, bd_ValidatorID = b_ValidatorID b\<rparr>
      (lb_primaryNode c)"
    have "primary_inv C vs (nc_ValidatorIndex cfg) (nc_Signer cfg) ?p"
      by (rule primary_inv_cong[OF node_invD(1)[OF l Some]]) (simp_all add: Primary_AddBatchDigest_def)
    then have "node_inv C cfg vs M (l\<lparr>lb_totalBatches := lb_totalBatches l + 1,
        lb_components := Some (c\<lparr>lb_primaryNode := ?p\<rparr>)\<rparr>)"
      by (intro node_inv_primary[of _ _ _ _ _ c]) (simp_all add: l Some)
    then show ?thesis using Some assms by (simp add: Looseberry_onBatchCreated_def set_components_def Let_def)
  qed
qed

lemma onTxRecovered_safe:
  "pool_safe q A me p \<Longrightarrow> pool_safe q A me (Looseberry_onTxRecovered C bs txs idx p)"
  unfolding Looseberry_onTxRecovered_def by (induction txs arbitrary: p) (simp_all add: Pool_AddTx_safe)

lemma batches_created_safe [safe_intros]:
  "list_all (\<lambda>b. b_Round b = 0) bs \<Longrightarrow> nsafe C cfg vs M (for_each Looseberry_onBatchCreated bs)"
  by (intro safe_intros) (simp add: list_all_iff)

lemma set_pool_inv:
  assumes "node_inv C cfg vs M l" and "lb_components l = Some c" and "lb_primaryNode c' = lb_primaryNode c"
    and "pool_safe (ValidatorSet_Quorum vs) (ackers C vs (nc_ValidatorIndex cfg) M) (nc_ValidatorIndex cfg) p"
  shows "node_inv C cfg vs M (set_pool p st c' l)"
  using node_inv_pool[OF assms(1,2), of "c'\<lparr>lb_workerPool := p\<rparr>"] assms(3,4) by (simp add: set_pool_def)

section \<open>Messages\<close>

lemma sendBatchAck_safe [safe_intros]: "nsafe C cfg vs M (Looseberry_sendBatchAck C' frm b)"
  by (auto simp: safe_def Looseberry_sendBatchAck_def Looseberry_dispatchAsync_def send_def Let_def split: sum.split)

lemma handleBatchMessage_safe [safe_intros]: "nsafe C cfg vs M (Looseberry_handleBatchMessage C' now m)"
proof (cases "bm_Batch m")
  case (Some b)
  have "nsafe C cfg vs M (with_components (\<lambda>c bs cs idx l.
      let bs1 = fst (MemoryBatchStore_SaveBatch b bs); idx1 = fst (MemoryTxIndex_AddBatch C' b idx);
          (bf, ready) = BatchFetcher_NotifyBatchReceived (Some b) (lb_batchFetcher c)
      in then_do (for_each (Looseberry_onHeaderReady C' now) ready) (Looseberry_sendBatchAck C' (bm_From m) b)
           (l\<lparr>lb_components := Some (c\<lparr>lb_batchFetcher := bf\<rparr>), lb_batchStore := Some bs1, lb_txIndex := Some idx1\<rparr>)))"
    by (rule safe_with_components)
       (auto simp: Let_def case_prod_unfold node_inv_fetcher intro!: safeD[of _ _ "then_do _ _"] safe_intros)
  then show ?thesis using Some by (simp add: safe_def Looseberry_handleBatchMessage_def)
qed (simp add: safe_def Looseberry_handleBatchMessage_def)

lemma handleHeaderMessage_safe [safe_intros]: "nsafe C cfg vs M (Looseberry_handleHeaderMessage C' now m)"
  using node_HandleHeader_safe[of C cfg vs M C' now]
  by (auto simp: safe_def Looseberry_handleHeaderMessage_def split: option.split)

lemma certificates_formed_safe [safe_intros]:
  "\<forall>c \<in> set certs. good_certificate C vs (nc_ValidatorIndex cfg) c \<Longrightarrow>
     nsafe C cfg vs M (for_each Looseberry_onCertificateFormed certs)"
  by (intro safe_intros) simp

lemma handleVoteMessage_safe [safe_intros]:
  assumes "go_order ord"
  shows "nsafe C cfg vs M (Looseberry_handleVoteMessage C ord now m)"
proof (cases "vm_Vote m")
  case (Some v)
  have "nsafe C cfg vs M (with_components (\<lambda>c bs cs idx l.
      let (p, cs1, cert) = Primary_HandleVote C ord now (Some v) (lb_primaryNode c) cs
      in for_each Looseberry_onCertificateFormed (case cert of None \<Rightarrow> [] | Some x \<Rightarrow> [x])
           (l\<lparr>lb_components := Some (c\<lparr>lb_primaryNode := p\<rparr>), lb_certStore := Some cs1\<rparr>)))"
  proof (rule safe_with_components)
    fix c bs cs idx l
    assume l: "node_inv C cfg vs M l" "lb_components l = Some c"
    obtain p cs1 cert where r: "Primary_HandleVote C ord now (Some v) (lb_primaryNode c) cs = (p, cs1, cert)"
      by (rule prod_cases3)
    note inv = HandleVote_inv[OF node_invD(1)[OF l] assms r]
    have "node_inv C cfg vs M (l\<lparr>lb_components := Some (c\<lparr>lb_primaryNode := p\<rparr>), lb_certStore := Some cs1\<rparr>)"
      using node_inv_primary[OF l, of "c\<lparr>lb_primaryNode := p\<rparr>"] inv by simp
    then show "nresult C cfg vs M (let (p, cs1, cert) = Primary_HandleVote C ord now (Some v) (lb_primaryNode c) cs
      in for_each Looseberry_onCertificateFormed (case cert of None \<Rightarrow> [] | Some x \<Rightarrow> [x])
           (l\<lparr>lb_components := Some (c\<lparr>lb_primaryNode := p\<rparr>), lb_certStore := Some cs1\<rparr>))"
      unfolding r Let_def prod.case using inv by (intro safeD[of _ _ "for_each _ _"] certificates_formed_safe) (auto split: option.splits)
  qed
  then show ?thesis using Some by (simp add: safe_def Looseberry_handleVoteMessage_def)
qed (simp add: safe_def Looseberry_handleVoteMessage_def)

lemma handleCertificateMessage_safe [safe_intros]:
  "nsafe C cfg vs M (Looseberry_handleCertificateMessage C ord m)"
proof (cases "cm_Certificate m")
  case (Some cert)
  have "nresult C cfg vs M (Looseberry_handleCertificateMessage C ord m l)" if l: "node_inv C cfg vs M l" for l
  proof (cases "\<exists>c bs cs idx. lb_components l = Some c \<and> lb_batchStore l = Some bs \<and> lb_certStore l = Some cs \<and>
      lb_txIndex l = Some idx")
    case True
    then obtain c bs cs idx where c: "lb_components l = Some c" "lb_batchStore l = Some bs" "lb_certStore l = Some cs"
      "lb_txIndex l = Some idx" by blast
    obtain p cs1 e where r: "Primary_HandleCertificate C cert (lb_primaryNode c) cs = (p, cs1, e)" by (rule prod_cases3)
    have p: "primary_inv C vs (nc_ValidatorIndex cfg) (nc_Signer cfg) p"
      using HandleCertificate_inv[OF node_invD(1)[OF l c(1)], of cert cs] r by simp
    have "node_inv C cfg vs M (set_dag d (c\<lparr>lb_primaryNode := p, lb_flowController := fc\<rparr>) (l\<lparr>lb_orphanCerts := os\<rparr>))" for d fc os
      using node_inv_primary[of C cfg vs M "l\<lparr>lb_orphanCerts := os\<rparr>" c "c\<lparr>lb_primaryNode := p, lb_flowController := fc, lb_dag := d\<rparr>"]
        l c p by (simp add: set_dag_def)
    then show ?thesis using Some c r
      by (simp add: Looseberry_handleCertificateMessage_def with_components_def Let_def case_prod_unfold)
  qed (use l Some in \<open>auto simp: Looseberry_handleCertificateMessage_def with_components_def split: option.splits\<close>)
  then show ?thesis by (rule safeI)
qed (simp add: safe_def Looseberry_handleCertificateMessage_def)

lemma handleBatchAckMessage_safe:
  assumes l: "node_inv C cfg vs M l"
  shows "nresult C cfg vs (insert m M) (Looseberry_handleBatchAckMessage C now m l)"
proof -
  have l': "node_inv C cfg vs (insert m M) l" using node_inv_mono[OF l] by blast
  show ?thesis
  proof (cases "ack_valid C vs m")
    case True
    then have v: "ba_Validator m \<in> ackers C vs (nc_ValidatorIndex cfg) (insert m M) (ba_BatchDigest m)"
      by (auto simp: ackers_def)
    have "node_inv C cfg vs (insert m M) (l\<lparr>lb_components := map_option (\<lambda>c. c\<lparr>lb_workerPool :=
          fst (Pool_RecordAck now (ba_BatchDigest m) (ba_Validator m) (lb_workerPool c))\<rparr>) (lb_components l)\<rparr>)"
    proof (cases "lb_components l")
      case (Some c)
      then show ?thesis
        using node_inv_pool[OF l' Some] Pool_RecordAck_safe[OF node_invD(2)[OF l' Some] v] by simp
    qed (use l' in \<open>simp add: node_inv_def core_def\<close>)
    then show ?thesis using True node_inv_cfg[OF l]
      by (auto simp: Looseberry_handleBatchAckMessage_def ack_valid_def)
  next
    case False
    then show ?thesis using l' node_inv_cfg[OF l]
      by (auto simp: Looseberry_handleBatchAckMessage_def ack_valid_def split: option.split)
  qed
qed

lemma handleBatchRequestMessage_safe [safe_intros]: "nsafe C cfg vs M (Looseberry_handleBatchRequestMessage m)"
  by (simp add: safe_def Looseberry_handleBatchRequestMessage_def Let_def send_def)

lemma handleBatchResponseMessage_safe [safe_intros]:
  "nsafe C cfg vs M (Looseberry_handleBatchResponseMessage C' now m)"
  unfolding Looseberry_handleBatchResponseMessage_def
  by (rule safe_with_components)
     (auto simp: Let_def case_prod_unfold node_inv_fetcher intro!: safeD[of _ _ "for_each _ _"] safe_intros)

lemma handleSyncRequest_safe:
  assumes "node_inv C cfg vs M l" and "Looseberry_handleSyncRequest ord m l = Some r"
  shows "nresult C cfg vs M r"
proof -
  have "list_all (out_ok C cfg vs) (map Net calls)"
    if "SyncManager_HandleSyncRequest ord m bs d s = Some (calls, e)" for bs d s calls e
    using that by (auto simp: SyncManager_HandleSyncRequest_def Let_def split: if_splits option.splits)
  then show ?thesis using assms
    by (auto simp: Looseberry_handleSyncRequest_def split: option.splits)
qed

lemma deliver_fold_inv:
  assumes "node_inv C cfg vs M l" and "\<And>cert l. node_inv C cfg vs M l \<Longrightarrow> node_inv C cfg vs M (f cert l)"
  shows "node_inv C cfg vs M (snd (fold (sync_deliver (Some f) C vs') certs (d, l)))"
  using assms(1)
proof (induction certs arbitrary: d l)
  case (Cons cert certs)
  have "\<exists>d' l'. sync_deliver (Some f) C vs' cert (d, l) = (d', l') \<and> node_inv C cfg vs M l'"
    using Cons.prems assms(2) by (auto simp: sync_deliver_def)
  then show ?case using Cons.IH by auto
qed simp

lemma handleSyncResponse_safe [safe_intros]: "nsafe C cfg vs M (Looseberry_handleSyncResponse C ord m)"
proof (cases "srm_Response m")
  case (Some resp)
  let ?f = "\<lambda>cert l. fst (Looseberry_handleCertificateMessage C ord \<lparr>cm_Certificate = Some cert, cm_From = 0\<rparr> l)"
  have f: "node_inv C cfg vs M l \<Longrightarrow> node_inv C cfg vs M (?f cert l)" for cert l
    using safeD[OF handleCertificateMessage_safe, of C cfg vs M l ord] by (simp add: safe_result_def)
  have "nresult C cfg vs M (Looseberry_handleSyncResponse C ord m l)" if l: "node_inv C cfg vs M l" for l
  proof (cases "\<exists>c bs cs idx. lb_components l = Some c \<and> lb_batchStore l = Some bs \<and> lb_certStore l = Some cs \<and>
      lb_txIndex l = Some idx")
    case True
    then obtain c bs cs idx where c: "lb_components l = Some c" "lb_batchStore l = Some bs" "lb_certStore l = Some cs"
      "lb_txIndex l = Some idx" by blast
    obtain s bs1 d l1 x where
      r: "SyncManager_HandleSyncResponse (Some ?f) C resp (srm_From m) bs (lb_syncManager c) (lb_dag c, l) = (s, bs1, (d, l1), x)"
      by (metis surj_pair)
    have "l1 = l \<or> (\<exists>vs' certs. l1 = snd (fold (sync_deliver (Some ?f) C vs') certs (lb_dag c, l)))"
      using r by (auto simp: SyncManager_HandleSyncResponse_def Let_def split: if_splits prod.splits option.splits)
         (metis snd_conv)+
    then have l1: "node_inv C cfg vs M l1" using l deliver_fold_inv[OF l f] by auto
    have "node_inv C cfg vs M (l1\<lparr>lb_components := map_option (\<lambda>c. c\<lparr>lb_syncManager := s\<rparr>) (lb_components l1)\<rparr>)"
      using l1 by (cases "lb_components l1") (auto simp: node_inv_def core_def)
    then show ?thesis using Some c r
      by (simp add: Looseberry_handleSyncResponse_def with_components_def Let_def)
         (simp add: node_inv_def core_def)
  qed (use l Some in \<open>auto simp: Looseberry_handleSyncResponse_def with_components_def split: option.splits\<close>)
  then show ?thesis by (rule safeI)
qed (simp add: safe_def Looseberry_handleSyncResponse_def)

lemma messageLoop_step_safe:
  assumes "node_inv (ne_crypto env) cfg vs M l" and "go_order (ne_votes env)"
    and "Looseberry_messageLoop_step env now msg l = Some r"
  shows "nresult (ne_crypto env) cfg vs (case msg of BatchAckMsg m \<Rightarrow> insert m M | _ \<Rightarrow> M) r"
proof -
  have s: "nsafe (ne_crypto env) cfg vs M f \<Longrightarrow> nresult (ne_crypto env) cfg vs M (f l)" for f
    using safeD assms(1) by blast
  show ?thesis
    using assms(2,3) handleBatchAckMessage_safe[OF assms(1)] handleSyncRequest_safe[OF assms(1)]
    by (cases msg) (auto simp: Looseberry_messageLoop_step_def intro: s[OF handleBatchMessage_safe]
        s[OF handleHeaderMessage_safe] s[OF handleVoteMessage_safe] s[OF handleCertificateMessage_safe]
        s[OF handleBatchRequestMessage_safe] s[OF handleBatchResponseMessage_safe] s[OF handleSyncResponse_safe])
qed

section \<open>Loops\<close>

lemma mbatch_safe: "round0 b \<Longrightarrow> nsafe C cfg vs M (for_each Looseberry_onBatchCreated (case b of None \<Rightarrow> [] | Some x \<Rightarrow> [x]))"
  by (intro safe_intros) (simp add: round0_def split: option.splits)

lemma node_worker_step_safe: "nsafe C cfg vs M (node_worker_step C' now i ev)"
proof (rule safeI)
  fix l
  assume l: "node_inv C cfg vs M l"
  show "nresult C cfg vs M (node_worker_step C' now i ev l)"
  proof (cases "\<exists>c. lb_components l = Some c \<and> i < length (p_workers (lb_workerPool c))")
    case True
    then obtain c where c: "lb_components l = Some c" "i < length (p_workers (lb_workerPool c))" by blast
    obtain w st b cb where
      r: "Worker_batchLoop_step C' now ev (node_storage l) (p_workers (lb_workerPool c) ! i) = (w, st, b, cb)"
      by (rule prod_cases4)
    note pool = node_invD(2)[OF l c(1)]
    have ok: "worker_safe (ValidatorSet_Quorum vs) (ackers C vs (nc_ValidatorIndex cfg) M) (nc_ValidatorIndex cfg) w \<and> round0 b"
      using batchLoop_step_safe[OF pool_safe_workers[OF pool] self_acker r] c(2) by simp
    then have "node_inv C cfg vs M (set_pool ((lb_workerPool c)\<lparr>p_workers := (p_workers (lb_workerPool c))[i := w]\<rparr>) st c l)"
      using set_pool_inv[OF l c(1)] pool_safe_update[OF pool] by simp
    then show ?thesis using safeD[OF mbatch_safe] ok c r by (simp add: node_worker_step_def Let_def)
  qed (use l in \<open>auto simp: node_worker_step_def Let_def split: option.split\<close>)
qed

lemma node_scaler_step_safe: "nsafe C cfg vs M (node_scaler_step C' now)"
proof (rule safeI)
  fix l
  assume l: "node_inv C cfg vs M l"
  show "nresult C cfg vs M (node_scaler_step C' now l)"
  proof (cases "lb_components l")
    case (Some c)
    obtain s p st b where
      r: "Scaler_checkAndScale C' now (node_storage l) (lb_workerScaler c) (lb_workerPool c) = (s, p, st, b)"
      by (rule prod_cases4)
    note ok = checkAndScale_safe[OF node_invD(2)[OF l Some] self_acker r]
    then have "node_inv C cfg vs M (set_pool p st (c\<lparr>lb_workerScaler := s\<rparr>) l)"
      using set_pool_inv[OF l Some] by simp
    then show ?thesis using safeD[OF mbatch_safe] ok Some r by (simp add: node_scaler_step_def)
  qed (use l in \<open>simp add: node_scaler_step_def\<close>)
qed

lemma tryCreateHeader_own:
  assumes inv: "primary_inv C vs i sg p" and "signer_ok C vs i sg"
    and "Primary_tryCreateHeader C ord hasq now p cs = (p', cs', certs, Some h)"
  shows "own_header C vs i h"
proof -
  obtain digests remaining where
    split: "split_digests (pc_MaxBatchesPerHeader (pr_cfg p)) hasq [] [] (pr_batchDigests p) = (digests, remaining)"
    by fastforce
  have "\<exists>parents. Header_Sign sg (NewHeader C now i (pr_currentRound p) (pr_epoch p) digests parents) = Inr h"
    using assms(3) primary_invD(2,3)[OF inv]
    by (auto simp: Primary_tryCreateHeader_def split Let_def split: if_splits sum.splits prod.splits)
  then show ?thesis using signed_header_own[OF assms(2)] by blast
qed

lemma node_header_tick_safe:
  assumes "go_order ord" and "signer_ok C vs (nc_ValidatorIndex cfg) (nc_Signer cfg)"
  shows "nsafe C cfg vs M (node_header_tick C ord now)"
  unfolding node_header_tick_def
proof (rule safe_with_components)
  fix c bs cs idx l
  assume l: "node_inv C cfg vs M l" "lb_components l = Some c"
  let ?acked = "Some (\<lambda>digest. Pool_HasBatchAckQuorum digest (lb_workerPool c))"
  obtain p cs1 certs h where
    r: "Primary_headerLoop_step C ord now (HeaderTick ?acked) (lb_primaryNode c) cs = (p, cs1, certs, h)"
    by (rule prod_cases4)
  have inv: "primary_inv C vs (nc_ValidatorIndex cfg) (nc_Signer cfg) p \<and>
      (\<forall>x \<in> set certs. good_certificate C vs (nc_ValidatorIndex cfg) x)"
    using tryCreateHeader_inv[OF node_invD(1)[OF l] assms] r by (simp add: Primary_headerLoop_step_def)
  have own: "own_header C vs (nc_ValidatorIndex cfg) x" if "h = Some x" for x
    using tryCreateHeader_own[OF node_invD(1)[OF l] assms(2)] r that by (simp add: Primary_headerLoop_step_def)
  have "node_inv C cfg vs M (l\<lparr>lb_components := Some (c\<lparr>lb_primaryNode := p\<rparr>), lb_certStore := Some cs1\<rparr>)"
    using node_inv_primary[OF l, of "c\<lparr>lb_primaryNode := p\<rparr>"] inv by simp
  moreover have "nsafe C cfg vs M (then_do (for_each Looseberry_onCertificateFormed certs)
      (for_each Looseberry_onHeaderCreated (case h of None \<Rightarrow> [] | Some h \<Rightarrow> [h])))"
    using inv own by (intro safe_then_do certificates_formed_safe safe_for_each onHeaderCreated_safe) (auto split: option.splits)
  ultimately show "nresult C cfg vs M (let acked = ?acked;
      (p, cs1, certs, header) = Primary_headerLoop_step C ord now (HeaderTick acked) (lb_primaryNode c) cs
     in then_do (for_each Looseberry_onCertificateFormed certs)
          (for_each Looseberry_onHeaderCreated (case header of None \<Rightarrow> [] | Some h \<Rightarrow> [h]))
          (l\<lparr>lb_components := Some (c\<lparr>lb_primaryNode := p\<rparr>), lb_certStore := Some cs1\<rparr>))"
    unfolding Let_def r prod.case using safeD by blast
qed

lemma node_primary_cleanup_safe: "nsafe C cfg vs M (node_primary_cleanup ks now)"
proof (rule safeI)
  fix l
  assume l: "node_inv C cfg vs M l"
  show "nresult C cfg vs M (node_primary_cleanup ks now l)"
  proof (cases "lb_components l")
    case (Some c)
    then show ?thesis
      using node_inv_primary[OF l Some] cleanupPendingVotes_inv[OF node_invD(1)[OF l Some]]
      by (simp add: node_primary_cleanup_def)
  qed (use l in \<open>simp add: node_primary_cleanup_def node_inv_def core_def\<close>)
qed

lemma node_fetcher_tick_safe: "nsafe C cfg vs M (node_fetcher_tick ks now)"
proof (rule safeI)
  fix l
  assume l: "node_inv C cfg vs M l"
  have s: "nsafe C cfg vs M (for_each Looseberry_onBatchRequest reqs)" for reqs by (intro safe_intros)
  show "nresult C cfg vs M (node_fetcher_tick ks now l)"
  proof (cases "lb_components l")
    case (Some c)
    then show ?thesis
      using l safeD[OF s] by (simp add: node_fetcher_tick_def Let_def case_prod_unfold set_components_def node_inv_fetcher)
  qed (use l in \<open>simp add: node_fetcher_tick_def\<close>)
qed

text \<open>The sync manager sends nothing but sync requests.\<close>

definition sync_call :: "net_call \<Rightarrow> bool" where
  "sync_call m \<longleftrightarrow> (\<exists>v r. m = SendSyncRequest v r)"

lemma sync_calls_ok: "list_all sync_call calls \<Longrightarrow> list_all (out_ok C cfg vs) (map Net calls)"
  by (auto simp: list_all_iff sync_call_def)

lemma RequestSync_calls:
  "SyncManager_RequestSync me sent now v f t s = (s', calls, e) \<Longrightarrow> list_all sync_call calls"
  by (auto simp: SyncManager_RequestSync_def sync_call_def split: if_splits)

lemma catch_up_calls:
  "catch_up_loop me sent now f t vals s = (s', calls, e) \<Longrightarrow> list_all sync_call calls"
proof (induction vals arbitrary: s s' calls e)
  case (Cons v vals)
  obtain s1 calls1 e1 where 1: "SyncManager_RequestSync me sent now (val_Index v) f t s = (s1, calls1, e1)"
    by (rule prod_cases3)
  obtain s2 calls2 e2 where 2: "catch_up_loop me sent now f t vals s1 = (s2, calls2, e2)" by (rule prod_cases3)
  show ?case
    using Cons.prems 1 2 RequestSync_calls[OF 1] Cons.IH[OF 2] Cons.IH[of s]
    by (cases e1) (auto split: if_splits)
qed simp

lemma probe_calls: "probe_peers me sent now r vals s = (s', calls) \<Longrightarrow> list_all sync_call calls"
proof (induction vals arbitrary: s s' calls)
  case (Cons v vals)
  obtain s1 calls1 e1 where 1: "SyncManager_RequestSync me sent now (val_Index v) (next_from r) 0 s = (s1, calls1, e1)"
    by (rule prod_cases3)
  obtain s2 calls2 where 2: "probe_peers me sent now r vals s1 = (s2, calls2)" by fastforce
  show ?case
    using Cons.prems 1 2 RequestSync_calls[OF 1] Cons.IH[OF 2] Cons.IH[of s] by (auto split: if_splits)
qed simp

lemma checkAndSync_calls:
  assumes "SyncManager_checkAndSync me sent now d s = (s', calls)"
  shows "list_all sync_call calls"
proof -
  have c: "list_all sync_call (fst (snd (SyncManager_CatchUp me sent now t d s)))" for t
    using catch_up_calls by (cases "catch_up_loop me sent now (next_from (DAG_HighestRound d)) t (svs_validators (sm_validatorSet s)) s")
      (auto simp: SyncManager_CatchUp_def Let_def)
  have p: "list_all sync_call (snd (probe_peers me sent now r vals s))" for r vals s
    using probe_calls by (metis prod.collapse)
  show ?thesis using assms c p
    by (auto simp: SyncManager_checkAndSync_def Let_def case_prod_unfold split: if_splits)
qed

lemma retry_calls: "list_all sync_call (snd (retry_requests me reqs s))"
proof (induction reqs arbitrary: s)
  case (Cons r reqs)
  have "list_all sync_call (snd (SyncManager_retrySyncRequest me r s))"
    by (simp add: SyncManager_retrySyncRequest_def Let_def sync_call_def)
  then show ?case using Cons.IH by (simp add: case_prod_unfold Let_def)
qed simp

lemma syncLoop_calls: "list_all sync_call (snd (SyncManager_syncLoop_step me sent now ev d s))"
  using checkAndSync_calls[of me sent now d s] retry_calls
  by (cases ev) (auto simp: SyncManager_syncLoop_step_def SyncManager_cleanupTimedOutRequests_def Let_def
      intro: checkAndSync_calls[OF prod.collapse[symmetric]])

lemma node_sync_tick_safe: "nsafe C cfg vs M (node_sync_tick env now ev)"
  unfolding node_sync_tick_def
  by (rule safe_with_components)
     (auto simp: Let_def case_prod_unfold set_components_def intro: node_inv_same
       intro!: sync_calls_ok syncLoop_calls)

lemma RequestPeerCatchUp_safe [safe_intros]: "nsafe C cfg vs M (Looseberry_RequestPeerCatchUp me sent now peer)"
  unfolding Looseberry_RequestPeerCatchUp_def
proof (intro safe_dispatch safeI)
  fix l
  assume l: "node_inv C cfg vs M l"
  show "nresult C cfg vs M (node_RequestPeerCatchUp me sent now peer l)"
  proof (cases "lb_components l")
    case (Some c)
    obtain s calls e where r: "SyncManager_RequestPeerCatchUp me sent now peer (lb_syncManager c) = (s, calls, e)"
      by (rule prod_cases3)
    have "list_all sync_call calls"
      using r RequestSync_calls by (auto simp: SyncManager_RequestPeerCatchUp_def split: if_splits)
    then show ?thesis using node_inv_same[OF l Some] sync_calls_ok r Some
      by (simp add: node_RequestPeerCatchUp_def set_components_def)
  qed (use l in \<open>simp add: node_RequestPeerCatchUp_def\<close>)
qed

text \<open>A collection changes the pool only through the recovery callback.\<close>

lemma gc_recover_inv:
  assumes "P w" and "\<And>f txs idx w. cb = Some f \<Longrightarrow> P w \<Longrightarrow> P (f txs idx w)"
  shows "P (snd (snd (gc_recover cb ord ks r gc d bs idx w)))"
  using assms by (auto simp: gc_recover_def case_prod_unfold Let_def split: option.split)

lemma performGC_inv:
  assumes "P w" and "\<And>f txs idx w. cb = Some f \<Longrightarrow> P w \<Longrightarrow> P (f txs idx w)"
    and "GCManager_performGC cb ord ks r gc d bs idx w = (gc', d', bs', idx', w', e)"
  shows "P w'"
proof -
  have "w' = snd (snd (gc_recover cb ord ks r gc d bs idx w))"
    using assms(3) by (auto simp: GCManager_performGC_def Let_def split: prod.splits option.splits sum.splits)
  moreover have "P (snd (snd (gc_recover cb ord ks r gc d bs idx w)))"
    by (rule gc_recover_inv) (use assms(1,2) in auto)
  ultimately show ?thesis by simp
qed

lemma gcLoop_tick_inv:
  assumes "P w" and "\<And>f txs idx w. cb = Some f \<Longrightarrow> P w \<Longrightarrow> P (f txs idx w)"
    and "GCManager_gcLoop_tick cb ord ks dur gc d bs idx w = (gc', d', bs', idx', w')"
  shows "P w'"
proof -
  have "P x" if "GCManager_performGC cb ord ks r gc d bs idx w = (gc1, d1, bs1, idx1, x, e)" for r gc1 d1 bs1 idx1 x e
    by (rule performGC_inv[OF _ _ that]) (use assms(1,2) in auto)
  then show ?thesis using assms(1,3)
    by (auto simp: GCManager_gcLoop_tick_def Let_def split: if_splits prod.splits option.splits)
qed

lemma gc_NotifyCommitted_inv:
  assumes "P w" and "\<And>f txs idx w. cb = Some f \<Longrightarrow> P w \<Longrightarrow> P (f txs idx w)"
    and "GCManager_NotifyCommitted cb ord ks r gc d bs idx w = (gc', d', bs', idx', w', e)"
  shows "P w'"
proof -
  have "P x" if "GCManager_performGC cb ord ks r gc1 d1 bs idx w = (gc2, d2, bs2, idx2, x, e)" for r gc1 d1 gc2 d2 bs2 idx2 x e
    by (rule performGC_inv[OF _ _ that]) (use assms(1,2) in auto)
  then show ?thesis using assms(1,3)
    by (auto simp: GCManager_NotifyCommitted_def Let_def split: if_splits prod.splits)
qed

lemma recovery_safe:
  assumes "(if b then Some (Looseberry_onTxRecovered C bs) else None) = Some f" and "pool_safe q A me p"
  shows "pool_safe q A me (f txs idx p)"
  using assms onTxRecovered_safe[of q A me p] by (auto split: if_splits)

lemma node_gc_tick_safe: "nsafe C cfg vs M (node_gc_tick env ks dur)"
  unfolding node_gc_tick_def
proof (rule safe_with_components)
  fix c bs cs idx l
  assume l: "node_inv C cfg vs M l" "lb_components l = Some c"
  let ?cb = "if ng_RecoverTxs (nc_GC (lb_cfg l)) then Some (Looseberry_onTxRecovered (ne_crypto env) bs) else None"
  obtain gc d bs1 idx1 pool where
    r: "GCManager_gcLoop_tick ?cb (ne_certs env) ks dur (lb_gcManager c) (node_dag c cs) bs idx (lb_workerPool c) =
      (gc, d, bs1, idx1, pool)" by (rule prod_cases5)
  have "pool_safe (ValidatorSet_Quorum vs) (ackers C vs (nc_ValidatorIndex cfg) M) (nc_ValidatorIndex cfg) pool"
    by (rule gcLoop_tick_inv[OF _ _ r]) (blast intro: recovery_safe node_invD(2)[OF l])+
  then have "node_inv C cfg vs M (set_dag d (c\<lparr>lb_gcManager := gc, lb_workerPool := pool\<rparr>)
      (l\<lparr>lb_batchStore := Some bs1, lb_txIndex := Some idx1\<rparr>))"
    using l by (auto simp: set_dag_def node_inv_def core_def)
  then show "nresult C cfg vs M (let cb = ?cb; (gc, d, bs1, idx1, pool) =
      GCManager_gcLoop_tick cb (ne_certs env) ks dur (lb_gcManager c) (node_dag c cs) bs idx (lb_workerPool c)
     in (set_dag d (c\<lparr>lb_gcManager := gc, lb_workerPool := pool\<rparr>)
           (l\<lparr>lb_batchStore := Some bs1, lb_txIndex := Some idx1\<rparr>), []))"
    unfolding Let_def r prod.case by simp
qed

lemma pending_headers_own:
  "primary_inv C vs i sg p \<Longrightarrow> h \<in> set (Primary_PendingHeadersOlderThan ks now age p) \<Longrightarrow> own_header C vs i h"
  using primary_invD(4)[of C vs i sg p]
  by (auto simp: Primary_PendingHeadersOlderThan_def VoteTracker_PendingHeadersOlderThan_def tracked_all_def set_map_values
      split: if_splits)

lemma rebroadcastIfStuck_safe: "nsafe C cfg vs M (Looseberry_rebroadcastIfStuck word hord now)"
proof (rule safeI)
  fix l
  assume l: "node_inv C cfg vs M l"
  show "nresult C cfg vs M (Looseberry_rebroadcastIfStuck word hord now l)"
  proof (cases "lb_components l")
    case (Some c)
    have "nsafe C cfg vs M (then_do
        (for_each (\<lambda>b. Looseberry_dispatchAsync (send (BroadcastBatch b)))
          (Pool_PendingBatchesBelowQuorum word now rebroadcastMinAge (lb_workerPool c)))
        (for_each (\<lambda>h. Looseberry_dispatchAsync (send (BroadcastHeader h)))
          (Primary_PendingHeadersOlderThan hord now rebroadcastMinAge (lb_primaryNode c))))"
      by (intro safe_intros) (auto dest: safe_PendingBatches[OF node_invD(2)[OF l Some]] pending_headers_own[OF node_invD(1)[OF l Some]])
    then show ?thesis using l Some
      by (auto simp: Looseberry_rebroadcastIfStuck_def Let_def intro!: safeD[of _ _ "then_do _ _"])
  qed (use l in \<open>simp add: Looseberry_rebroadcastIfStuck_def\<close>)
qed

lemma rebroadcastLoop_tick_safe:
  assumes "node_inv C cfg vs M l" and "Looseberry_rebroadcastLoop_tick env word hord now l = Some r"
  shows "nresult C cfg vs M r"
proof -
  have s: "nresult C cfg vs M x" if "node_inv C cfg vs M l" "Looseberry_syncIfStuck me sent now l = Some x" for l me sent x
  proof -
    have "nresult C cfg vs M (for_each (Looseberry_RequestPeerCatchUp me sent now) xs l)" for xs
      using that(1) by (intro safeD[of _ _ "for_each _ _"] safe_intros)
    then show ?thesis using that
      by (auto simp: Looseberry_syncIfStuck_def Let_def split: if_splits option.splits)
  qed
  show ?thesis using safeD[OF rebroadcastIfStuck_safe assms(1), of word hord now] assms(2) s
    by (fastforce simp: Looseberry_rebroadcastLoop_tick_def safe_result_def Let_def case_prod_unfold split: option.splits)
qed

section \<open>Calls of the application\<close>

lemma node_AddTx_inv:
  assumes "node_inv C cfg vs M l"
  shows "node_inv C cfg vs M (fst (Looseberry_AddTx C' tx l))"
proof (cases "lb_components l")
  case (Some c)
  obtain p e where r: "Pool_AddTx C' tx (node_storage l) (lb_workerPool c) = (p, e)" by fastforce
  have "node_inv C cfg vs M (set_components (c\<lparr>lb_workerPool := p\<rparr>) l)"
    using node_inv_pool[OF assms Some] Pool_AddTx_safe[OF node_invD(2)[OF assms Some], of C' tx "node_storage l"] r
    by (simp add: set_components_def)
  then show ?thesis using assms Some r by (simp add: Looseberry_AddTx_def split: option.split)
qed (use assms in \<open>simp add: Looseberry_AddTx_def\<close>)

lemma node_NotifyCommitted_inv:
  assumes "node_inv C cfg vs M l"
  shows "node_inv C cfg vs M (Looseberry_NotifyCommitted C' ord ks now rnd l)"
proof -
  have ns: "nsafe C cfg vs M (with_components (\<lambda>c bs cs idx l.
      let d = DAG_SetCommittedRound rnd (node_dag c cs);
          fc = fst (FlowController_UpdateCommittedRound rnd (lb_flowController c));
          cb = (if ng_RecoverTxs (nc_GC (lb_cfg l)) then Some (Looseberry_onTxRecovered C' bs) else None);
          (gc, d1, bs1, idx1, pool, e) =
            GCManager_NotifyCommitted cb ord ks rnd (lb_gcManager c) d bs idx (lb_workerPool c)
      in (set_dag d1 (c\<lparr>lb_flowController := fc, lb_gcManager := gc, lb_workerPool := pool\<rparr>)
            (l\<lparr>lb_batchStore := Some bs1, lb_txIndex := Some idx1\<rparr>), [])))" (is "nsafe _ _ _ _ (with_components ?f)")
  proof (rule safe_with_components)
    fix c bs cs idx l
    assume l: "node_inv C cfg vs M l" "lb_components l = Some c"
    let ?cb = "if ng_RecoverTxs (nc_GC (lb_cfg l)) then Some (Looseberry_onTxRecovered C' bs) else None"
    obtain gc d1 bs1 idx1 pool e where
      r: "GCManager_NotifyCommitted ?cb ord ks rnd (lb_gcManager c) (DAG_SetCommittedRound rnd (node_dag c cs)) bs idx
        (lb_workerPool c) = (gc, d1, bs1, idx1, pool, e)" by (rule prod_cases6)
    have "pool_safe (ValidatorSet_Quorum vs) (ackers C vs (nc_ValidatorIndex cfg) M) (nc_ValidatorIndex cfg) pool"
      by (rule gc_NotifyCommitted_inv[OF _ _ r]) (blast intro: recovery_safe node_invD(2)[OF l])+
    then show "nresult C cfg vs M (?f c bs cs idx l)"
      unfolding Let_def r prod.case using l by (auto simp: set_dag_def node_inv_def core_def)
  qed
  show ?thesis using safeD[OF ns assms] by (simp add: Looseberry_NotifyCommitted_def Let_def safe_result_def)
qed

lemma stop_pool_safe [safe_intros]: "nsafe C cfg vs M (stop_pool C' now)"
proof (rule safeI)
  fix l
  assume l: "node_inv C cfg vs M l"
  show "nresult C cfg vs M (stop_pool C' now l)"
  proof (cases "lb_components l")
    case (Some c)
    obtain p st bs e where r: "Pool_Stop C' now (node_storage l) (lb_workerPool c) = (p, st, bs, e)" by (rule prod_cases4)
    note ok = Pool_Stop_safe[OF node_invD(2)[OF l Some] self_acker r]
    then have "node_inv C cfg vs M (set_pool p st c l)" using set_pool_inv[OF l Some] by simp
    then show ?thesis using safeD[OF batches_created_safe] ok Some r by (simp add: stop_pool_def)
  qed (use l in \<open>simp add: stop_pool_def\<close>)
qed

lemma start_pool_safe:
  assumes l: "node_inv C cfg vs M l" and "start_pool C' now l = (l', out, e)"
  shows "nresult C cfg vs M (l', out)"
proof (cases "lb_components l")
  case (Some c)
  obtain p st bs e where r: "Pool_Start C' now (node_storage l) (lb_workerPool c) = (p, st, bs, e)" by (rule prod_cases4)
  note ok = Pool_Start_safe[OF node_invD(2)[OF l Some] self_acker r]
  then have "node_inv C cfg vs M (set_pool p st c l)" using set_pool_inv[OF l Some] by simp
  then have "nresult C cfg vs M (for_each Looseberry_onBatchCreated bs (set_pool p st c l))"
    using safeD[OF batches_created_safe] ok by blast
  then show ?thesis using assms(2) Some r by (auto simp: start_pool_def split: prod.splits)
qed (use assms in \<open>simp add: start_pool_def\<close>)

lemma Flush_safe: "nsafe C cfg vs M (Looseberry_Flush C' now)"
proof -
  have "nsafe C cfg vs M (\<lambda>l. let (l1, out, _) = start_pool C' now l in (l1, out))"
    by (rule safeI) (auto simp: start_pool_safe split: prod.split simp del: safe_result_Pair)
  then have "nsafe C cfg vs M (then_do (stop_pool C' now) (\<lambda>l. let (l1, out, _) = start_pool C' now l in (l1, out)))"
    by (intro safe_intros)
  then show ?thesis by (auto simp: safe_def Looseberry_Flush_def)
qed

lemma CatchUpPeerCerts_safe:
  assumes "node_inv C cfg vs M l" and "Looseberry_CatchUpPeerCerts ord l = Some r"
  shows "nresult C cfg vs M r"
proof -
  have "nresult C cfg vs M (for_each (\<lambda>cert. Looseberry_dispatchAsync (send (BroadcastCertificate cert))) certs l)" for certs
    using assms(1) by (intro safeD[of _ _ "for_each _ _"] safe_intros) simp_all
  then show ?thesis using assms
    by (auto simp: Looseberry_CatchUpPeerCerts_def split: if_splits option.splits)
qed

section \<open>Start and stop\<close>

lemma node_pool_safe:
  "0 \<le> nw_MinWorkers (nc_Worker (lb_cfg l)) \<Longrightarrow>
     pool_safe (ValidatorSet_Quorum vs) A (nc_ValidatorIndex (lb_cfg l)) (node_pool vs l)"
  unfolding node_pool_def Let_def
  by (auto simp: node_pool_config_def split: option.split intro!: pool_setters_safe NewPool_safe)

lemma NewPrimary_inv: "primary_inv C vs i sg (NewPrimary i sg pcfg vs)"
  using vt_run.new[of "pc_VoteTimeout pcfg"]
  by (auto simp: primary_inv_def NewPrimary_def good_votes_def tracked_all_intros buffered_votes_ok_def)

lemma node_primary_inv: "primary_inv C vs (nc_ValidatorIndex cfg) (nc_Signer cfg) (node_primary vs cfg)"
  unfolding node_primary_def
  by (rule primary_inv_cong[OF NewPrimary_inv])
     (simp_all add: Primary_SetBatchFetcher_def Primary_SetCertificateCallback_def Primary_SetVoteCallback_def
       Primary_SetHeaderCallback_def)

lemma Primary_Start_inv: "primary_inv C vs i sg p \<Longrightarrow> primary_inv C vs i sg (fst (Primary_Start p))"
  by (auto simp: Primary_Start_def elim: primary_inv_cong)

lemma Primary_Stop_inv:
  assumes "primary_inv C vs i sg p"
  shows "primary_inv C vs i sg (fst (Primary_Stop p))"
proof -
  obtain V where V: "vt_run (pr_voteTracker p) V" "good_votes C vs V" using primary_inv_tracker[OF assms] .
  have "primary_inv C vs i sg (p\<lparr>pr_voteTracker := VoteTracker_Close (pr_voteTracker p)\<rparr>)"
    using primary_inv_set_tracker[OF assms vt_run.close[OF V(1)] V(2) tracked_all_intros(4)] primary_invD(4)[OF assms] by blast
  then have "primary_inv C vs i sg (p\<lparr>pr_running := False, pr_voteTracker := VoteTracker_Close (pr_voteTracker p)\<rparr>)"
    by (rule primary_inv_cong) simp_all
  then show ?thesis using assms by (simp add: Primary_Stop_def)
qed

lemma map_components_inv:
  assumes "node_inv C cfg vs M l" and "\<And>c. lb_workerPool (f c) = lb_workerPool c"
    and "\<And>c. lb_components l = Some c \<Longrightarrow> primary_inv C vs (nc_ValidatorIndex cfg) (nc_Signer cfg) (lb_primaryNode (f c))"
  shows "node_inv C cfg vs M (l\<lparr>lb_components := map_option f (lb_components l)\<rparr>)"
  using assms by (cases "lb_components l") (auto simp: node_inv_def core_def)

lemma stop_components_inv:
  assumes "node_inv C cfg vs M l"
  shows "node_inv C cfg vs M (stop_scaler l)" "node_inv C cfg vs M (stop_primary l)" "node_inv C cfg vs M (stop_fetcher l)"
    "node_inv C cfg vs M (stop_sync l)" "node_inv C cfg vs M (stop_gc l)"
  unfolding stop_scaler_def stop_primary_def stop_fetcher_def stop_sync_def stop_gc_def
  by (rule map_components_inv[OF assms]; simp add: node_invD(1)[OF assms] Primary_Stop_inv)+

lemma stopComponents_safe: "nsafe C cfg vs M (Looseberry_stopComponents C' now)"
  using safeD[OF stop_pool_safe]
  by (auto intro!: safeI simp: Looseberry_stopComponents_def stop_components_inv simp del: safe_result_Pair)

lemma initializeComponents_inv:
  assumes "node_inv C cfg vs M l"
  shows "node_inv C cfg vs M (Looseberry_initializeComponents vs l)"
  using assms node_pool_safe[of l vs] node_primary_inv[of C vs cfg]
  by (auto simp: node_inv_def core_def Looseberry_initializeComponents_def Let_def)

lemma startComponents_fresh:
  assumes "lb_components l = Some c" and "Pool_Start C now (node_storage l) (lb_workerPool c) = (p, st, [], None)"
    and "\<not> sl_running (lb_workerScaler c)" and "\<not> pr_running (lb_primaryNode c)"
    and "\<not> bf_running (lb_batchFetcher c)" and "\<not> sm_running (lb_syncManager c)" and "\<not> gc_running (lb_gcManager c)"
  shows "Looseberry_startComponents C now l =
    (set_components (c\<lparr>lb_workerPool := p, lb_workerScaler := (lb_workerScaler c)\<lparr>sl_running := True\<rparr>,
       lb_primaryNode := (lb_primaryNode c)\<lparr>pr_running := True\<rparr>,
       lb_batchFetcher := (lb_batchFetcher c)\<lparr>bf_running := True\<rparr>,
       lb_syncManager := (lb_syncManager c)\<lparr>sm_running := True\<rparr>,
       lb_gcManager := (lb_gcManager c)\<lparr>gc_running := True\<rparr>\<rparr>) (set_pool p st c l), [], None)"
  using assms
  by (simp add: Looseberry_startComponents_def start_pool_def set_pool_def Scaler_Start_def Primary_Start_def
      BatchFetcher_Start_def SyncManager_Start_def GCManager_Start_def set_components_def)

lemma add_workers_ok: "snd (add_workers n p) = None"
proof (induction n arbitrary: p)
  case (Suc n)
  have "snd (Pool_addWorkerLocked p) = None"
    by (simp add: Pool_addWorkerLocked_def Let_def Worker_Start_def NewWorker_def Worker_SetRound_def Worker_SetEpoch_def
        Worker_SetTxValidator_def Worker_SetBatchCallback_def Worker_SetAckQuorumCallback_def split: option.split)
  then show ?case using Suc.IH by (simp split: prod.split option.split) (metis snd_conv option.distinct(1))
qed simp

lemma Pool_Start_ok:
  assumes "\<not> p_running p"
  shows "Pool_Start C now st p =
    (fst (add_workers (nat (pc_MinWorkers (p_cfg p))) (p\<lparr>p_running := True\<rparr>)), st, [], None)"
proof -
  obtain p' e where 1: "add_workers (nat (pc_MinWorkers (p_cfg p))) (p\<lparr>p_running := True\<rparr>) = (p', e)" by fastforce
  then have "e = None" using add_workers_ok[of "nat (pc_MinWorkers (p_cfg p))" "p\<lparr>p_running := True\<rparr>"] by simp
  then show ?thesis using assms 1 by (simp add: Pool_Start_def)
qed

text \<open>The components of a node start without errors, right after they are created.\<close>

definition started_components :: "SimpleValidatorSet \<Rightarrow> Looseberry \<Rightarrow> components" where
  "started_components vs l =
     (let c = the (lb_components (Looseberry_initializeComponents vs l)); p = node_pool vs l
      in c\<lparr>lb_workerPool := fst (add_workers (nat (pc_MinWorkers (p_cfg p))) (p\<lparr>p_running := True\<rparr>)),
           lb_workerScaler := (lb_workerScaler c)\<lparr>sl_running := True\<rparr>,
           lb_primaryNode := (lb_primaryNode c)\<lparr>pr_running := True\<rparr>,
           lb_batchFetcher := (lb_batchFetcher c)\<lparr>bf_running := True\<rparr>,
           lb_syncManager := (lb_syncManager c)\<lparr>sm_running := True\<rparr>,
           lb_gcManager := (lb_gcManager c)\<lparr>gc_running := True\<rparr>\<rparr>)"

lemma node_pool_stopped: "\<not> p_running (node_pool vs l)"
  by (auto simp: node_pool_def Let_def NewPool_def Pool_SetBatchCallback_def Pool_SetAckQuorumCallback_def
      Pool_SetTxValidator_def split: option.split)

lemma startComponents_ok:
  "Looseberry_startComponents C now (Looseberry_initializeComponents vs l) =
     (l\<lparr>lb_components := Some (started_components vs l)\<rparr>, [], None)"
proof -
  let ?l = "Looseberry_initializeComponents vs l"
  obtain c where c: "lb_components ?l = Some c" "lb_workerPool c = node_pool vs l" "\<not> sl_running (lb_workerScaler c)"
    "\<not> pr_running (lb_primaryNode c)" "\<not> bf_running (lb_batchFetcher c)" "\<not> sm_running (lb_syncManager c)"
    "\<not> gc_running (lb_gcManager c)" "?l = l\<lparr>lb_components := Some c\<rparr>"
    by (simp add: Looseberry_initializeComponents_def Let_def NewScaler_def node_primary_def NewPrimary_def
        Primary_SetBatchFetcher_def Primary_SetCertificateCallback_def Primary_SetVoteCallback_def
        Primary_SetHeaderCallback_def NewBatchFetcher_def BatchFetcher_SetRequestCallback_def
        BatchFetcher_SetHeaderReadyCallback_def BatchFetcher_UpdateValidators_def NewSyncManager_def NewGCManager_def)
  note start = Pool_Start_ok[OF node_pool_stopped[of vs l], of C now "node_storage ?l", folded c(2)]
  have "set_components c' (set_pool p (node_storage ?l) c ?l) = l\<lparr>lb_components := Some c'\<rparr>" for c' p
    using c(8) by (simp add: set_components_def set_pool_def node_storage_def)
  then show ?thesis
    using startComponents_fresh[OF c(1) start c(3-7)] c(1,2) by (simp add: started_components_def Let_def)
qed

lemma initializeStores_frame:
  assumes "Looseberry_initializeStores db l = (l', e)"
  shows "core l' = core l" "lb_running l' = lb_running l" "lb_components l' = lb_components l"
    "lb_validatorSet l' = lb_validatorSet l" "lb_cfg l' = lb_cfg l" "lb_network l' = lb_network l"
    "lb_orphanCerts l' = lb_orphanCerts l"
  using assms by (auto simp: Looseberry_initializeStores_def Let_def split: sum.splits)


lemma Start_safe:
  assumes l: "node_inv C cfg vs M l" and "Looseberry_Start C' db netStart now l = (l', out, e)"
  shows "nresult C cfg vs M (l', out)"
proof (cases "lb_running l \<or> \<not> lb_network l")
  case True
  then show ?thesis using assms node_inv_cfg[OF l] by (auto simp: Looseberry_Start_def Let_def split: if_splits)
next
  case False
  obtain l1 e1 where 1: "Looseberry_initializeStores db (l\<lparr>lb_running := True\<rparr>) = (l1, e1)" by fastforce
  have "core l1 = core l" using initializeStores_frame(1)[OF 1] by simp
  then have l1: "node_inv C cfg vs M l1" using l node_inv_core by blast
  let ?l2 = "l1\<lparr>lb_components := Some (started_components vs l1)\<rparr>"
  have "pool_safe (ValidatorSet_Quorum vs) (ackers C vs (nc_ValidatorIndex cfg) M) (nc_ValidatorIndex cfg) (node_pool vs l1)"
    using node_pool_safe[of l1 vs] node_inv_cfg[OF l1] l1 by (auto simp: node_inv_def)
  moreover have "primary_inv C vs (nc_ValidatorIndex cfg) (nc_Signer cfg) ((node_primary vs cfg)\<lparr>pr_running := True\<rparr>)"
    by (rule primary_inv_cong[OF node_primary_inv]) simp_all
  moreover have "lb_primaryNode (started_components vs l1) = (node_primary vs cfg)\<lparr>pr_running := True\<rparr>"
    "lb_workerPool (started_components vs l1) = fst (add_workers (nat (pc_MinWorkers (p_cfg (node_pool vs l1))))
       ((node_pool vs l1)\<lparr>p_running := True\<rparr>))"
    using node_inv_cfg[OF l1] by (simp_all add: started_components_def Looseberry_initializeComponents_def Let_def)
  ultimately have l2: "node_inv C cfg vs M ?l2"
    by (intro node_inv_set[OF l1, of ?l2 "started_components vs l1"]) (simp_all add: add_workers_safe)
  show ?thesis
    using assms(2) False 1 l1 l2 node_inv_cfg[OF l] startComponents_ok[of C' now vs l1]
      safeD[OF stopComponents_safe l2, of C' now]
    by (cases e1; cases netStart) (auto simp: Looseberry_Start_def safe_result_def Let_def case_prod_unfold)
qed

lemma Stop_safe:
  assumes l: "node_inv C cfg vs M l" and "Looseberry_Stop C' now l = (l', out, e)"
  shows "nresult C cfg vs M (l', out)"
  using assms safeD[OF stopComponents_safe, of C cfg vs M "l\<lparr>lb_running := False\<rparr>" C' now]
  by (auto simp: Looseberry_Stop_def safe_result_def case_prod_unfold Let_def split: if_splits)

section \<open>Runs\<close>

lemma node_step_safe:
  assumes l: "node_inv (ne_crypto env) cfg vs M l" and "go_order (ne_votes env)"
    and "signer_ok (ne_crypto env) vs (nc_ValidatorIndex cfg) (nc_Signer cfg)"
    and r: "node_step env now ev l = Some r"
  shows "nresult (ne_crypto env) cfg vs (case ev of Message (BatchAckMsg m) \<Rightarrow> insert m M | _ \<Rightarrow> M) r"
proof (cases ev)
  case (Message m)
  then have "Looseberry_messageLoop_step env now m l = Some r" using r by (simp add: node_step_def)
  then show ?thesis using messageLoop_step_safe[OF l assms(2)] Message by simp
next
  case (RebroadcastTick word hord)
  then show ?thesis using rebroadcastLoop_tick_safe[OF l] r by (simp add: node_step_def)
next
  case AppCatchUp
  then show ?thesis using CatchUpPeerCerts_safe[OF l] r by (simp add: node_step_def)
next
  case (AppAddTx tx)
  then show ?thesis using node_AddTx_inv[OF l] r by (auto simp: node_step_def)
next
  case (AppCommitted ks rnd)
  then show ?thesis using node_NotifyCommitted_inv[OF l] r by (auto simp: node_step_def)
qed (use r safeD[OF node_worker_step_safe l] safeD[OF node_scaler_step_safe l] safeD[OF node_header_tick_safe[OF assms(2,3)] l]
    safeD[OF node_primary_cleanup_safe l] safeD[OF node_fetcher_tick_safe l] safeD[OF node_sync_tick_safe l]
    safeD[OF node_gc_tick_safe l] safeD[OF Flush_safe l] safeD[OF RequestPeerCatchUp_safe l]
    in \<open>auto simp: node_step_def\<close>)

lemma new_node_inv:
  assumes "NewLooseberry cfg = Inr l"
  shows "node_inv C cfg vs M (Looseberry_SetNetwork True (Looseberry_SetValidatorSet vs l))"
proof -
  have "NodeConfig_Validate cfg = None" using assms by (auto simp: NewLooseberry_def split: option.splits)
  then have "NodeWorkerConfig_Validate (nc_Worker cfg) = None" by (auto simp: NodeConfig_Validate_def split: option.splits)
  then have "0 \<le> nw_MinWorkers (nc_Worker cfg)" by (simp add: NodeWorkerConfig_Validate_None)
  then show ?thesis using assms
    by (auto simp: NewLooseberry_def node_inv_def core_def Looseberry_SetNetwork_def Looseberry_SetValidatorSet_def
        split: option.splits)
qed

lemma node_run_inv:
  assumes "go_order (ne_votes env)" and "signer_ok (ne_crypto env) vs (nc_ValidatorIndex cfg) (nc_Signer cfg)"
    and "node_run env cfg vs l M out"
  shows "nresult (ne_crypto env) cfg vs M (l, out)"
  using assms(3)
proof (induction rule: node_run.induct)
  case (new l)
  then show ?case by (simp add: new_node_inv)
next
  case (stores l M out bs cs idx)
  then show ?case by (simp add: Looseberry_SetStores_def)
next
  case (ack_cb l M out cb)
  then have "node_inv (ne_crypto env) cfg vs M (Looseberry_SetAckQuorumCallback cb l)"
    by (cases "lb_components l") (auto simp: Looseberry_SetAckQuorumCallback_def node_inv_def core_def pool_setters_safe)
  then show ?case using ack_cb.IH by simp
next
  case (cert_cb l M out cb)
  then show ?case by (simp add: Looseberry_SetCertQuorumCallback_def)
next
  case (start l M out db netStart now l' out' e)
  then show ?case using Start_safe[of "ne_crypto env" cfg vs M l] by fastforce
next
  case (stop l M out now l' out' e)
  then show ?case using Stop_safe[of "ne_crypto env" cfg vs M l] by fastforce
next
  case (step l M out sent now ev l' out')
  have "go_order (ne_votes (env\<lparr>ne_sent := sent\<rparr>))"
    "signer_ok (ne_crypto (env\<lparr>ne_sent := sent\<rparr>)) vs (nc_ValidatorIndex cfg) (nc_Signer cfg)" using assms(1,2) by simp_all
  from node_step_safe[OF _ this step.hyps(2), of M] step.IH show ?case by simp
qed

end
