(* ===== verification/Reap.thy ===== *)
theory Reap
  imports Node_Safety
begin

text \<open>
  What \<^verbatim>\<open>ReapCertifiedBatches\<close> hands to the block builder: which batches, in which order, and how many.
\<close>

section \<open>Certificates in order\<close>

text \<open>The rounds of a DAG hold the certificates of that round under their author. Every operation keeps this.\<close>

definition rounds_keyed :: "DAG \<Rightarrow> bool" where
  "rounds_keyed d \<longleftrightarrow> (\<forall>r rd i c. fmlookup (d_rounds d) r = Some rd \<longrightarrow> fmlookup (rd_Certificates rd) i = Some c \<longrightarrow>
     Certificate_Round c = r \<and> Certificate_Author c = i)"

lemma rounds_keyedD:
  "rounds_keyed d \<Longrightarrow> fmlookup (d_rounds d) r = Some rd \<Longrightarrow> fmlookup (rd_Certificates rd) i = Some c \<Longrightarrow>
     Certificate_Round c = r \<and> Certificate_Author c = i"
  unfolding rounds_keyed_def by blast

lemma rounds_keyed_cong: "d_rounds d' = d_rounds d \<Longrightarrow> rounds_keyed d' = rounds_keyed d"
  by (simp only: rounds_keyed_def)

lemma NewDAG_keyed: "rounds_keyed (NewDAG cs cfg)"
  by (simp add: rounds_keyed_def NewDAG_def)

lemma round_of_keyed: "rounds_keyed d \<Longrightarrow> fmlookup (rd_Certificates (round_of r d)) i = Some c \<Longrightarrow>
    Certificate_Round c = r \<and> Certificate_Author c = i"
  by (auto simp: round_of_def NewRoundData_def dest: rounds_keyedD split: option.splits)

lemma with_round_keyed: "rounds_keyed d \<Longrightarrow> rounds_keyed (with_round r d)"
  unfolding rounds_keyed_def[of "with_round r d"] with_round_lookup
  by (metis option.inject rounds_keyedD round_of_keyed)

lemma AddCertificate_keyed:
  assumes "rounds_keyed d"
  shows "rounds_keyed (fst (DAG_AddCertificate (Some c) d))"
proof -
  have "rounds_keyed (accept_certificate c d)"
    unfolding rounds_keyed_def
  proof (intro allI impI)
    fix r rd i c'
    assume rd: "fmlookup (d_rounds (accept_certificate c d)) r = Some rd" and c': "fmlookup (rd_Certificates rd) i = Some c'"
    show "Certificate_Round c' = r \<and> Certificate_Author c' = i"
    proof (cases "r = Certificate_Round c")
      case True
      then have "rd = RoundData_AddCertificate c (round_of r d)" using rd by simp
      then show ?thesis using c' True round_of_keyed[OF assms, of r i c']
        by (auto simp: RoundData_AddCertificate_def split: if_splits)
    next
      case False
      then show ?thesis using rd c' rounds_keyedD[OF assms] by simp
    qed
  qed
  then show ?thesis using with_round_keyed[OF assms] by (simp add: AddCertificate_eq rounds_keyed_cong[OF DAG_save_frame(1)])
qed

lemma SetCommittedRound_keyed: "rounds_keyed d \<Longrightarrow> rounds_keyed (DAG_SetCommittedRound r d)"
  unfolding rounds_keyed_def[of "DAG_SetCommittedRound r d"]
  by (auto simp: DAG_SetCommittedRound_def RoundData_SetCommitted_def dest: rounds_keyedD split: if_splits)

lemma PruneRoundsBefore_keyed: "rounds_keyed d \<Longrightarrow> rounds_keyed (DAG_PruneRoundsBefore r d)"
  unfolding rounds_keyed_def PruneRoundsBefore_rounds by (metis option.distinct(1))

lemma round_members:
  assumes "rounds_keyed d" and "\<And>cs. d_certStore d = Some cs \<Longrightarrow> mcs_ok cs" and "go_order ord"
    and "c \<in> set (DAG_GetCertificatesForRound ord r d)"
  shows "Certificate_Round c = r"
proof (cases "fmlookup (d_rounds d) r")
  case None
  obtain cs where cs: "d_certStore d = Some cs"
    using assms(4) None by (cases "d_certStore d") (simp_all add: DAG_GetCertificatesForRound_def)
  obtain xs where "MemoryCertificateStore_GetCertificatesByRound r cs = Inr xs" "c \<in> set xs"
    using assms(4) None cs
    by (cases "MemoryCertificateStore_GetCertificatesByRound r cs") (simp_all add: DAG_GetCertificatesForRound_def)
  then show ?thesis using mcs.by_round_contents[OF assms(2)[OF cs], of r] by auto
next
  case (Some rd)
  then show ?thesis using assms(4) rounds_keyedD[OF assms(1) Some]
    by (auto simp: DAG_GetCertificatesForRound_def RoundData_GetAllCertificates_def set_map_values)
qed

text \<open>The order does not depend on how Go visits the maps: in memory an author has one certificate per round,
  and the store lists them in the order they were saved.\<close>

lemma delivery_unique:
  assumes "rounds_keyed d" and "go_order ord" and "go_order ord'"
  shows "round_delivery ord d r = round_delivery ord' d r"
proof (cases "fmlookup (d_rounds d) r")
  case (Some rd)
  have "distinct (map Certificate_Author (DAG_GetCertificatesForRound ord r d))"
  proof -
    let ?m = "rd_Certificates rd"
    have it: "iter_order (ord ?m) ?m" using assms(2) by (simp add: go_order_def)
    have "distinct (map Certificate_Author (map_values (ord ?m) ?m))"
      using rounds_keyedD[OF assms(1) Some] iter_orderD(1)[OF it] by (intro distinct_map_values_key) blast+
    then show ?thesis using Some
      by (simp add: DAG_GetCertificatesForRound_def RoundData_GetAllCertificates_def)
  qed
  then show ?thesis using round_certificates_order[OF assms(2,3)] by (intro sort_key_perm_unique)
qed (simp add: DAG_GetCertificatesForRound_def)

abbreviation cert_le :: "Certificate \<Rightarrow> Certificate \<Rightarrow> bool" where
  "cert_le a b \<equiv> Certificate_Round a < Certificate_Round b \<or>
     Certificate_Round a = Certificate_Round b \<and> Certificate_Author a \<le> Certificate_Author b"

lemma ordered_certificates_weak:
  assumes "rounds_keyed d" and "\<And>cs. d_certStore d = Some cs \<Longrightarrow> mcs_ok cs" and "go_order ord" and "b \<noteq> - 1"
  shows "\<exists>certs. (\<forall>ord'. go_order ord' \<longrightarrow> DAG_GetOrderedCertificates ord' a b d = Some certs) \<and> sorted_wrt cert_le certs \<and>
    (\<forall>c. c \<in> set certs \<longleftrightarrow> a \<le> Certificate_Round c \<and> Certificate_Round c \<le> b \<and>
       c \<in> set (DAG_GetCertificatesForRound ord (Certificate_Round c) d))"
proof (intro exI conjI allI impI)
  let ?certs = "concat (map (round_delivery ord d) (rounds_between a b))"
  have mem: "Certificate_Round c = r" if "c \<in> set (DAG_GetCertificatesForRound ord r d)" for c r
    by (rule round_members[OF assms(1) _ assms(3) that]) (rule assms(2))
  show "DAG_GetOrderedCertificates ord' a b d = Some ?certs" if "go_order ord'" for ord'
    using delivery_unique[OF assms(1,3) that] assms(4)
    by (auto simp: DAG_GetOrderedCertificates_def ordered_loop_eq rounds_between_empty)
  have "sorted_wrt cert_le (round_delivery ord d r)" for r
  proof -
    have "sorted_wrt (\<lambda>a b. Certificate_Author a \<le> Certificate_Author b) (round_delivery ord d r)"
      using sorted_sort_key[of Certificate_Author] by (simp add: sorted_map)
    then show ?thesis by (rule sorted_wrt_mono_rel[rotated]) (simp add: mem)
  qed
  then show "sorted_wrt cert_le ?certs"
    by (intro sorted_wrt_concat[OF sorted_rounds_between]) (auto dest: mem)
  show "c \<in> set ?certs \<longleftrightarrow> a \<le> Certificate_Round c \<and> Certificate_Round c \<le> b \<and>
      c \<in> set (DAG_GetCertificatesForRound ord (Certificate_Round c) d)" for c
  proof -
    have "c \<in> set ?certs \<longleftrightarrow> (\<exists>r \<in> {a..b}. c \<in> set (DAG_GetCertificatesForRound ord r d))"
      by (simp add: set_rounds_between)
    moreover have "(\<exists>r \<in> {a..b}. c \<in> set (DAG_GetCertificatesForRound ord r d)) \<longleftrightarrow>
        Certificate_Round c \<in> {a..b} \<and> c \<in> set (DAG_GetCertificatesForRound ord (Certificate_Round c) d)"
      using mem[of c] by blast
    ultimately show ?thesis by simp
  qed
qed

section \<open>The loop\<close>

abbreviation batch_bytes :: "CertifiedBatch list \<Rightarrow> int" where
  "batch_bytes xs \<equiv> sum_list (map (\<lambda>x. Batch_Size (cb_Batch x)) xs)"

text \<open>Everything that could be returned: for each digest cited by the certificates, at its first citation, the stored batch.\<close>

fun candidates :: "MemoryBatchStore \<Rightarrow> hash list \<Rightarrow> (Certificate \<times> hash) list \<Rightarrow> CertifiedBatch list" where
  "candidates bs seen [] = []"
| "candidates bs seen ((cert, digest) # refs) =
     (if digest \<in> set seen then candidates bs seen refs
      else case MemoryBatchStore_GetBatch digest bs of
        Inl _ \<Rightarrow> candidates bs seen refs
      | Inr batch \<Rightarrow> \<lparr>cb_Batch = batch, cb_Certificate = cert\<rparr> # candidates bs (digest # seen) refs)"

definition reap_prefix :: "int \<Rightarrow> CertifiedBatch list \<Rightarrow> CertifiedBatch list \<Rightarrow> bool" where
  "reap_prefix maxBytes all r \<longleftrightarrow> prefix r all \<and> (length r \<le> 1 \<or> batch_bytes r \<le> maxBytes) \<and>
     (r = all \<or> r \<noteq> [] \<and> batch_bytes (take (Suc (length r)) all) > maxBytes)"

lemma reap_loop_candidates:
  assumes "tot = batch_bytes result" and "length result \<le> 1 \<or> batch_bytes result \<le> maxBytes"
  shows "reap_prefix maxBytes (result @ candidates bs seen refs) (reap_loop bs maxBytes seen tot result refs)"
  using assms
proof (induction bs maxBytes seen tot result refs rule: reap_loop.induct)
  case (2 bs maxBytes seen tot result cert digest refs)
  show ?case
  proof (cases "digest \<in> set seen \<or> (\<exists>e. MemoryBatchStore_GetBatch digest bs = Inl e)")
    case True
    then show ?thesis using 2 by (auto split: sum.splits)
  next
    case False
    then obtain b where b: "MemoryBatchStore_GetBatch digest bs = Inr b" by (cases "MemoryBatchStore_GetBatch digest bs") auto
    let ?x = "\<lparr>cb_Batch = b, cb_Certificate = cert\<rparr>"
    show ?thesis
    proof (cases "tot + Batch_Size b > maxBytes \<and> length result > 0")
      case True
      then show ?thesis using False b 2(4,5) by (auto simp: reap_prefix_def)
    next
      case no: False
      have "reap_prefix maxBytes ((result @ [?x]) @ candidates bs (digest # seen) refs)
          (reap_loop bs maxBytes (digest # seen) (tot + Batch_Size b) (result @ [?x]) refs)"
        using False b no "2.IH"(3)[OF _ b refl no] 2(4) by (auto simp: not_less)
      then show ?thesis using False b no by (auto simp: Let_def)
    qed
  qed
qed (simp add: reap_prefix_def)

lemma candidates_mem:
  "x \<in> set (candidates bs seen refs) \<Longrightarrow>
     \<exists>digest. (cb_Certificate x, digest) \<in> set refs \<and> digest \<notin> set seen \<and> MemoryBatchStore_GetBatch digest bs = Inr (cb_Batch x)"
  by (induction bs seen refs rule: candidates.induct) (force split: if_splits sum.splits)+

lemma candidates_complete:
  "(cert, digest) \<in> set refs \<Longrightarrow> digest \<notin> set seen \<Longrightarrow> MemoryBatchStore_GetBatch digest bs = Inr b \<Longrightarrow>
     b \<in> cb_Batch ` set (candidates bs seen refs)"
proof (induction bs seen refs rule: candidates.induct)
  case (2 bs seen c d refs)
  show ?case
  proof (cases "digest = d")
    case True
    then show ?thesis using 2 by auto
  next
    case False
    then show ?thesis using 2 by (auto split: sum.splits)
  qed
qed simp

lemma candidates_distinct:
  assumes "\<And>d b. MemoryBatchStore_GetBatch d bs = Inr b \<Longrightarrow> b_Digest b = d"
  shows "distinct (map (\<lambda>x. b_Digest (cb_Batch x)) (candidates bs seen refs))"
  using assms
proof (induction bs seen refs rule: candidates.induct)
  case (2 bs seen c d refs)
  show ?case
  proof (cases "d \<in> set seen \<or> (\<exists>e. MemoryBatchStore_GetBatch d bs = Inl e)")
    case True
    then show ?thesis using 2 by (auto split: sum.splits)
  next
    case False
    then obtain b where b: "MemoryBatchStore_GetBatch d bs = Inr b" by (cases "MemoryBatchStore_GetBatch d bs") auto
    have "d \<notin> set (map (\<lambda>x. b_Digest (cb_Batch x)) (candidates bs (d # seen) refs))"
      using candidates_mem[of _ bs "d # seen" refs] "2.prems" by fastforce
    moreover have "distinct (map (\<lambda>x. b_Digest (cb_Batch x)) (candidates bs (d # seen) refs))"
      using "2.IH"(3)[OF _ b] 2(4) False by blast
    ultimately show ?thesis using False b 2(4)[OF b] by simp
  qed
qed simp

section \<open>The result\<close>

text \<open>The certificates a reap looks at: those of the rounds above the committed one.\<close>

definition reapable :: "cert_order \<Rightarrow> DAG \<Rightarrow> Certificate \<Rightarrow> bool" where
  "reapable ord d c \<longleftrightarrow> (d_hasCommitted d \<longrightarrow> d_committedRound d < Certificate_Round c) \<and>
     Certificate_Round c \<le> d_highestRound d \<and> c \<in> set (DAG_GetCertificatesForRound ord (Certificate_Round c) d)"

lemma set_cited: "(c, digest) \<in> set (cited certs) \<longleftrightarrow> c \<in> set certs \<and> digest \<in> bd_Digest ` set (h_BatchRefs (c_Header c))"
  by (auto simp: cited_def)

lemma sorted_cited: "sorted_wrt cert_le certs \<Longrightarrow> sorted_wrt (\<lambda>x y. cert_le (fst x) (fst y)) (cited certs)"
proof (induction certs)
  case (Cons c certs)
  have "sorted_wrt (\<lambda>x y. cert_le (fst x) (fst y)) (map (\<lambda>ref. (c, bd_Digest ref)) refs)" for refs
    by (induction refs) auto
  then show ?case using Cons by (auto simp: cited_def sorted_wrt_append)
qed (simp add: cited_def)

lemma candidates_sorted:
  "sorted_wrt (\<lambda>x y. cert_le (fst x) (fst y)) refs \<Longrightarrow>
     sorted_wrt (\<lambda>x y. cert_le (cb_Certificate x) (cb_Certificate y)) (candidates bs seen refs)"
proof (induction bs seen refs rule: candidates.induct)
  case (2 bs seen c d refs)
  have "cert_le c (cb_Certificate x)" if "x \<in> set (candidates bs seen' refs)" for x seen'
    using candidates_mem[OF that] "2.prems" by auto
  then show ?case using 2 by (auto split: sum.splits)
qed simp

lemma sorted_wrt_prefix: "sorted_wrt P ys \<Longrightarrow> prefix xs ys \<Longrightarrow> sorted_wrt P xs"
  by (auto simp: prefix_def sorted_wrt_append)

lemma committed_next: "(a :: u64) < b \<Longrightarrow> a + 1 \<le> r \<longleftrightarrow> a < r"
  by unat_arith

lemma Reap_eq:
  assumes "lb_components l = Some c" and "lb_batchStore l = Some bs" and "lb_certStore l = Some cs"
    and "rounds_keyed (lb_dag c)" and "mcs_ok cs" and "go_order ord" and "d_highestRound (lb_dag c) \<noteq> - 1"
  shows "\<exists>certs. (\<forall>ord'. go_order ord' \<longrightarrow>
      Looseberry_ReapCertifiedBatches ord' maxBytes l = Some (reap_loop bs maxBytes [] 0 [] (cited certs))) \<and>
    sorted_wrt cert_le certs \<and> (\<forall>x. x \<in> set certs \<longleftrightarrow> reapable ord (node_dag c cs) x)"
proof -
  let ?d = "node_dag c cs"
  have d: "rounds_keyed ?d" "d_certStore ?d = Some cs" "d_highestRound ?d = d_highestRound (lb_dag c)"
    using assms(4) rounds_keyed_cong[of ?d "lb_dag c"] by (simp_all add: node_dag_def)
  let ?from = "if d_hasCommitted ?d then d_committedRound ?d + 1 else 0"
  obtain certs where certs: "\<forall>ord'. go_order ord' \<longrightarrow> DAG_GetOrderedCertificates ord' ?from (d_highestRound ?d) ?d = Some certs"
    "sorted_wrt cert_le certs" "\<forall>x. x \<in> set certs \<longleftrightarrow> ?from \<le> Certificate_Round x \<and> Certificate_Round x \<le> d_highestRound ?d \<and>
       x \<in> set (DAG_GetCertificatesForRound ord (Certificate_Round x) ?d)"
    using ordered_certificates_weak[OF d(1) _ assms(6), of "d_highestRound ?d" ?from] assms(5,7) d(2,3) by auto
  show ?thesis
  proof (cases "d_hasCommitted ?d \<and> d_highestRound ?d \<le> d_committedRound ?d")
    case True
    then have "\<not> reapable ord ?d x" for x by (auto simp: reapable_def)
    moreover have "Looseberry_ReapCertifiedBatches ord' maxBytes l = Some (reap_loop bs maxBytes [] 0 [] (cited []))" for ord'
      using True assms(1-3)
      by (simp add: Looseberry_ReapCertifiedBatches_def Let_def DAG_HasCommitted_def DAG_HighestRound_def
          DAG_CommittedRound_def cited_def)
    ultimately show ?thesis by (intro exI[of _ "[]"]) simp
  next
    case False
    have "x \<in> set certs \<longleftrightarrow> reapable ord ?d x" for x
      using certs(3) False committed_next[of "d_committedRound ?d" "d_highestRound ?d"]
      by (auto simp: reapable_def)
    moreover have "Looseberry_ReapCertifiedBatches ord' maxBytes l = Some (reap_loop bs maxBytes [] 0 [] (cited certs))"
      if "go_order ord'" for ord'
      using False assms(1-3) certs(1) that
      by (auto simp: Looseberry_ReapCertifiedBatches_def Let_def DAG_HasCommitted_def DAG_HighestRound_def DAG_CommittedRound_def)
    ultimately show ?thesis using certs(2) by blast
  qed
qed

end
