(* ===== verification/Node_Stores.thy ===== *)
theory Node_Stores
  imports Reap
begin

text \<open>
  The stores of a node and its DAG are well formed between a start and a stop: the indexes of the three stores
  agree with their contents, and the rounds of the DAG hold their certificates under round and author.
\<close>

section \<open>Operations of the components\<close>

lemma finish_batch_storage: "storage_ok st \<Longrightarrow> storage_ok (fst (snd (finish_batch C now txs st w)))"
  using save_batch_ok(2) index_batch_ok(1)
  by (auto simp: finish_batch_def Let_def case_prod_unfold split: option.splits)

lemma tryCreateBatch_storage: "storage_ok st \<Longrightarrow> storage_ok (fst (snd (Worker_tryCreateBatch C now st w)))"
  by (simp add: Worker_tryCreateBatch_def Let_def case_prod_unfold finish_batch_storage)

lemma Worker_Stop_storage: "storage_ok st \<Longrightarrow> storage_ok (fst (snd (Worker_Stop C now st w)))"
  by (simp add: Worker_Stop_def case_prod_unfold Let_def tryCreateBatch_storage)

lemma batchLoop_step_storage: "storage_ok st \<Longrightarrow> storage_ok (fst (snd (Worker_batchLoop_step C now ev st w)))"
  by (simp add: Worker_batchLoop_step_def tryCreateBatch_storage split: loop_event.split)

lemma stop_workers_storage: "storage_ok st \<Longrightarrow> storage_ok (fst (stop_workers C now st ws))"
proof (induction ws arbitrary: st)
  case (Cons w ws)
  then show ?case using Worker_Stop_storage by (auto simp: case_prod_unfold Let_def)
qed simp

lemma Pool_Stop_storage: "storage_ok st \<Longrightarrow> storage_ok (fst (snd (Pool_Stop C now st p)))"
  by (simp add: Pool_Stop_def case_prod_unfold Let_def stop_workers_storage)

lemma checkAndScale_storage:
  assumes "storage_ok st" and "Scaler_checkAndScale C now st s p = (s', p', st', b)"
  shows "storage_ok st'"
proof -
  have "storage_ok (fst (snd (Pool_ScaleDown C now st p)))"
    using assms(1) Worker_Stop_storage by (simp add: Pool_ScaleDown_def Let_def case_prod_unfold)
  then have "storage_ok x" if "Scaler_tryScaleDown C now n load st s p = (s1, p1, x, b1, done)" for n load s1 p1 x b1 "done"
    using that by (auto simp: Scaler_tryScaleDown_def Let_def split: prod.splits bool.splits)
  then show ?thesis using assms
    by (auto simp: Scaler_checkAndScale_def Let_def split: if_splits prod.splits)
qed

lemma record_store: "mcs_ok cs \<Longrightarrow> mcs_ok (fst (snd (Primary_record ord now d v p cs)))"
  using mcs.save_ok by (simp add: Primary_record_def certificate_formed_def Let_def case_prod_unfold split: option.split)

lemma HandleVote_store: "mcs_ok cs \<Longrightarrow> mcs_ok (fst (snd (Primary_HandleVote C ord now v p cs)))"
  by (simp add: Primary_HandleVote_def record_store split: option.split)

lemma HandleCertificate_store: "mcs_ok cs \<Longrightarrow> mcs_ok (fst (snd (Primary_HandleCertificate C c p cs)))"
  using mcs.save_ok[of cs c] by (auto simp: Primary_HandleCertificate_def split: option.split prod.split)

lemma record_pending_store: "mcs_ok cs \<Longrightarrow> mcs_ok (fst (snd (record_pending ord now d vts p cs)))"
proof (induction vts arbitrary: p cs)
  case (Cons v vts)
  then show ?case using record_store[OF Cons.prems, of ord now d v p] by (auto split: prod.split option.split)
qed simp

lemma publish_store:
  assumes "mcs_ok cs"
  shows "mcs_ok (fst (snd (Primary_publish ord now h p cs)))"
proof -
  have "mcs_ok (fst (snd (self_vote ord now d q cs)))" for d q
  proof (cases "Vote_Sign (pr_signer q) (NewVote d (pr_validatorID q))")
    case (Inr v)
    then show ?thesis using record_store[OF assms, of ord now d v q] by (auto simp: self_vote_def split: prod.split option.split)
  qed (simp add: self_vote_def assms)
  moreover have "mcs_ok (fst (snd (Primary_processPendingVotes ord now d q cs')))" if "mcs_ok cs'" for d q cs'
    using record_pending_store[OF that] by (simp add: Primary_processPendingVotes_def that split: option.split)
  ultimately show ?thesis by (simp add: Primary_publish_def Let_def case_prod_unfold)
qed

lemma tryCreateHeader_store: "mcs_ok cs \<Longrightarrow> mcs_ok (fst (snd (Primary_tryCreateHeader C ord hasq now p cs)))"
  using publish_store by (simp add: Primary_tryCreateHeader_def Let_def case_prod_unfold split: sum.split)

text \<open>A DAG whose rounds are keyed and whose store is well formed.\<close>

definition dag_keyed :: "DAG \<Rightarrow> bool" where
  "dag_keyed d \<longleftrightarrow> rounds_keyed d \<and> (\<exists>cs. d_certStore d = Some cs \<and> mcs_ok cs)"

lemma DAG_save_store: "\<exists>cs. d_certStore d = Some cs \<and> mcs_ok cs \<Longrightarrow> \<exists>cs. d_certStore (fst (DAG_save c d)) = Some cs \<and> mcs_ok cs"
  using mcs.save_ok by (auto simp: DAG_save_def case_prod_unfold Let_def)

lemma AddCertificate_dag_keyed: "dag_keyed d \<Longrightarrow> dag_keyed (fst (DAG_AddCertificate (Some c) d))"
  using AddCertificate_keyed[of d c] DAG_save_store[of "accept_certificate c d" c]
  by (auto simp: dag_keyed_def AddCertificate_eq)

lemma replay_pass_dag_keyed: "dag_keyed d \<Longrightarrow> dag_keyed (fst (replay_pass certs d orphans))"
proof (induction certs arbitrary: d orphans)
  case (Cons c certs)
  then show ?case using AddCertificate_dag_keyed[OF Cons.prems, of c]
    by (auto simp: case_prod_unfold Let_def split: prod.split option.split)
qed simp

lemma replay_dag_keyed: "dag_keyed d \<Longrightarrow> dag_keyed (fst (Looseberry_replayOrphanCertsLocked ord d orphans))"
proof (induction ord d orphans rule: Looseberry_replayOrphanCertsLocked.induct)
  case (1 ord d orphans)
  obtain d1 o1 n where p: "replay_pass (map_values (ord orphans) orphans) d orphans = (d1, o1, n)" by (rule prod_cases3)
  then have "dag_keyed d1" using replay_pass_dag_keyed[OF 1(2)] by (metis fst_conv)
  then show ?case using 1 p by (subst Looseberry_replayOrphanCertsLocked.simps) auto
qed

lemma performGC_dag_keyed:
  assumes "dag_keyed d" and "mbs_ok bs" and "mti_ok idx"
    and r: "GCManager_performGC cb ord ks q gc d bs idx w = (gc', d', bs', idx', w', e)"
  shows "dag_keyed d' \<and> mbs_ok bs' \<and> mti_ok idx'"
proof -
  obtain cs where cs: "d_certStore d = Some cs" "mcs_ok cs" and keyed: "rounds_keyed d" using assms(1) by (auto simp: dag_keyed_def)
  note eff = performGC_effect[OF assms(2,3) cs r]
  have "rounds_keyed d'" using keyed unfolding rounds_keyed_def eff(4) by (metis option.distinct(1))
  moreover obtain gc1 idx1 w1 where 1: "gc_recover cb ord ks q gc d bs idx w = (gc1, idx1, w1)" by (rule prod_cases3)
  have "idx' \<in> {idx1, fst (MemoryTxIndex_PruneOlderThan q idx1)}"
    using r by (auto simp: GCManager_performGC_def 1 Let_def split: prod.splits option.splits sum.splits)
  then have "mti_ok idx'" using recover_frame(3)[OF 1 assms(3)] mti.prune_ok by auto
  ultimately show ?thesis using eff(2,3) mbs.delete_ok[OF assms(2)] mcs.delete_ok[OF cs(2)] by (auto simp: dag_keyed_def)
qed

section \<open>The node's stores\<close>

definition store_core where
  "store_core l = (lb_batchStore l, lb_txIndex l, lb_certStore l, map_option lb_dag (lb_components l))"

definition stores_ok :: "Looseberry \<Rightarrow> bool" where
  "stores_ok l \<longleftrightarrow> storage_ok (node_storage l) \<and> pred_option mcs_ok (lb_certStore l) \<and>
     pred_option rounds_keyed (map_option lb_dag (lb_components l))"

lemma stores_ok_core: "store_core l' = store_core l \<Longrightarrow> stores_ok l' = stores_ok l"
  by (simp add: store_core_def stores_ok_def node_storage_def)

lemma stores_okD:
  assumes "stores_ok l"
  shows "storage_ok (node_storage l)" "lb_batchStore l = Some bs \<Longrightarrow> mbs_ok bs" "lb_txIndex l = Some idx \<Longrightarrow> mti_ok idx"
    "lb_certStore l = Some cs \<Longrightarrow> mcs_ok cs" "lb_components l = Some c \<Longrightarrow> rounds_keyed (lb_dag c)"
    "lb_components l = Some c \<Longrightarrow> lb_certStore l = Some cs \<Longrightarrow> dag_keyed (node_dag c cs)"
  using assms rounds_keyed_cong[of "node_dag c cs" "lb_dag c"]
  by (auto simp: stores_ok_def storage_ok_def node_storage_def dag_keyed_def node_dag_def)

lemma stores_okI:
  assumes "pred_option mbs_ok (lb_batchStore l)" and "pred_option mti_ok (lb_txIndex l)"
    and "pred_option mcs_ok (lb_certStore l)" and "\<And>c. lb_components l = Some c \<Longrightarrow> rounds_keyed (lb_dag c)"
  shows "stores_ok l"
  using assms by (cases "lb_components l") (auto simp: stores_ok_def storage_ok_def node_storage_def)

text \<open>Operations that keep the stores well formed, whatever they put out.\<close>

abbreviation ssafe :: "node_op \<Rightarrow> bool" where
  "ssafe \<equiv> safe stores_ok (\<lambda>_. True)"

lemma ssafe_iff: "ssafe f \<longleftrightarrow> (\<forall>l. stores_ok l \<longrightarrow> stores_ok (fst (f l)))"
  by (simp add: safe_def safe_result_def list_all_iff)

lemma ssafeD: "ssafe f \<Longrightarrow> stores_ok l \<Longrightarrow> stores_ok (fst (f l))"
  by (simp add: ssafe_iff)

lemma ssafe_frame: "(\<And>l. store_core (fst (f l)) = store_core l) \<Longrightarrow> ssafe f"
  unfolding ssafe_iff by (metis stores_ok_core)

lemma ssafe_components:
  assumes "\<And>c bs cs idx l. stores_ok l \<Longrightarrow> lb_components l = Some c \<Longrightarrow> lb_batchStore l = Some bs \<Longrightarrow>
    lb_certStore l = Some cs \<Longrightarrow> lb_txIndex l = Some idx \<Longrightarrow> stores_ok (fst (f c bs cs idx l))"
  shows "ssafe (with_components f)"
  by (rule safe_with_components) (simp add: safe_result_def list_all_iff assms)

lemma set_dag_stores:
  "dag_keyed d \<Longrightarrow> storage_ok (node_storage l) \<Longrightarrow> stores_ok (set_dag d c l)"
  by (auto simp: dag_keyed_def stores_ok_def set_dag_def node_storage_def)

lemma set_pool_stores:
  "stores_ok l \<Longrightarrow> lb_components l = Some c' \<Longrightarrow> lb_dag c = lb_dag c' \<Longrightarrow> storage_ok st \<Longrightarrow> stores_ok (set_pool p st c l)"
  by (simp add: stores_ok_def set_pool_def node_storage_def storage_ok_def)

subsection \<open>Callbacks and messages\<close>

lemma dispatch_ssafe [safe_intros]: "ssafe (Looseberry_dispatchAsync (send m))"
  by (intro safe_intros) simp

lemma onBatchRequest_ssafe [safe_intros]: "ssafe (Looseberry_onBatchRequest r)"
  by (rule ssafe_frame) (simp add: Looseberry_onBatchRequest_def send_def)

lemma onVoteCreated_ssafe [safe_intros]: "ssafe (Looseberry_onVoteCreated v)"
  by (rule ssafe_frame) (simp add: Looseberry_onVoteCreated_def Looseberry_dispatchAsync_def send_def)

lemma onHeaderCreated_ssafe [safe_intros]: "ssafe (Looseberry_onHeaderCreated h)"
  by (rule ssafe_frame) (simp add: Looseberry_onHeaderCreated_def send_def)

lemma onBatchCreated_ssafe [safe_intros]: "ssafe (Looseberry_onBatchCreated b)"
  by (rule ssafe_frame) (simp add: Looseberry_onBatchCreated_def Let_def store_core_def set_components_def split: option.split)

lemma onCertificateFormed_ssafe [safe_intros]: "ssafe (Looseberry_onCertificateFormed cert)"
  unfolding Looseberry_onCertificateFormed_def
  by (rule ssafe_components) (auto simp: Let_def intro!: set_dag_stores AddCertificate_dag_keyed dest: stores_okD(1,6))

lemma sendBatchAck_ssafe [safe_intros]: "ssafe (Looseberry_sendBatchAck C frm b)"
  by (rule ssafe_frame) (simp add: Looseberry_sendBatchAck_def Looseberry_dispatchAsync_def send_def Let_def split: sum.split)

lemma HandleHeader_ssafe [safe_intros]: "ssafe (node_HandleHeader C now h)"
  unfolding node_HandleHeader_def
proof (rule ssafe_components)
  fix c bs cs idx l
  assume l: "stores_ok l" "lb_components l = Some c"
  obtain bf reqs vote e where r: "Primary_HandleHeader C now bs cs h (lb_primaryNode c) (lb_batchFetcher c) = (bf, reqs, vote, e)"
    by (rule prod_cases4)
  have "ssafe (then_do (for_each Looseberry_onBatchRequest reqs)
      (for_each Looseberry_onVoteCreated (case vote of None \<Rightarrow> [] | Some v \<Rightarrow> [v])))" (is "ssafe ?f")
    by (intro safe_intros)
  moreover have "stores_ok (set_components (c\<lparr>lb_batchFetcher := bf\<rparr>) l)"
    using l stores_ok_core[of "set_components (c\<lparr>lb_batchFetcher := bf\<rparr>) l" l] by (simp add: store_core_def set_components_def)
  ultimately have "stores_ok (fst (?f (set_components (c\<lparr>lb_batchFetcher := bf\<rparr>) l)))" by (rule ssafeD)
  then show "stores_ok (fst (let (bf, reqs, vote, e) =
      Primary_HandleHeader C now bs cs h (lb_primaryNode c) (lb_batchFetcher c)
     in then_do (for_each Looseberry_onBatchRequest reqs)
          (for_each Looseberry_onVoteCreated (case vote of None \<Rightarrow> [] | Some v \<Rightarrow> [v]))
          (set_components (c\<lparr>lb_batchFetcher := bf\<rparr>) l)))" unfolding r Let_def prod.case .
qed

lemma onHeaderReady_ssafe [safe_intros]: "ssafe (Looseberry_onHeaderReady C now h)"
  unfolding Looseberry_onHeaderReady_def by (rule safe_intros)

text \<open>New batches and indexes with the same DAG and certificates.\<close>

lemma new_storage_stores:
  "stores_ok l \<Longrightarrow> lb_components l = Some c \<Longrightarrow> mbs_ok bs \<Longrightarrow> mti_ok idx \<Longrightarrow> lb_dag c' = lb_dag c \<Longrightarrow>
     stores_ok (l\<lparr>lb_components := Some c', lb_batchStore := Some bs, lb_txIndex := Some idx\<rparr>)"
  by (simp add: stores_ok_def storage_ok_def node_storage_def)

lemma handleBatchMessage_ssafe [safe_intros]: "ssafe (Looseberry_handleBatchMessage C now m)"
proof (cases "bm_Batch m")
  case (Some b)
  have "ssafe (with_components (\<lambda>c bs cs idx l.
      let bs1 = fst (MemoryBatchStore_SaveBatch b bs); idx1 = fst (MemoryTxIndex_AddBatch C b idx);
          (bf, ready) = BatchFetcher_NotifyBatchReceived (Some b) (lb_batchFetcher c)
      in then_do (for_each (Looseberry_onHeaderReady C now) ready) (Looseberry_sendBatchAck C (bm_From m) b)
           (l\<lparr>lb_components := Some (c\<lparr>lb_batchFetcher := bf\<rparr>), lb_batchStore := Some bs1, lb_txIndex := Some idx1\<rparr>)))"
    by (rule ssafe_components)
       (auto simp: Let_def case_prod_unfold mbs.save_ok mti.add_ok intro!: ssafeD[of "then_do _ _"] safe_intros new_storage_stores
          dest: stores_okD)
  then show ?thesis using Some by (simp add: ssafe_iff Looseberry_handleBatchMessage_def)
qed (simp add: ssafe_iff Looseberry_handleBatchMessage_def)

lemma handleHeaderMessage_ssafe [safe_intros]: "ssafe (Looseberry_handleHeaderMessage C now m)"
  using HandleHeader_ssafe[of C now] by (simp add: ssafe_iff Looseberry_handleHeaderMessage_def split: option.split)

text \<open>A new primary and certificate store with the same DAG.\<close>

lemma new_certs_stores:
  "stores_ok l \<Longrightarrow> lb_components l = Some c \<Longrightarrow> mcs_ok cs \<Longrightarrow> lb_dag c' = lb_dag c \<Longrightarrow>
     stores_ok (l\<lparr>lb_components := Some c', lb_certStore := Some cs\<rparr>)"
  by (simp add: stores_ok_def node_storage_def)

lemma handleVoteMessage_ssafe [safe_intros]: "ssafe (Looseberry_handleVoteMessage C ord now m)"
proof (cases "vm_Vote m")
  case (Some v)
  have "ssafe (with_components (\<lambda>c bs cs idx l.
      let (p, cs1, cert) = Primary_HandleVote C ord now (Some v) (lb_primaryNode c) cs
      in for_each Looseberry_onCertificateFormed (case cert of None \<Rightarrow> [] | Some x \<Rightarrow> [x])
           (l\<lparr>lb_components := Some (c\<lparr>lb_primaryNode := p\<rparr>), lb_certStore := Some cs1\<rparr>)))"
    by (rule ssafe_components)
       (auto simp: Let_def case_prod_unfold intro!: ssafeD[of "for_each _ _"] safe_intros new_certs_stores HandleVote_store
          dest: stores_okD)
  then show ?thesis using Some by (simp add: ssafe_iff Looseberry_handleVoteMessage_def)
qed (simp add: ssafe_iff Looseberry_handleVoteMessage_def)

lemma handleCertificateMessage_ssafe [safe_intros]: "ssafe (Looseberry_handleCertificateMessage C ord m)"
proof (cases "cm_Certificate m")
  case (Some cert)
  have "stores_ok (fst (Looseberry_handleCertificateMessage C ord m l))" if l: "stores_ok l" for l
  proof (cases "\<exists>c bs cs idx. lb_components l = Some c \<and> lb_batchStore l = Some bs \<and> lb_certStore l = Some cs \<and>
      lb_txIndex l = Some idx")
    case True
    then obtain c bs cs idx where c: "lb_components l = Some c" "lb_batchStore l = Some bs" "lb_certStore l = Some cs"
      "lb_txIndex l = Some idx" by blast
    obtain p cs1 e where r: "Primary_HandleCertificate C cert (lb_primaryNode c) cs = (p, cs1, e)" by (rule prod_cases3)
    obtain d1 e1 where d1: "DAG_AddCertificate (Some cert) (node_dag c cs1) = (d1, e1)" by fastforce
    have "mcs_ok cs1" using HandleCertificate_store[OF stores_okD(4)[OF l c(3)], of C cert "lb_primaryNode c"] r by simp
    then have "dag_keyed (node_dag c cs1)"
      using stores_okD(5)[OF l c(1)] rounds_keyed_cong[of "node_dag c cs1" "lb_dag c"] by (simp add: dag_keyed_def node_dag_def)
    then have d: "dag_keyed d1" "dag_keyed (fst (Looseberry_replayOrphanCertsLocked ord d1 os))" for os
      using AddCertificate_dag_keyed[of "node_dag c cs1" cert] replay_dag_keyed d1 by auto
    have "storage_ok (node_storage (l\<lparr>lb_orphanCerts := os\<rparr>))" for os using stores_okD(1)[OF l] by (simp add: node_storage_def)
    then show ?thesis using Some c r d1 d
      by (cases e1) (simp_all add: Looseberry_handleCertificateMessage_def with_components_def Let_def case_prod_unfold set_dag_stores)
  qed (use l Some in \<open>auto simp: Looseberry_handleCertificateMessage_def with_components_def split: option.splits\<close>)
  then show ?thesis by (simp add: ssafe_iff)
qed (simp add: ssafe_iff Looseberry_handleCertificateMessage_def)

lemma handleBatchAckMessage_ssafe [safe_intros]: "ssafe (Looseberry_handleBatchAckMessage C now m)"
  by (rule ssafe_frame)
     (simp add: Looseberry_handleBatchAckMessage_def store_core_def option.map_comp comp_def split: option.split)

lemma handleBatchRequestMessage_ssafe [safe_intros]: "ssafe (Looseberry_handleBatchRequestMessage m)"
  by (rule ssafe_frame) (simp add: Looseberry_handleBatchRequestMessage_def send_def Let_def)

lemma HandleBatchResponse_store:
  "mbs_ok bs \<Longrightarrow> mbs_ok (fst (snd (BatchFetcher_HandleBatchResponse mb found frm bs bf)))"
  using mbs.save_ok by (simp add: BatchFetcher_HandleBatchResponse_def Let_def case_prod_unfold split: option.split)

lemma handleBatchResponseMessage_ssafe [safe_intros]: "ssafe (Looseberry_handleBatchResponseMessage C now m)"
  unfolding Looseberry_handleBatchResponseMessage_def
proof (rule ssafe_components)
  fix c bs cs idx l
  assume l: "stores_ok l" "lb_components l = Some c" "lb_batchStore l = Some bs" "lb_certStore l = Some cs" "lb_txIndex l = Some idx"
  let ?x = "case brs_Batch m of Some batch \<Rightarrow>
      if brs_Found m then (fst (MemoryBatchStore_SaveBatch batch bs), fst (MemoryTxIndex_AddBatch C batch idx)) else (bs, idx)
    | None \<Rightarrow> (bs, idx)"
  obtain bs1 idx1 where x: "?x = (bs1, idx1)" by fastforce
  have ok: "mbs_ok bs1" "mti_ok idx1"
    using x stores_okD(2,3)[OF l(1)] l(3,5) mbs.save_ok mti.add_ok by (auto split: option.splits if_splits)
  obtain bf bs2 ready where
    r: "BatchFetcher_HandleBatchResponse (brs_Batch m) (brs_Found m) (brs_From m) bs1 (lb_batchFetcher c) = (bf, bs2, ready)"
    by (rule prod_cases3)
  have "mbs_ok bs2" using HandleBatchResponse_store[OF ok(1), of "brs_Batch m" "brs_Found m" "brs_From m" "lb_batchFetcher c"] r by simp
  then have "stores_ok (l\<lparr>lb_components := Some (c\<lparr>lb_batchFetcher := bf\<rparr>), lb_batchStore := Some bs2, lb_txIndex := Some idx1\<rparr>)"
    using new_storage_stores[OF l(1,2)] ok(2) by simp
  then have "stores_ok (fst (for_each (Looseberry_onHeaderReady C now) ready
      (l\<lparr>lb_components := Some (c\<lparr>lb_batchFetcher := bf\<rparr>), lb_batchStore := Some bs2, lb_txIndex := Some idx1\<rparr>)))"
    by (intro ssafeD[of "for_each _ _"] safe_intros)
  then show "stores_ok (fst (let (bs1, idx1) = ?x;
      (bf, bs2, ready) = BatchFetcher_HandleBatchResponse (brs_Batch m) (brs_Found m) (brs_From m) bs1 (lb_batchFetcher c)
     in for_each (Looseberry_onHeaderReady C now) ready
          (l\<lparr>lb_components := Some (c\<lparr>lb_batchFetcher := bf\<rparr>), lb_batchStore := Some bs2, lb_txIndex := Some idx1\<rparr>)))"
    unfolding x Let_def prod.case r .
qed

lemma save_batches_store: "mbs_ok bs \<Longrightarrow> mbs_ok (fst (save_batches batches bs))"
proof (induction batches arbitrary: bs)
  case (Cons b batches)
  then show ?case using mbs.save_ok[OF Cons.prems, of b] by (auto split: prod.split option.split)
qed simp

lemma deliver_fold_stores:
  assumes "stores_ok l" and "\<And>cert l. stores_ok l \<Longrightarrow> stores_ok (f cert l)"
  shows "stores_ok (snd (fold (sync_deliver (Some f) C vs') certs (d, l)))"
  using assms(1)
proof (induction certs arbitrary: d l)
  case (Cons cert certs)
  have "\<exists>d' l'. sync_deliver (Some f) C vs' cert (d, l) = (d', l') \<and> stores_ok l'"
    using Cons.prems assms(2) by (auto simp: sync_deliver_def)
  then show ?case using Cons.IH by auto
qed simp

lemma handleSyncResponse_ssafe [safe_intros]: "ssafe (Looseberry_handleSyncResponse C ord m)"
proof (cases "srm_Response m")
  case (Some resp)
  let ?f = "\<lambda>cert l. fst (Looseberry_handleCertificateMessage C ord \<lparr>cm_Certificate = Some cert, cm_From = 0\<rparr> l)"
  have f: "stores_ok l \<Longrightarrow> stores_ok (?f cert l)" for cert l using ssafeD[OF handleCertificateMessage_ssafe] by blast
  have "stores_ok (fst (Looseberry_handleSyncResponse C ord m l))" if l: "stores_ok l" for l
  proof (cases "\<exists>c bs cs idx. lb_components l = Some c \<and> lb_batchStore l = Some bs \<and> lb_certStore l = Some cs \<and>
      lb_txIndex l = Some idx")
    case True
    then obtain c bs cs idx where c: "lb_components l = Some c" "lb_batchStore l = Some bs" "lb_certStore l = Some cs"
      "lb_txIndex l = Some idx" by blast
    obtain s bs1 d l1 x where
      r: "SyncManager_HandleSyncResponse (Some ?f) C resp (srm_From m) bs (lb_syncManager c) (lb_dag c, l) = (s, bs1, (d, l1), x)"
      by (metis surj_pair)
    have "l1 = l \<or> (\<exists>vs' certs. l1 = snd (fold (sync_deliver (Some ?f) C vs') certs (lb_dag c, l)))"
      using r by (auto simp: SyncManager_HandleSyncResponse_def Let_def split: if_splits prod.splits option.splits)
         (metis snd_conv)+
    then have l1: "stores_ok l1" using l deliver_fold_stores[OF l f] by auto
    have "bs1 = bs \<or> bs1 = fst (save_batches (srs_Batches resp) bs)"
      using r by (auto simp: SyncManager_HandleSyncResponse_def Let_def split: if_splits prod.splits option.splits)
    then have "mbs_ok bs1" using stores_okD(2)[OF l c(2)] save_batches_store by auto
    then have "stores_ok (l1\<lparr>lb_batchStore := Some bs1, lb_components := map_option (\<lambda>c. c\<lparr>lb_syncManager := s\<rparr>) (lb_components l1)\<rparr>)"
      using l1 by (simp add: stores_ok_def storage_ok_def node_storage_def option.map_comp comp_def)
    then show ?thesis using Some c r
      by (simp add: Looseberry_handleSyncResponse_def with_components_def Let_def)
  qed (use l Some in \<open>auto simp: Looseberry_handleSyncResponse_def with_components_def split: option.splits\<close>)
  then show ?thesis by (simp add: ssafe_iff)
qed (simp add: ssafe_iff Looseberry_handleSyncResponse_def)

lemma messageLoop_step_stores:
  assumes "stores_ok l" and "Looseberry_messageLoop_step env now msg l = Some (l', out)"
  shows "stores_ok l'"
proof -
  have s: "stores_ok l'" if "ssafe f" "f l = (l', out)" for f using ssafeD[OF that(1) assms(1)] that(2) by simp
  have "l' = l" if "Looseberry_handleSyncRequest ord req l = Some (l', out)" for ord req
    using that by (auto simp: Looseberry_handleSyncRequest_def split: option.splits)
  then show ?thesis using assms
    by (cases msg) (auto simp: Looseberry_messageLoop_step_def dest:
      s[OF handleBatchMessage_ssafe] s[OF handleHeaderMessage_ssafe] s[OF handleVoteMessage_ssafe]
      s[OF handleCertificateMessage_ssafe] s[OF handleBatchAckMessage_ssafe] s[OF handleBatchRequestMessage_ssafe]
      s[OF handleBatchResponseMessage_ssafe] s[OF handleSyncResponse_ssafe])
qed

subsection \<open>Loops and calls of the application\<close>

lemma node_worker_step_ssafe: "ssafe (node_worker_step C now i ev)"
proof -
  have "stores_ok (fst (node_worker_step C now i ev l))" if l: "stores_ok l" for l
  proof (cases "\<exists>c. lb_components l = Some c \<and> i < length (p_workers (lb_workerPool c))")
    case True
    then obtain c where c: "lb_components l = Some c" "i < length (p_workers (lb_workerPool c))" by blast
    obtain w st b cb where
      r: "Worker_batchLoop_step C now ev (node_storage l) (p_workers (lb_workerPool c) ! i) = (w, st, b, cb)"
      by (rule prod_cases4)
    have "storage_ok st"
      using batchLoop_step_storage[OF stores_okD(1)[OF l], of C now ev "p_workers (lb_workerPool c) ! i"] r by simp
    then have "stores_ok (set_pool p st c l)" for p using set_pool_stores[OF l c(1)] by simp
    moreover have "ssafe (for_each Looseberry_onBatchCreated bs)" for bs by (intro safe_intros)
    ultimately show ?thesis using ssafeD c r by (simp add: node_worker_step_def Let_def)
  qed (use l in \<open>auto simp: node_worker_step_def Let_def split: option.split\<close>)
  then show ?thesis by (simp add: ssafe_iff)
qed

lemma node_scaler_step_ssafe: "ssafe (node_scaler_step C now)"
proof -
  have "stores_ok (fst (node_scaler_step C now l))" if l: "stores_ok l" for l
  proof (cases "lb_components l")
    case (Some c)
    obtain s p st b where
      r: "Scaler_checkAndScale C now (node_storage l) (lb_workerScaler c) (lb_workerPool c) = (s, p, st, b)"
      by (rule prod_cases4)
    have "stores_ok (set_pool p st (c\<lparr>lb_workerScaler := s\<rparr>) l)"
      using set_pool_stores[OF l Some] checkAndScale_storage[OF stores_okD(1)[OF l] r] by simp
    moreover have "ssafe (for_each Looseberry_onBatchCreated bs)" for bs by (intro safe_intros)
    ultimately show ?thesis using ssafeD Some r by (simp add: node_scaler_step_def)
  qed (use l in \<open>simp add: node_scaler_step_def\<close>)
  then show ?thesis by (simp add: ssafe_iff)
qed

lemma node_header_tick_ssafe: "ssafe (node_header_tick C ord now)"
  unfolding node_header_tick_def
  by (rule ssafe_components)
     (auto simp: Let_def case_prod_unfold Primary_headerLoop_step_def intro!: ssafeD[of "then_do _ _"] safe_intros
        new_certs_stores tryCreateHeader_store dest: stores_okD)

lemma node_primary_cleanup_ssafe: "ssafe (node_primary_cleanup ks now)"
  by (rule ssafe_frame) (simp add: node_primary_cleanup_def store_core_def option.map_comp comp_def)

lemma node_fetcher_tick_ssafe: "ssafe (node_fetcher_tick ks now)"
proof -
  have "stores_ok (fst (node_fetcher_tick ks now l))" if l: "stores_ok l" for l
  proof (cases "lb_components l")
    case (Some c)
    have "stores_ok (set_components (c\<lparr>lb_batchFetcher := bf\<rparr>) l)" for bf
      using l Some stores_ok_core[of "set_components (c\<lparr>lb_batchFetcher := bf\<rparr>) l" l] by (simp add: store_core_def set_components_def)
    moreover have "ssafe (for_each Looseberry_onBatchRequest bs)" for bs by (intro safe_intros)
    ultimately show ?thesis using ssafeD Some by (simp add: node_fetcher_tick_def Let_def case_prod_unfold)
  qed (use l in \<open>simp add: node_fetcher_tick_def\<close>)
  then show ?thesis by (simp add: ssafe_iff)
qed

lemma node_sync_tick_ssafe: "ssafe (node_sync_tick env now ev)"
  unfolding node_sync_tick_def
  by (rule ssafe_frame)
     (simp add: with_components_def Let_def case_prod_unfold store_core_def set_components_def split: option.split)

lemma RequestPeerCatchUp_ssafe [safe_intros]: "ssafe (Looseberry_RequestPeerCatchUp me sent now peer)"
  by (rule ssafe_frame) (simp add: Looseberry_RequestPeerCatchUp_def Looseberry_dispatchAsync_def node_RequestPeerCatchUp_def
      case_prod_unfold Let_def store_core_def set_components_def split: option.split)

lemma gcLoop_tick_stores:
  assumes "dag_keyed d" and "mbs_ok bs" and "mti_ok idx"
    and "GCManager_gcLoop_tick cb ord ks dur gc d bs idx w = (gc', d', bs', idx', w')"
  shows "dag_keyed d' \<and> mbs_ok bs' \<and> mti_ok idx'"
  using assms
  by (auto simp: GCManager_gcLoop_tick_def Let_def dest: performGC_dag_keyed split: if_splits prod.splits option.splits)

lemma gc_NotifyCommitted_stores:
  assumes "dag_keyed d" and "mbs_ok bs" and "mti_ok idx"
    and "GCManager_NotifyCommitted cb ord ks r gc d bs idx w = (gc', d', bs', idx', w', e)"
  shows "dag_keyed d' \<and> mbs_ok bs' \<and> mti_ok idx'"
proof -
  have "dag_keyed (DAG_SetCommittedRound r d)"
    using assms(1) SetCommittedRound_keyed[of d r] by (simp add: dag_keyed_def DAG_SetCommittedRound_def)
  then show ?thesis using assms
    by (auto simp: GCManager_NotifyCommitted_def Let_def dest: performGC_dag_keyed split: if_splits prod.splits)
qed

text \<open>What a collection leaves, written back into the node.\<close>

lemma collected_stores:
  "dag_keyed d \<Longrightarrow> mbs_ok bs \<Longrightarrow> mti_ok idx \<Longrightarrow> stores_ok (set_dag d c (l\<lparr>lb_batchStore := Some bs, lb_txIndex := Some idx\<rparr>))"
  by (rule set_dag_stores) (simp_all add: node_storage_def storage_ok_def)

lemma node_gc_tick_ssafe: "ssafe (node_gc_tick env ks dur)"
  unfolding node_gc_tick_def
proof (rule ssafe_components)
  fix c bs cs idx l
  assume l: "stores_ok l" "lb_components l = Some c" "lb_batchStore l = Some bs" "lb_certStore l = Some cs" "lb_txIndex l = Some idx"
  let ?cb = "if ng_RecoverTxs (nc_GC (lb_cfg l)) then Some (Looseberry_onTxRecovered (ne_crypto env) bs) else None"
  obtain gc d bs1 idx1 pool where
    r: "GCManager_gcLoop_tick ?cb (ne_certs env) ks dur (lb_gcManager c) (node_dag c cs) bs idx (lb_workerPool c) =
      (gc, d, bs1, idx1, pool)" by (rule prod_cases5)
  have "dag_keyed d \<and> mbs_ok bs1 \<and> mti_ok idx1"
    by (rule gcLoop_tick_stores[OF _ _ _ r]) (use stores_okD[OF l(1)] l in blast)+
  then show "stores_ok (fst (let cb = ?cb; (gc, d, bs1, idx1, pool) =
      GCManager_gcLoop_tick cb (ne_certs env) ks dur (lb_gcManager c) (node_dag c cs) bs idx (lb_workerPool c)
     in (set_dag d (c\<lparr>lb_gcManager := gc, lb_workerPool := pool\<rparr>)
           (l\<lparr>lb_batchStore := Some bs1, lb_txIndex := Some idx1\<rparr>), [])))"
    unfolding Let_def r prod.case by (simp add: collected_stores)
qed

lemma rebroadcastIfStuck_ssafe: "ssafe (Looseberry_rebroadcastIfStuck word hord now)"
proof -
  have f: "ssafe (then_do (for_each (\<lambda>b. Looseberry_dispatchAsync (send (BroadcastBatch b))) bs)
      (for_each (\<lambda>h. Looseberry_dispatchAsync (send (BroadcastHeader h))) hs))" for bs hs by (intro safe_intros) simp_all
  have "stores_ok (l\<lparr>lb_totalRebroadcastFires := a, lb_totalRebroadcastedBatches := b, lb_totalRebroadcastedHeaders := c\<rparr>) = stores_ok l"
    for l a b c by (rule stores_ok_core) (simp add: store_core_def)
  then show ?thesis using ssafeD[OF f]
    by (auto simp: ssafe_iff Looseberry_rebroadcastIfStuck_def Let_def split: option.split)
qed

lemma rebroadcastLoop_tick_stores:
  assumes "stores_ok l" and "Looseberry_rebroadcastLoop_tick env word hord now l = Some (l', out)"
  shows "stores_ok l'"
proof -
  have f: "ssafe (for_each (Looseberry_RequestPeerCatchUp me sent now) xs)" for me sent xs by (intro safe_intros)
  have "stores_ok l2" if "stores_ok l1" "Looseberry_syncIfStuck me sent now l1 = Some (l2, o2)" for l1 me sent l2 o2
    using that ssafeD[OF f that(1)]
    by (auto simp: Looseberry_syncIfStuck_def Let_def split: if_splits option.splits) (metis fst_conv)
  then show ?thesis using assms ssafeD[OF rebroadcastIfStuck_ssafe assms(1), of word hord now]
    by (auto simp: Looseberry_rebroadcastLoop_tick_def Let_def case_prod_unfold split: option.splits)
qed

lemma node_AddTx_core: "store_core (fst (Looseberry_AddTx C tx l)) = store_core l"
  by (auto simp: Looseberry_AddTx_def store_core_def set_components_def split: option.split prod.split)

lemma node_NotifyCommitted_stores:
  assumes "stores_ok l"
  shows "stores_ok (Looseberry_NotifyCommitted C ord ks now rnd l)"
proof -
  have "ssafe (with_components (\<lambda>c bs cs idx l.
      let d = DAG_SetCommittedRound rnd (node_dag c cs);
          fc = fst (FlowController_UpdateCommittedRound rnd (lb_flowController c));
          cb = (if ng_RecoverTxs (nc_GC (lb_cfg l)) then Some (Looseberry_onTxRecovered C bs) else None);
          (gc, d1, bs1, idx1, pool, e) =
            GCManager_NotifyCommitted cb ord ks rnd (lb_gcManager c) d bs idx (lb_workerPool c)
      in (set_dag d1 (c\<lparr>lb_flowController := fc, lb_gcManager := gc, lb_workerPool := pool\<rparr>)
            (l\<lparr>lb_batchStore := Some bs1, lb_txIndex := Some idx1\<rparr>), [])))" (is "ssafe (with_components ?f)")
  proof (rule ssafe_components)
    fix c bs cs idx l
    assume l: "stores_ok l" "lb_components l = Some c" "lb_batchStore l = Some bs" "lb_certStore l = Some cs" "lb_txIndex l = Some idx"
    let ?cb = "if ng_RecoverTxs (nc_GC (lb_cfg l)) then Some (Looseberry_onTxRecovered C bs) else None"
    have d: "dag_keyed (DAG_SetCommittedRound rnd (node_dag c cs))"
      using stores_okD(6)[OF l(1,2,4)] SetCommittedRound_keyed by (auto simp: dag_keyed_def DAG_SetCommittedRound_def)
    obtain gc d1 bs1 idx1 pool e where
      r: "GCManager_NotifyCommitted ?cb ord ks rnd (lb_gcManager c) (DAG_SetCommittedRound rnd (node_dag c cs)) bs idx
        (lb_workerPool c) = (gc, d1, bs1, idx1, pool, e)" by (rule prod_cases6)
    have "dag_keyed d1 \<and> mbs_ok bs1 \<and> mti_ok idx1"
      by (rule gc_NotifyCommitted_stores[OF d _ _ r]) (use stores_okD[OF l(1)] l in blast)+
    then show "stores_ok (fst (?f c bs cs idx l))" unfolding Let_def r prod.case by (simp add: collected_stores)
  qed
  then have ok: "stores_ok (fst (with_components ?f l))" using assms by (rule ssafeD)
  have "stores_ok (l\<lparr>lb_lastCommittedRound := a, lb_lastCommitNanos := b\<rparr>) = stores_ok l" for l a b
    by (rule stores_ok_core) (simp add: store_core_def)
  then show ?thesis using ok by (simp add: Looseberry_NotifyCommitted_def Let_def)
qed

lemma stop_pool_ssafe [safe_intros]: "ssafe (stop_pool C now)"
proof -
  have "stores_ok (fst (stop_pool C now l))" if l: "stores_ok l" for l
  proof (cases "lb_components l")
    case (Some c)
    obtain p st bs e where r: "Pool_Stop C now (node_storage l) (lb_workerPool c) = (p, st, bs, e)" by (rule prod_cases4)
    have "storage_ok st" using Pool_Stop_storage[OF stores_okD(1)[OF l], of C now "lb_workerPool c"] r by simp
    then have "stores_ok (set_pool p st c l)" using set_pool_stores[OF l Some] by simp
    moreover have "ssafe (for_each Looseberry_onBatchCreated bs)" by (intro safe_intros)
    ultimately show ?thesis using ssafeD Some r by (simp add: stop_pool_def)
  qed (use l in \<open>simp add: stop_pool_def\<close>)
  then show ?thesis by (simp add: ssafe_iff)
qed

lemma start_pool_stores:
  assumes l: "stores_ok l"
  shows "stores_ok (fst (start_pool C now l))"
proof (cases "lb_components l")
  case (Some c)
  obtain p st bs e where r: "Pool_Start C now (node_storage l) (lb_workerPool c) = (p, st, bs, e)" by (rule prod_cases4)
  have "st = node_storage l"
    using r Pool_Start_ok[of "lb_workerPool c" C now "node_storage l"] by (cases "p_running (lb_workerPool c)") (auto simp: Pool_Start_def)
  then have "stores_ok (set_pool p st c l)" using set_pool_stores[OF l Some] stores_okD(1)[OF l] by simp
  moreover have "ssafe (for_each Looseberry_onBatchCreated bs)" by (intro safe_intros)
  ultimately show ?thesis using ssafeD Some r by (simp add: start_pool_def case_prod_unfold Let_def)
qed (use l in \<open>simp add: start_pool_def\<close>)

lemma Flush_ssafe: "ssafe (Looseberry_Flush C now)"
proof -
  have "ssafe (\<lambda>l. let (l1, out, _) = start_pool C now l in (l1, out))"
    by (simp add: ssafe_iff case_prod_unfold Let_def start_pool_stores)
  then have "ssafe (then_do (stop_pool C now) (\<lambda>l. let (l1, out, _) = start_pool C now l in (l1, out)))"
    by (intro safe_intros)
  then show ?thesis by (simp add: ssafe_iff Looseberry_Flush_def)
qed

lemma CatchUpPeerCerts_stores:
  assumes "stores_ok l" and "Looseberry_CatchUpPeerCerts ord l = Some (l', out)"
  shows "stores_ok l'"
proof -
  have f: "ssafe (for_each (\<lambda>cert. Looseberry_dispatchAsync (send (BroadcastCertificate cert))) certs)" for certs
    by (intro safe_intros) simp
  show ?thesis using assms ssafeD[OF f assms(1)]
    by (auto simp: Looseberry_CatchUpPeerCerts_def split: if_splits option.splits) (metis fst_conv)
qed

lemma node_step_stores:
  assumes l: "stores_ok l" and r: "node_step env now ev l = Some (l', out)"
  shows "stores_ok l'"
proof -
  have s: "stores_ok l'" if "ssafe f" "f l = (l', out)" for f using ssafeD[OF that(1) l] that(2) by simp
  show ?thesis
    using r messageLoop_step_stores[OF l] rebroadcastLoop_tick_stores[OF l] CatchUpPeerCerts_stores[OF l]
      node_NotifyCommitted_stores[OF l] stores_ok_core[OF node_AddTx_core] l
    by (cases ev) (auto simp: node_step_def Let_def dest: s[OF node_worker_step_ssafe] s[OF node_scaler_step_ssafe]
      s[OF node_header_tick_ssafe] s[OF node_primary_cleanup_ssafe] s[OF node_fetcher_tick_ssafe] s[OF node_sync_tick_ssafe]
      s[OF node_gc_tick_ssafe] s[OF Flush_ssafe] s[OF RequestPeerCatchUp_ssafe])
qed

section \<open>Sessions\<close>

text \<open>What is opened is well formed.\<close>

definition leveldb_ok :: "leveldb \<Rightarrow> bool" where
  "leveldb_ok db \<longleftrightarrow> (\<forall>dir s. ldb_batches db dir = Inr s \<longrightarrow> mbs_ok s) \<and> (\<forall>dir s. ldb_certs db dir = Inr s \<longrightarrow> mcs_ok s) \<and>
     (\<forall>dir s. ldb_txindex db dir = Inr s \<longrightarrow> mti_ok s)"

lemma initializeStores_stores:
  assumes "pred_option mbs_ok (lb_batchStore l)" and "pred_option mti_ok (lb_txIndex l)" and "pred_option mcs_ok (lb_certStore l)"
    and "leveldb_ok db" and "Looseberry_initializeStores db l = (l', e)"
  shows "pred_option mbs_ok (lb_batchStore l') \<and> pred_option mti_ok (lb_txIndex l') \<and> pred_option mcs_ok (lb_certStore l')"
  using assms
  by (auto simp: Looseberry_initializeStores_def open_store_def leveldb_ok_def Let_def pred_option_def
      split: sum.splits option.splits if_splits)

text \<open>
  A session of a node: a new node with well-formed stores, or none, is started, and then steps and changes of the
  validator set follow. The stores stay open until the node is stopped.
\<close>

inductive node_session :: "node_env \<Rightarrow> Looseberry \<Rightarrow> bool" for env where
  start: "lb_components l = None \<Longrightarrow> stores_ok l \<Longrightarrow> leveldb_ok db \<Longrightarrow>
    Looseberry_Start (ne_crypto env) db None now l = (l', out, None) \<Longrightarrow> node_session env l'"
| step: "node_session env l \<Longrightarrow> node_step env now ev l = Some (l', out) \<Longrightarrow> node_session env l'"
| validators: "node_session env l \<Longrightarrow> node_session env (Looseberry_UpdateValidatorSet vs l)"

lemma Start_stores:
  assumes "stores_ok l" and "leveldb_ok db" and "Looseberry_Start C db None now l = (l', out, None)"
  shows "stores_ok l'"
proof -
  obtain l1 where 1: "Looseberry_initializeStores db (l\<lparr>lb_running := True\<rparr>) = (l1, None)" and
    n: "\<not> lb_running l" "lb_network l" "lb_validatorSet l \<noteq> None"
    using assms(3) by (auto simp: Looseberry_Start_def Let_def split: if_splits option.splits prod.splits)
  then obtain vs where vs: "lb_validatorSet l = Some vs" by blast
  let ?l2 = "l1\<lparr>lb_components := Some (started_components vs l1)\<rparr>"
  have l': "l' = ?l2\<lparr>lb_startNanos := now, lb_lastCommitNanos := now\<rparr>"
    using assms(3) 1 n vs startComponents_ok[of C now vs l1] by (auto simp: Looseberry_Start_def Let_def)
  have "pred_option mbs_ok (lb_batchStore l1) \<and> pred_option mti_ok (lb_txIndex l1) \<and> pred_option mcs_ok (lb_certStore l1)"
    by (rule initializeStores_stores[OF _ _ _ assms(2) 1]) (use stores_okD(2-4)[OF assms(1)] in \<open>simp_all add: pred_option_def\<close>)
  moreover have "lb_dag (started_components vs l1) = NewDAG (lb_certStore l1) DefaultDagConfig"
    by (simp add: started_components_def Looseberry_initializeComponents_def Let_def)
  ultimately show ?thesis unfolding l' by (intro stores_okI) (auto simp: NewDAG_keyed)
qed

lemma session_stores: "node_session env l \<Longrightarrow> stores_ok l"
proof (induction rule: node_session.induct)
  case (start l db now l' out)
  then show ?case using Start_stores by blast
next
  case (step l now ev l' out)
  then show ?case using node_step_stores by blast
next
  case (validators l vs)
  have "store_core (Looseberry_UpdateValidatorSet vs l) = store_core l"
    by (simp add: Looseberry_UpdateValidatorSet_def Let_def store_core_def option.map_comp comp_def)
  then show ?case using validators.IH stores_ok_core by blast
qed

end
