(* ===== verification/Orphans.thy ===== *)
theory Orphans
  imports Node Dag_Properties
begin

text \<open>
  The buffer of certificates whose parents are not known yet: replaying it ends, and it ends when nothing in the
  buffer can be added any more.
\<close>

section \<open>Rejected certificates\<close>

abbreviation rejects :: "DAG \<Rightarrow> Certificate \<Rightarrow> bool" where
  "rejects d c \<equiv> snd (DAG_AddCertificate (Some c) d) \<noteq> None"

lemma DAG_save_snd: "snd (DAG_save c d) =
    (case d_certStore d of None \<Rightarrow> None | Some s \<Rightarrow> snd (MemoryCertificateStore_SaveCertificate c s))"
  by (simp add: DAG_save_def case_prod_unfold Let_def split: option.split)

text \<open>A rejected certificate does not make another one acceptable: either it leaves everything but an empty
  round as it was, or the store is closed.\<close>

lemma rejects_after_rejection:
  assumes "rejects d c" and "rejects d c'"
  shows "rejects (fst (DAG_AddCertificate (Some c') d)) c"
proof (cases "author_taken c' d \<or> parents_missing c' d")
  case True
  then have "fst (DAG_AddCertificate (Some c') d) = with_round (Certificate_Round c') d" by (auto simp: AddCertificate_eq)
  moreover have "snd (DAG_save c (accept_certificate c (with_round r d))) = snd (DAG_save c (accept_certificate c d))" for r
    by (simp only: DAG_save_snd accept_frame with_round_frame)
  ultimately show ?thesis using assms(1) by (auto simp: AddCertificate_eq)
next
  case False
  then have "snd (DAG_save c' (accept_certificate c' d)) \<noteq> None" using assms(2) by (auto simp: AddCertificate_eq)
  then obtain s where s: "d_certStore d = Some s" "mcs_closed s"
    by (auto simp: DAG_save_def MemoryCertificateStore_SaveCertificate_def Let_def split: option.splits if_splits)
  then have "d_certStore (fst (DAG_AddCertificate (Some c') d)) = Some s"
    using False by (auto simp: AddCertificate_eq DAG_save_def MemoryCertificateStore_SaveCertificate_def Let_def)
  then show ?thesis
    using s(2) by (simp add: AddCertificate_eq DAG_save_def MemoryCertificateStore_SaveCertificate_def Let_def)
qed

lemma replay_pass_rejects:
  "replay_pass certs d orphans = (d', orphans', 0) \<Longrightarrow> c \<in> set certs \<or> rejects d c \<Longrightarrow> rejects d' c \<and> orphans' = orphans"
proof (induction certs arbitrary: d)
  case (Cons cert certs)
  obtain d1 e where d1: "DAG_AddCertificate (Some cert) d = (d1, e)" by fastforce
  from d1 Cons.prems(1) show ?case
  proof (cases rule: replay_pass_Cons)
    case (rejected err)
    have "c \<in> set certs \<or> rejects d1 c"
      using Cons.prems(2) rejects_after_rejection[of c d cert] rejected(1) d1 by auto
    then show ?thesis using Cons.IH[OF rejected(2)] by blast
  qed simp
qed simp

lemma AddCertificate_index:
  "map_has (d_certIndex d) k \<Longrightarrow> map_has (d_certIndex (fst (DAG_AddCertificate (Some c) d))) k"
  "snd (DAG_AddCertificate (Some c) d) = None \<Longrightarrow> map_has (d_certIndex (fst (DAG_AddCertificate (Some c) d))) (Certificate_Digest c)"
  by (auto simp: AddCertificate_eq map_has_def split: if_splits)

lemma replay_pass_index: "replay_pass certs d orphans = (d', orphans', n) \<Longrightarrow> map_has (d_certIndex d) k \<Longrightarrow> map_has (d_certIndex d') k"
proof (induction certs arbitrary: d orphans n)
  case (Cons cert certs)
  obtain d1 e where d1: "DAG_AddCertificate (Some cert) d = (d1, e)" by fastforce
  have "map_has (d_certIndex d1) k" using AddCertificate_index(1)[where d = d and k = k and c = cert] Cons.prems(2) d1 by simp
  with d1 Cons.prems(1) show ?case by (cases rule: replay_pass_Cons) (blast intro: Cons.IH)+
qed simp

lemma replay_pass_removed:
  "replay_pass certs d orphans = (d', orphans', n) \<Longrightarrow> map_has orphans k \<Longrightarrow> map_has orphans' k \<or> map_has (d_certIndex d') k"
proof (induction certs arbitrary: d orphans n)
  case (Cons cert certs)
  obtain d1 e where d1: "DAG_AddCertificate (Some cert) d = (d1, e)" by fastforce
  from d1 Cons.prems(1) show ?case
  proof (cases rule: replay_pass_Cons)
    case (added m)
    show ?thesis
    proof (cases "k = Certificate_Digest cert")
      case True
      then have "map_has (d_certIndex d1) k" using AddCertificate_index(2)[of cert d] d1 added(1) by simp
      then show ?thesis using replay_pass_index[OF added(3)] by blast
    next
      case False
      then have "map_has (fmdrop (Certificate_Digest cert) orphans) k" using Cons.prems(2) by (simp add: map_has_def)
      then show ?thesis using Cons.IH[OF added(3)] by blast
    qed
  next
    case (rejected err)
    then show ?thesis using Cons.IH Cons.prems(2) by blast
  qed
qed simp

lemma shrinks_trans: "shrinks a b \<Longrightarrow> shrinks b c \<Longrightarrow> shrinks a c"
  by (simp add: shrinks_def)

definition replayed :: "DAG \<Rightarrow> (hash, Certificate) fmap \<Rightarrow> DAG \<Rightarrow> (hash, Certificate) fmap \<Rightarrow> bool" where
  "replayed d orphans d' orphans' \<longleftrightarrow> shrinks orphans orphans' \<and>
     (\<forall>k. map_has orphans k \<longrightarrow> map_has orphans' k \<or> map_has (d_certIndex d') k) \<and>
     (\<forall>k. map_has (d_certIndex d) k \<longrightarrow> map_has (d_certIndex d') k)"

lemma replayed_trans: "replayed d os d1 o1 \<Longrightarrow> replayed d1 o1 d2 o2 \<Longrightarrow> replayed d os d2 o2"
  unfolding replayed_def using shrinks_trans by blast

lemma replay_pass_replayed: "replay_pass certs d orphans = (d', orphans', n) \<Longrightarrow> replayed d orphans d' orphans'"
  unfolding replayed_def using replay_pass_shrinks replay_pass_removed replay_pass_index by blast

lemma replay_replayed:
  assumes "go_order ord" and "Looseberry_replayOrphanCertsLocked ord d orphans = (d', orphans')"
  shows "replayed d orphans d' orphans' \<and> (\<forall>k c. fmlookup orphans' k = Some c \<longrightarrow> rejects d' c)"
  using assms
proof (induction ord d orphans rule: Looseberry_replayOrphanCertsLocked.induct)
  case (1 ord d orphans)
  note simps = Looseberry_replayOrphanCertsLocked.simps[of ord d orphans]
  show ?case
  proof (cases "map_len orphans = 0")
    case True
    then have "fmlookup orphans k = None" for k by (auto simp: fmlookup_dom_iff)
    then show ?thesis using "1.prems"(2) True simps by (auto simp: replayed_def)
  next
    case False
    obtain d1 o1 n where p: "replay_pass (map_values (ord orphans) orphans) d orphans = (d1, o1, n)" by (rule prod_cases3)
    note r = replay_pass_replayed[OF p]
    show ?thesis
    proof (cases "n = 0")
      case True
      have "rejects d1 c \<and> o1 = orphans" if "fmlookup orphans k = Some c" for k c
      proof -
        have "iter_order (ord orphans) orphans" using "1.prems"(1) by (simp add: go_order_def)
        then have "k \<in> set (ord orphans)" using that by (simp add: iter_orderD map_has_def)
        then show ?thesis using replay_pass_rejects[OF p[unfolded True], of c] that by (auto simp: set_map_values)
      qed
      moreover have "d' = d1" "orphans' = o1" using "1.prems"(2) simps False p True by auto
      ultimately show ?thesis using r unfolding replayed_def shrinks_def by blast
    next
      case more: False
      then have "Looseberry_replayOrphanCertsLocked ord d1 o1 = (d', orphans')" using "1.prems"(2) simps False p by simp
      then show ?thesis using "1.IH"[OF False p[symmetric] refl refl more "1.prems"(1)] replayed_trans[OF r] by blast
    qed
  qed
qed


text \<open>A place of the DAG, a round and an author, is filled once.\<close>

lemma AddCertificate_place:
  assumes "fmlookup (rd_Certificates (round_of r d)) i = Some x"
  shows "fmlookup (rd_Certificates (round_of r (fst (DAG_AddCertificate (Some c) d)))) i = Some x"
  using assms by (auto simp: AddCertificate_eq RoundData_AddCertificate_def map_has_def)

lemma replay_pass_place:
  "replay_pass certs d orphans = (d', orphans', n) \<Longrightarrow> fmlookup (rd_Certificates (round_of r d)) i = Some x \<Longrightarrow>
     fmlookup (rd_Certificates (round_of r d')) i = Some x"
proof (induction certs arbitrary: d orphans n)
  case (Cons cert certs)
  obtain d1 e where d1: "DAG_AddCertificate (Some cert) d = (d1, e)" by fastforce
  have "fmlookup (rd_Certificates (round_of r d1)) i = Some x" using AddCertificate_place[OF Cons.prems(2), of cert] d1 by simp
  with d1 Cons.prems(1) show ?case by (cases rule: replay_pass_Cons) (blast intro: Cons.IH)+
qed simp

lemma replay_place:
  "fmlookup (rd_Certificates (round_of r d)) i = Some x \<Longrightarrow>
     fmlookup (rd_Certificates (round_of r (fst (Looseberry_replayOrphanCertsLocked ord d orphans)))) i = Some x"
proof (induction ord d orphans rule: Looseberry_replayOrphanCertsLocked.induct)
  case (1 ord d orphans)
  obtain d1 o1 n where p: "replay_pass (map_values (ord orphans) orphans) d orphans = (d1, o1, n)" by (rule prod_cases3)
  show ?case using 1 p replay_pass_place[OF p "1.prems"] by (subst Looseberry_replayOrphanCertsLocked.simps) auto
qed

section \<open>Properties\<close>

text \<open>
  \<^bold>\<open>C29\<close>: replaying the buffered certificates ends, in whatever order the buffer is visited, and is complete.
  Afterwards the DAG rejects each certificate still buffered, so none of them could be added by another pass, and each
  certificate that left the buffer is in the DAG.
\<close>

theorem orphan_replay_complete:
  assumes "go_order ord" and "Looseberry_replayOrphanCertsLocked ord d orphans = (d', orphans')"
  shows "(\<forall>k c. fmlookup orphans' k = Some c \<longrightarrow>
      fmlookup orphans k = Some c \<and> snd (DAG_AddCertificate (Some c) d') \<noteq> None) \<and>
    (\<forall>k. map_has orphans k \<and> \<not> map_has orphans' k \<longrightarrow> DAG_HasCertificate k d')"
  using replay_replayed[OF assms] unfolding replayed_def shrinks_def DAG_HasCertificate_def by auto

definition demo_orphan_dag :: DAG where
  "demo_orphan_dag = fst (DAG_AddCertificate (Some demo_A) (NewDAG None DefaultDagConfig))"

definition demo_orphans :: "(hash, Certificate) fmap" where
  "demo_orphans = fmap_of_list [(12, demo_C), (11, demo_B), (13, demo_cert 13 4 1 [77])]"

lemma demo_replay:
  "map_keys (snd (Looseberry_replayOrphanCertsLocked map_keys demo_orphan_dag demo_orphans)) = [13]"
  by code_simp

theorem orphan_replay_complete_witness:
  "let (d', orphans') = Looseberry_replayOrphanCertsLocked map_keys demo_orphan_dag demo_orphans
   in DAG_HasCertificate 11 d' \<and> DAG_HasCertificate 12 d' \<and>
      snd (DAG_AddCertificate (Some (demo_cert 13 4 1 [77])) d') \<noteq> None"
proof -
  obtain d' orphans' where r: "Looseberry_replayOrphanCertsLocked map_keys demo_orphan_dag demo_orphans = (d', orphans')"
    by fastforce
  have "iter_order (map_keys orphans') orphans'" using go_order_map_keys unfolding go_order_def by blast
  then have keys: "map_has orphans' k \<longleftrightarrow> k = 13" for k
    using demo_replay r iter_orderD(2)[of "map_keys orphans'" orphans' k] by simp
  note c = orphan_replay_complete[OF go_order_map_keys r]
  obtain c where "fmlookup orphans' 13 = Some c" using keys[of 13] by (auto simp: map_has_def)
  moreover have "fmlookup demo_orphans 13 = Some (demo_cert 13 4 1 [77])" "map_has demo_orphans 11" "map_has demo_orphans 12"
    by (simp_all add: demo_orphans_def map_has_def fmlookup_of_list)
  ultimately show ?thesis using c keys[of 11] keys[of 12] r by auto
qed

end
