(* ===== verification/Node_Properties.thy ===== *)
theory Node_Properties
  imports Node_Stores Orphans
begin

text \<open>
  The properties of a running node, with a small node on which they are evaluated.
\<close>

section \<open>Header creation\<close>

lemma split_digests_acked:
  "split_digests m hasq ready remaining ds = (ready', remaining') \<Longrightarrow> list_all (acked_digest hasq) ready \<Longrightarrow>
     list_all (acked_digest hasq) ready'"
  by (induction m hasq ready remaining ds rule: split_digests.induct) (auto split: if_splits)

lemma created_header_acked:
  assumes "Primary_tryCreateHeader C ord hasq now p cs = (p', cs', certs, Some h)" and "ref \<in> set (h_BatchRefs h)"
  shows "acked_digest hasq ref"
proof -
  obtain ready rem where s: "split_digests (pc_MaxBatchesPerHeader (pr_cfg p)) hasq [] [] (pr_batchDigests p) = (ready, rem)"
    by fastforce
  have "h_BatchRefs h = ready"
    using assms(1)
    by (auto simp: Primary_tryCreateHeader_def s Let_def Header_Sign_def NewHeader_def split: if_splits sum.splits prod.splits)
  then show ?thesis using split_digests_acked[OF s] assms(2) by (simp add: list_all_iff)
qed

lemma header_tick_headers:
  assumes "Net (BroadcastHeader h) \<in> set (snd (node_header_tick C ord now l))"
  obtains c cs p' cs' certs where "lb_components l = Some c"
    "Primary_tryCreateHeader C ord (Some (\<lambda>digest. Pool_HasBatchAckQuorum digest (lb_workerPool c))) now
       (lb_primaryNode c) cs = (p', cs', certs, Some h)"
proof -
  obtain c bs cs idx where c: "lb_components l = Some c" "lb_batchStore l = Some bs" "lb_certStore l = Some cs"
    "lb_txIndex l = Some idx"
    using assms by (auto simp: node_header_tick_def with_components_def split: option.splits)
  let ?acked = "Some (\<lambda>digest. Pool_HasBatchAckQuorum digest (lb_workerPool c))"
  obtain p' cs' certs mh where r: "Primary_tryCreateHeader C ord ?acked now (lb_primaryNode c) cs = (p', cs', certs, mh)"
    by (rule prod_cases4)
  let ?Q = "\<lambda>out. \<forall>x. out = Net (BroadcastHeader x) \<longrightarrow> mh = Some x"
  have "safe (\<lambda>_. True) ?Q (Looseberry_onCertificateFormed x)" for x
    by (simp add: safe_def safe_result_def Looseberry_onCertificateFormed_def with_components_def Let_def split: option.split)
  moreover have "safe (\<lambda>_. True) ?Q (Looseberry_onHeaderCreated x)" if "mh = Some x" for x
    using that by (simp add: safe_def safe_result_def Looseberry_onHeaderCreated_def send_def)
  ultimately have "safe (\<lambda>_. True) ?Q (then_do (for_each Looseberry_onCertificateFormed certs)
      (for_each Looseberry_onHeaderCreated (case mh of None \<Rightarrow> [] | Some h \<Rightarrow> [h])))"
    by (intro safe_then_do safe_for_each) (auto split: option.splits)
  then have "safe_result (\<lambda>_. True) ?Q (node_header_tick C ord now l)"
    using c r by (simp add: node_header_tick_def with_components_def Let_def Primary_headerLoop_step_def safe_def)
  then have "mh = Some h" using assms by (auto simp: safe_result_def list_all_iff)
  then show ?thesis using that c(1) r by blast
qed

section \<open>A node for the examples\<close>

definition node_crypto :: crypto where
  "node_crypto = demo_crypto\<lparr>Sha256 := (\<lambda>bs. of_nat (length bs))\<rparr>"

definition demo_env :: node_env where
  "demo_env = \<lparr>ne_crypto = node_crypto, ne_votes = map_keys, ne_certs = map_keys, ne_orphans = map_keys, ne_me = 0,
     ne_sent = (\<lambda>_. None)\<rparr>"

definition demo_db :: leveldb where
  "demo_db = \<lparr>ldb_batches = (\<lambda>_. Inr NewMemoryBatchStore), ldb_certs = (\<lambda>_. Inr NewMemoryCertificateStore),
     ldb_txindex = (\<lambda>_. Inr NewMemoryTxIndex)\<rparr>"

abbreviation demo_config :: NodeConfig where
  "demo_config \<equiv> DefaultNodeConfig (demo_signer 0)"

definition demo_new :: Looseberry where
  "demo_new = (case NewLooseberry demo_config of
      Inr l \<Rightarrow> Looseberry_SetCertQuorumCallback True (Looseberry_SetNetwork True (Looseberry_SetValidatorSet demo_vs l)))"

definition demo_node :: Looseberry where
  "demo_node = fst (Looseberry_Start node_crypto demo_db None 1 demo_new)"

text \<open>A list of events with their times, and the acknowledgments among them.\<close>

fun node_steps :: "node_env \<Rightarrow> (time \<times> node_event) list \<Rightarrow> Looseberry \<Rightarrow> (Looseberry \<times> node_output list) option" where
  "node_steps env [] l = Some (l, [])"
| "node_steps env ((now, ev) # evs) l =
     (case node_step env now ev l of
        None \<Rightarrow> None
      | Some (l1, o1) \<Rightarrow> (case node_steps env evs l1 of None \<Rightarrow> None | Some (l2, o2) \<Rightarrow> Some (l2, o1 @ o2)))"

definition acks_of :: "(time \<times> node_event) list \<Rightarrow> BatchAckMessage set" where
  "acks_of evs = {m. Message (BatchAckMsg m) \<in> snd ` set evs}"

lemma node_steps_run:
  "node_run env cfg vs l M out \<Longrightarrow> node_steps env evs l = Some (l', out') \<Longrightarrow>
     node_run env cfg vs l' (M \<union> acks_of evs) (out @ out')"
proof (induction evs arbitrary: l M out out')
  case (Cons e evs)
  obtain now ev where e: "e = (now, ev)" by fastforce
  obtain l1 o1 o2 where s: "node_step env now ev l = Some (l1, o1)" "node_steps env evs l1 = Some (l', o2)" "out' = o1 @ o2"
    using Cons.prems(2) e by (auto split: option.splits)
  have "(case ev of Message (BatchAckMsg m) \<Rightarrow> insert m M | _ \<Rightarrow> M) \<union> acks_of evs = M \<union> acks_of (e # evs)"
    by (auto simp: acks_of_def e split: node_event.splits node_message.splits)
  moreover have "node_step (env\<lparr>ne_sent := ne_sent env\<rparr>) now ev l = Some (l1, o1)" using s(1) by simp
  ultimately show ?case using Cons.IH[OF node_run.step[OF Cons.prems(1)] s(2)] s(3) by fastforce
qed (simp add: acks_of_def)

lemma demo_node_run: "node_run demo_env demo_config demo_vs demo_node {} []"
proof -
  obtain l where l: "NewLooseberry demo_config = Inr l" using default_config_valid by (simp add: NewLooseberry_def)
  have new: "node_run demo_env demo_config demo_vs demo_new {} []"
    using node_run.cert_cb[OF node_run.new[OF l]] l by (simp add: demo_new_def)
  have "snd (Looseberry_Start node_crypto demo_db None 1 demo_new) = ([], None)"
    using l by (auto simp: Looseberry_Start_def demo_new_def NewLooseberry_def Looseberry_SetCertQuorumCallback_def
        Looseberry_SetNetwork_def Looseberry_SetValidatorSet_def Looseberry_initializeStores_def open_store_def demo_db_def
        Let_def startComponents_ok split: option.splits)
  then have "Looseberry_Start (ne_crypto demo_env) demo_db None 1 demo_new = (demo_node, [], None)"
    by (simp add: demo_node_def demo_env_def prod_eq_iff)
  then show ?thesis using node_run.start[OF new] by fastforce
qed


definition demo_digest_of_batch :: hash where
  "demo_digest_of_batch = b_Digest (NewBatch node_crypto 2 0 0 0 [[1, 2, 3]])"

definition demo_ack :: "u16 \<Rightarrow> BatchAckMessage" where
  "demo_ack i = \<lparr>ba_BatchDigest = demo_digest_of_batch, ba_Validator = i, ba_Round = 0,
     ba_Signature = demo_sign (100 + ucast i) (BatchAckSignBytes node_crypto demo_digest_of_batch i 0)\<rparr>"

text \<open>A transaction becomes a batch, two validators acknowledge it, and the primary cites it in a header, which
  the votes of two validators certify.\<close>

definition demo_batch_events :: "(time \<times> node_event) list" where
  "demo_batch_events = [(2, AppAddTx [1, 2, 3]), (2, WorkerEvent 0 Tick),
     (3, Message (BatchAckMsg (demo_ack 1))), (4, Message (BatchAckMsg (demo_ack 3)))]"

definition demo_node_header :: Header where
  "demo_node_header = (let h = NewHeader node_crypto 7 0 0 0 [\<lparr>bd_Digest = demo_digest_of_batch, bd_WorkerID = 0, bd_ValidatorID = 0\<rparr>] []
     in h\<lparr>h_Signature := demo_sign 100 (h_Digest h)\<rparr>)"

definition demo_vote_events :: "(time \<times> node_event) list" where
  "demo_vote_events = (7, NodeHeaderTick) # map (\<lambda>i. (8, Message (VoteMsg \<lparr>vm_Vote = Some (demo_vote (h_Digest demo_node_header) i), vm_From = i\<rparr>))) [2, 1]"


lemma demo_env_ok: "go_order (ne_votes demo_env)" "go_order (ne_certs demo_env)"
    "signer_ok (ne_crypto demo_env) demo_vs (nc_ValidatorIndex demo_config) (nc_Signer demo_config)"
proof -
  have "PublicKey_Verify node_crypto pk d (demo_sign pk d)" for pk d
    using demo_verify[of pk d] by (simp add: PublicKey_Verify_def node_crypto_def)
  then show "signer_ok (ne_crypto demo_env) demo_vs (nc_ValidatorIndex demo_config) (nc_Signer demo_config)"
    using demo_signer_ok[of 0] by (simp add: signer_ok_def demo_env_def DefaultNodeConfig_def demo_signer_def)
qed (simp_all add: demo_env_def go_order_map_keys)

lemma demo_certifies:
  "case node_steps demo_env (demo_batch_events @ demo_vote_events) demo_node of
     None \<Rightarrow> False
   | Some (l, out) \<Rightarrow> list_ex (\<lambda>x. case x of CertQuorum _ \<Rightarrow> True | _ \<Rightarrow> False) out \<and>
       Net (BroadcastBatch (NewBatch node_crypto 2 0 0 0 [[1, 2, 3]])) \<in> set out \<and>
       lb_components l \<noteq> None \<and> lb_batchStore l \<noteq> None \<and> lb_certStore l \<noteq> None \<and>
       map_option (\<lambda>c. d_highestRound (lb_dag c)) (lb_components l) = Some 0 \<and>
       map_option length (Looseberry_ReapCertifiedBatches map_keys 1000 l) = Some 1"
  by code_simp

lemma demo_cites_batch:
  "case node_steps demo_env demo_batch_events demo_node of
     None \<Rightarrow> False
   | Some (l, out) \<Rightarrow> (case node_step demo_env 7 NodeHeaderTick l of
       None \<Rightarrow> False
     | Some (l', out') \<Rightarrow> Net (BroadcastHeader demo_node_header) \<in> set out')"
  by code_simp

lemma demo_db_ok: "leveldb_ok demo_db"
  by (simp add: leveldb_ok_def demo_db_def)

lemma node_steps_session:
  "node_session env l \<Longrightarrow> node_steps env evs l = Some (l', out) \<Longrightarrow> node_session env l'"
proof (induction evs arbitrary: l out)
  case (Cons e evs)
  obtain now ev where e: "e = (now, ev)" by fastforce
  obtain l1 o1 o2 where "node_step env now ev l = Some (l1, o1)" "node_steps env evs l1 = Some (l', o2)"
    using Cons.prems(2) e by (auto split: option.splits)
  then show ?case using Cons.IH node_session.step[OF Cons.prems(1)] by blast
qed simp

lemma demo_started: "Looseberry_Start (ne_crypto demo_env) demo_db None 1 demo_new = (demo_node, [], None)"
proof -
  obtain l where l: "NewLooseberry demo_config = Inr l" using default_config_valid by (simp add: NewLooseberry_def)
  have "snd (Looseberry_Start node_crypto demo_db None 1 demo_new) = ([], None)"
    using l by (auto simp: Looseberry_Start_def demo_new_def NewLooseberry_def Looseberry_SetCertQuorumCallback_def
        Looseberry_SetNetwork_def Looseberry_SetValidatorSet_def Looseberry_initializeStores_def open_store_def demo_db_def
        Let_def startComponents_ok split: option.splits)
  then show ?thesis by (simp add: demo_node_def demo_env_def prod_eq_iff)
qed

lemma demo_session: "node_session demo_env demo_node"
proof -
  have "lb_components demo_new = None" "stores_ok demo_new"
    using default_config_valid
    by (auto simp: demo_new_def NewLooseberry_def Looseberry_SetCertQuorumCallback_def Looseberry_SetNetwork_def
        Looseberry_SetValidatorSet_def intro!: stores_okI)
  then show ?thesis using node_session.start[OF _ _ demo_db_ok demo_started] by blast
qed

text \<open>A batch and a certificate without votes that cites it, both sent by validator 3.\<close>

definition forged_batch :: Batch where
  "forged_batch = NewBatch node_crypto 2 0 3 0 [[9, 9]]"

definition forged_certificate :: Certificate where
  "forged_certificate = \<lparr>c_Header = NewHeader node_crypto 5 3 0 0 [Batch_GetDigest forged_batch] [], c_Votes = [],
     c_SignerMask = NewBitSet 256\<rparr>"

definition forged_message :: CertificateMessage where
  "forged_message = \<lparr>cm_Certificate = Some forged_certificate, cm_From = 3\<rparr>"

lemma demo_forged:
  "case node_steps demo_env [(2, Message (BatchMsg \<lparr>bm_Batch = Some forged_batch, bm_From = 3\<rparr>))] demo_node of
     None \<Rightarrow> False
   | Some (l, out) \<Rightarrow> lb_batchStore l \<noteq> None \<and> lb_txIndex l \<noteq> None \<and>
       lb_components l \<noteq> None \<and> lb_certStore l \<noteq> None \<and>
       Certificate_Verify node_crypto (pr_validatorSet (lb_primaryNode (the (lb_components l)))) forged_certificate \<noteq> None \<and>
       \<not> author_taken forged_certificate (node_dag (the (lb_components l)) (the (lb_certStore l))) \<and>
       map_option (map cb_Certificate) (Looseberry_ReapCertifiedBatches map_keys 1000
         (fst (Looseberry_handleCertificateMessage node_crypto map_keys forged_message l))) = Some [forged_certificate]"
  by code_simp

lemma demo_in_dag:
  "case node_steps demo_env (demo_batch_events @ demo_vote_events) demo_node of
     None \<Rightarrow> False
   | Some (l, out) \<Rightarrow> lb_batchStore l \<noteq> None \<and> lb_certStore l \<noteq> None \<and>
       lb_components l \<noteq> None \<and> DAG_GetRound 0 (lb_dag (the (lb_components l))) \<noteq> None \<and>
       RoundData_GetCertificate 0 (the (DAG_GetRound 0 (lb_dag (the (lb_components l))))) \<noteq> None"
  by code_simp

section \<open>Properties\<close>





text \<open>
  Every batch a node makes has round 0. The rounds of the pool and of its workers are never set by the
  node, so in every run each broadcast batch, also a repeated one, has round 0, whatever the round of the
  primary. The stores prune batches by their round.
\<close>

lemma node_batches_round_zero:
  assumes "go_order (ne_votes env)" and "signer_ok (ne_crypto env) vs (nc_ValidatorIndex cfg) (nc_Signer cfg)"
    and "node_run env cfg vs l M out" and "Net (BroadcastBatch b) \<in> set out"
  shows "b_Round b = 0"
proof -
  have "list_all (out_ok (ne_crypto env) cfg vs) out" using node_run_inv[OF assms(1,2,3)] by simp
  then show ?thesis using assms(4) by (auto simp: list_all_iff)
qed

lemma node_batches_round_zero_example:
  "\<exists>l M out b. node_run demo_env demo_config demo_vs l M out \<and> Net (BroadcastBatch b) \<in> set out \<and> b_Round b = 0"
proof -
  obtain l out where s: "node_steps demo_env (demo_batch_events @ demo_vote_events) demo_node = Some (l, out)"
    and x: "Net (BroadcastBatch (NewBatch node_crypto 2 0 0 0 [[1, 2, 3]])) \<in> set out"
    using demo_certifies by (auto split: option.splits)
  note run = node_steps_run[OF demo_node_run s]
  have "b_Round (NewBatch node_crypto 2 0 0 0 [[1, 2, 3]]) = 0"
    by (rule node_batches_round_zero[OF demo_env_ok(1,3) run]) (simp add: x)
  then show ?thesis using run x by (metis append_Nil)
qed

text \<open>
  \<^bold>\<open>C4\<close>: what \<^verbatim>\<open>ReapCertifiedBatches\<close> gives to the block builder. The candidates are the batches cited by
  the certificates of the rounds above the committed one that the batch store has, each once, under certificates in the
  order of round and then author. The result is the longest prefix of the candidates within the byte limit, but at least
  one batch if there is any. It does not depend on the order in which maps are visited, so nodes with the
  same DAG and stores give the same.
\<close>

theorem ReapCertifiedBatches_correct:
  assumes "node_session env l" and "lb_components l = Some c" and "lb_batchStore l = Some bs" and "lb_certStore l = Some cs"
    and "go_order ord" and "d_highestRound (lb_dag c) \<noteq> - 1"
  shows "\<exists>all r. (\<forall>ord'. go_order ord' \<longrightarrow> Looseberry_ReapCertifiedBatches ord' maxBytes l = Some r) \<and>
    reap_prefix maxBytes all r \<and> distinct (map (\<lambda>x. b_Digest (cb_Batch x)) all) \<and>
    sorted_wrt (\<lambda>x y. cert_le (cb_Certificate x) (cb_Certificate y)) all \<and>
    (\<forall>x \<in> set all. reapable ord (node_dag c cs) (cb_Certificate x) \<and>
       b_Digest (cb_Batch x) \<in> bd_Digest ` set (h_BatchRefs (c_Header (cb_Certificate x))) \<and>
       MemoryBatchStore_GetBatch (b_Digest (cb_Batch x)) bs = Inr (cb_Batch x)) \<and>
    (\<forall>cert ref b. reapable ord (node_dag c cs) cert \<and> ref \<in> set (h_BatchRefs (c_Header cert)) \<and>
       MemoryBatchStore_GetBatch (bd_Digest ref) bs = Inr b \<longrightarrow> b \<in> cb_Batch ` set all)"
proof -
  note ok = session_stores[OF assms(1)]
  note bs = stores_okD(2)[OF ok assms(3)]
  have dig: "b_Digest b = d" if "MemoryBatchStore_GetBatch d bs = Inr b" for d b
    using that mbs.keys[OF bs] by (simp add: mbs.get_contents[OF bs])
  obtain certs where certs: "\<forall>ord'. go_order ord' \<longrightarrow>
      Looseberry_ReapCertifiedBatches ord' maxBytes l = Some (reap_loop bs maxBytes [] 0 [] (cited certs))"
    "sorted_wrt cert_le certs" "\<forall>x. x \<in> set certs \<longleftrightarrow> reapable ord (node_dag c cs) x"
    using Reap_eq[OF assms(2-4) stores_okD(5)[OF ok assms(2)] stores_okD(4)[OF ok assms(4)] assms(5,6)] by blast
  let ?all = "candidates bs [] (cited certs)"
  have mem: "reapable ord (node_dag c cs) (cb_Certificate x) \<and>
      b_Digest (cb_Batch x) \<in> bd_Digest ` set (h_BatchRefs (c_Header (cb_Certificate x))) \<and>
      MemoryBatchStore_GetBatch (b_Digest (cb_Batch x)) bs = Inr (cb_Batch x)" if "x \<in> set ?all" for x
    using candidates_mem[OF that] certs(3) dig by (auto simp: set_cited)
  have complete: "b \<in> cb_Batch ` set ?all"
    if "reapable ord (node_dag c cs) cert" "ref \<in> set (h_BatchRefs (c_Header cert))"
      "MemoryBatchStore_GetBatch (bd_Digest ref) bs = Inr b" for cert ref b
    using candidates_complete[of cert "bd_Digest ref" "cited certs" "[]" bs b] that certs(3) by (auto simp: set_cited)
  have "reap_prefix maxBytes ?all (reap_loop bs maxBytes [] 0 [] (cited certs))"
    using reap_loop_candidates[of 0 "[]" maxBytes bs "[]" "cited certs"] by simp
  moreover have "distinct (map (\<lambda>x. b_Digest (cb_Batch x)) ?all)" by (rule candidates_distinct) (rule dig)
  moreover have "sorted_wrt (\<lambda>x y. cert_le (cb_Certificate x) (cb_Certificate y)) ?all"
    by (intro candidates_sorted sorted_cited certs(2))
  ultimately show ?thesis using certs(1) mem complete by blast
qed

theorem ReapCertifiedBatches_correct_witness:
  "\<exists>l r. node_session demo_env l \<and> length r = 1 \<and>
     (\<forall>ord. go_order ord \<longrightarrow> Looseberry_ReapCertifiedBatches ord 1000 l = Some r)"
proof -
  obtain l out c bs cs where s: "node_steps demo_env (demo_batch_events @ demo_vote_events) demo_node = Some (l, out)"
    and c: "lb_components l = Some c" "lb_batchStore l = Some bs" "lb_certStore l = Some cs" "d_highestRound (lb_dag c) = 0"
    and n: "map_option length (Looseberry_ReapCertifiedBatches map_keys 1000 l) = Some 1"
    using demo_certifies by (auto split: option.splits)
  note session = node_steps_session[OF demo_session s]
  have "d_highestRound (lb_dag c) \<noteq> - 1" using c(4) by simp
  from ReapCertifiedBatches_correct[OF session c(1-3) go_order_map_keys this, of 1000] obtain r where
    r: "\<forall>ord. go_order ord \<longrightarrow> Looseberry_ReapCertifiedBatches ord 1000 l = Some r" by blast
  then have "length r = 1" using n go_order_map_keys by auto
  then show ?thesis using session r by blast
qed



text \<open>
  \<^bold>\<open>C31\<close>: a certificate that does not verify enters the DAG. The handler of certificate messages ignores the
  error of the primary, so a certificate with no valid votes at all takes the place of its author in its
  round, if its parents are known and the place is free. The primary is not changed, but the
  certificate is reaped like the others.
\<close>

theorem unverified_certificate_enters_dag:
  assumes "node_session env l" and "lb_components l = Some c" and "lb_batchStore l = Some bs" and "lb_certStore l = Some cs"
    and "lb_txIndex l = Some idx"
    and "Certificate_Verify C (pr_validatorSet (lb_primaryNode c)) cert \<noteq> None"
    and "\<not> author_taken cert (node_dag c cs)" and "\<not> parents_missing cert (node_dag c cs)"
    and "Looseberry_handleCertificateMessage C ord \<lparr>cm_Certificate = Some cert, cm_From = frm\<rparr> l = (l', out)"
  shows "\<exists>c'. lb_components l' = Some c' \<and> lb_primaryNode c' = lb_primaryNode c \<and>
    DAG_GetCertificateForValidator (Certificate_Round cert) (Certificate_Author cert) (lb_dag c') = Some cert"
proof -
  let ?d = "node_dag c cs"
  have ok: "mcs_ok cs" using stores_okD(4)[OF session_stores[OF assms(1)] assms(4)] .
  obtain e where p: "Primary_HandleCertificate C cert (lb_primaryNode c) cs = (lb_primaryNode c, cs, Some e)"
    using assms(6) by (cases "pr_running (lb_primaryNode c)") (auto simp: Primary_HandleCertificate_def)
  obtain d1 where d1: "DAG_AddCertificate (Some cert) ?d = (d1, None)"
  proof -
    have "snd (DAG_save cert (accept_certificate cert ?d)) = None"
      using mcs.save_ok[OF ok] by (simp add: DAG_save_snd node_dag_def)
    then have "snd (DAG_AddCertificate (Some cert) ?d) = None" using assms(7,8) by (simp only: AddCertificate_eq if_False)
    then show ?thesis using that by (metis prod.collapse)
  qed
  let ?d2 = "fst (Looseberry_replayOrphanCertsLocked ord d1 (lb_orphanCerts l))"
  have "d1 = fst (DAG_save cert (accept_certificate cert ?d))" using d1 assms(7,8) by (auto simp: AddCertificate_eq split: if_splits)
  then have "fmlookup (rd_Certificates (round_of (Certificate_Round cert) d1)) (Certificate_Author cert) = Some cert"
    by (simp add: RoundData_AddCertificate_def)
  then have place: "fmlookup (rd_Certificates (round_of (Certificate_Round cert) ?d2)) (Certificate_Author cert) = Some cert"
    by (rule replay_place)
  then have "DAG_GetCertificateForValidator (Certificate_Round cert) (Certificate_Author cert) ?d2 = Some cert"
    by (cases "fmlookup (d_rounds ?d2) (Certificate_Round cert)")
       (auto simp: round_of_def NewRoundData_def DAG_GetCertificateForValidator_def RoundData_GetCertificate_def)
  moreover have "\<exists>c'. lb_components l' = Some c' \<and> lb_primaryNode c' = lb_primaryNode c \<and> lb_dag c' = ?d2"
    using assms(2-5,9) p d1
    by (auto simp: Looseberry_handleCertificateMessage_def with_components_def set_dag_def case_prod_unfold Let_def)
  ultimately show ?thesis by metis
qed

theorem unverified_certificate_enters_dag_witness:
  "\<exists>l c'. Certificate_Verify node_crypto demo_vs forged_certificate \<noteq> None \<and>
     lb_components (fst (Looseberry_handleCertificateMessage node_crypto map_keys forged_message l)) = Some c' \<and>
     DAG_GetCertificateForValidator 0 3 (lb_dag c') = Some forged_certificate \<and>
     map_option (map cb_Certificate) (Looseberry_ReapCertifiedBatches map_keys 1000
       (fst (Looseberry_handleCertificateMessage node_crypto map_keys forged_message l))) = Some [forged_certificate]"
proof -
  obtain l out c bs cs idx where
    s: "node_steps demo_env [(2, Message (BatchMsg \<lparr>bm_Batch = Some forged_batch, bm_From = 3\<rparr>))] demo_node = Some (l, out)"
    and c: "lb_components l = Some c" "lb_batchStore l = Some bs" "lb_certStore l = Some cs" "lb_txIndex l = Some idx"
    and v: "Certificate_Verify node_crypto (pr_validatorSet (lb_primaryNode c)) forged_certificate \<noteq> None"
    and n: "\<not> author_taken forged_certificate (node_dag c cs)"
    and reap: "map_option (map cb_Certificate) (Looseberry_ReapCertifiedBatches map_keys 1000
       (fst (Looseberry_handleCertificateMessage node_crypto map_keys forged_message l))) = Some [forged_certificate]"
    using demo_forged by (auto split: option.splits)
  have f: "Certificate_Round forged_certificate = 0" "Certificate_Author forged_certificate = 3"
    by (simp_all add: forged_certificate_def Certificate_Round_def Certificate_Author_def NewHeader_def Let_def)
  have e: "Looseberry_handleCertificateMessage node_crypto map_keys \<lparr>cm_Certificate = Some forged_certificate, cm_From = 3\<rparr> l =
      (fst (Looseberry_handleCertificateMessage node_crypto map_keys forged_message l),
       snd (Looseberry_handleCertificateMessage node_crypto map_keys forged_message l))" by (simp add: forged_message_def)
  have "\<not> parents_missing forged_certificate (node_dag c cs)" using f by simp
  from unverified_certificate_enters_dag[OF node_steps_session[OF demo_session s] c v n this e]
  obtain c' where c': "lb_components (fst (Looseberry_handleCertificateMessage node_crypto map_keys forged_message l)) = Some c'"
      "DAG_GetCertificateForValidator 0 3 (lb_dag c') = Some forged_certificate" unfolding f by blast
  have "Certificate_Verify node_crypto demo_vs forged_certificate \<noteq> None" by code_simp
  then show ?thesis using reap c' by (intro exI conjI)
qed

text \<open>
  \<^bold>\<open>C32\<close>: a restarted node runs with closed stores. A stop closes the three stores and a start creates only missing
  ones, so a stop and a start that both succeed leave a running node each of whose stores refuses every
  write: no batch and no certificate can be stored, and no transaction indexed.
\<close>

theorem restart_keeps_closed_stores:
  assumes "Looseberry_Stop C now l = (l1, out1, None)" and "Looseberry_Start C db None now' l1 = (l2, out2, None)"
    and "lb_batchStore l1 = Some bs" and "lb_certStore l1 = Some cs" and "lb_txIndex l1 = Some idx"
  shows "lb_running l2 \<and> lb_batchStore l2 = Some bs \<and> lb_certStore l2 = Some cs \<and> lb_txIndex l2 = Some idx \<and>
    MemoryBatchStore_SaveBatch b bs = (bs, Some ErrNotRunning) \<and>
    MemoryCertificateStore_SaveCertificate x cs = (cs, Some ErrNotRunning) \<and>
    MemoryTxIndex_AddBatch C b idx = (idx, Some ErrNotRunning)"
proof -
  have closed: "mbs_closed bs" "mcs_closed cs" "mti_closed idx"
    using assms(1,3-5)
    by (auto simp: Looseberry_Stop_def MemoryBatchStore_Close_def MemoryCertificateStore_Close_def MemoryTxIndex_Close_def
        split: if_splits prod.splits)
  obtain vs where vs: "lb_validatorSet l1 = Some vs" and n: "\<not> lb_running l1" "lb_network l1"
    using assms(2) by (auto simp: Looseberry_Start_def Let_def split: if_splits option.splits)
  have "Looseberry_initializeStores db (l1\<lparr>lb_running := True\<rparr>) = (l1\<lparr>lb_running := True\<rparr>, None)"
    using assms(3-5) by (simp add: Looseberry_initializeStores_def open_store_def Let_def)
  then have "l2 = l1\<lparr>lb_running := True, lb_components := Some (started_components vs (l1\<lparr>lb_running := True\<rparr>)),
      lb_startNanos := now', lb_lastCommitNanos := now'\<rparr>"
    using assms(2) vs n by (auto simp: Looseberry_Start_def Let_def startComponents_ok)
  then show ?thesis using assms(3-5) closed
    by (simp add: MemoryBatchStore_SaveBatch_def MemoryCertificateStore_SaveCertificate_def MemoryTxIndex_AddBatch_def Let_def)
qed

lemma demo_restart:
  "case Looseberry_Stop node_crypto 9 demo_node of (l1, out1, e1) \<Rightarrow>
     e1 = None \<and> lb_batchStore l1 \<noteq> None \<and> lb_certStore l1 \<noteq> None \<and> lb_txIndex l1 \<noteq> None \<and>
     snd (snd (Looseberry_Start node_crypto demo_db None 10 l1)) = None"
  by code_simp

theorem restart_keeps_closed_stores_witness:
  "\<exists>bs. lb_running (fst (Looseberry_Start node_crypto demo_db None 10 (fst (Looseberry_Stop node_crypto 9 demo_node)))) \<and>
     lb_batchStore (fst (Looseberry_Start node_crypto demo_db None 10 (fst (Looseberry_Stop node_crypto 9 demo_node)))) = Some bs \<and>
     snd (MemoryBatchStore_SaveBatch forged_batch bs) = Some ErrNotRunning"
proof -
  obtain l1 out1 bs cs idx where 1: "Looseberry_Stop node_crypto 9 demo_node = (l1, out1, None)" "lb_batchStore l1 = Some bs"
    "lb_certStore l1 = Some cs" "lb_txIndex l1 = Some idx" and e: "snd (snd (Looseberry_Start node_crypto demo_db None 10 l1)) = None"
    using demo_restart by (auto split: prod.splits)
  obtain l2 out2 where 2: "Looseberry_Start node_crypto demo_db None 10 l1 = (l2, out2, None)"
    using e by (metis prod.collapse)
  show ?thesis using restart_keeps_closed_stores[OF 1(1) 2 1(2-4), of forged_batch forged_certificate] 1(1) 2 by auto
qed

end
