(* ===== verification/Cluster.thy ===== *)
theory Cluster
  imports Mock_Network Node_Properties
begin

text \<open>
  Nodes joined by mock networks: the composition of \<^verbatim>\<open>looseberry.go\<close> with \<^verbatim>\<open>network/mock.go\<close>. What a node emits goes to
  the channels of its peers, what it handles comes out of its own channels, and the errors of its sync requests are
  those of the network. The other members of the cluster may call their networks with whatever they like.
\<close>

section \<open>Steps\<close>

record cluster =
  cl_heap :: mock_heap
  cl_nodes :: "nat \<Rightarrow> Looseberry"
  cl_acks :: "nat \<Rightarrow> BatchAckMessage set"
  cl_out :: "nat \<Rightarrow> node_output list"

text \<open>The calls of a step in their order, and the error that a sync request to \<open>v\<close> gets.\<close>

definition send_all :: "peer_order \<Rightarrow> nat \<Rightarrow> node_output list \<Rightarrow> mock_heap \<Rightarrow> mock_heap" where
  "send_all ord i out h = fold (\<lambda>x h. case x of Net call \<Rightarrow> fst (mock_call ord i call h) | CertQuorum _ \<Rightarrow> h) out h"

definition sync_error :: "nat \<Rightarrow> mock_heap \<Rightarrow> u16 \<Rightarrow> err option" where
  "sync_error i h v = snd (MockNetwork_SendSyncRequest i v \<lparr>srq_FromRound = 0, srq_ToRound = 0, srq_Requester = 0\<rparr> h)"

definition after_step :: "peer_order \<Rightarrow> nat \<Rightarrow> node_event \<Rightarrow> Looseberry \<Rightarrow> node_output list \<Rightarrow> cluster \<Rightarrow> cluster" where
  "after_step ord i ev l out c = c\<lparr>
     cl_heap := send_all ord i out (cl_heap c),
     cl_nodes := (cl_nodes c)(i := l),
     cl_acks := (cl_acks c)(i := (case ev of Message (BatchAckMsg m) \<Rightarrow> insert m (cl_acks c i) | _ \<Rightarrow> cl_acks c i)),
     cl_out := (cl_out c)(i := cl_out c i @ out)\<rparr>"

definition is_message :: "node_event \<Rightarrow> bool" where
  "is_message ev \<longleftrightarrow> (case ev of Message _ \<Rightarrow> True | _ \<Rightarrow> False)"

text \<open>
  Runs of a cluster of the networks below \<open>n\<close>, of which those in \<open>H\<close> belong to nodes that run the program. The nodes
  may have run before they join. Different networks have different validator numbers.
\<close>

inductive cluster_run :: "peer_order \<Rightarrow> (nat \<Rightarrow> node_env) \<Rightarrow> (nat \<Rightarrow> NodeConfig) \<Rightarrow> SimpleValidatorSet \<Rightarrow> nat \<Rightarrow> nat set \<Rightarrow> cluster \<Rightarrow> bool"
  for ord env cfg vs n H where
  init: "(\<And>i. NewMockNetwork (ids i) (cfgs i) = Some (h i)) \<Longrightarrow> inj_on ids {..<n} \<Longrightarrow> H \<subseteq> {..<n} \<Longrightarrow>
    (\<And>i. i \<in> H \<Longrightarrow> ne_me (env i) = ids i \<and> node_run (env i) (cfg i) vs (nodes i) (acks i) (outs i)) \<Longrightarrow>
    cluster_run ord env cfg vs n H \<lparr>cl_heap = h, cl_nodes = nodes, cl_acks = acks, cl_out = outs\<rparr>"
| connect: "cluster_run ord env cfg vs n H c \<Longrightarrow>
    cluster_run ord env cfg vs n H (c\<lparr>cl_heap := MockNetwork_Connect i j (cl_heap c)\<rparr>)"
| disconnect: "cluster_run ord env cfg vs n H c \<Longrightarrow>
    cluster_run ord env cfg vs n H (c\<lparr>cl_heap := MockNetwork_Disconnect i v (cl_heap c)\<rparr>)"
| start: "cluster_run ord env cfg vs n H c \<Longrightarrow>
    cluster_run ord env cfg vs n H (c\<lparr>cl_heap := fst (MockNetwork_Start i (cl_heap c))\<rparr>)"
| stop: "cluster_run ord env cfg vs n H c \<Longrightarrow> MockNetwork_Stop i (cl_heap c) = Some (h', e) \<Longrightarrow>
    cluster_run ord env cfg vs n H (c\<lparr>cl_heap := h'\<rparr>)"
| deliver: "cluster_run ord env cfg vs n H c \<Longrightarrow> i \<in> H \<Longrightarrow> take_message ch (cl_heap c i) = Some (msg, m) \<Longrightarrow>
    c1 = c\<lparr>cl_heap := (cl_heap c)(i := m)\<rparr> \<Longrightarrow>
    node_step ((env i)\<lparr>ne_sent := sync_error i (cl_heap c1)\<rparr>) now (Message msg) (cl_nodes c i) = Some (l, out) \<Longrightarrow>
    cluster_run ord env cfg vs n H (after_step ord i (Message msg) l out c1)"
| event: "cluster_run ord env cfg vs n H c \<Longrightarrow> i \<in> H \<Longrightarrow> \<not> is_message ev \<Longrightarrow>
    node_step ((env i)\<lparr>ne_sent := sync_error i (cl_heap c)\<rparr>) now ev (cl_nodes c i) = Some (l, out) \<Longrightarrow>
    cluster_run ord env cfg vs n H (after_step ord i ev l out c)"
| other_call: "cluster_run ord env cfg vs n H c \<Longrightarrow> i < n \<Longrightarrow> i \<notin> H \<Longrightarrow>
    cluster_run ord env cfg vs n H (c\<lparr>cl_heap := fst (mock_call ord i call (cl_heap c))\<rparr>)"
| other_read: "cluster_run ord env cfg vs n H c \<Longrightarrow> i \<notin> H \<Longrightarrow> take_message ch (cl_heap c i) = Some (msg, m) \<Longrightarrow>
    cluster_run ord env cfg vs n H (c\<lparr>cl_heap := (cl_heap c)(i := m)\<rparr>)"

section \<open>Every message comes from its sender\<close>

text \<open>The sender a message names. Acknowledgments and requests are signed or answered by what they contain instead.\<close>

fun sender :: "node_message \<Rightarrow> u16 option" where
  "sender (BatchMsg m) = Some (bm_From m)"
| "sender (HeaderMsg m) = Some (hm_From m)"
| "sender (VoteMsg m) = Some (vm_From m)"
| "sender (CertificateMsg m) = Some (cm_From m)"
| "sender (SyncResponseMsg m) = Some (srm_From m)"
| "sender _ = None"

lemma sender_message_of: "sender (message_of i call) = None \<or> sender (message_of i call) = Some i"
  by (cases call) simp_all

definition authentic :: "(nat \<Rightarrow> node_output list) \<Rightarrow> nat set \<Rightarrow> mock_heap \<Rightarrow> bool" where
  "authentic outs H h \<longleftrightarrow> (\<forall>i\<in>H. \<forall>j ch. \<forall>msg \<in> set (queue (h j) ch). sender msg = Some (mn_validatorID (h i)) \<longrightarrow>
     (\<exists>call. Net call \<in> set (outs i) \<and> msg = message_of (mn_validatorID (h i)) call))"

definition cluster_ok :: "peer_order \<Rightarrow> (nat \<Rightarrow> node_env) \<Rightarrow> (nat \<Rightarrow> NodeConfig) \<Rightarrow> SimpleValidatorSet \<Rightarrow> nat \<Rightarrow> nat set \<Rightarrow> cluster \<Rightarrow> bool" where
  "cluster_ok ord env cfg vs n H c \<longleftrightarrow> mock_run ord (cl_heap c) \<and> inj_on (\<lambda>i. mn_validatorID (cl_heap c i)) {..<n} \<and> H \<subseteq> {..<n} \<and>
     authentic (cl_out c) H (cl_heap c) \<and>
     (\<forall>i\<in>H. ne_me (env i) = mn_validatorID (cl_heap c i) \<and> node_run (env i) (cfg i) vs (cl_nodes c i) (cl_acks c i) (cl_out c i))"

lemma authentic_subset:
  assumes "authentic outs H h" and "\<And>j. mn_validatorID (h' j) = mn_validatorID (h j)"
    and "\<And>j ch. set (queue (h' j) ch) \<subseteq> set (queue (h j) ch)"
  shows "authentic outs H h'"
  using assms unfolding authentic_def by (metis subsetD)

text \<open>A call of \<open>i\<close> adds messages of \<open>i\<close> only.\<close>

lemma mock_call_queue:
  assumes "go_order ord" and "mock_run ord h"
  shows "set (queue (fst (mock_call ord i call h) j) ch) \<subseteq> insert (message_of (mn_validatorID (h i)) call) (set (queue (h j) ch))"
proof -
  have ok: "peers_ok h" using mock_run_ok[OF assms] by blast
  have "queue (fst (mock_call ord i call h) j) ch = queue_after i call h j ch"
    using broadcast_refines(1)[OF assms(1) ok, of call i j ch] send_refines(1)[of call _ ord i h j ch] by (cases "receiver call") auto
  then show ?thesis by (auto simp: queue_after_def)
qed

lemma authentic_call:
  assumes ord: "go_order ord" and run: "mock_run ord h" and a: "authentic outs H h"
    and inj: "inj_on (\<lambda>i. mn_validatorID (h i)) {..<n}" "H \<subseteq> {..<n}" and i: "i < n" and out: "i \<in> H \<Longrightarrow> Net call \<in> set (outs i)"
  shows "authentic outs H (fst (mock_call ord i call h))"
  unfolding authentic_def
proof (intro ballI allI impI)
  let ?h = "fst (mock_call ord i call h)"
  have id: "mn_validatorID (?h j) = mn_validatorID (h j)" for j using mock_call_links[of ord i call h j] by (simp add: links_eq)
  fix k j ch msg
  assume k: "k \<in> H" and msg: "msg \<in> set (queue (?h j) ch)" and s: "sender msg = Some (mn_validatorID (?h k))"
  show "\<exists>call. Net call \<in> set (outs k) \<and> msg = message_of (mn_validatorID (?h k)) call"
  proof (cases "msg \<in> set (queue (h j) ch)")
    case True
    then show ?thesis using a k s unfolding authentic_def id by blast
  next
    case False
    then have m: "msg = message_of (mn_validatorID (h i)) call" using msg mock_call_queue[OF ord run, of i call j ch] by blast
    then have "mn_validatorID (h k) = mn_validatorID (h i)" using s sender_message_of[of "mn_validatorID (h i)" call] by (auto simp: id)
    then have "k = i" using inj k i by (auto dest: inj_onD)
    then show ?thesis using m out k unfolding id by blast
  qed
qed

lemma send_all_ok:
  assumes ord: "go_order ord" and "mock_run ord h" and "authentic outs H h"
    and inj: "inj_on (\<lambda>i. mn_validatorID (h i)) {..<n}" "H \<subseteq> {..<n}" "i \<in> H" and "set out \<subseteq> set (outs i)"
  shows "mock_run ord (send_all ord i out h) \<and> authentic outs H (send_all ord i out h) \<and>
    (\<forall>j. mn_validatorID (send_all ord i out h j) = mn_validatorID (h j))"
  using assms(2-4,7)
proof (induction out arbitrary: h)
  case (Cons x out)
  show ?case
  proof (cases x)
    case (Net call)
    let ?h = "fst (mock_call ord i call h)"
    have id: "mn_validatorID (?h j) = mn_validatorID (h j)" for j using mock_call_links[of ord i call h j] by (simp add: links_eq)
    have "authentic outs H ?h"
      using authentic_call[OF ord Cons.prems(1,2,3) inj(2)] inj(2,3) Cons.prems(4) Net by auto
    from Cons.IH[OF mock_run.call[OF Cons.prems(1)] this] show ?thesis using Cons.prems(3,4) Net by (simp add: send_all_def id)
  next
    case (CertQuorum y)
    then show ?thesis using Cons.IH[OF Cons.prems(1,2,3)] Cons.prems(4) by (simp add: send_all_def)
  qed
qed (simp add: send_all_def)

lemma after_step_sel [simp]:
  "cl_heap (after_step ord i ev l out c) = send_all ord i out (cl_heap c)" "cl_nodes (after_step ord i ev l out c) = (cl_nodes c)(i := l)"
  "cl_out (after_step ord i ev l out c) = (cl_out c)(i := cl_out c i @ out)"
  "cl_acks (after_step ord i ev l out c) =
     (cl_acks c)(i := (case ev of Message (BatchAckMsg m) \<Rightarrow> insert m (cl_acks c i) | _ \<Rightarrow> cl_acks c i))"
  by (simp_all add: after_step_def)

lemma cluster_okD:
  assumes "cluster_ok ord env cfg vs n H c"
  shows "mock_run ord (cl_heap c)" "inj_on (\<lambda>i. mn_validatorID (cl_heap c i)) {..<n}" "H \<subseteq> {..<n}"
    "authentic (cl_out c) H (cl_heap c)"
    "i \<in> H \<Longrightarrow> ne_me (env i) = mn_validatorID (cl_heap c i)"
    "i \<in> H \<Longrightarrow> node_run (env i) (cfg i) vs (cl_nodes c i) (cl_acks c i) (cl_out c i)"
  using assms by (simp_all add: cluster_ok_def)

text \<open>A step of the networks alone that adds no message.\<close>

lemma cluster_ok_heap:
  assumes ok: "cluster_ok ord env cfg vs n H c" and "mock_run ord h" and id: "\<And>j. mn_validatorID (h j) = mn_validatorID (cl_heap c j)"
    and "\<And>j ch. set (queue (h j) ch) \<subseteq> set (queue (cl_heap c j) ch)"
  shows "cluster_ok ord env cfg vs n H (c\<lparr>cl_heap := h\<rparr>)"
  using cluster_okD[OF ok] assms(2) authentic_subset[OF cluster_okD(4)[OF ok] id assms(4)] by (simp add: cluster_ok_def id)

lemma cluster_ok_step:
  assumes ord: "go_order ord" and ok: "cluster_ok ord env cfg vs n H c" and i: "i \<in> H"
    and s: "node_step ((env i)\<lparr>ne_sent := sent\<rparr>) now ev (cl_nodes c i) = Some (l, out)"
  shows "cluster_ok ord env cfg vs n H (after_step ord i ev l out c)"
proof -
  note D = cluster_okD[OF ok]
  let ?outs = "(cl_out c)(i := cl_out c i @ out)"
  have "authentic ?outs H (cl_heap c)" using D(4) unfolding authentic_def by fastforce
  then have sent: "mock_run ord (send_all ord i out (cl_heap c)) \<and> authentic ?outs H (send_all ord i out (cl_heap c)) \<and>
      (\<forall>j. mn_validatorID (send_all ord i out (cl_heap c) j) = mn_validatorID (cl_heap c j))"
    by (rule send_all_ok[OF ord D(1) _ D(2,3) i]) simp
  show ?thesis
    unfolding cluster_ok_def using D sent node_run.step[OF D(6)[OF i] s] by simp
qed

lemma connect_queues:
  "queue (MockNetwork_Connect i j h k) ch = queue (h k) ch" "mn_validatorID (MockNetwork_Connect i j h k) = mn_validatorID (h k)"
  "queue (MockNetwork_Disconnect i v h k) ch = queue (h k) ch" "mn_validatorID (MockNetwork_Disconnect i v h k) = mn_validatorID (h k)"
  "queue (fst (MockNetwork_Start i h) k) ch = queue (h k) ch" "mn_validatorID (fst (MockNetwork_Start i h) k) = mn_validatorID (h k)"
  "MockNetwork_Stop i h = Some (h', e) \<Longrightarrow> queue (h' k) ch = queue (h k) ch \<and> mn_validatorID (h' k) = mn_validatorID (h k)"
  by (auto simp: MockNetwork_Connect_def MockNetwork_Disconnect_def MockNetwork_Start_def MockNetwork_Stop_def Let_def
      split: option.splits if_splits)

lemma cluster_ok_take:
  assumes ok: "cluster_ok ord env cfg vs n H c" and t: "take_message ch (cl_heap c i) = Some (msg, m)"
  shows "cluster_ok ord env cfg vs n H (c\<lparr>cl_heap := (cl_heap c)(i := m)\<rparr>)"
proof (rule cluster_ok_heap[OF ok])
  show "mock_run ord ((cl_heap c)(i := m))" using mock_run.read[OF cluster_okD(1)[OF ok] t] .
  show "mn_validatorID (((cl_heap c)(i := m)) j) = mn_validatorID (cl_heap c j)" for j
    using take_message_links[OF t] by (simp add: links_eq)
  show "set (queue (((cl_heap c)(i := m)) j) c') \<subseteq> set (queue (cl_heap c j) c')" for j c'
    using take_message_queue(1)[OF t] take_message_queue(2)[OF t, of c'] by (cases "c' = ch") auto
qed

lemma cluster_run_ok:
  assumes ord: "go_order ord" and "cluster_run ord env cfg vs n H c"
  shows "cluster_ok ord env cfg vs n H c"
  using assms(2)
proof (induction rule: cluster_run.induct)
  case (init ids cfgs h nodes acks outs)
  have id: "mn_validatorID (h i) = ids i" "queue (h i) ch = []" for i ch
    using NewMockNetwork_empty[OF init(1)[of i]] by blast+
  have "mock_run ord h" using mock_run.new[OF init(1)] .
  then show ?case using init(2-4) by (simp add: cluster_ok_def authentic_def id)
next
  case (connect c i j)
  show ?case by (rule cluster_ok_heap[OF connect.IH mock_run.connect[OF cluster_okD(1)[OF connect.IH]]]) (simp_all add: connect_queues)
next
  case (disconnect c i v)
  show ?case by (rule cluster_ok_heap[OF disconnect.IH mock_run.disconnect[OF cluster_okD(1)[OF disconnect.IH]]]) (simp_all add: connect_queues)
next
  case (start c i)
  show ?case by (rule cluster_ok_heap[OF start.IH mock_run.start[OF cluster_okD(1)[OF start.IH]]]) (simp_all add: connect_queues)
next
  case (stop c i h' e)
  show ?case
    by (rule cluster_ok_heap[OF stop.IH mock_run.stop[OF cluster_okD(1)[OF stop.IH] stop.hyps(2)]])
      (simp_all add: connect_queues(7)[OF stop.hyps(2)])
next
  case (deliver c i ch msg m c1 now l out)
  have "cluster_ok ord env cfg vs n H c1" unfolding deliver.hyps(4) by (rule cluster_ok_take[OF deliver.IH deliver.hyps(3)])
  then show ?case using cluster_ok_step[OF ord] deliver.hyps(2,4,5) by fastforce
next
  case (event c i ev now l out)
  then show ?case using cluster_ok_step[OF ord] by blast
next
  case (other_call c i call)
  note D = cluster_okD[OF other_call.IH]
  let ?h = "fst (mock_call ord i call (cl_heap c))"
  have "mn_validatorID (?h j) = mn_validatorID (cl_heap c j)" for j
    using mock_call_links[of ord i call "cl_heap c" j] by (simp add: links_eq)
  moreover have "authentic (cl_out c) H ?h"
    using authentic_call[OF ord D(1,4,2,3)] other_call.hyps(2,3) by blast
  ultimately show ?case using D mock_run.call[OF D(1)] by (simp add: cluster_ok_def)
next
  case (other_read c i ch msg m)
  then show ?case using cluster_ok_take by blast
qed


section \<open>Example\<close>

lemma demo_header_step:
  "case node_steps demo_env demo_batch_events demo_node of
     None \<Rightarrow> False
   | Some (l, out) \<Rightarrow> map_option snd (node_step demo_env 7 NodeHeaderTick l) = Some [Net (BroadcastHeader demo_node_header)]"
  by code_simp

text \<open>A node that has an acknowledged batch joins a cluster of two and sends its header to the other member.\<close>

definition demo_nets :: mock_heap where
  "demo_nets = fst (MockNetwork_Start 0 (MockNetwork_Connect 0 1 new_net))"

lemma demo_delivery:
  "queue (fst (mock_call map_keys 0 (BroadcastHeader x) demo_nets) 1) HeaderCh = [HeaderMsg \<lparr>hm_Header = Some x, hm_From = 0\<rparr>]"
  "mn_validatorID (fst (mock_call map_keys 0 (BroadcastHeader x) demo_nets) 0) = 0"
proof -
  have run: "mock_run map_keys new_net"
    by (rule mock_run.new[where ids = of_nat and cfgs = "\<lambda>_. DefaultNetworkConfig"])
      (simp add: new_net_def NewMockNetwork_def DefaultNetworkConfig_def)
  have ok: "peers_ok demo_nets"
    unfolding demo_nets_def using mock_run_ok[OF go_order_map_keys mock_run.start[OF mock_run.connect[OF run]]] by blast
  have "queue_after 0 (BroadcastHeader x) demo_nets 1 HeaderCh = [HeaderMsg \<lparr>hm_Header = Some x, hm_From = 0\<rparr>]"
    by (auto simp: demo_nets_def queue_after_def targets_def has_room_def MockNetwork_Start_def MockNetwork_Connect_def Let_def new_net_def
        NewMockNetwork_def DefaultNetworkConfig_def intro!: exI[of _ 1])
  then show "queue (fst (mock_call map_keys 0 (BroadcastHeader x) demo_nets) 1) HeaderCh = [HeaderMsg \<lparr>hm_Header = Some x, hm_From = 0\<rparr>]"
    using broadcast_refines(1)[OF go_order_map_keys ok, of "BroadcastHeader x" 0 1 HeaderCh] by simp
  have "mn_validatorID (demo_nets 0) = 0"
    by (simp add: demo_nets_def MockNetwork_Start_def MockNetwork_Connect_def Let_def new_net_def NewMockNetwork_def DefaultNetworkConfig_def)
  then show "mn_validatorID (fst (mock_call map_keys 0 (BroadcastHeader x) demo_nets) 0) = 0"
    using mock_call_links[of map_keys 0 "BroadcastHeader x" demo_nets 0] by (simp add: links_eq)
qed


end
