(* ===== verification/Leveldb_Kv.thy ===== *)
theory Leveldb_Kv
  imports Stores "HOL-Library.Sublist" "HOL-Library.List_Lexorder"
begin

text \<open>
  The key-value database under the persistent stores and the codec of their values. Both are packages outside the
  repository (\<^verbatim>\<open>goleveldb\<close>, \<^verbatim>\<open>cramberry\<close>): they are arguments of the operations, and what the
  stores rely on is stated as \<open>kv_ok\<close> and \<open>codec_ok\<close>.
\<close>

section \<open>The database\<close>

datatype kv_error = KvNotFound | KvError string

datatype kv_op = KvPut "byte list" "byte list" | KvDelete "byte list"

text \<open>\<open>kv_Iter\<close> lists the entries whose key has the given prefix (\<^verbatim>\<open>NewIterator(util.BytesPrefix(p))\<close>)
  with the error of the iterator at the end.\<close>

record 'db kv =
  kv_Open :: "string \<Rightarrow> kv_error + 'db"
  kv_Get :: "byte list \<Rightarrow> 'db \<Rightarrow> kv_error + byte list"
  kv_Has :: "byte list \<Rightarrow> 'db \<Rightarrow> bool \<times> kv_error option"
  kv_Write :: "kv_op list \<Rightarrow> 'db \<Rightarrow> 'db \<times> kv_error option"
  kv_Iter :: "byte list \<Rightarrow> 'db \<Rightarrow> (byte list \<times> byte list) list \<times> kv_error option"
  kv_Close :: "'db \<Rightarrow> 'db \<times> kv_error option"

record 'a codec =
  co_Marshal :: "'a \<Rightarrow> kv_error + byte list"
  co_Unmarshal :: "byte list \<Rightarrow> kv_error + 'a"

definition kv_text :: "kv_error \<Rightarrow> string" where
  "kv_text e = (case e of KvNotFound \<Rightarrow> ''leveldb: not found'' | KvError s \<Rightarrow> s)"

text \<open>\<^verbatim>\<open>fmt.Errorf\<close> with \<^verbatim>\<open>%w\<close>.\<close>

definition kv_fail :: "string \<Rightarrow> kv_error \<Rightarrow> err" where
  "kv_fail msg e = ErrOther (msg @ '': '' @ kv_text e)"

fun kv_apply :: "kv_op \<Rightarrow> (byte list, byte list) fmap \<Rightarrow> (byte list, byte list) fmap" where
  "kv_apply (KvPut k v) m = fmupd k v m"
| "kv_apply (KvDelete k) m = fmdrop k m"

text \<open>
  What an open database that works does: it holds a finite map from keys to values, reads see it, a write applies its
  operations in order and an iterator lists each entry with the prefix once.
\<close>

definition kv_ok :: "'db kv \<Rightarrow> ('db \<Rightarrow> bool) \<Rightarrow> ('db \<Rightarrow> (byte list, byte list) fmap) \<Rightarrow> bool" where
  "kv_ok K opened contents \<longleftrightarrow>
     (\<forall>db. opened db \<longrightarrow>
       (\<forall>k. kv_Get K k db = (case fmlookup (contents db) k of None \<Rightarrow> Inl KvNotFound | Some v \<Rightarrow> Inr v)) \<and>
       (\<forall>k. kv_Has K k db = (map_has (contents db) k, None)) \<and>
       (\<forall>ops. opened (fst (kv_Write K ops db)) \<and> snd (kv_Write K ops db) = None \<and>
          contents (fst (kv_Write K ops db)) = fold kv_apply ops (contents db)) \<and>
       (\<forall>p. snd (kv_Iter K p db) = None \<and> distinct (map fst (fst (kv_Iter K p db))) \<and>
          (\<forall>k v. (k, v) \<in> set (fst (kv_Iter K p db)) \<longleftrightarrow> fmlookup (contents db) k = Some v \<and> prefix p k)))"

definition codec_ok :: "'a codec \<Rightarrow> bool" where
  "codec_ok M \<longleftrightarrow> (\<forall>x. \<exists>data. co_Marshal M x = Inr data \<and> co_Unmarshal M data = Inr x)"

lemma kv_okD:
  assumes "kv_ok K opened contents" and "opened db"
  shows "kv_Get K k db = (case fmlookup (contents db) k of None \<Rightarrow> Inl KvNotFound | Some v \<Rightarrow> Inr v)"
    "kv_Has K k db = (map_has (contents db) k, None)"
    "opened (fst (kv_Write K ops db))" "snd (kv_Write K ops db) = None"
    "contents (fst (kv_Write K ops db)) = fold kv_apply ops (contents db)"
    "snd (kv_Iter K p db) = None" "distinct (map fst (fst (kv_Iter K p db)))"
    "(k, v) \<in> set (fst (kv_Iter K p db)) \<longleftrightarrow> fmlookup (contents db) k = Some v \<and> prefix p k"
  using assms by (simp_all add: kv_ok_def)

lemma codec_okD: "codec_ok M \<Longrightarrow> \<exists>data. co_Marshal M x = Inr data \<and> co_Unmarshal M data = Inr x"
  by (simp add: codec_ok_def)

lemma fold_deletes: "fmlookup (fold kv_apply (map KvDelete ks) m) k = (if k \<in> set ks then None else fmlookup m k)"
  by (induction ks arbitrary: m) auto

lemma set_map_filter: "x \<in> set (List.map_filter f xs) \<longleftrightarrow> (\<exists>e \<in> set xs. f e = Some x)"
  by (induction xs) (auto simp: map_filter_simps split: option.splits)

lemma map_filter_entries: "x \<in> set (List.map_filter f es) \<longleftrightarrow> (\<exists>k v. (k, v) \<in> set es \<and> f (k, v) = Some x)"
  by (auto simp: set_map_filter)

lemma distinct_entries:
  assumes "distinct (map fst es)" and "\<And>e x. e \<in> set es \<Longrightarrow> f e = Some x \<Longrightarrow> fst e = g (h x)"
  shows "distinct (map h (List.map_filter f es))"
  using assms
proof (induction es)
  case (Cons a es)
  then have IH: "distinct (map h (List.map_filter f es))" by simp
  show ?case
  proof (cases "f a")
    case (Some x)
    have "h x \<noteq> h y" if "y \<in> set (List.map_filter f es)" for y
    proof
      assume eq: "h x = h y"
      from that obtain e where e: "e \<in> set es" "f e = Some y" by (auto simp: set_map_filter)
      then have "fst e = fst a" using Cons.prems(2)[of e y] Cons.prems(2)[of a x] Some eq by simp
      then show False using Cons.prems(1) e(1) by (metis distinct.simps(2) image_eqI list.simps(9) set_map)
    qed
    then show ?thesis using IH Some by (auto simp: map_filter_simps)
  qed (use IH in \<open>simp add: map_filter_simps\<close>)
qed (simp add: map_filter_simps)

section \<open>Keys\<close>

text \<open>The ASCII bytes of the key prefixes.\<close>

definition ascii :: "string \<Rightarrow> byte list" where
  "ascii s = map (\<lambda>c. of_nat (of_char c)) s"

text \<open>\<^verbatim>\<open>copy\<close> into a hash, from a slice of at least 32 bytes.\<close>

definition copy_hash :: "byte list \<Rightarrow> hash" where
  "copy_hash bs = be_word (take 32 bs)"

lemma copy_hash_bytes [simp]: "copy_hash (hash_bytes d @ rest) = d" "copy_hash (hash_bytes d) = d"
  by (simp_all add: copy_hash_def hash_bytes_def be_word_be_bytes)

lemma be_word_u64 [simp]: "be_word (be_bytes 8 r) = (r :: u64)"
  by (simp add: be_word_be_bytes)

lemma be_bytes_u64_inj [simp]: "be_bytes 8 (r :: u64) = be_bytes 8 q \<longleftrightarrow> r = q"
  using be_bytes_inj[of 8 r q] by auto

lemma be_bytes_u16_inj [simp]: "be_bytes 2 (r :: u16) = be_bytes 2 q \<longleftrightarrow> r = q"
  using be_bytes_inj[of 2 r q] by auto

lemma hash_bytes_eq [simp]: "hash_bytes d = hash_bytes e \<longleftrightarrow> d = e"
  by (rule hash_bytes_inj)

text \<open>The entries under a prefix followed by a digest, decoded.\<close>

definition kv_view :: "byte list \<Rightarrow> (byte list \<Rightarrow> kv_error + 'a) \<Rightarrow> (byte list, byte list) fmap \<Rightarrow> (hash, 'a) fmap" where
  "kv_view p dec m = Abs_fmap (\<lambda>d. case fmlookup m (p @ hash_bytes d) of
     None \<Rightarrow> None | Some v \<Rightarrow> (case dec v of Inl _ \<Rightarrow> None | Inr x \<Rightarrow> Some x))"

lemma fmlookup_kv_view: "fmlookup (kv_view p dec m) d =
    (case fmlookup m (p @ hash_bytes d) of None \<Rightarrow> None | Some v \<Rightarrow> (case dec v of Inl _ \<Rightarrow> None | Inr x \<Rightarrow> Some x))"
proof -
  let ?f = "\<lambda>d. case fmlookup m (p @ hash_bytes d) of
     None \<Rightarrow> None | Some v \<Rightarrow> (case dec v of Inl _ \<Rightarrow> None | Inr x \<Rightarrow> Some x)"
  have "finite ((\<lambda>d. p @ hash_bytes d) -` fset (fmdom m))" by (rule finite_vimageI) (simp_all add: inj_def)
  then have "finite (dom ?f)" by (rule rev_finite_subset) (auto simp: fmlookup_dom_iff split: option.splits)
  then show ?thesis unfolding kv_view_def by (subst Abs_fmap_inverse) simp_all
qed

section \<open>A database in memory\<close>

text \<open>An instance for the examples.\<close>

definition mem_kv :: "(byte list, byte list) fmap kv" where
  "mem_kv = \<lparr>kv_Open = (\<lambda>_. Inr fmempty),
     kv_Get = (\<lambda>k m. case fmlookup m k of None \<Rightarrow> Inl KvNotFound | Some v \<Rightarrow> Inr v),
     kv_Has = (\<lambda>k m. (map_has m k, None)),
     kv_Write = (\<lambda>ops m. (fold kv_apply ops m, None)),
     kv_Iter = (\<lambda>p m. (map (\<lambda>k. (k, the (fmlookup m k))) (filter (prefix p) (map_keys m)), None)),
     kv_Close = (\<lambda>m. (m, None))\<rparr>"

lemma mem_kv_ok: "kv_ok mem_kv (\<lambda>_. True) id"
proof -
  have it: "iter_order (map_keys m) m" for m :: "(byte list, byte list) fmap"
    using go_order_map_keys by (auto simp: go_order_def)
  have "distinct (map fst (map (\<lambda>k. (k, the (fmlookup m k))) (filter (prefix p) (map_keys m))))" for p and m :: "(byte list, byte list) fmap"
    using iter_orderD(1)[OF it[of m]] by (simp add: comp_def)
  moreover have "(k, v) \<in> set (map (\<lambda>k. (k, the (fmlookup m k))) (filter (prefix p) (map_keys m))) \<longleftrightarrow>
      fmlookup m k = Some v \<and> prefix p k" for p k v and m :: "(byte list, byte list) fmap"
    using iter_orderD(2)[OF it[of m]] by (auto simp: map_has_def)
  ultimately show ?thesis by (simp add: kv_ok_def mem_kv_def)
qed

end
