(* ===== verification/Leveldb_Batch.thy ===== *)
theory Leveldb_Batch
  imports Leveldb_Kv
begin

text \<open>
  The persistent batch store (\<^verbatim>\<open>store/leveldb_batch.go\<close>) over a database \<open>K\<close> and a codec \<open>M\<close>, and the proof that
  it keeps the contract of the in-memory store.
\<close>

section \<open>Keys\<close>

definition batchPrefix :: "byte list" where
  "batchPrefix = ascii ''B:''"

definition batchRoundPrefix :: "byte list" where
  "batchRoundPrefix = ascii ''BR:''"

definition batchHighestKey :: "byte list" where
  "batchHighestKey = ascii ''BM:highest_round''"

definition makeBatchKey :: "hash \<Rightarrow> byte list" where
  "makeBatchKey digest = batchPrefix @ hash_bytes digest"

definition makeBatchRoundPrefix :: "u64 \<Rightarrow> byte list" where
  "makeBatchRoundPrefix rnd = batchRoundPrefix @ be_bytes 8 rnd"

definition makeBatchRoundKey :: "u64 \<Rightarrow> hash \<Rightarrow> byte list" where
  "makeBatchRoundKey rnd digest = batchRoundPrefix @ be_bytes 8 rnd @ hash_bytes digest"

definition extractDigestFromRoundKey :: "byte list \<Rightarrow> byte list \<Rightarrow> hash option" where
  "extractDigestFromRoundKey key pfx =
     (if length key < length pfx + 32 then None else Some (copy_hash (drop (length pfx) key)))"

definition parseRoundKey :: "byte list \<Rightarrow> (u64 \<times> hash) option" where
  "parseRoundKey key =
     (let prefixLen = length batchRoundPrefix
      in if length key < prefixLen + 8 + 32 then None
         else Some (be_word (take 8 (drop prefixLen key)), copy_hash (drop (prefixLen + 8) key)))"

section \<open>Operations\<close>

record 'db LevelDBBatchStore =
  lbs_db :: 'db
  lbs_closed :: bool

definition NewLevelDBBatchStore :: "'db kv \<Rightarrow> string \<Rightarrow> 'db LevelDBBatchStore result" where
  "NewLevelDBBatchStore K path =
     (case kv_Open K path of
        Inl e \<Rightarrow> Inl (kv_fail ''failed to open leveldb'' e)
      | Inr db \<Rightarrow> Inr \<lparr>lbs_db = db, lbs_closed = False\<rparr>)"

definition lbs_getHighestRound :: "'db kv \<Rightarrow> 'db LevelDBBatchStore \<Rightarrow> u64" where
  "lbs_getHighestRound K s =
     (case kv_Get K batchHighestKey (lbs_db s) of
        Inl _ \<Rightarrow> 0
      | Inr data \<Rightarrow> if length data < 8 then 0 else be_word (take 8 data))"

definition LevelDBBatchStore_SaveBatch ::
  "'db kv \<Rightarrow> Batch codec \<Rightarrow> Batch \<Rightarrow> 'db LevelDBBatchStore \<Rightarrow> 'db LevelDBBatchStore \<times> err option" where
  "LevelDBBatchStore_SaveBatch K M batch s =
     (if lbs_closed s then (s, Some ErrNotRunning)
      else let key = makeBatchKey (b_Digest batch)
      in case kv_Has K key (lbs_db s) of
        (_, Some e) \<Rightarrow> (s, Some (kv_fail ''failed to check batch existence'' e))
      | (has, None) \<Rightarrow>
          if has then (s, None)
          else case co_Marshal M batch of
            Inl e \<Rightarrow> (s, Some (kv_fail ''failed to encode batch'' e))
          | Inr data \<Rightarrow>
              (let indexKey = makeBatchRoundKey (b_Round batch) (b_Digest batch);
                   wb = [KvPut key data, KvPut indexKey []] @
                     (if b_Round batch > lbs_getHighestRound K s
                      then [KvPut batchHighestKey (be_bytes 8 (b_Round batch))] else []);
                   (db, e) = kv_Write K wb (lbs_db s)
               in (s\<lparr>lbs_db := db\<rparr>, map_option (kv_fail ''failed to write batch'') e)))"

definition LevelDBBatchStore_GetBatch :: "'db kv \<Rightarrow> Batch codec \<Rightarrow> hash \<Rightarrow> 'db LevelDBBatchStore \<Rightarrow> Batch result" where
  "LevelDBBatchStore_GetBatch K M digest s =
     (if lbs_closed s then Inl ErrNotRunning
      else case kv_Get K (makeBatchKey digest) (lbs_db s) of
        Inl KvNotFound \<Rightarrow> Inl ErrBatchNotFound
      | Inl e \<Rightarrow> Inl (kv_fail ''failed to get batch'' e)
      | Inr data \<Rightarrow> (case co_Unmarshal M data of
            Inl e \<Rightarrow> Inl (kv_fail ''failed to decode batch'' e)
          | Inr batch \<Rightarrow> Inr batch))"

definition LevelDBBatchStore_HasBatch :: "'db kv \<Rightarrow> hash \<Rightarrow> 'db LevelDBBatchStore \<Rightarrow> bool" where
  "LevelDBBatchStore_HasBatch K digest s =
     (if lbs_closed s then False else fst (kv_Has K (makeBatchKey digest) (lbs_db s)))"

definition lbs_getBatchInternal :: "'db kv \<Rightarrow> Batch codec \<Rightarrow> hash \<Rightarrow> 'db LevelDBBatchStore \<Rightarrow> Batch result" where
  "lbs_getBatchInternal K M digest s =
     (case kv_Get K (makeBatchKey digest) (lbs_db s) of
        Inl KvNotFound \<Rightarrow> Inl ErrBatchNotFound
      | Inl e \<Rightarrow> Inl (ErrOther (kv_text e))
      | Inr data \<Rightarrow> (case co_Unmarshal M data of Inl e \<Rightarrow> Inl (ErrOther (kv_text e)) | Inr batch \<Rightarrow> Inr batch))"

definition LevelDBBatchStore_GetBatchesByRound ::
  "'db kv \<Rightarrow> Batch codec \<Rightarrow> u64 \<Rightarrow> 'db LevelDBBatchStore \<Rightarrow> Batch list result" where
  "LevelDBBatchStore_GetBatchesByRound K M rnd s =
     (if lbs_closed s then Inl ErrNotRunning
      else let pfx = makeBatchRoundPrefix rnd;
               (entries, e) = kv_Iter K pfx (lbs_db s);
               batches = List.map_filter (\<lambda>(key, _). case extractDigestFromRoundKey key pfx of
                   None \<Rightarrow> None
                 | Some digest \<Rightarrow> (case lbs_getBatchInternal K M digest s of Inl _ \<Rightarrow> None | Inr batch \<Rightarrow> Some batch)) entries
           in case e of Some e \<Rightarrow> Inl (kv_fail ''iteration error'' e) | None \<Rightarrow> Inr batches)"

definition LevelDBBatchStore_DeleteBatchesBefore ::
  "'db kv \<Rightarrow> u64 \<Rightarrow> 'db LevelDBBatchStore \<Rightarrow> 'db LevelDBBatchStore \<times> err option" where
  "LevelDBBatchStore_DeleteBatchesBefore K rnd s =
     (if lbs_closed s then (s, Some ErrNotRunning)
      else let (entries, e) = kv_Iter K batchRoundPrefix (lbs_db s);
               toDelete = List.map_filter (\<lambda>(key, _). case parseRoundKey key of
                   None \<Rightarrow> None
                 | Some (r, digest) \<Rightarrow> if r < rnd then Some (makeBatchKey digest, key) else None) entries
           in case e of
                Some e \<Rightarrow> (s, Some (kv_fail ''iteration error'' e))
              | None \<Rightarrow>
                  if length toDelete > 0
                  then let wb = concat (map (\<lambda>(batchKey, indexKey). [KvDelete batchKey, KvDelete indexKey]) toDelete);
                           (db, e) = kv_Write K wb (lbs_db s)
                       in (s\<lparr>lbs_db := db\<rparr>, map_option (kv_fail ''failed to delete batches'') e)
                  else (s, None))"

definition LevelDBBatchStore_Close :: "'db kv \<Rightarrow> 'db LevelDBBatchStore \<Rightarrow> 'db LevelDBBatchStore \<times> err option" where
  "LevelDBBatchStore_Close K s =
     (if lbs_closed s then (s, None)
      else let (db, e) = kv_Close K (lbs_db s)
           in (s\<lparr>lbs_closed := True, lbs_db := db\<rparr>, map_option (\<lambda>e. ErrOther (kv_text e)) e))"

definition LevelDBBatchStore_Len :: "'db kv \<Rightarrow> 'db LevelDBBatchStore \<Rightarrow> nat" where
  "LevelDBBatchStore_Len K s = (if lbs_closed s then 0 else length (fst (kv_Iter K batchPrefix (lbs_db s))))"

definition LevelDBBatchStore_HighestRound :: "'db kv \<Rightarrow> 'db LevelDBBatchStore \<Rightarrow> u64" where
  "LevelDBBatchStore_HighestRound K s = lbs_getHighestRound K s"

section \<open>Keys do not overlap\<close>

lemma prefixes:
  "batchPrefix = [66, 58]" "batchRoundPrefix = [66, 82, 58]" "take 2 batchHighestKey = [66, 77]"
  by code_simp+

lemma batch_key_heads:
  "take 2 (makeBatchKey d) = [66, 58]" "take 2 (makeBatchRoundKey r d) = [66, 82]" "take 2 (makeBatchRoundPrefix r) = [66, 82]"
  by (simp_all add: makeBatchKey_def makeBatchRoundKey_def makeBatchRoundPrefix_def prefixes)

lemma batch_keys_distinct [simp]:
  "makeBatchKey d \<noteq> makeBatchRoundKey r e" "makeBatchRoundKey r e \<noteq> makeBatchKey d"
  "batchHighestKey \<noteq> makeBatchKey d" "batchHighestKey \<noteq> makeBatchRoundKey r d"
  "makeBatchKey d \<noteq> batchHighestKey" "makeBatchRoundKey r d \<noteq> batchHighestKey"
proof -
  have "[66, 58] \<noteq> ([66, 82] :: byte list)" "[66, 77] \<noteq> ([66, 58] :: byte list)" "[66, 77] \<noteq> ([66, 82] :: byte list)" by simp_all
  then show "makeBatchKey d \<noteq> makeBatchRoundKey r e" "makeBatchRoundKey r e \<noteq> makeBatchKey d"
    "batchHighestKey \<noteq> makeBatchKey d" "batchHighestKey \<noteq> makeBatchRoundKey r d"
    "makeBatchKey d \<noteq> batchHighestKey" "makeBatchRoundKey r d \<noteq> batchHighestKey"
    by (metis batch_key_heads(1,2) prefixes(3))+
qed

lemma batch_keys [simp]:
  "makeBatchKey d = makeBatchKey e \<longleftrightarrow> d = e" "makeBatchRoundKey r d = makeBatchRoundKey q e \<longleftrightarrow> r = q \<and> d = e"
  by (simp_all add: makeBatchKey_def makeBatchRoundKey_def)

lemma batch_round_prefix [simp]:
  "prefix (makeBatchRoundPrefix r) (makeBatchRoundKey q d) \<longleftrightarrow> r = q"
  "prefix batchRoundPrefix (makeBatchRoundKey q d)"
  "prefix batchRoundPrefix (makeBatchRoundPrefix r)"
  "\<not> prefix batchRoundPrefix (makeBatchKey d)" "\<not> prefix batchRoundPrefix batchHighestKey"
proof -
  have "r = q" if "prefix (be_bytes 8 r) (be_bytes 8 q @ hash_bytes d)"
    using that by (auto simp: prefix_def append_eq_append_conv)
  then show "prefix (makeBatchRoundPrefix r) (makeBatchRoundKey q d) \<longleftrightarrow> r = q"
    by (auto simp: makeBatchRoundPrefix_def makeBatchRoundKey_def prefixes)
  have "take 2 k = [66, 82]" if "prefix batchRoundPrefix k" for k
    using that by (auto simp: prefix_def prefixes)
  moreover have "[66, 58] \<noteq> ([66, 82] :: byte list)" "[66, 77] \<noteq> ([66, 82] :: byte list)" by simp_all
  ultimately show "\<not> prefix batchRoundPrefix (makeBatchKey d)" "\<not> prefix batchRoundPrefix batchHighestKey"
    by (metis batch_key_heads(1) prefixes(3))+
qed (simp_all add: makeBatchRoundPrefix_def makeBatchRoundKey_def)

lemma parse_round_key [simp]:
  "parseRoundKey (makeBatchRoundKey r d) = Some (r, d)"
  "extractDigestFromRoundKey (makeBatchRoundKey r d) (makeBatchRoundPrefix q) = Some d"
  by (simp_all add: parseRoundKey_def extractDigestFromRoundKey_def makeBatchRoundKey_def makeBatchRoundPrefix_def prefixes Let_def)

section \<open>The contract\<close>

text \<open>
  A store that is open, and whose entries fit together: a stored batch has its digest and an entry in the round index,
  an entry of the round index has its batch, and nothing else is under the prefix of the round index.
\<close>

definition batch_entries_ok :: "Batch codec \<Rightarrow> (byte list, byte list) fmap \<Rightarrow> bool" where
  "batch_entries_ok M m \<longleftrightarrow>
     (\<forall>d v. fmlookup m (makeBatchKey d) = Some v \<longrightarrow> (\<exists>b. co_Unmarshal M v = Inr b \<and> b_Digest b = d \<and>
        map_has m (makeBatchRoundKey (b_Round b) d))) \<and>
     (\<forall>r d. map_has m (makeBatchRoundKey r d) \<longrightarrow> (\<exists>v b. fmlookup m (makeBatchKey d) = Some v \<and>
        co_Unmarshal M v = Inr b \<and> b_Round b = r)) \<and>
     (\<forall>k. map_has m k \<longrightarrow> prefix batchRoundPrefix k \<longrightarrow> (\<exists>r d. k = makeBatchRoundKey r d))"

definition lbs_ok :: "Batch codec \<Rightarrow> ('db \<Rightarrow> bool) \<Rightarrow> ('db \<Rightarrow> (byte list, byte list) fmap) \<Rightarrow> 'db LevelDBBatchStore \<Rightarrow> bool" where
  "lbs_ok M opened contents s \<longleftrightarrow> \<not> lbs_closed s \<and> opened (lbs_db s) \<and> batch_entries_ok M (contents (lbs_db s))"

definition lbs_batches :: "Batch codec \<Rightarrow> ('db \<Rightarrow> (byte list, byte list) fmap) \<Rightarrow> 'db LevelDBBatchStore \<Rightarrow> (hash, Batch) fmap" where
  "lbs_batches M contents s = kv_view batchPrefix (co_Unmarshal M) (contents (lbs_db s))"

lemma batch_entriesD:
  assumes "batch_entries_ok M m"
  shows "fmlookup m (makeBatchKey d) = Some v \<Longrightarrow> \<exists>b. co_Unmarshal M v = Inr b \<and> b_Digest b = d \<and>
      map_has m (makeBatchRoundKey (b_Round b) d)"
    "map_has m (makeBatchRoundKey r d) \<Longrightarrow> \<exists>v b. fmlookup m (makeBatchKey d) = Some v \<and> co_Unmarshal M v = Inr b \<and> b_Round b = r"
    "map_has m k \<Longrightarrow> prefix batchRoundPrefix k \<Longrightarrow> \<exists>r d. k = makeBatchRoundKey r d"
  using assms unfolding batch_entries_ok_def by blast+

lemma lookup_view: "fmlookup (kv_view batchPrefix dec m) d =
    (case fmlookup m (makeBatchKey d) of None \<Rightarrow> None | Some v \<Rightarrow> (case dec v of Inl _ \<Rightarrow> None | Inr x \<Rightarrow> Some x))"
  by (simp add: fmlookup_kv_view makeBatchKey_def)

text \<open>A stored batch in terms of the two entries.\<close>

lemma stored_batch:
  assumes "batch_entries_ok M m" and "fmlookup (kv_view batchPrefix (co_Unmarshal M) m) d = Some b"
  shows "b_Digest b = d" "map_has m (makeBatchRoundKey (b_Round b) d)"
  using assms batch_entriesD(1)[OF assms(1), of d] by (auto simp: lookup_view split: option.splits sum.splits)

lemma has_view:
  "batch_entries_ok M m \<Longrightarrow> map_has (kv_view batchPrefix (co_Unmarshal M) m) d \<longleftrightarrow> map_has m (makeBatchKey d)"
  using batch_entriesD(1)[of M m d] by (auto simp: map_has_def lookup_view split: option.splits sum.splits)

lemma indexed_batch:
  assumes "batch_entries_ok M m" and "map_has m (makeBatchRoundKey r d)"
  obtains b where "fmlookup (kv_view batchPrefix (co_Unmarshal M) m) d = Some b" "b_Round b = r" "b_Digest b = d"
  using batch_entriesD(2)[OF assms] batch_entriesD(1)[OF assms(1), of d] by (fastforce simp: lookup_view)

subsection \<open>Saving\<close>

definition saved :: "Batch \<Rightarrow> byte list \<Rightarrow> (byte list, byte list) fmap \<Rightarrow> (byte list, byte list) fmap" where
  "saved b data m = fmupd (makeBatchRoundKey (b_Round b) (b_Digest b)) [] (fmupd (makeBatchKey (b_Digest b)) data m)"

lemma saved_ok:
  assumes "batch_entries_ok M m" and "co_Unmarshal M data = Inr b" and "\<not> map_has m (makeBatchKey (b_Digest b))"
  shows "batch_entries_ok M (saved b data m)" "batch_entries_ok M (fmupd batchHighestKey h (saved b data m))"
proof -
  have new: "\<not> map_has m (makeBatchRoundKey r (b_Digest b))" for r
    using batch_entriesD(2)[OF assms(1), of r "b_Digest b"] assms(3) by (metis map_has_def option.distinct(1))
  show ok: "batch_entries_ok M (saved b data m)"
    unfolding batch_entries_ok_def
  proof (intro conjI allI impI)
    fix d v
    assume "fmlookup (saved b data m) (makeBatchKey d) = Some v"
    then show "\<exists>x. co_Unmarshal M v = Inr x \<and> b_Digest x = d \<and> map_has (saved b data m) (makeBatchRoundKey (b_Round x) d)"
      using assms(2) batch_entriesD(1)[OF assms(1), of d v] by (auto simp: saved_def split: if_splits)
  next
    fix r d
    assume "map_has (saved b data m) (makeBatchRoundKey r d)"
    then show "\<exists>v x. fmlookup (saved b data m) (makeBatchKey d) = Some v \<and> co_Unmarshal M v = Inr x \<and> b_Round x = r"
      using assms(2) new batch_entriesD(2)[OF assms(1), of r d] by (auto simp: saved_def split: if_splits)
  next
    fix k
    assume "map_has (saved b data m) k" "prefix batchRoundPrefix k"
    then show "\<exists>r d. k = makeBatchRoundKey r d"
      using batch_entriesD(3)[OF assms(1), of k] by (auto simp: saved_def split: if_splits)
  qed
  show "batch_entries_ok M (fmupd batchHighestKey h (saved b data m))"
    using ok unfolding batch_entries_ok_def by auto
qed

lemma saved_view:
  assumes "co_Unmarshal M data = Inr b"
  shows "kv_view batchPrefix (co_Unmarshal M) (saved b data m) = fmupd (b_Digest b) b (kv_view batchPrefix (co_Unmarshal M) m)"
    "kv_view batchPrefix (co_Unmarshal M) (fmupd batchHighestKey h m') = kv_view batchPrefix (co_Unmarshal M) m'"
  using assms by (auto intro!: fmap_ext simp: lookup_view saved_def)

lemma SaveBatch_effect:
  assumes K: "kv_ok K opened contents" and M: "codec_ok M" and s: "lbs_ok M opened contents s"
  shows "lbs_ok M opened contents (fst (LevelDBBatchStore_SaveBatch K M b s)) \<and> snd (LevelDBBatchStore_SaveBatch K M b s) = None \<and>
    lbs_batches M contents (fst (LevelDBBatchStore_SaveBatch K M b s)) =
      (if map_has (lbs_batches M contents s) (b_Digest b) then lbs_batches M contents s
       else fmupd (b_Digest b) b (lbs_batches M contents s))"
proof -
  let ?m = "contents (lbs_db s)"
  have op: "\<not> lbs_closed s" "opened (lbs_db s)" "batch_entries_ok M ?m" using s by (simp_all add: lbs_ok_def)
  note kv = kv_okD[OF K op(2)]
  have has: "map_has (lbs_batches M contents s) (b_Digest b) \<longleftrightarrow> map_has ?m (makeBatchKey (b_Digest b))"
    using has_view[OF op(3)] by (simp add: lbs_batches_def)
  show ?thesis
  proof (cases "map_has ?m (makeBatchKey (b_Digest b))")
    case True
    then show ?thesis using op s has kv(2) by (simp add: LevelDBBatchStore_SaveBatch_def)
  next
    case False
    obtain data where data: "co_Marshal M b = Inr data" "co_Unmarshal M data = Inr b" using codec_okD[OF M] by blast
    let ?wb = "[KvPut (makeBatchKey (b_Digest b)) data, KvPut (makeBatchRoundKey (b_Round b) (b_Digest b)) []] @
      (if b_Round b > lbs_getHighestRound K s then [KvPut batchHighestKey (be_bytes 8 (b_Round b))] else [])"
    have res: "LevelDBBatchStore_SaveBatch K M b s = (s\<lparr>lbs_db := fst (kv_Write K ?wb (lbs_db s))\<rparr>, None)"
      using op False kv(2) data kv(4)[of ?wb] by (simp add: LevelDBBatchStore_SaveBatch_def Let_def case_prod_unfold)
    have m': "contents (fst (kv_Write K ?wb (lbs_db s))) \<in> {saved b data ?m, fmupd batchHighestKey (be_bytes 8 (b_Round b)) (saved b data ?m)}"
      unfolding kv(5) by (simp add: saved_def)
    show ?thesis using res m' op has False saved_ok[OF op(3) data(2) False] saved_view[OF data(2)] kv(3)[of ?wb]
      by (auto simp: lbs_ok_def lbs_batches_def)
  qed
qed

subsection \<open>Reading\<close>

lemma GetBatch_view:
  assumes "kv_ok K opened contents" and "lbs_ok M opened contents s"
  shows "LevelDBBatchStore_GetBatch K M d s = Inr b \<longleftrightarrow> fmlookup (lbs_batches M contents s) d = Some b"
    "lbs_getBatchInternal K M d s = Inr b \<longleftrightarrow> fmlookup (lbs_batches M contents s) d = Some b"
    "LevelDBBatchStore_HasBatch K d s \<longleftrightarrow> map_has (lbs_batches M contents s) d"
proof -
  have op: "\<not> lbs_closed s" "opened (lbs_db s)" "batch_entries_ok M (contents (lbs_db s))"
    using assms(2) by (simp_all add: lbs_ok_def)
  note kv = kv_okD[OF assms(1) op(2)]
  show "LevelDBBatchStore_GetBatch K M d s = Inr b \<longleftrightarrow> fmlookup (lbs_batches M contents s) d = Some b"
    "lbs_getBatchInternal K M d s = Inr b \<longleftrightarrow> fmlookup (lbs_batches M contents s) d = Some b"
    using op(1) by (simp_all add: LevelDBBatchStore_GetBatch_def lbs_getBatchInternal_def lbs_batches_def lookup_view kv(1)
        split: option.split sum.split)
  show "LevelDBBatchStore_HasBatch K d s \<longleftrightarrow> map_has (lbs_batches M contents s) d"
    using op(1) has_view[OF op(3)] by (simp add: LevelDBBatchStore_HasBatch_def kv(2) lbs_batches_def)
qed

lemma GetBatchesByRound_view:
  assumes K: "kv_ok K opened contents" and s: "lbs_ok M opened contents s"
  shows "\<exists>xs. LevelDBBatchStore_GetBatchesByRound K M r s = Inr xs \<and> distinct (map b_Digest xs) \<and>
    (\<forall>x. x \<in> set xs \<longleftrightarrow> fmlookup (lbs_batches M contents s) (b_Digest x) = Some x \<and> b_Round x = r)"
proof -
  let ?m = "contents (lbs_db s)" and ?es = "fst (kv_Iter K (makeBatchRoundPrefix r) (lbs_db s))"
  let ?f = "\<lambda>(key, _ :: byte list). case extractDigestFromRoundKey key (makeBatchRoundPrefix r) of None \<Rightarrow> None
    | Some digest \<Rightarrow> (case lbs_getBatchInternal K M digest s of Inl _ \<Rightarrow> None | Inr batch \<Rightarrow> Some batch)"
  have op: "\<not> lbs_closed s" "opened (lbs_db s)" "batch_entries_ok M ?m" using s by (simp_all add: lbs_ok_def)
  note kv = kv_okD[OF K op(2)]
  have key: "\<exists>d. k = makeBatchRoundKey r d \<and> map_has ?m k" if "(k, v) \<in> set ?es" for k v
  proof -
    have k: "map_has ?m k" "prefix (makeBatchRoundPrefix r) k" using that kv(8) by (simp_all add: map_has_def)
    then have "prefix batchRoundPrefix k" using batch_round_prefix(3) prefix_order.order_trans by blast
    then show ?thesis using batch_entriesD(3)[OF op(3) k(1)] k by auto
  qed
  have f: "?f (makeBatchRoundKey r d, v) = Some x \<longleftrightarrow> fmlookup (lbs_batches M contents s) d = Some x" for d v x
    using GetBatch_view(2)[OF K s, of d x] by (auto split: sum.split)
  have dig: "b_Digest x = d \<and> map_has ?m (makeBatchRoundKey (b_Round x) d)" if "fmlookup (lbs_batches M contents s) d = Some x" for d x
    using stored_batch[OF op(3)] that by (simp add: lbs_batches_def)
  have rd: "b_Round x = r" if "fmlookup (lbs_batches M contents s) d = Some x" "map_has ?m (makeBatchRoundKey r d)" for d x
    using indexed_batch[OF op(3) that(2)] that(1) by (metis lbs_batches_def option.inject)
  have "distinct (map b_Digest (List.map_filter ?f ?es))"
  proof (rule distinct_entries[where g = "makeBatchRoundKey r"])
    fix e x
    assume "e \<in> set ?es" and fe: "?f e = Some x"
    then obtain d where e: "fst e = makeBatchRoundKey r d" using key[of "fst e" "snd e"] by auto
    have "?f (makeBatchRoundKey r d, snd e) = Some x" using fe unfolding e[symmetric] prod.collapse .
    then have "b_Digest x = d" using dig unfolding f by blast
    then show "fst e = makeBatchRoundKey r (b_Digest x)" using e by simp
  qed (rule kv(7))
  moreover have "x \<in> set (List.map_filter ?f ?es) \<longleftrightarrow> fmlookup (lbs_batches M contents s) (b_Digest x) = Some x \<and> b_Round x = r" for x
  proof
    assume "x \<in> set (List.map_filter ?f ?es)"
    then obtain k v where kv': "(k, v) \<in> set ?es" "?f (k, v) = Some x" unfolding set_map_filter by (metis (no_types, lifting) surj_pair)
    obtain d where d: "k = makeBatchRoundKey r d" "map_has ?m k" using key[OF kv'(1)] by blast
    have x: "fmlookup (lbs_batches M contents s) d = Some x" using kv'(2) unfolding d(1) f .
    then show "fmlookup (lbs_batches M contents s) (b_Digest x) = Some x \<and> b_Round x = r"
      using dig[OF x] rd[OF x] d by simp
  next
    assume x: "fmlookup (lbs_batches M contents s) (b_Digest x) = Some x \<and> b_Round x = r"
    then have "map_has ?m (makeBatchRoundKey r (b_Digest x))" using dig by blast
    then obtain v where "(makeBatchRoundKey r (b_Digest x), v) \<in> set ?es" using kv(8) by (auto simp: map_has_def)
    then show "x \<in> set (List.map_filter ?f ?es)" unfolding set_map_filter using f x by blast
  qed
  moreover have "LevelDBBatchStore_GetBatchesByRound K M r s = Inr (List.map_filter ?f ?es)"
    using op(1) kv(6) by (simp add: LevelDBBatchStore_GetBatchesByRound_def Let_def case_prod_unfold)
  ultimately show ?thesis by blast
qed

subsection \<open>Deleting\<close>

lemma deleted_ok:
  assumes ok: "batch_entries_ok M m" and old: "\<And>r d. makeBatchRoundKey r d \<in> D \<longleftrightarrow> r < rnd \<and> map_has m (makeBatchRoundKey r d)"
    and old': "\<And>d. makeBatchKey d \<in> D \<longleftrightarrow> (\<exists>r<rnd. map_has m (makeBatchRoundKey r d))"
    and m': "\<And>k. fmlookup m' k = (if k \<in> D then None else fmlookup m k)"
  shows "batch_entries_ok M m'" and "fmlookup (kv_view batchPrefix (co_Unmarshal M) m') d =
    (case fmlookup (kv_view batchPrefix (co_Unmarshal M) m) d of None \<Rightarrow> None | Some x \<Rightarrow> if b_Round x < rnd then None else Some x)"
proof -
  have has: "map_has m' k \<longleftrightarrow> k \<notin> D \<and> map_has m k" for k by (simp add: map_has_def m')
  have uniq: "b_Round b = r" if "fmlookup m (makeBatchKey d) = Some v" "co_Unmarshal M v = Inr b"
      "map_has m (makeBatchRoundKey r d)" for v b r d
    using batch_entriesD(2)[OF ok that(3)] that(1,2) by auto
  show "batch_entries_ok M m'"
    unfolding batch_entries_ok_def has m'
  proof (intro conjI allI impI)
    fix d v
    assume "(if makeBatchKey d \<in> D then None else fmlookup m (makeBatchKey d)) = Some v"
    then show "\<exists>b. co_Unmarshal M v = Inr b \<and> b_Digest b = d \<and> makeBatchRoundKey (b_Round b) d \<notin> D \<and> map_has m (makeBatchRoundKey (b_Round b) d)"
      using batch_entriesD(1)[OF ok, of d v] old old' by (auto split: if_splits)
  next
    fix r d
    assume "makeBatchRoundKey r d \<notin> D \<and> map_has m (makeBatchRoundKey r d)"
    then show "\<exists>v b. (if makeBatchKey d \<in> D then None else fmlookup m (makeBatchKey d)) = Some v \<and> co_Unmarshal M v = Inr b \<and> b_Round b = r"
      using batch_entriesD(2)[OF ok, of r d] old old' uniq by metis
  next
    fix k
    assume "k \<notin> D \<and> map_has m k" "prefix batchRoundPrefix k"
    then show "\<exists>r d. k = makeBatchRoundKey r d" using batch_entriesD(3)[OF ok] by blast
  qed
  have gone: "makeBatchKey d \<in> D \<longleftrightarrow> b_Round x < rnd" if "fmlookup (kv_view batchPrefix (co_Unmarshal M) m) d = Some x" for x
    using stored_batch[OF ok that] indexed_batch[OF ok, of _ d] that old' by (metis option.inject)
  show "fmlookup (kv_view batchPrefix (co_Unmarshal M) m') d =
    (case fmlookup (kv_view batchPrefix (co_Unmarshal M) m) d of None \<Rightarrow> None | Some x \<Rightarrow> if b_Round x < rnd then None else Some x)"
  proof (cases "fmlookup (kv_view batchPrefix (co_Unmarshal M) m) d")
    case None
    then show ?thesis unfolding lookup_view m' by (simp split: option.splits)
  next
    case (Some x)
    then show ?thesis using gone[OF Some] Some unfolding lookup_view m' by (simp split: option.splits)
  qed
qed

lemma DeleteBatchesBefore_effect:
  assumes K: "kv_ok K opened contents" and s: "lbs_ok M opened contents s"
  shows "lbs_ok M opened contents (fst (LevelDBBatchStore_DeleteBatchesBefore K r s)) \<and>
      snd (LevelDBBatchStore_DeleteBatchesBefore K r s) = None \<and>
      fmlookup (lbs_batches M contents (fst (LevelDBBatchStore_DeleteBatchesBefore K r s))) d =
        (case fmlookup (lbs_batches M contents s) d of None \<Rightarrow> None | Some x \<Rightarrow> if b_Round x < r then None else Some x)"
proof -
  let ?m = "contents (lbs_db s)" and ?es = "fst (kv_Iter K batchRoundPrefix (lbs_db s))"
  let ?f = "\<lambda>(key, _ :: byte list). case parseRoundKey key of None \<Rightarrow> None
    | Some (q, digest) \<Rightarrow> if q < r then Some (makeBatchKey digest, key) else None"
  let ?td = "List.map_filter ?f ?es"
  let ?ks = "concat (map (\<lambda>(a, b). [a, b]) ?td)"
  let ?wb = "concat (map (\<lambda>(batchKey, indexKey). [KvDelete batchKey, KvDelete indexKey]) ?td)"
  have op: "\<not> lbs_closed s" "opened (lbs_db s)" "batch_entries_ok M ?m" using s by (simp_all add: lbs_ok_def)
  note kv = kv_okD[OF K op(2)]
  let ?s = "if ?td = [] then s else s\<lparr>lbs_db := fst (kv_Write K ?wb (lbs_db s))\<rparr>"
  have res: "LevelDBBatchStore_DeleteBatchesBefore K r s = (?s, None)"
    using op(1) kv(4)[of ?wb] kv(6) by (simp add: LevelDBBatchStore_DeleteBatchesBefore_def Let_def case_prod_unfold)
  have wb: "?wb = map KvDelete ?ks" by (simp add: map_concat comp_def case_prod_unfold)
  have m': "fmlookup (contents (lbs_db ?s)) k = (if k \<in> set ?ks then None else fmlookup ?m k)" for k
    using fold_deletes[of ?ks ?m k] unfolding wb[symmetric] by (cases "?td = []") (simp_all add: kv(5))
  have td: "(a, k) \<in> set ?td \<longleftrightarrow> (\<exists>q d. q < r \<and> a = makeBatchKey d \<and> k = makeBatchRoundKey q d \<and> map_has ?m k)" for a k
  proof
    assume "(a, k) \<in> set ?td"
    then obtain v where v: "(k, v) \<in> set ?es" "?f (k, v) = Some (a, k)"
      by (fastforce simp: set_map_filter split: option.splits if_splits)
    then have k: "map_has ?m k" "prefix batchRoundPrefix k" using kv(8) by (simp_all add: map_has_def)
    then obtain q d where "k = makeBatchRoundKey q d" using batch_entriesD(3)[OF op(3)] by blast
    then show "\<exists>q d. q < r \<and> a = makeBatchKey d \<and> k = makeBatchRoundKey q d \<and> map_has ?m k" using v(2) k(1) by (auto split: if_splits)
  next
    assume "\<exists>q d. q < r \<and> a = makeBatchKey d \<and> k = makeBatchRoundKey q d \<and> map_has ?m k"
    then obtain q d v where e: "q < r" "a = makeBatchKey d" "k = makeBatchRoundKey q d" "(k, v) \<in> set ?es"
      using kv(8) by (auto simp: map_has_def)
    then have "?f (k, v) = Some (a, k)" by simp
    then show "(a, k) \<in> set ?td" unfolding set_map_filter using e(4) by blast
  qed
  have ks: "k \<in> set ?ks \<longleftrightarrow> (\<exists>q d. q < r \<and> map_has ?m (makeBatchRoundKey q d) \<and> (k = makeBatchKey d \<or> k = makeBatchRoundKey q d))" for k
    using td by (auto 0 4)
  have D: "makeBatchRoundKey q d \<in> set ?ks \<longleftrightarrow> q < r \<and> map_has ?m (makeBatchRoundKey q d)"
    "makeBatchKey d \<in> set ?ks \<longleftrightarrow> (\<exists>q<r. map_has ?m (makeBatchRoundKey q d))" for q d
    unfolding ks by auto
  show ?thesis using deleted_ok[OF op(3) D m'] op kv(3)[of ?wb] unfolding res by (auto simp: lbs_ok_def lbs_batches_def)
qed

section \<open>The two batch stores\<close>

lemma LevelDBBatchStore_digest_store:
  assumes "kv_ok K opened contents" and "codec_ok M"
  shows "digest_store (lbs_batches M contents) (lbs_ok M opened contents) b_Digest b_Round
    (LevelDBBatchStore_SaveBatch K M) (LevelDBBatchStore_GetBatch K M) (LevelDBBatchStore_HasBatch K)
    (LevelDBBatchStore_GetBatchesByRound K M) (LevelDBBatchStore_DeleteBatchesBefore K)"
proof (unfold_locales, goal_cases)
  case (1 s d x)
  then show ?case using stored_batch(1)[of M "contents (lbs_db s)" d x] by (simp add: lbs_ok_def lbs_batches_def)
next
  case (6 s r)
  then show ?case by (rule GetBatchesByRound_view[OF assms(1)])
qed (use SaveBatch_effect[OF assms] GetBatch_view[OF assms(1)] DeleteBatchesBefore_effect[OF assms(1)] in \<open>simp_all\<close>)

text \<open>A write to either store: a batch to save, or a round below which to delete.\<close>

datatype batch_write = Save Batch | DeleteBefore u64

fun leveldb_write :: "'db kv \<Rightarrow> Batch codec \<Rightarrow> batch_write \<Rightarrow> 'db LevelDBBatchStore \<Rightarrow> 'db LevelDBBatchStore \<times> err option" where
  "leveldb_write K M (Save b) s = LevelDBBatchStore_SaveBatch K M b s"
| "leveldb_write K M (DeleteBefore r) s = LevelDBBatchStore_DeleteBatchesBefore K r s"

fun memory_write :: "batch_write \<Rightarrow> MemoryBatchStore \<Rightarrow> MemoryBatchStore \<times> err option" where
  "memory_write (Save b) s = MemoryBatchStore_SaveBatch b s"
| "memory_write (DeleteBefore r) s = MemoryBatchStore_DeleteBatchesBefore r s"

text \<open>The simulation relation: both stores are well formed and hold the same batches.\<close>

definition same_batches ::
  "Batch codec \<Rightarrow> ('db \<Rightarrow> bool) \<Rightarrow> ('db \<Rightarrow> (byte list, byte list) fmap) \<Rightarrow> 'db LevelDBBatchStore \<Rightarrow> MemoryBatchStore \<Rightarrow> bool" where
  "same_batches M opened contents s ms \<longleftrightarrow>
     lbs_ok M opened contents s \<and> mbs_ok ms \<and> lbs_batches M contents s = mbs_batches ms"

lemma same_batches_step:
  assumes K: "kv_ok K opened contents" and M: "codec_ok M" and same: "same_batches M opened contents s ms"
  shows "same_batches M opened contents (fst (leveldb_write K M w s)) (fst (memory_write w ms)) \<and>
    snd (leveldb_write K M w s) = None \<and> snd (memory_write w ms) = None"
proof -
  have ok: "lbs_ok M opened contents s" "mbs_ok ms" and eq: "lbs_batches M contents s = mbs_batches ms"
    using same by (simp_all add: same_batches_def)
  show ?thesis
  proof (cases w)
    case (Save b)
    show ?thesis using SaveBatch_effect[OF K M ok(1), of b] mbs.save_ok[OF ok(2), of b] mbs.save_contents[OF ok(2), of b] eq
      by (simp add: same_batches_def Save)
  next
    case (DeleteBefore r)
    have "lbs_batches M contents (fst (LevelDBBatchStore_DeleteBatchesBefore K r s)) =
        mbs_batches (fst (MemoryBatchStore_DeleteBatchesBefore r ms))"
      using DeleteBatchesBefore_effect[OF K ok(1), of r] mbs.delete_contents[OF ok(2), of r] eq by (intro fmap_ext) simp
    then show ?thesis using DeleteBatchesBefore_effect[OF K ok(1), of r] mbs.delete_ok[OF ok(2), of r]
      by (simp add: same_batches_def DeleteBefore)
  qed
qed

lemma same_batches_run:
  assumes "kv_ok K opened contents" and "codec_ok M" and "same_batches M opened contents s ms"
  shows "same_batches M opened contents (fold (\<lambda>w s. fst (leveldb_write K M w s)) ws s) (fold (\<lambda>w s. fst (memory_write w s)) ws ms)"
  using assms(3) by (induction ws arbitrary: s ms) (simp_all add: same_batches_step[OF assms(1,2)])

lemma same_batches_reads:
  assumes K: "kv_ok K opened contents" and M: "codec_ok M" and same: "same_batches M opened contents s ms"
  shows "LevelDBBatchStore_GetBatch K M d s = MemoryBatchStore_GetBatch d ms"
    and "LevelDBBatchStore_HasBatch K d s = MemoryBatchStore_HasBatch d ms"
    and "\<exists>xs ys. LevelDBBatchStore_GetBatchesByRound K M r s = Inr xs \<and> MemoryBatchStore_GetBatchesByRound r ms = Inr ys \<and>
      mset xs = mset ys"
proof -
  have ok: "lbs_ok M opened contents s" "mbs_ok ms" and eq: "lbs_batches M contents s = mbs_batches ms"
    using same by (simp_all add: same_batches_def)
  show "LevelDBBatchStore_HasBatch K d s = MemoryBatchStore_HasBatch d ms"
    using GetBatch_view(3)[OF K ok(1), of d] mbs.has_contents[OF ok(2), of d] eq by simp
  have op: "\<not> lbs_closed s" "opened (lbs_db s)" "batch_entries_ok M (contents (lbs_db s))" using ok(1) by (simp_all add: lbs_ok_def)
  show "LevelDBBatchStore_GetBatch K M d s = MemoryBatchStore_GetBatch d ms"
  proof (cases "fmlookup (mbs_batches ms) d")
    case None
    then have "\<not> map_has (contents (lbs_db s)) (makeBatchKey d)"
      using has_view[OF op(3), of d] eq by (simp add: lbs_batches_def map_has_def)
    then show ?thesis using None op(1) ok(2) kv_okD(1)[OF K op(2)]
      by (simp add: LevelDBBatchStore_GetBatch_def MemoryBatchStore_GetBatch_def mbs_ok_def map_has_def)
  next
    case (Some b)
    then show ?thesis using GetBatch_view(1)[OF K ok(1), of d b] mbs.get_contents[OF ok(2), of d b] eq by simp
  qed
  obtain xs ys where r: "LevelDBBatchStore_GetBatchesByRound K M r s = Inr xs" "MemoryBatchStore_GetBatchesByRound r ms = Inr ys"
    and d: "distinct xs" "distinct ys" and "set xs = set ys"
    using GetBatchesByRound_view[OF K ok(1), of r] mbs.by_round_contents[OF ok(2), of r] eq
    by (metis distinct_map subsetI subset_antisym)
  then show "\<exists>xs ys. LevelDBBatchStore_GetBatchesByRound K M r s = Inr xs \<and> MemoryBatchStore_GetBatchesByRound r ms = Inr ys \<and>
      mset xs = mset ys"
    using set_eq_iff_mset_eq_distinct by blast
qed

lemma same_batches_new:
  assumes "NewLevelDBBatchStore K path = Inr s" and "opened (lbs_db s)" and "contents (lbs_db s) = fmempty"
  shows "same_batches M opened contents s NewMemoryBatchStore"
  using assms NewMemoryBatchStore_ok[unfolded NewMemoryBatchStore_def]
  by (auto simp: same_batches_def lbs_ok_def batch_entries_ok_def lbs_batches_def NewLevelDBBatchStore_def
      NewMemoryBatchStore_def lookup_view intro!: fmap_ext split: sum.splits)

text \<open>
  \<^bold>\<open>C35\<close> The LevelDB batch store refines the memory batch store. Over a database that works (\<open>kv_ok\<close>) and a codec
  whose decoder inverts its encoder (\<open>codec_ok\<close>), a store opened on an empty database and a new memory store answer
  the same after the same sequence of saves and deletions: every \<^verbatim>\<open>GetBatch\<close> and \<^verbatim>\<open>HasBatch\<close> returns the same
  value or error, \<^verbatim>\<open>GetBatchesByRound\<close> returns the same batches (in an order that may differ), and the next write
  succeeds on both.
\<close>

theorem leveldb_batch_store_refines_memory:
  assumes "kv_ok K opened contents" and "codec_ok M"
    and "NewLevelDBBatchStore K path = Inr s" and "opened (lbs_db s)" and "contents (lbs_db s) = fmempty"
    and "ls = fold (\<lambda>w s. fst (leveldb_write K M w s)) ws s"
    and "ms = fold (\<lambda>w s. fst (memory_write w s)) ws NewMemoryBatchStore"
  shows "LevelDBBatchStore_GetBatch K M d ls = MemoryBatchStore_GetBatch d ms \<and>
    LevelDBBatchStore_HasBatch K d ls = MemoryBatchStore_HasBatch d ms \<and>
    (\<exists>xs ys. LevelDBBatchStore_GetBatchesByRound K M r ls = Inr xs \<and> MemoryBatchStore_GetBatchesByRound r ms = Inr ys \<and>
      mset xs = mset ys) \<and>
    snd (leveldb_write K M w ls) = None \<and> snd (memory_write w ms) = None"
proof -
  have "same_batches M opened contents s NewMemoryBatchStore" by (rule same_batches_new) (fact assms)+
  then have "same_batches M opened contents ls ms" unfolding assms(6,7) by (rule same_batches_run[OF assms(1,2)])
  then show ?thesis using same_batches_reads[OF assms(1,2)] same_batches_step[OF assms(1,2)] by blast
qed

text \<open>
  A codec for the examples: the fields of fixed size, then each transaction with every byte marked by a 1 and its end
  by a 0.
\<close>

definition encode_txs :: "transaction list \<Rightarrow> byte list" where
  "encode_txs txs = concat (map (\<lambda>tx. concat (map (\<lambda>b. [1, b]) tx) @ [0]) txs)"

fun decode_txs :: "transaction \<Rightarrow> byte list \<Rightarrow> transaction list" where
  "decode_txs tx [] = []"
| "decode_txs tx (t # bs) = (if t = 0 then tx # decode_txs [] bs
     else case bs of [] \<Rightarrow> [] | b # bs' \<Rightarrow> decode_txs (tx @ [b]) bs')"

lemma decode_tx: "decode_txs tx (concat (map (\<lambda>b. [1, b]) ys) @ 0 # bs) = (tx @ ys) # decode_txs [] bs"
  by (induction ys arbitrary: tx) simp_all

lemma decode_encode_txs: "decode_txs [] (encode_txs txs) = txs"
  by (induction txs) (simp_all add: encode_txs_def decode_tx)

definition demo_codec :: "Batch codec" where
  "demo_codec = \<lparr>
     co_Marshal = (\<lambda>b. Inr (be_bytes 2 (b_WorkerID b) @ be_bytes 2 (b_ValidatorID b) @ be_bytes 8 (b_Round b) @
       be_bytes 8 (b_Timestamp b) @ hash_bytes (b_Digest b) @ encode_txs (b_Transactions b))),
     co_Unmarshal = (\<lambda>v. Inr \<lparr>b_WorkerID = be_word (take 2 v), b_ValidatorID = be_word (take 2 (drop 2 v)),
       b_Round = be_word (take 8 (drop 4 v)), b_Transactions = decode_txs [] (drop 52 v),
       b_Digest = copy_hash (drop 20 v), b_Timestamp = be_word (take 8 (drop 12 v))\<rparr>)\<rparr>"

lemma demo_codec_ok: "codec_ok demo_codec"
  by (simp add: codec_ok_def demo_codec_def decode_encode_txs be_word_be_bytes)

definition demo_writes :: "batch_write list" where
  "demo_writes = [Save \<lparr>b_WorkerID = 1, b_ValidatorID = 2, b_Round = 3, b_Transactions = [[1, 2], []], b_Digest = 70, b_Timestamp = 5\<rparr>,
     Save \<lparr>b_WorkerID = 1, b_ValidatorID = 2, b_Round = 6, b_Transactions = [[9]], b_Digest = 71, b_Timestamp = 5\<rparr>,
     DeleteBefore 5]"

text \<open>A store in which one batch was deleted and the other one is still read.\<close>

theorem leveldb_batch_store_refines_memory_witness:
  "\<exists>ls. ls = fold (\<lambda>w s. fst (leveldb_write mem_kv demo_codec w s)) demo_writes \<lparr>lbs_db = fmempty, lbs_closed = False\<rparr> \<and>
    LevelDBBatchStore_GetBatch mem_kv demo_codec 70 ls = Inl ErrBatchNotFound \<and> LevelDBBatchStore_HasBatch mem_kv 71 ls"
proof -
  let ?ls = "fold (\<lambda>w s. fst (leveldb_write mem_kv demo_codec w s)) demo_writes \<lparr>lbs_db = fmempty, lbs_closed = False\<rparr>"
  let ?ms = "fold (\<lambda>w s. fst (memory_write w s)) demo_writes NewMemoryBatchStore"
  have new: "NewLevelDBBatchStore mem_kv ''batches'' = Inr \<lparr>lbs_db = fmempty, lbs_closed = False\<rparr>"
    by (simp add: NewLevelDBBatchStore_def mem_kv_def)
  have ms: "MemoryBatchStore_GetBatch 70 ?ms = Inl ErrBatchNotFound \<and> MemoryBatchStore_HasBatch 71 ?ms" by code_simp
  show ?thesis
    using leveldb_batch_store_refines_memory[where ws = demo_writes and d = 70, OF mem_kv_ok demo_codec_ok new _ _ refl refl]
      leveldb_batch_store_refines_memory[where ws = demo_writes and d = 71, OF mem_kv_ok demo_codec_ok new _ _ refl refl] ms by simp
qed

end
