(* ===== verification/Leveldb_Cert.thy ===== *)
theory Leveldb_Cert
  imports Leveldb_Kv
begin

text \<open>
  The persistent certificate store (\<^verbatim>\<open>store/leveldb_cert.go\<close>) over a database \<open>K\<close> and a codec \<open>M\<close>: what it holds
  after each operation, and where it differs from the in-memory store. The index by round and validator holds one
  digest per key, so the second certificate of an author in a round takes the place of the first.
\<close>

section \<open>Keys\<close>

definition certPrefix :: "byte list" where
  "certPrefix = ascii ''C:''"

definition certRoundPrefix :: "byte list" where
  "certRoundPrefix = ascii ''CR:''"

definition certHighestKey :: "byte list" where
  "certHighestKey = ascii ''CM:highest_round''"

definition makeCertKey :: "hash \<Rightarrow> byte list" where
  "makeCertKey digest = certPrefix @ hash_bytes digest"

definition makeCertRoundPrefix :: "u64 \<Rightarrow> byte list" where
  "makeCertRoundPrefix rnd = certRoundPrefix @ be_bytes 8 rnd"

definition makeCertRoundValidatorKey :: "u64 \<Rightarrow> u16 \<Rightarrow> byte list" where
  "makeCertRoundValidatorKey rnd validator = certRoundPrefix @ be_bytes 8 rnd @ be_bytes 2 validator"

definition parseRoundFromCertKey :: "byte list \<Rightarrow> u64" where
  "parseRoundFromCertKey key =
     (let prefixLen = length certRoundPrefix
      in if length key < prefixLen + 8 then 0 else be_word (take 8 (drop prefixLen key)))"

section \<open>Operations\<close>

record 'db LevelDBCertificateStore =
  lcs_db :: 'db
  lcs_closed :: bool

definition NewLevelDBCertificateStore :: "'db kv \<Rightarrow> string \<Rightarrow> 'db LevelDBCertificateStore result" where
  "NewLevelDBCertificateStore K path =
     (case kv_Open K path of
        Inl e \<Rightarrow> Inl (kv_fail ''failed to open leveldb'' e)
      | Inr db \<Rightarrow> Inr \<lparr>lcs_db = db, lcs_closed = False\<rparr>)"

definition lcs_getHighestRound :: "'db kv \<Rightarrow> 'db LevelDBCertificateStore \<Rightarrow> u64" where
  "lcs_getHighestRound K s =
     (case kv_Get K certHighestKey (lcs_db s) of
        Inl _ \<Rightarrow> 0
      | Inr data \<Rightarrow> if length data < 8 then 0 else be_word (take 8 data))"

definition LevelDBCertificateStore_SaveCertificate ::
  "'db kv \<Rightarrow> Certificate codec \<Rightarrow> Certificate \<Rightarrow> 'db LevelDBCertificateStore \<Rightarrow> 'db LevelDBCertificateStore \<times> err option" where
  "LevelDBCertificateStore_SaveCertificate K M cert s =
     (if lcs_closed s then (s, Some ErrNotRunning)
      else let digest = Certificate_Digest cert; key = makeCertKey digest
      in case kv_Has K key (lcs_db s) of
        (_, Some e) \<Rightarrow> (s, Some (kv_fail ''failed to check certificate existence'' e))
      | (has, None) \<Rightarrow>
          if has then (s, None)
          else case co_Marshal M cert of
            Inl e \<Rightarrow> (s, Some (kv_fail ''failed to encode certificate'' e))
          | Inr data \<Rightarrow>
              (let indexKey = makeCertRoundValidatorKey (Certificate_Round cert) (Certificate_Author cert);
                   wb = [KvPut key data, KvPut indexKey (hash_bytes digest)] @
                     (if Certificate_Round cert > lcs_getHighestRound K s
                      then [KvPut certHighestKey (be_bytes 8 (Certificate_Round cert))] else []);
                   (db, e) = kv_Write K wb (lcs_db s)
               in (s\<lparr>lcs_db := db\<rparr>, map_option (kv_fail ''failed to write certificate'') e)))"

definition LevelDBCertificateStore_GetCertificate ::
  "'db kv \<Rightarrow> Certificate codec \<Rightarrow> hash \<Rightarrow> 'db LevelDBCertificateStore \<Rightarrow> Certificate result" where
  "LevelDBCertificateStore_GetCertificate K M digest s =
     (if lcs_closed s then Inl ErrNotRunning
      else case kv_Get K (makeCertKey digest) (lcs_db s) of
        Inl KvNotFound \<Rightarrow> Inl ErrCertificateNotFound
      | Inl e \<Rightarrow> Inl (kv_fail ''failed to get certificate'' e)
      | Inr data \<Rightarrow> (case co_Unmarshal M data of
            Inl e \<Rightarrow> Inl (kv_fail ''failed to decode certificate'' e)
          | Inr cert \<Rightarrow> Inr cert))"

definition LevelDBCertificateStore_HasCertificate :: "'db kv \<Rightarrow> hash \<Rightarrow> 'db LevelDBCertificateStore \<Rightarrow> bool" where
  "LevelDBCertificateStore_HasCertificate K digest s =
     (if lcs_closed s then False else fst (kv_Has K (makeCertKey digest) (lcs_db s)))"

definition lcs_getCertificateInternal ::
  "'db kv \<Rightarrow> Certificate codec \<Rightarrow> hash \<Rightarrow> 'db LevelDBCertificateStore \<Rightarrow> Certificate result" where
  "lcs_getCertificateInternal K M digest s =
     (case kv_Get K (makeCertKey digest) (lcs_db s) of
        Inl KvNotFound \<Rightarrow> Inl ErrCertificateNotFound
      | Inl e \<Rightarrow> Inl (ErrOther (kv_text e))
      | Inr data \<Rightarrow> (case co_Unmarshal M data of Inl e \<Rightarrow> Inl (ErrOther (kv_text e)) | Inr cert \<Rightarrow> Inr cert))"

definition LevelDBCertificateStore_GetCertificatesByRound ::
  "'db kv \<Rightarrow> Certificate codec \<Rightarrow> u64 \<Rightarrow> 'db LevelDBCertificateStore \<Rightarrow> Certificate list result" where
  "LevelDBCertificateStore_GetCertificatesByRound K M rnd s =
     (if lcs_closed s then Inl ErrNotRunning
      else let (entries, e) = kv_Iter K (makeCertRoundPrefix rnd) (lcs_db s);
               certs = List.map_filter (\<lambda>(_, digestBytes).
                   if length digestBytes \<noteq> 32 then None
                   else case lcs_getCertificateInternal K M (copy_hash digestBytes) s of
                     Inl _ \<Rightarrow> None | Inr cert \<Rightarrow> Some cert) entries
           in case e of Some e \<Rightarrow> Inl (kv_fail ''iteration error'' e) | None \<Rightarrow> Inr certs)"

definition LevelDBCertificateStore_GetCertificateForValidator ::
  "'db kv \<Rightarrow> Certificate codec \<Rightarrow> u64 \<Rightarrow> u16 \<Rightarrow> 'db LevelDBCertificateStore \<Rightarrow> Certificate result" where
  "LevelDBCertificateStore_GetCertificateForValidator K M rnd validator s =
     (if lcs_closed s then Inl ErrNotRunning
      else case kv_Get K (makeCertRoundValidatorKey rnd validator) (lcs_db s) of
        Inl KvNotFound \<Rightarrow> Inl ErrCertificateNotFound
      | Inl e \<Rightarrow> Inl (kv_fail ''failed to get certificate index'' e)
      | Inr digestBytes \<Rightarrow>
          if length digestBytes \<noteq> 32 then Inl ErrCertificateNotFound
          else lcs_getCertificateInternal K M (copy_hash digestBytes) s)"

definition LevelDBCertificateStore_DeleteCertificatesBefore ::
  "'db kv \<Rightarrow> u64 \<Rightarrow> 'db LevelDBCertificateStore \<Rightarrow> 'db LevelDBCertificateStore \<times> err option" where
  "LevelDBCertificateStore_DeleteCertificatesBefore K rnd s =
     (if lcs_closed s then (s, Some ErrNotRunning)
      else let (entries, e) = kv_Iter K certRoundPrefix (lcs_db s);
               toDelete = List.map_filter (\<lambda>(key, digestBytes).
                   if parseRoundFromCertKey key < rnd \<and> length digestBytes = 32
                   then Some (makeCertKey (copy_hash digestBytes), key) else None) entries
           in case e of
                Some e \<Rightarrow> (s, Some (kv_fail ''iteration error'' e))
              | None \<Rightarrow>
                  if length toDelete > 0
                  then let wb = concat (map (\<lambda>(certKey, indexKey). [KvDelete certKey, KvDelete indexKey]) toDelete);
                           (db, e) = kv_Write K wb (lcs_db s)
                       in (s\<lparr>lcs_db := db\<rparr>, map_option (kv_fail ''failed to delete certificates'') e)
                  else (s, None))"

definition LevelDBCertificateStore_Close ::
  "'db kv \<Rightarrow> 'db LevelDBCertificateStore \<Rightarrow> 'db LevelDBCertificateStore \<times> err option" where
  "LevelDBCertificateStore_Close K s =
     (if lcs_closed s then (s, None)
      else let (db, e) = kv_Close K (lcs_db s)
           in (s\<lparr>lcs_closed := True, lcs_db := db\<rparr>, map_option (\<lambda>e. ErrOther (kv_text e)) e))"

definition LevelDBCertificateStore_Len :: "'db kv \<Rightarrow> 'db LevelDBCertificateStore \<Rightarrow> nat" where
  "LevelDBCertificateStore_Len K s = (if lcs_closed s then 0 else length (fst (kv_Iter K certPrefix (lcs_db s))))"

definition LevelDBCertificateStore_HighestRound :: "'db kv \<Rightarrow> 'db LevelDBCertificateStore \<Rightarrow> u64" where
  "LevelDBCertificateStore_HighestRound K s = lcs_getHighestRound K s"

section \<open>Keys do not overlap\<close>

lemma cert_prefixes:
  "certPrefix = [67, 58]" "certRoundPrefix = [67, 82, 58]" "take 2 certHighestKey = [67, 77]"
  by code_simp+

lemma cert_key_heads:
  "take 2 (makeCertKey d) = [67, 58]" "take 2 (makeCertRoundValidatorKey r a) = [67, 82]" "take 2 (makeCertRoundPrefix r) = [67, 82]"
  by (simp_all add: makeCertKey_def makeCertRoundValidatorKey_def makeCertRoundPrefix_def cert_prefixes)

lemma cert_keys_distinct [simp]:
  "makeCertKey d \<noteq> makeCertRoundValidatorKey r a" "makeCertRoundValidatorKey r a \<noteq> makeCertKey d"
  "certHighestKey \<noteq> makeCertKey d" "certHighestKey \<noteq> makeCertRoundValidatorKey r a"
  "makeCertKey d \<noteq> certHighestKey" "makeCertRoundValidatorKey r a \<noteq> certHighestKey"
proof -
  have "[67, 58] \<noteq> ([67, 82] :: byte list)" "[67, 77] \<noteq> ([67, 58] :: byte list)" "[67, 77] \<noteq> ([67, 82] :: byte list)" by simp_all
  then show "makeCertKey d \<noteq> makeCertRoundValidatorKey r a" "makeCertRoundValidatorKey r a \<noteq> makeCertKey d"
    "certHighestKey \<noteq> makeCertKey d" "certHighestKey \<noteq> makeCertRoundValidatorKey r a"
    "makeCertKey d \<noteq> certHighestKey" "makeCertRoundValidatorKey r a \<noteq> certHighestKey"
    by (metis cert_key_heads(1,2) cert_prefixes(3))+
qed

lemma cert_keys [simp]:
  "makeCertKey d = makeCertKey e \<longleftrightarrow> d = e"
  "makeCertRoundValidatorKey r a = makeCertRoundValidatorKey q b \<longleftrightarrow> r = q \<and> a = b"
  by (simp_all add: makeCertKey_def makeCertRoundValidatorKey_def)

lemma cert_round_prefix [simp]:
  "prefix (makeCertRoundPrefix r) (makeCertRoundValidatorKey q a) \<longleftrightarrow> r = q"
  "prefix certRoundPrefix (makeCertRoundValidatorKey q a)"
  "prefix certRoundPrefix (makeCertRoundPrefix r)"
  "\<not> prefix certRoundPrefix (makeCertKey d)" "\<not> prefix certRoundPrefix certHighestKey"
proof -
  have "r = q" if "prefix (be_bytes 8 r) (be_bytes 8 q @ be_bytes 2 a)"
    using that by (auto simp: prefix_def append_eq_append_conv)
  then show "prefix (makeCertRoundPrefix r) (makeCertRoundValidatorKey q a) \<longleftrightarrow> r = q"
    by (auto simp: makeCertRoundPrefix_def makeCertRoundValidatorKey_def cert_prefixes)
  have "take 2 k = [67, 82]" if "prefix certRoundPrefix k" for k
    using that by (auto simp: prefix_def cert_prefixes)
  moreover have "[67, 58] \<noteq> ([67, 82] :: byte list)" "[67, 77] \<noteq> ([67, 82] :: byte list)" by simp_all
  ultimately show "\<not> prefix certRoundPrefix (makeCertKey d)" "\<not> prefix certRoundPrefix certHighestKey"
    by (metis cert_key_heads(1) cert_prefixes(3))+
qed (simp_all add: makeCertRoundPrefix_def makeCertRoundValidatorKey_def)

lemma parse_cert_key [simp]: "parseRoundFromCertKey (makeCertRoundValidatorKey r a) = r"
  by (simp add: parseRoundFromCertKey_def makeCertRoundValidatorKey_def cert_prefixes Let_def)

section \<open>What the store holds\<close>

text \<open>The stored certificates by digest, and the digest in the index for a round and a validator.\<close>

definition db_certs :: "Certificate codec \<Rightarrow> (byte list, byte list) fmap \<Rightarrow> (hash, Certificate) fmap" where
  "db_certs M m = kv_view certPrefix (co_Unmarshal M) m"

definition db_index :: "(byte list, byte list) fmap \<Rightarrow> u64 \<Rightarrow> u16 \<Rightarrow> hash option" where
  "db_index m r a = map_option copy_hash (fmlookup m (makeCertRoundValidatorKey r a))"

text \<open>
  The invariant: a stored certificate has its digest, an entry of the index names a stored certificate of that round
  and author, and nothing else is under the prefix of the index.
\<close>

definition cert_entries_ok :: "Certificate codec \<Rightarrow> (byte list, byte list) fmap \<Rightarrow> bool" where
  "cert_entries_ok M m \<longleftrightarrow>
     (\<forall>d v. fmlookup m (makeCertKey d) = Some v \<longrightarrow> (\<exists>c. co_Unmarshal M v = Inr c \<and> Certificate_Digest c = d)) \<and>
     (\<forall>r a v. fmlookup m (makeCertRoundValidatorKey r a) = Some v \<longrightarrow> (\<exists>d c. v = hash_bytes d \<and>
        fmlookup (db_certs M m) d = Some c \<and> Certificate_Round c = r \<and> Certificate_Author c = a)) \<and>
     (\<forall>k. map_has m k \<longrightarrow> prefix certRoundPrefix k \<longrightarrow> (\<exists>r a. k = makeCertRoundValidatorKey r a))"

definition lcs_ok :: "Certificate codec \<Rightarrow> ('db \<Rightarrow> bool) \<Rightarrow> ('db \<Rightarrow> (byte list, byte list) fmap) \<Rightarrow> 'db LevelDBCertificateStore \<Rightarrow> bool" where
  "lcs_ok M opened contents s \<longleftrightarrow> \<not> lcs_closed s \<and> opened (lcs_db s) \<and> cert_entries_ok M (contents (lcs_db s))"

abbreviation lcs_certs :: "Certificate codec \<Rightarrow> ('db \<Rightarrow> (byte list, byte list) fmap) \<Rightarrow> 'db LevelDBCertificateStore \<Rightarrow> (hash, Certificate) fmap" where
  "lcs_certs M contents s \<equiv> db_certs M (contents (lcs_db s))"

abbreviation lcs_index :: "('db \<Rightarrow> (byte list, byte list) fmap) \<Rightarrow> 'db LevelDBCertificateStore \<Rightarrow> u64 \<Rightarrow> u16 \<Rightarrow> hash option" where
  "lcs_index contents s \<equiv> db_index (contents (lcs_db s))"

lemma lookup_certs: "fmlookup (db_certs M m) d =
    (case fmlookup m (makeCertKey d) of None \<Rightarrow> None | Some v \<Rightarrow> (case co_Unmarshal M v of Inl _ \<Rightarrow> None | Inr c \<Rightarrow> Some c))"
  by (simp add: fmlookup_kv_view db_certs_def makeCertKey_def)

lemma lcs_okD:
  assumes "lcs_ok M opened contents s"
  shows "\<not> lcs_closed s" "opened (lcs_db s)" "cert_entries_ok M (contents (lcs_db s))"
  using assms by (simp_all add: lcs_ok_def)

lemma cert_entries_certs:
  assumes "cert_entries_ok M m"
  shows "map_has (db_certs M m) d \<longleftrightarrow> map_has m (makeCertKey d)"
    "fmlookup (db_certs M m) d = Some c \<Longrightarrow> Certificate_Digest c = d"
proof -
  have "\<exists>c. co_Unmarshal M v = Inr c \<and> Certificate_Digest c = d" if "fmlookup m (makeCertKey d) = Some v" for v
    using assms that unfolding cert_entries_ok_def by blast
  then show "map_has (db_certs M m) d \<longleftrightarrow> map_has m (makeCertKey d)"
    "fmlookup (db_certs M m) d = Some c \<Longrightarrow> Certificate_Digest c = d"
    by (auto simp: map_has_def lookup_certs split: option.splits sum.splits)
qed

lemma cert_entries_index:
  assumes "cert_entries_ok M m"
  shows "fmlookup m (makeCertRoundValidatorKey r a) = map_option hash_bytes (db_index m r a)"
    "db_index m r a = Some d \<Longrightarrow> \<exists>c. fmlookup (db_certs M m) d = Some c \<and> Certificate_Round c = r \<and> Certificate_Author c = a"
proof -
  have "\<exists>d c. v = hash_bytes d \<and> fmlookup (db_certs M m) d = Some c \<and> Certificate_Round c = r \<and> Certificate_Author c = a"
    if "fmlookup m (makeCertRoundValidatorKey r a) = Some v" for v
    using assms that unfolding cert_entries_ok_def by blast
  then show "fmlookup m (makeCertRoundValidatorKey r a) = map_option hash_bytes (db_index m r a)"
    "db_index m r a = Some d \<Longrightarrow> \<exists>c. fmlookup (db_certs M m) d = Some c \<and> Certificate_Round c = r \<and> Certificate_Author c = a"
    by (auto simp: db_index_def map_option_case split: option.splits)
qed

text \<open>The invariant in terms of the two views.\<close>

lemma cert_entriesI:
  assumes "\<And>d v. fmlookup m (makeCertKey d) = Some v \<Longrightarrow> \<exists>c. co_Unmarshal M v = Inr c \<and> Certificate_Digest c = d"
    and "\<And>r a v. fmlookup m (makeCertRoundValidatorKey r a) = Some v \<Longrightarrow> \<exists>d. v = hash_bytes d"
    and "\<And>r a d. db_index m r a = Some d \<Longrightarrow> \<exists>c. fmlookup (db_certs M m) d = Some c \<and> Certificate_Round c = r \<and> Certificate_Author c = a"
    and "\<And>k. map_has m k \<Longrightarrow> prefix certRoundPrefix k \<Longrightarrow> \<exists>r a. k = makeCertRoundValidatorKey r a"
  shows "cert_entries_ok M m"
  unfolding cert_entries_ok_def
proof (intro conjI allI impI)
  fix r a v
  assume v: "fmlookup m (makeCertRoundValidatorKey r a) = Some v"
  then obtain d where d: "v = hash_bytes d" using assms(2) by blast
  then have "db_index m r a = Some d" using v by (simp add: db_index_def)
  then show "\<exists>d c. v = hash_bytes d \<and> fmlookup (db_certs M m) d = Some c \<and> Certificate_Round c = r \<and> Certificate_Author c = a"
    using assms(3) d by blast
qed (use assms(1,4) in blast)+

subsection \<open>Saving\<close>

definition cert_saved :: "Certificate \<Rightarrow> byte list \<Rightarrow> (byte list, byte list) fmap \<Rightarrow> (byte list, byte list) fmap" where
  "cert_saved c data m = fmupd (makeCertRoundValidatorKey (Certificate_Round c) (Certificate_Author c)) (hash_bytes (Certificate_Digest c))
     (fmupd (makeCertKey (Certificate_Digest c)) data m)"

lemma cert_saved_views:
  assumes "co_Unmarshal M data = Inr c"
  shows "db_certs M (cert_saved c data m) = fmupd (Certificate_Digest c) c (db_certs M m)"
    "db_index (cert_saved c data m) r a =
      (if r = Certificate_Round c \<and> a = Certificate_Author c then Some (Certificate_Digest c) else db_index m r a)"
    "db_certs M (fmupd certHighestKey h m') = db_certs M m'" "db_index (fmupd certHighestKey h m') = db_index m'"
  using assms by (auto intro!: fmap_ext ext simp: lookup_certs db_index_def cert_saved_def)

lemma cert_saved_ok:
  assumes ok: "cert_entries_ok M m" and data: "co_Unmarshal M data = Inr c" and new: "\<not> map_has m (makeCertKey (Certificate_Digest c))"
  shows "cert_entries_ok M (cert_saved c data m)"
proof (rule cert_entriesI)
  fix r a d
  assume "db_index (cert_saved c data m) r a = Some d"
  moreover have "fmlookup (db_certs M m) (Certificate_Digest c) = None" using new by (simp add: map_has_def lookup_certs)
  ultimately show "\<exists>c'. fmlookup (db_certs M (cert_saved c data m)) d = Some c' \<and> Certificate_Round c' = r \<and> Certificate_Author c' = a"
    using cert_entries_index(2)[OF ok, of r a d] unfolding cert_saved_views[OF data] by (auto split: if_splits)
next
  fix r a v
  assume "fmlookup (cert_saved c data m) (makeCertRoundValidatorKey r a) = Some v"
  then show "\<exists>d. v = hash_bytes d"
    using cert_entries_index(1)[OF ok, of r a] by (auto simp: cert_saved_def split: if_splits)
qed (use ok data in \<open>auto simp: cert_saved_def cert_entries_ok_def split: if_splits\<close>)

lemma cert_highest_ok: "cert_entries_ok M m \<Longrightarrow> cert_entries_ok M (fmupd certHighestKey h m)"
  unfolding cert_entries_ok_def by (auto simp: lookup_certs)

lemma SaveCertificate_effect:
  assumes K: "kv_ok K opened contents" and M: "codec_ok M" and s: "lcs_ok M opened contents s"
    and s': "s' = fst (LevelDBCertificateStore_SaveCertificate K M c s)"
  shows "lcs_ok M opened contents s' \<and> snd (LevelDBCertificateStore_SaveCertificate K M c s) = None \<and>
    (if map_has (lcs_certs M contents s) (Certificate_Digest c) then s' = s
     else lcs_certs M contents s' = fmupd (Certificate_Digest c) c (lcs_certs M contents s) \<and>
       (\<forall>r a. lcs_index contents s' r a =
         (if r = Certificate_Round c \<and> a = Certificate_Author c then Some (Certificate_Digest c) else lcs_index contents s r a)))"
proof -
  let ?m = "contents (lcs_db s)"
  note op = lcs_okD[OF s]
  note kv = kv_okD[OF K op(2)] and has = cert_entries_certs(1)[OF op(3), of "Certificate_Digest c"]
  show ?thesis
  proof (cases "map_has ?m (makeCertKey (Certificate_Digest c))")
    case True
    then show ?thesis using op(1) s s' has kv(2) by (simp add: LevelDBCertificateStore_SaveCertificate_def Let_def)
  next
    case False
    obtain data where data: "co_Marshal M c = Inr data" "co_Unmarshal M data = Inr c" using codec_okD[OF M] by blast
    let ?wb = "[KvPut (makeCertKey (Certificate_Digest c)) data,
        KvPut (makeCertRoundValidatorKey (Certificate_Round c) (Certificate_Author c)) (hash_bytes (Certificate_Digest c))] @
      (if Certificate_Round c > lcs_getHighestRound K s then [KvPut certHighestKey (be_bytes 8 (Certificate_Round c))] else [])"
    have res: "LevelDBCertificateStore_SaveCertificate K M c s = (s\<lparr>lcs_db := fst (kv_Write K ?wb (lcs_db s))\<rparr>, None)"
      using op False kv(2) data kv(4)[of ?wb] by (simp add: LevelDBCertificateStore_SaveCertificate_def Let_def case_prod_unfold)
    have m': "contents (fst (kv_Write K ?wb (lcs_db s))) \<in>
        {cert_saved c data ?m, fmupd certHighestKey (be_bytes 8 (Certificate_Round c)) (cert_saved c data ?m)}"
      unfolding kv(5) by (simp add: cert_saved_def)
    have ok: "cert_entries_ok M (contents (fst (kv_Write K ?wb (lcs_db s))))"
      using m' cert_saved_ok[OF op(3) data(2) False] cert_highest_ok by fastforce
    show ?thesis using res s' m' op has False ok cert_saved_views[OF data(2)] kv(3)[of ?wb]
      by (auto simp: lcs_ok_def)
  qed
qed

subsection \<open>Reading\<close>

lemma cert_reads:
  assumes K: "kv_ok K opened contents" and s: "lcs_ok M opened contents s"
  shows "LevelDBCertificateStore_GetCertificate K M d s =
      (case fmlookup (lcs_certs M contents s) d of None \<Rightarrow> Inl ErrCertificateNotFound | Some c \<Rightarrow> Inr c)" (is ?get)
    and "LevelDBCertificateStore_HasCertificate K d s \<longleftrightarrow> map_has (lcs_certs M contents s) d" (is ?has)
    and "lcs_getCertificateInternal K M d s =
      (case fmlookup (lcs_certs M contents s) d of None \<Rightarrow> Inl ErrCertificateNotFound | Some c \<Rightarrow> Inr c)" (is ?int)
    and "LevelDBCertificateStore_GetCertificateForValidator K M r a s =
      (case lcs_index contents s r a of None \<Rightarrow> Inl ErrCertificateNotFound
       | Some d \<Rightarrow> Inr (the (fmlookup (lcs_certs M contents s) d)))" (is ?forv)
proof -
  note op = lcs_okD[OF s]
  note kv = kv_okD[OF K op(2)]
  have dec: "\<exists>c. co_Unmarshal M v = Inr c" if "fmlookup (contents (lcs_db s)) (makeCertKey d) = Some v" for d v
    using op(3) that unfolding cert_entries_ok_def by blast
  show ?get using op(1) dec[of d] by (auto simp: LevelDBCertificateStore_GetCertificate_def lookup_certs kv(1) split: option.splits)
  have int: "lcs_getCertificateInternal K M d s =
      (case fmlookup (lcs_certs M contents s) d of None \<Rightarrow> Inl ErrCertificateNotFound | Some c \<Rightarrow> Inr c)" for d
    using dec[of d] by (auto simp: lcs_getCertificateInternal_def lookup_certs kv(1) split: option.splits)
  show ?int by (rule int)
  show ?has using op(1) cert_entries_certs(1)[OF op(3)] by (simp add: LevelDBCertificateStore_HasCertificate_def kv(2))
  show ?forv using op(1) cert_entries_index[OF op(3), of r a]
    by (auto simp: LevelDBCertificateStore_GetCertificateForValidator_def kv(1) int split: option.splits)
qed

text \<open>A round lists what its index names, and only that.\<close>

lemma GetCertificatesByRound_view:
  assumes K: "kv_ok K opened contents" and s: "lcs_ok M opened contents s"
  shows "\<exists>xs. LevelDBCertificateStore_GetCertificatesByRound K M r s = Inr xs \<and> distinct (map Certificate_Author xs) \<and>
    (\<forall>c. c \<in> set xs \<longleftrightarrow> fmlookup (lcs_certs M contents s) (Certificate_Digest c) = Some c \<and>
       lcs_index contents s r (Certificate_Author c) = Some (Certificate_Digest c))"
proof -
  let ?m = "contents (lcs_db s)" and ?es = "fst (kv_Iter K (makeCertRoundPrefix r) (lcs_db s))"
  let ?f = "\<lambda>(_ :: byte list, digestBytes). if length digestBytes \<noteq> 32 then None
    else case lcs_getCertificateInternal K M (copy_hash digestBytes) s of Inl _ \<Rightarrow> None | Inr cert \<Rightarrow> Some cert"
  note op = lcs_okD[OF s]
  note kv = kv_okD[OF K op(2)] and int = cert_reads(3)[OF K s]
  have entry: "(k, v) \<in> set ?es \<longleftrightarrow> (\<exists>a d. k = makeCertRoundValidatorKey r a \<and> db_index ?m r a = Some d \<and> v = hash_bytes d)" for k v
  proof
    assume "(k, v) \<in> set ?es"
    then have k: "fmlookup ?m k = Some v" "map_has ?m k" "prefix (makeCertRoundPrefix r) k" using kv(8) by (simp_all add: map_has_def)
    moreover from k(3) have "prefix certRoundPrefix k" using cert_round_prefix(3) prefix_order.order_trans by blast
    ultimately obtain a where "k = makeCertRoundValidatorKey r a"
      using op(3) cert_round_prefix(1) unfolding cert_entries_ok_def by metis
    then show "\<exists>a d. k = makeCertRoundValidatorKey r a \<and> db_index ?m r a = Some d \<and> v = hash_bytes d"
      using k(1) cert_entries_index(1)[OF op(3), of r a] by auto
  next
    assume "\<exists>a d. k = makeCertRoundValidatorKey r a \<and> db_index ?m r a = Some d \<and> v = hash_bytes d"
    then show "(k, v) \<in> set ?es" unfolding kv(8) using cert_entries_index(1)[OF op(3)] by auto
  qed
  have f: "?f (k, hash_bytes d) = fmlookup (db_certs M ?m) d" for k d by (simp add: int split: option.split)
  have res: "LevelDBCertificateStore_GetCertificatesByRound K M r s = Inr (List.map_filter ?f ?es)"
    using op(1) kv(6) by (simp add: LevelDBCertificateStore_GetCertificatesByRound_def Let_def case_prod_unfold)
  have mem: "c \<in> set (List.map_filter ?f ?es) \<longleftrightarrow> (\<exists>a d. db_index ?m r a = Some d \<and> fmlookup (db_certs M ?m) d = Some c)" for c
  proof -
    have "c \<in> set (List.map_filter ?f ?es) \<longleftrightarrow> (\<exists>k v. (k, v) \<in> set ?es \<and> ?f (k, v) = Some c)"
      by (rule map_filter_entries)
    also have "\<dots> \<longleftrightarrow> (\<exists>a d. db_index ?m r a = Some d \<and> ?f (makeCertRoundValidatorKey r a, hash_bytes d) = Some c)"
      unfolding entry by blast
    finally show ?thesis unfolding f .
  qed
  have "distinct (map Certificate_Author (List.map_filter ?f ?es))"
  proof (rule distinct_entries[where g = "makeCertRoundValidatorKey r"])
    fix e c
    assume "e \<in> set ?es" and fe: "?f e = Some c"
    then obtain a d where e: "e = (makeCertRoundValidatorKey r a, hash_bytes d)" "db_index ?m r a = Some d"
      using entry[of "fst e" "snd e"] by (metis prod.collapse)
    have "fmlookup (db_certs M ?m) d = Some c" using fe unfolding e(1) f .
    then show "fst e = makeCertRoundValidatorKey r (Certificate_Author c)" using cert_entries_index(2)[OF op(3) e(2)] e(1) by auto
  qed (rule kv(7))
  moreover have "c \<in> set (List.map_filter ?f ?es) \<longleftrightarrow> fmlookup (db_certs M ?m) (Certificate_Digest c) = Some c \<and>
      db_index ?m r (Certificate_Author c) = Some (Certificate_Digest c)" for c
    unfolding mem using cert_entries_certs(2)[OF op(3)] cert_entries_index(2)[OF op(3)] by (metis option.inject)
  ultimately show ?thesis using res by blast
qed

subsection \<open>Deleting\<close>

text \<open>The deletion goes by the index: it removes the entries below the round and the certificates that they name.\<close>

lemma cert_deleted_ok:
  assumes ok: "cert_entries_ok M m"
    and D: "\<And>r a. makeCertRoundValidatorKey r a \<in> D \<longleftrightarrow> r < rnd \<and> db_index m r a \<noteq> None"
    and D': "\<And>d. makeCertKey d \<in> D \<longleftrightarrow> (\<exists>r<rnd. \<exists>a. db_index m r a = Some d)"
    and m': "\<And>k. fmlookup m' k = (if k \<in> D then None else fmlookup m k)"
  shows "cert_entries_ok M m'"
    and "fmlookup (db_certs M m') d = (if \<exists>r<rnd. \<exists>a. db_index m r a = Some d then None else fmlookup (db_certs M m) d)"
    and "db_index m' r a = (if r < rnd then None else db_index m r a)"
proof -
  have certs: "fmlookup (db_certs M m') d = (if \<exists>r<rnd. \<exists>a. db_index m r a = Some d then None else fmlookup (db_certs M m) d)" for d
    by (cases "\<exists>r<rnd. \<exists>a. db_index m r a = Some d") (simp_all only: lookup_certs m' D' if_True if_False option.case)
  have idx: "db_index m' r a = (if r < rnd then None else db_index m r a)" for r a
    using D[of r a] by (auto simp: db_index_def m')
  show "fmlookup (db_certs M m') d = (if \<exists>r<rnd. \<exists>a. db_index m r a = Some d then None else fmlookup (db_certs M m) d)"
    "db_index m' r a = (if r < rnd then None else db_index m r a)" by (rule certs, rule idx)
  show "cert_entries_ok M m'"
  proof (rule cert_entriesI)
    fix r a d
    assume "db_index m' r a = Some d"
    then have r: "\<not> r < rnd" and i: "db_index m r a = Some d" by (simp_all add: idx split: if_splits)
    from cert_entries_index(2)[OF ok i] obtain c
      where c: "fmlookup (db_certs M m) d = Some c" "Certificate_Round c = r" "Certificate_Author c = a" by blast
    have "\<not> (\<exists>q<rnd. \<exists>b. db_index m q b = Some d)" using cert_entries_index(2)[OF ok] c r by fastforce
    then show "\<exists>c. fmlookup (db_certs M m') d = Some c \<and> Certificate_Round c = r \<and> Certificate_Author c = a" using c certs by simp
  next
    fix r a v
    assume "fmlookup m' (makeCertRoundValidatorKey r a) = Some v"
    then show "\<exists>d. v = hash_bytes d" using cert_entries_index(1)[OF ok, of r a]
      by (cases "db_index m r a") (auto simp: m' split: if_splits)
  qed (use ok in \<open>auto simp: m' map_has_def cert_entries_ok_def split: if_splits\<close>)
qed

lemma DeleteCertificatesBefore_effect:
  assumes K: "kv_ok K opened contents" and s: "lcs_ok M opened contents s"
    and s': "s' = fst (LevelDBCertificateStore_DeleteCertificatesBefore K rnd s)"
  shows "lcs_ok M opened contents s' \<and> snd (LevelDBCertificateStore_DeleteCertificatesBefore K rnd s) = None \<and>
    (\<forall>d. fmlookup (lcs_certs M contents s') d =
       (if \<exists>r<rnd. \<exists>a. lcs_index contents s r a = Some d then None else fmlookup (lcs_certs M contents s) d)) \<and>
    (\<forall>r a. lcs_index contents s' r a = (if r < rnd then None else lcs_index contents s r a))"
proof -
  let ?m = "contents (lcs_db s)" and ?es = "fst (kv_Iter K certRoundPrefix (lcs_db s))"
  let ?f = "\<lambda>(key, digestBytes). if parseRoundFromCertKey key < rnd \<and> length digestBytes = 32
    then Some (makeCertKey (copy_hash digestBytes), key) else None"
  let ?td = "List.map_filter ?f ?es"
  let ?ks = "concat (map (\<lambda>(a, b). [a, b]) ?td)"
  let ?wb = "concat (map (\<lambda>(certKey, indexKey). [KvDelete certKey, KvDelete indexKey]) ?td)"
  note op = lcs_okD[OF s]
  note kv = kv_okD[OF K op(2)]
  let ?s = "if ?td = [] then s else s\<lparr>lcs_db := fst (kv_Write K ?wb (lcs_db s))\<rparr>"
  have res: "LevelDBCertificateStore_DeleteCertificatesBefore K rnd s = (?s, None)"
    using op(1) kv(4)[of ?wb] kv(6) by (simp add: LevelDBCertificateStore_DeleteCertificatesBefore_def Let_def case_prod_unfold)
  have wb: "?wb = map KvDelete ?ks" by (simp add: map_concat comp_def case_prod_unfold)
  have m': "fmlookup (contents (lcs_db ?s)) k = (if k \<in> set ?ks then None else fmlookup ?m k)" for k
    using fold_deletes[of ?ks ?m k] unfolding wb[symmetric] by (cases "?td = []") (simp_all add: kv(5))
  have entry: "(k, v) \<in> set ?es \<longleftrightarrow> (\<exists>r a d. k = makeCertRoundValidatorKey r a \<and> db_index ?m r a = Some d \<and> v = hash_bytes d)" for k v
  proof
    assume "(k, v) \<in> set ?es"
    then have k: "fmlookup ?m k = Some v" "map_has ?m k" "prefix certRoundPrefix k" using kv(8) by (simp_all add: map_has_def)
    then obtain r a where "k = makeCertRoundValidatorKey r a" using op(3) unfolding cert_entries_ok_def by metis
    then show "\<exists>r a d. k = makeCertRoundValidatorKey r a \<and> db_index ?m r a = Some d \<and> v = hash_bytes d"
      using k(1) cert_entries_index(1)[OF op(3), of r a] by auto
  next
    assume "\<exists>r a d. k = makeCertRoundValidatorKey r a \<and> db_index ?m r a = Some d \<and> v = hash_bytes d"
    then show "(k, v) \<in> set ?es" unfolding kv(8) using cert_entries_index(1)[OF op(3)] by auto
  qed
  have td: "(x, k) \<in> set ?td \<longleftrightarrow> (\<exists>r a d. r < rnd \<and> db_index ?m r a = Some d \<and> x = makeCertKey d \<and> k = makeCertRoundValidatorKey r a)" for x k
  proof -
    have "(x, k) \<in> set ?td \<longleftrightarrow> (\<exists>k' v. (k', v) \<in> set ?es \<and> ?f (k', v) = Some (x, k))"
      by (rule map_filter_entries)
    also have "\<dots> \<longleftrightarrow> (\<exists>r a d. db_index ?m r a = Some d \<and> ?f (makeCertRoundValidatorKey r a, hash_bytes d) = Some (x, k))"
      unfolding entry by blast
    finally show ?thesis by auto
  qed
  have ks: "k \<in> set ?ks \<longleftrightarrow> (\<exists>r a d. r < rnd \<and> db_index ?m r a = Some d \<and> (k = makeCertKey d \<or> k = makeCertRoundValidatorKey r a))" for k
    using td by (auto 0 4)
  have D: "makeCertRoundValidatorKey r a \<in> set ?ks \<longleftrightarrow> r < rnd \<and> db_index ?m r a \<noteq> None"
    "makeCertKey d \<in> set ?ks \<longleftrightarrow> (\<exists>r<rnd. \<exists>a. db_index ?m r a = Some d)" for r a d
    unfolding ks by auto
  show ?thesis using cert_deleted_ok[OF op(3) D m'] op kv(3)[of ?wb] s' unfolding res by (simp add: lcs_ok_def)
qed

section \<open>Sequences of writes\<close>

datatype cert_write = SaveCert Certificate | DeleteCertsBefore u64

fun leveldb_cert_write ::
  "'db kv \<Rightarrow> Certificate codec \<Rightarrow> cert_write \<Rightarrow> 'db LevelDBCertificateStore \<Rightarrow> 'db LevelDBCertificateStore \<times> err option" where
  "leveldb_cert_write K M (SaveCert c) s = LevelDBCertificateStore_SaveCertificate K M c s"
| "leveldb_cert_write K M (DeleteCertsBefore r) s = LevelDBCertificateStore_DeleteCertificatesBefore K r s"

fun memory_cert_write :: "cert_write \<Rightarrow> MemoryCertificateStore \<Rightarrow> MemoryCertificateStore \<times> err option" where
  "memory_cert_write (SaveCert c) s = MemoryCertificateStore_SaveCertificate c s"
| "memory_cert_write (DeleteCertsBefore r) s = MemoryCertificateStore_DeleteCertificatesBefore r s"

subsection \<open>A certificate that lost its index entry\<close>

definition unindexed :: "Certificate codec \<Rightarrow> ('db \<Rightarrow> bool) \<Rightarrow> ('db \<Rightarrow> (byte list, byte list) fmap) \<Rightarrow> Certificate \<Rightarrow>
    'db LevelDBCertificateStore \<Rightarrow> bool" where
  "unindexed M opened contents c s \<longleftrightarrow> lcs_ok M opened contents s \<and>
     fmlookup (lcs_certs M contents s) (Certificate_Digest c) = Some c \<and>
     (\<forall>r a. lcs_index contents s r a \<noteq> Some (Certificate_Digest c))"

lemma unindexed_step:
  assumes K: "kv_ok K opened contents" and M: "codec_ok M" and u: "unindexed M opened contents c s"
  shows "unindexed M opened contents c (fst (leveldb_cert_write K M w s))"
proof (cases w)
  case (SaveCert x)
  have ok: "lcs_ok M opened contents s" using u by (simp add: unindexed_def)
  show ?thesis using SaveCertificate_effect[OF K M ok refl, of x] u
    by (auto simp: SaveCert unindexed_def map_has_def split: if_splits)
next
  case (DeleteCertsBefore r)
  have ok: "lcs_ok M opened contents s" using u by (simp add: unindexed_def)
  show ?thesis using DeleteCertificatesBefore_effect[OF K ok refl, of r] u
    by (auto simp: DeleteCertsBefore unindexed_def split: if_splits)
qed

lemma unindexed_run:
  assumes "kv_ok K opened contents" and "codec_ok M" and "unindexed M opened contents c s"
  shows "unindexed M opened contents c (fold (\<lambda>w s. fst (leveldb_cert_write K M w s)) ws s)"
  using assms(3) by (induction ws arbitrary: s) (simp_all add: unindexed_step[OF assms(1,2)])

lemma overwrite_unindexes:
  assumes K: "kv_ok K opened contents" and M: "codec_ok M" and s: "lcs_ok M opened contents s"
    and c: "fmlookup (lcs_certs M contents s) d = Some c" and new: "\<not> map_has (lcs_certs M contents s) (Certificate_Digest c')"
    and same: "Certificate_Round c' = Certificate_Round c" "Certificate_Author c' = Certificate_Author c"
  shows "unindexed M opened contents c (fst (LevelDBCertificateStore_SaveCertificate K M c' s))"
proof -
  have d: "Certificate_Digest c = d" using cert_entries_certs(2)[OF lcs_okD(3)[OF s] c] .
  have "r = Certificate_Round c \<and> a = Certificate_Author c" if "lcs_index contents s r a = Some d" for r a
    using cert_entries_index(2)[OF lcs_okD(3)[OF s] that] c by auto
  then show ?thesis using SaveCertificate_effect[OF K M s refl, of c'] new c d same
    by (auto simp: unindexed_def map_has_def)
qed

text \<open>
  \<^bold>\<open>C37\<close> The second certificate of an author in a round hides the first one for good. Let the LevelDB store hold a
  certificate and save another one with a different digest for the same round and author. From then on, after every
  sequence of saves and deletions, at whatever round, the first certificate is still stored and still returned by
  \<^verbatim>\<open>GetCertificate\<close>, no list of a round contains it, and the lookup by round and validator never returns it.
  \<^verbatim>\<open>DeleteCertificatesBefore\<close> therefore never frees it, while the in-memory store deletes it with its round.
\<close>

theorem overwritten_certificate_never_deleted:
  assumes "kv_ok K opened contents" and "codec_ok M" and "lcs_ok M opened contents s"
    and "LevelDBCertificateStore_GetCertificate K M d s = Inr c"
    and "\<not> LevelDBCertificateStore_HasCertificate K (Certificate_Digest c') s"
    and "Certificate_Round c' = Certificate_Round c" and "Certificate_Author c' = Certificate_Author c"
    and "s' = fold (\<lambda>w s. fst (leveldb_cert_write K M w s)) ws (fst (LevelDBCertificateStore_SaveCertificate K M c' s))"
  shows "LevelDBCertificateStore_GetCertificate K M d s' = Inr c \<and>
    (\<exists>xs. LevelDBCertificateStore_GetCertificatesByRound K M r s' = Inr xs \<and> c \<notin> set xs) \<and>
    LevelDBCertificateStore_GetCertificateForValidator K M r a s' \<noteq> Inr c"
proof -
  have c: "fmlookup (lcs_certs M contents s) d = Some c"
    using assms(4) cert_reads(1)[OF assms(1,3), of d] by (simp split: option.splits)
  then have d: "Certificate_Digest c = d" using cert_entries_certs(2) lcs_okD(3)[OF assms(3)] by blast
  have u: "unindexed M opened contents c s'" unfolding assms(8)
    using assms(5) cert_reads(2)[OF assms(1,3)]
    by (intro unindexed_run[OF assms(1,2)] overwrite_unindexes[OF assms(1-3) c]) (simp_all add: assms(6,7))
  then have ok: "lcs_ok M opened contents s'" and i: "\<And>r a. lcs_index contents s' r a \<noteq> Some d"
    by (simp_all add: unindexed_def d)
  have dig: "Certificate_Digest (the (fmlookup (lcs_certs M contents s') e)) = e" if "lcs_index contents s' r a = Some e" for e
    using cert_entries_index(2)[OF lcs_okD(3)[OF ok] that] cert_entries_certs(2)[OF lcs_okD(3)[OF ok]] by auto
  have "LevelDBCertificateStore_GetCertificateForValidator K M r a s' \<noteq> Inr c"
    using cert_reads(4)[OF assms(1) ok, of r a] i[of r a] dig d by (auto split: option.splits)
  then show ?thesis using GetCertificatesByRound_view[OF assms(1) ok, of r] cert_reads(1)[OF assms(1) ok, of d] u i d
    by (auto simp: unindexed_def)
qed

subsection \<open>Without two certificates of an author in a round\<close>

text \<open>The simulation relation, for certificates out of a set \<open>S\<close>: same contents, and every stored certificate is indexed.\<close>

definition same_certs :: "Certificate codec \<Rightarrow> ('db \<Rightarrow> bool) \<Rightarrow> ('db \<Rightarrow> (byte list, byte list) fmap) \<Rightarrow> Certificate set \<Rightarrow>
    'db LevelDBCertificateStore \<Rightarrow> MemoryCertificateStore \<Rightarrow> bool" where
  "same_certs M opened contents S s ms \<longleftrightarrow> lcs_ok M opened contents s \<and> mcs_ok ms \<and> lcs_certs M contents s = mcs_certs ms \<and>
     (\<forall>d c. fmlookup (mcs_certs ms) d = Some c \<longrightarrow> c \<in> S \<and> lcs_index contents s (Certificate_Round c) (Certificate_Author c) = Some d)"

definition no_equivocation :: "Certificate set \<Rightarrow> bool" where
  "no_equivocation S \<longleftrightarrow> (\<forall>c\<in>S. \<forall>c'\<in>S. Certificate_Round c = Certificate_Round c' \<longrightarrow> Certificate_Author c = Certificate_Author c' \<longrightarrow>
     Certificate_Digest c = Certificate_Digest c')"

lemma same_certsD:
  assumes "same_certs M opened contents S s ms"
  shows "lcs_ok M opened contents s" "mcs_ok ms" "lcs_certs M contents s = mcs_certs ms"
    "fmlookup (mcs_certs ms) d = Some c \<Longrightarrow> c \<in> S"
    "fmlookup (mcs_certs ms) d = Some c \<Longrightarrow> lcs_index contents s (Certificate_Round c) (Certificate_Author c) = Some d"
  using assms by (simp_all add: same_certs_def)

lemma same_certs_save:
  assumes K: "kv_ok K opened contents" and M: "codec_ok M" and same: "same_certs M opened contents S s ms"
    and S: "no_equivocation S" and x: "x \<in> S"
  shows "same_certs M opened contents S (fst (LevelDBCertificateStore_SaveCertificate K M x s))
    (fst (MemoryCertificateStore_SaveCertificate x ms))"
proof -
  note D = same_certsD[OF same]
  note eff = SaveCertificate_effect[OF K M D(1) refl, of x]
  have mem: "mcs_ok (fst (MemoryCertificateStore_SaveCertificate x ms))"
    "mcs_certs (fst (MemoryCertificateStore_SaveCertificate x ms)) =
      (if map_has (mcs_certs ms) (Certificate_Digest x) then mcs_certs ms else fmupd (Certificate_Digest x) x (mcs_certs ms))"
    by (rule mcs_save_ok[OF D(2)], rule mcs_save_contents[OF D(2)])
  show ?thesis
  proof (cases "map_has (mcs_certs ms) (Certificate_Digest x)")
    case True
    then show ?thesis using eff mem D unfolding same_certs_def by auto
  next
    case False
    have other: "\<not> (Certificate_Round c = Certificate_Round x \<and> Certificate_Author c = Certificate_Author x)"
      if c: "fmlookup (mcs_certs ms) d = Some c" for c d
    proof
      assume eq: "Certificate_Round c = Certificate_Round x \<and> Certificate_Author c = Certificate_Author x"
      have "Certificate_Digest c = Certificate_Digest x" using S D(4)[OF c] x eq unfolding no_equivocation_def by blast
      moreover have "Certificate_Digest c = d" using mcs.keys[OF D(2) c] .
      ultimately show False using False c by (simp add: map_has_def)
    qed
    show ?thesis using eff mem D False x other unfolding same_certs_def by auto
  qed
qed

lemma same_certs_delete:
  assumes K: "kv_ok K opened contents" and same: "same_certs M opened contents S s ms"
  shows "same_certs M opened contents S (fst (LevelDBCertificateStore_DeleteCertificatesBefore K rnd s))
    (fst (MemoryCertificateStore_DeleteCertificatesBefore rnd ms))"
proof -
  note D = same_certsD[OF same]
  note eff = DeleteCertificatesBefore_effect[OF K D(1) refl, of rnd]
  have mem: "mcs_ok (fst (MemoryCertificateStore_DeleteCertificatesBefore rnd ms))"
    "\<And>d. fmlookup (mcs_certs (fst (MemoryCertificateStore_DeleteCertificatesBefore rnd ms))) d =
      (case fmlookup (mcs_certs ms) d of None \<Rightarrow> None | Some x \<Rightarrow> if Certificate_Round x < rnd then None else Some x)"
    by (rule mcs_delete_ok[OF D(2)], rule mcs_delete_contents[OF D(2)])
  let ?s = "fst (LevelDBCertificateStore_DeleteCertificatesBefore K rnd s)"
  let ?ms = "fst (MemoryCertificateStore_DeleteCertificatesBefore rnd ms)"
  have ok: "lcs_ok M opened contents ?s" using eff by blast
  have certs: "fmlookup (lcs_certs M contents ?s) d =
      (if \<exists>r<rnd. \<exists>a. lcs_index contents s r a = Some d then None else fmlookup (mcs_certs ms) d)" for d
    using eff unfolding D(3) by blast
  have idx: "lcs_index contents ?s r a = (if r < rnd then None else lcs_index contents s r a)" for r a using eff by blast
  have gone: "(\<exists>r<rnd. \<exists>a. lcs_index contents s r a = Some d) \<longleftrightarrow> Certificate_Round c < rnd"
    if c: "fmlookup (mcs_certs ms) d = Some c" for d c
  proof
    assume "\<exists>r<rnd. \<exists>a. lcs_index contents s r a = Some d"
    then obtain r a where "r < rnd" "lcs_index contents s r a = Some d" by blast
    then show "Certificate_Round c < rnd" using cert_entries_index(2)[OF lcs_okD(3)[OF D(1)], of r a d] c unfolding D(3) by auto
  next
    assume "Certificate_Round c < rnd"
    then show "\<exists>r<rnd. \<exists>a. lcs_index contents s r a = Some d" using D(5)[OF c] by blast
  qed
  have same: "fmlookup (lcs_certs M contents ?s) d = fmlookup (mcs_certs ?ms) d" for d
  proof (cases "fmlookup (mcs_certs ms) d")
    case (Some c)
    then show ?thesis unfolding mem(2) certs gone[OF Some] by simp
  qed (unfold mem(2) certs, simp)
  have "c \<in> S \<and> lcs_index contents ?s (Certificate_Round c) (Certificate_Author c) = Some d" if "fmlookup (mcs_certs ?ms) d = Some c" for d c
  proof -
    have "fmlookup (mcs_certs ms) d = Some c \<and> \<not> Certificate_Round c < rnd"
      using that unfolding mem(2) by (auto split: option.splits if_splits)
    then show ?thesis using D(4,5)[of d c] idx by simp
  qed
  then show ?thesis unfolding same_certs_def using ok mem(1) same by (blast intro: fmap_ext)
qed

lemma same_certs_run:
  assumes "kv_ok K opened contents" and "codec_ok M" and "no_equivocation S"
    and "same_certs M opened contents S s ms" and "\<And>c. SaveCert c \<in> set ws \<Longrightarrow> c \<in> S"
  shows "same_certs M opened contents S (fold (\<lambda>w s. fst (leveldb_cert_write K M w s)) ws s)
    (fold (\<lambda>w s. fst (memory_cert_write w s)) ws ms)"
  using assms(4,5)
proof (induction ws arbitrary: s ms)
  case (Cons w ws)
  have "same_certs M opened contents S (fst (leveldb_cert_write K M w s)) (fst (memory_cert_write w ms))"
    using same_certs_save[OF assms(1,2) Cons.prems(1) assms(3)] same_certs_delete[OF assms(1) Cons.prems(1)] Cons.prems(2)
    by (cases w) auto
  then show ?case using Cons.IH Cons.prems(2) by simp
qed simp

lemma same_certs_new:
  assumes "NewLevelDBCertificateStore K path = Inr s" and "opened (lcs_db s)" and "contents (lcs_db s) = fmempty"
  shows "same_certs M opened contents S s NewMemoryCertificateStore"
  using assms NewMemoryCertificateStore_ok[unfolded NewMemoryCertificateStore_def]
  by (auto simp: same_certs_def lcs_ok_def cert_entries_ok_def NewLevelDBCertificateStore_def NewMemoryCertificateStore_def
      lookup_certs intro!: fmap_ext split: sum.splits)

lemma same_certs_for_validator:
  assumes K: "kv_ok K opened contents" and S: "no_equivocation S" and same: "same_certs M opened contents S s ms"
  shows "LevelDBCertificateStore_GetCertificateForValidator K M r a s = MemoryCertificateStore_GetCertificateForValidator r a ms"
proof (cases "MemoryCertificateStore_GetCertificateForValidator r a ms")
  case (Inr c)
  note D = same_certsD[OF same]
  have c: "fmlookup (mcs_certs ms) (Certificate_Digest c) = Some c" "Certificate_Round c = r" "Certificate_Author c = a"
    using mcs_for_validator_sound[OF D(2) Inr] by blast+
  then show ?thesis using cert_reads(4)[OF K D(1), of r a] D(5)[OF c(1)] Inr by (simp add: D(3))
next
  case (Inl e)
  note D = same_certsD[OF same]
  have "lcs_index contents s r a = None"
  proof (rule ccontr)
    assume "lcs_index contents s r a \<noteq> None"
    then obtain d c where "fmlookup (mcs_certs ms) d = Some c" "Certificate_Round c = r" "Certificate_Author c = a"
      using cert_entries_index(2)[OF lcs_okD(3)[OF D(1)], of r a] D(3) by auto
    then show False using mcs_for_validator_complete[OF D(2), of d c] Inl by auto
  qed
  moreover have "e = ErrCertificateNotFound"
    using Inl D(2) by (auto simp: MemoryCertificateStore_GetCertificateForValidator_def mcs_ok_def split: option.splits)
  ultimately show ?thesis using cert_reads(4)[OF K D(1), of r a] Inl by simp
qed

lemma same_certs_by_round:
  assumes K: "kv_ok K opened contents" and same: "same_certs M opened contents S s ms"
  shows "\<exists>xs ys. LevelDBCertificateStore_GetCertificatesByRound K M r s = Inr xs \<and>
    MemoryCertificateStore_GetCertificatesByRound r ms = Inr ys \<and> mset xs = mset ys"
proof -
  note D = same_certsD[OF same]
  obtain xs where xs: "LevelDBCertificateStore_GetCertificatesByRound K M r s = Inr xs" "distinct (map Certificate_Author xs)"
      "\<And>c. c \<in> set xs \<longleftrightarrow> fmlookup (mcs_certs ms) (Certificate_Digest c) = Some c \<and>
         lcs_index contents s r (Certificate_Author c) = Some (Certificate_Digest c)"
    using GetCertificatesByRound_view[OF K D(1), of r] unfolding D(3) by blast
  obtain ys where ys: "MemoryCertificateStore_GetCertificatesByRound r ms = Inr ys" "distinct (map Certificate_Digest ys)"
      "\<And>c. c \<in> set ys \<longleftrightarrow> fmlookup (mcs_certs ms) (Certificate_Digest c) = Some c \<and> Certificate_Round c = r"
    using mcs_by_round[OF D(2), of r] by blast
  have "lcs_index contents s r (Certificate_Author c) = Some (Certificate_Digest c) \<longleftrightarrow> Certificate_Round c = r"
    if "fmlookup (mcs_certs ms) (Certificate_Digest c) = Some c" for c
  proof
    assume "lcs_index contents s r (Certificate_Author c) = Some (Certificate_Digest c)"
    from cert_entries_index(2)[OF lcs_okD(3)[OF D(1)] this] show "Certificate_Round c = r" using that unfolding D(3) by simp
  next
    assume "Certificate_Round c = r"
    then show "lcs_index contents s r (Certificate_Author c) = Some (Certificate_Digest c)" using D(5)[OF that] by simp
  qed
  then have "c \<in> set xs \<longleftrightarrow> c \<in> set ys" for c unfolding xs(3) ys(3) by metis
  moreover have "distinct xs" "distinct ys" using xs(2) ys(2) by (simp_all add: distinct_map)
  ultimately have "mset xs = mset ys" by (metis set_eq_iff_mset_eq_distinct subsetI subset_antisym)
  then show ?thesis using xs(1) ys(1) by simp
qed

text \<open>
  \<^bold>\<open>C36\<close> As long as no author has two certificates in a round, the LevelDB certificate store refines the memory
  certificate store. Over a database that works and a codec whose decoder inverts its encoder, a store opened on an empty
  database and a new memory store answer the same after the same sequence of saves and deletions: lookups by digest and by
  round and validator return the same value or error, and a round lists the same certificates.
\<close>

theorem leveldb_cert_store_refines_memory:
  assumes "kv_ok K opened contents" and "codec_ok M"
    and "NewLevelDBCertificateStore K path = Inr s" and "opened (lcs_db s)" and "contents (lcs_db s) = fmempty"
    and "no_equivocation {c. SaveCert c \<in> set ws}"
    and "ls = fold (\<lambda>w s. fst (leveldb_cert_write K M w s)) ws s"
    and "ms = fold (\<lambda>w s. fst (memory_cert_write w s)) ws NewMemoryCertificateStore"
  shows "LevelDBCertificateStore_GetCertificate K M d ls = MemoryCertificateStore_GetCertificate d ms \<and>
    LevelDBCertificateStore_HasCertificate K d ls = MemoryCertificateStore_HasCertificate d ms \<and>
    LevelDBCertificateStore_GetCertificateForValidator K M r a ls = MemoryCertificateStore_GetCertificateForValidator r a ms \<and>
    (\<exists>xs ys. LevelDBCertificateStore_GetCertificatesByRound K M r ls = Inr xs \<and>
       MemoryCertificateStore_GetCertificatesByRound r ms = Inr ys \<and> mset xs = mset ys)"
proof -
  let ?S = "{c. SaveCert c \<in> set ws}"
  have "same_certs M opened contents ?S s NewMemoryCertificateStore" by (rule same_certs_new) (fact assms)+
  then have same: "same_certs M opened contents ?S ls ms"
    unfolding assms(7,8) by (rule same_certs_run[OF assms(1,2,6)]) simp
  note D = same_certsD[OF same]
  have "LevelDBCertificateStore_GetCertificate K M d ls = MemoryCertificateStore_GetCertificate d ms"
    "LevelDBCertificateStore_HasCertificate K d ls = MemoryCertificateStore_HasCertificate d ms"
    using cert_reads(1,2)[OF assms(1) D(1), of d] D(2,3)
    by (simp_all add: MemoryCertificateStore_GetCertificate_def MemoryCertificateStore_HasCertificate_def mcs_ok_def)
  then show ?thesis using same_certs_for_validator[OF assms(1,6) same] same_certs_by_round[OF assms(1) same] by blast
qed

section \<open>Examples\<close>

text \<open>A codec: the fields of fixed size, then each list with every item marked by a 1 and the end by a 0.\<close>

definition encode_items :: "('a \<Rightarrow> byte list) \<Rightarrow> 'a list \<Rightarrow> byte list" where
  "encode_items f xs = concat (map (\<lambda>x. 1 # f x) xs) @ [0]"

fun decode_items :: "nat \<Rightarrow> (byte list \<Rightarrow> 'a) \<Rightarrow> byte list \<Rightarrow> 'a list \<times> byte list" where
  "decode_items n g [] = ([], [])"
| "decode_items n g (t # bs) = (if t = 0 then ([], bs)
     else let (xs, rest) = decode_items n g (drop n bs) in (g (take n bs) # xs, rest))"

lemma decode_encode_items:
  "(\<And>x. length (f x) = n \<and> g (f x) = x) \<Longrightarrow> decode_items n g (encode_items f xs @ rest) = (xs, rest)"
  by (induction xs) (simp_all add: encode_items_def)

definition encode_cert :: "Certificate \<Rightarrow> byte list" where
  "encode_cert c = (let h = c_Header c in
     be_bytes 2 (h_Author h) @ be_bytes 8 (h_Round h) @ be_bytes 8 (h_Epoch h) @ be_bytes 8 (h_Timestamp h) @
     hash_bytes (h_Digest h) @ be_bytes 64 (h_Signature h) @
     encode_items (\<lambda>r. hash_bytes (bd_Digest r) @ be_bytes 2 (bd_WorkerID r) @ be_bytes 2 (bd_ValidatorID r)) (h_BatchRefs h) @
     encode_items (\<lambda>r. hash_bytes (cr_Digest r) @ be_bytes 8 (cr_Round r)) (h_Parents h) @
     encode_items (\<lambda>v. hash_bytes (v_HeaderDigest v) @ be_bytes 2 (v_Validator v) @ be_bytes 64 (v_Signature v)) (c_Votes c) @
     encode_items (be_bytes 8) (c_SignerMask c))"

definition decode_cert :: "byte list \<Rightarrow> Certificate" where
  "decode_cert bs =
     (let (refs, bs1) = decode_items 36 (\<lambda>v. \<lparr>bd_Digest = copy_hash v, bd_WorkerID = be_word (take 2 (drop 32 v)),
            bd_ValidatorID = be_word (drop 34 v)\<rparr>) (drop 122 bs);
          (parents, bs2) = decode_items 40 (\<lambda>v. \<lparr>cr_Digest = copy_hash v, cr_Round = be_word (drop 32 v)\<rparr>) bs1;
          (votes, bs3) = decode_items 98 (\<lambda>v. \<lparr>v_HeaderDigest = copy_hash v, v_Validator = be_word (take 2 (drop 32 v)),
            v_Signature = be_word (drop 34 v)\<rparr>) bs2;
          (mask, _) = decode_items 8 be_word bs3
      in \<lparr>c_Header = \<lparr>h_Author = be_word (take 2 bs), h_Round = be_word (take 8 (drop 2 bs)), h_Epoch = be_word (take 8 (drop 10 bs)),
             h_BatchRefs = refs, h_Parents = parents, h_Timestamp = be_word (take 8 (drop 18 bs)),
             h_Digest = copy_hash (drop 26 bs), h_Signature = be_word (take 64 (drop 58 bs))\<rparr>,
           c_Votes = votes, c_SignerMask = mask\<rparr>)"

definition demo_cert_codec :: "Certificate codec" where
  "demo_cert_codec = \<lparr>co_Marshal = (\<lambda>c. Inr (encode_cert c)), co_Unmarshal = (\<lambda>bs. Inr (decode_cert bs))\<rparr>"

lemma demo_cert_codec_ok: "codec_ok demo_cert_codec"
proof -
  have "decode_cert (encode_cert c) = c" for c
    by (simp add: decode_cert_def encode_cert_def Let_def decode_encode_items decode_encode_items[where rest = "[]", simplified] be_word_be_bytes)
  then show ?thesis by (simp add: codec_ok_def demo_cert_codec_def)
qed

definition twin_cert :: "hash \<Rightarrow> u64 \<Rightarrow> Certificate" where
  "twin_cert x r = \<lparr>c_Header = \<lparr>h_Author = 1, h_Round = r, h_Epoch = 0, h_BatchRefs = [\<lparr>bd_Digest = 5, bd_WorkerID = 0, bd_ValidatorID = 1\<rparr>],
       h_Parents = [], h_Timestamp = 9, h_Digest = x, h_Signature = 0\<rparr>,
     c_Votes = [\<lparr>v_HeaderDigest = x, v_Validator = 2, v_Signature = 8\<rparr>], c_SignerMask = [4]\<rparr>"

definition empty_cert_store :: "(byte list, byte list) fmap LevelDBCertificateStore" where
  "empty_cert_store = \<lparr>lcs_db = fmempty, lcs_closed = False\<rparr>"

lemma empty_cert_store_ok: "lcs_ok M (\<lambda>_. True) id empty_cert_store"
  by (simp add: lcs_ok_def cert_entries_ok_def empty_cert_store_def)

text \<open>Two certificates of validator 1 in round 3: after a deletion at round 10 the first one is still there.\<close>

theorem overwritten_certificate_never_deleted_witness:
  "\<exists>s s'. s = fst (LevelDBCertificateStore_SaveCertificate mem_kv demo_cert_codec (twin_cert 70 3) empty_cert_store) \<and>
    s' = fst (LevelDBCertificateStore_DeleteCertificatesBefore mem_kv 10
      (fst (LevelDBCertificateStore_SaveCertificate mem_kv demo_cert_codec (twin_cert 71 3) s))) \<and>
    LevelDBCertificateStore_GetCertificate mem_kv demo_cert_codec 70 s' = Inr (twin_cert 70 3)"
proof -
  let ?s = "fst (LevelDBCertificateStore_SaveCertificate mem_kv demo_cert_codec (twin_cert 70 3) empty_cert_store)"
  have ok: "lcs_ok demo_cert_codec (\<lambda>_. True) id ?s"
    using SaveCertificate_effect[OF mem_kv_ok demo_cert_codec_ok empty_cert_store_ok refl] by blast
  have c: "LevelDBCertificateStore_GetCertificate mem_kv demo_cert_codec 70 ?s = Inr (twin_cert 70 3)" by code_simp
  have new: "\<not> LevelDBCertificateStore_HasCertificate mem_kv (Certificate_Digest (twin_cert 71 3)) ?s" by code_simp
  have same: "Certificate_Round (twin_cert 71 3) = Certificate_Round (twin_cert 70 3)"
    "Certificate_Author (twin_cert 71 3) = Certificate_Author (twin_cert 70 3)"
    by (simp_all add: twin_cert_def Certificate_Round_def Certificate_Author_def)
  show ?thesis
    using overwritten_certificate_never_deleted[where ws = "[DeleteCertsBefore 10]", OF mem_kv_ok demo_cert_codec_ok ok c new same refl]
    by simp
qed

definition demo_cert_writes :: "cert_write list" where
  "demo_cert_writes = [SaveCert (twin_cert 70 3), SaveCert (twin_cert 71 6), DeleteCertsBefore 5]"

theorem leveldb_cert_store_refines_memory_witness:
  "\<exists>ls. ls = fold (\<lambda>w s. fst (leveldb_cert_write mem_kv demo_cert_codec w s)) demo_cert_writes empty_cert_store \<and>
    LevelDBCertificateStore_GetCertificate mem_kv demo_cert_codec 70 ls = Inl ErrCertificateNotFound \<and>
    LevelDBCertificateStore_GetCertificateForValidator mem_kv demo_cert_codec 6 1 ls = Inr (twin_cert 71 6)"
proof -
  let ?ls = "fold (\<lambda>w s. fst (leveldb_cert_write mem_kv demo_cert_codec w s)) demo_cert_writes empty_cert_store"
  let ?ms = "fold (\<lambda>w s. fst (memory_cert_write w s)) demo_cert_writes NewMemoryCertificateStore"
  have new: "NewLevelDBCertificateStore mem_kv ''certs'' = Inr empty_cert_store" "id (lcs_db empty_cert_store) = fmempty"
    by (simp_all add: NewLevelDBCertificateStore_def mem_kv_def empty_cert_store_def)
  have ws: "no_equivocation {c. SaveCert c \<in> set demo_cert_writes}"
    by (auto simp: no_equivocation_def demo_cert_writes_def twin_cert_def Certificate_Round_def)
  have ms: "MemoryCertificateStore_GetCertificate 70 ?ms = Inl ErrCertificateNotFound \<and>
      MemoryCertificateStore_GetCertificateForValidator 6 1 ?ms = Inr (twin_cert 71 6)" by code_simp
  show ?thesis
    using leveldb_cert_store_refines_memory[where ws = demo_cert_writes and d = 70 and r = 6 and a = 1,
        OF mem_kv_ok demo_cert_codec_ok new(1) _ new(2) ws refl refl] ms by simp
qed

end
