(* ===== verification/Leveldb_Tx_Index.thy ===== *)
theory Leveldb_Tx_Index
  imports Leveldb_Kv
begin

text \<open>
  The persistent transaction index (\<^verbatim>\<open>store/leveldb_tx_index.go\<close>) over a database \<open>K\<close>: what a batch adds, what
  removing or pruning a batch deletes, and what this does to a transaction that two batches contain.
\<close>

section \<open>Keys\<close>

definition txToBatchPrefix :: "byte list" where
  "txToBatchPrefix = ascii ''T:''"

definition batchToTxsPrefix :: "byte list" where
  "batchToTxsPrefix = ascii ''TB:''"

definition batchRoundIdxPrefix :: "byte list" where
  "batchRoundIdxPrefix = ascii ''TR:''"

definition makeTxKey :: "hash \<Rightarrow> byte list" where
  "makeTxKey txHash = txToBatchPrefix @ hash_bytes txHash"

definition makeBatchTxPrefix :: "hash \<Rightarrow> byte list" where
  "makeBatchTxPrefix batchHash = batchToTxsPrefix @ hash_bytes batchHash"

definition makeBatchTxKey :: "hash \<Rightarrow> u32 \<Rightarrow> byte list" where
  "makeBatchTxKey batchHash slot = batchToTxsPrefix @ hash_bytes batchHash @ be_bytes 4 slot"

definition makeBatchRoundIdxKey :: "hash \<Rightarrow> byte list" where
  "makeBatchRoundIdxKey batchHash = batchRoundIdxPrefix @ hash_bytes batchHash"

section \<open>Operations\<close>

record 'db LevelDBTxIndex =
  lti_db :: 'db
  lti_closed :: bool

definition NewLevelDBTxIndex :: "'db kv \<Rightarrow> string \<Rightarrow> 'db LevelDBTxIndex result" where
  "NewLevelDBTxIndex K path =
     (case kv_Open K path of
        Inl e \<Rightarrow> Inl (kv_fail ''failed to open leveldb'' e)
      | Inr db \<Rightarrow> Inr \<lparr>lti_db = db, lti_closed = False\<rparr>)"

text \<open>The largest slot under the batch plus one, in 32 bits.\<close>

definition lti_nextBatchTxSlot :: "'db kv \<Rightarrow> hash \<Rightarrow> 'db LevelDBTxIndex \<Rightarrow> u32 result" where
  "lti_nextBatchTxSlot K batchHash idx =
     (let pfx = makeBatchTxPrefix batchHash;
          (entries, e) = kv_Iter K pfx (lti_db idx);
          (mx, found) = fold (\<lambda>(key, _) (mx, found).
              if length key < length pfx + 4 then (mx, found)
              else let slot = be_word (take 4 (drop (length pfx) key))
                   in if \<not> found \<or> slot > mx then (slot, True) else (mx, found)) entries (0, False)
      in case e of Some e \<Rightarrow> Inl (kv_fail ''iteration error'' e)
         | None \<Rightarrow> if \<not> found then Inr 0 else Inr (mx + 1))"

definition LevelDBTxIndex_AddTx ::
  "'db kv \<Rightarrow> hash \<Rightarrow> hash \<Rightarrow> 'db LevelDBTxIndex \<Rightarrow> 'db LevelDBTxIndex \<times> err option" where
  "LevelDBTxIndex_AddTx K txHash batchHash idx =
     (if lti_closed idx then (idx, Some ErrNotRunning)
      else let txKey = makeTxKey txHash;
               add = (case lti_nextBatchTxSlot K batchHash idx of
                   Inl e \<Rightarrow> (idx, Some e)
                 | Inr slot \<Rightarrow>
                     (let wb = [KvPut txKey (hash_bytes batchHash), KvPut (makeBatchTxKey batchHash slot) (hash_bytes txHash)];
                          (db, e) = kv_Write K wb (lti_db idx)
                      in (idx\<lparr>lti_db := db\<rparr>, map_option (kv_fail ''failed to write tx index entry'') e)))
      in case kv_Get K txKey (lti_db idx) of
           Inr existing \<Rightarrow>
             if length existing = 32
             then if copy_hash existing = batchHash then (idx, None) else (idx, Some ErrTxAlreadyExists)
             else add
         | Inl KvNotFound \<Rightarrow> add
         | Inl e \<Rightarrow> (idx, Some (kv_fail ''failed to check tx existence'' e)))"

definition LevelDBTxIndex_AddBatch ::
  "crypto \<Rightarrow> 'db kv \<Rightarrow> Batch \<Rightarrow> 'db LevelDBTxIndex \<Rightarrow> 'db LevelDBTxIndex \<times> err option" where
  "LevelDBTxIndex_AddBatch C K batch idx =
     (if lti_closed idx then (idx, Some ErrNotRunning)
      else let batchHash = b_Digest batch
      in case kv_Get K (makeBatchRoundIdxKey batchHash) (lti_db idx) of
           Inr _ \<Rightarrow> (idx, None)
         | Inl KvNotFound \<Rightarrow>
             (let wb = KvPut (makeBatchRoundIdxKey batchHash) (be_bytes 8 (b_Round batch)) #
                    concat (map (\<lambda>(slot, tx).
                      [KvPut (makeTxKey (Transaction_Hash C tx)) (hash_bytes batchHash),
                       KvPut (makeBatchTxKey batchHash (of_nat slot)) (hash_bytes (Transaction_Hash C tx))])
                      (enumerate 0 (b_Transactions batch)));
                  (db, e) = kv_Write K wb (lti_db idx)
              in (idx\<lparr>lti_db := db\<rparr>, map_option (kv_fail ''failed to index batch'') e))
         | Inl e \<Rightarrow> (idx, Some (kv_fail ''failed to check batch index'' e)))"

definition LevelDBTxIndex_GetBatchForTx :: "'db kv \<Rightarrow> hash \<Rightarrow> 'db LevelDBTxIndex \<Rightarrow> hash result" where
  "LevelDBTxIndex_GetBatchForTx K txHash idx =
     (if lti_closed idx then Inl ErrNotRunning
      else case kv_Get K (makeTxKey txHash) (lti_db idx) of
        Inl KvNotFound \<Rightarrow> Inl ErrBatchNotFound
      | Inl e \<Rightarrow> Inl (kv_fail ''failed to read tx index'' e)
      | Inr data \<Rightarrow> if length data \<noteq> 32 then Inl ErrBatchNotFound else Inr (copy_hash data))"

definition LevelDBTxIndex_HasTx :: "'db kv \<Rightarrow> hash \<Rightarrow> 'db LevelDBTxIndex \<Rightarrow> bool" where
  "LevelDBTxIndex_HasTx K txHash idx =
     (if lti_closed idx then False else fst (kv_Has K (makeTxKey txHash) (lti_db idx)))"

definition lti_removeBatchLocked :: "'db kv \<Rightarrow> hash \<Rightarrow> 'db LevelDBTxIndex \<Rightarrow> 'db LevelDBTxIndex \<times> err option" where
  "lti_removeBatchLocked K batchHash idx =
     (let (entries, e) = kv_Iter K (makeBatchTxPrefix batchHash) (lti_db idx);
          wb = concat (map (\<lambda>(key, txBytes).
              (if length txBytes = 32 then [KvDelete (makeTxKey (copy_hash txBytes))] else []) @ [KvDelete key]) entries)
      in case e of
           Some e \<Rightarrow> (idx, Some (kv_fail ''iteration error'' e))
         | None \<Rightarrow>
             (let (db, e) = kv_Write K (wb @ [KvDelete (makeBatchRoundIdxKey batchHash)]) (lti_db idx)
              in (idx\<lparr>lti_db := db\<rparr>, map_option (kv_fail ''failed to remove batch tx mappings'') e)))"

definition LevelDBTxIndex_RemoveTxsForBatch :: "'db kv \<Rightarrow> hash \<Rightarrow> 'db LevelDBTxIndex \<Rightarrow> 'db LevelDBTxIndex \<times> err option" where
  "LevelDBTxIndex_RemoveTxsForBatch K batchHash idx =
     (if lti_closed idx then (idx, Some ErrNotRunning) else lti_removeBatchLocked K batchHash idx)"

fun lti_prune_loop :: "'db kv \<Rightarrow> hash list \<Rightarrow> 'db LevelDBTxIndex \<Rightarrow> 'db LevelDBTxIndex \<times> err option" where
  "lti_prune_loop K [] idx = (idx, None)"
| "lti_prune_loop K (h # hs) idx =
     (case lti_removeBatchLocked K h idx of
        (idx, Some e) \<Rightarrow> (idx, Some e)
      | (idx, None) \<Rightarrow> lti_prune_loop K hs idx)"

definition LevelDBTxIndex_PruneOlderThan ::
  "'db kv \<Rightarrow> u64 \<Rightarrow> 'db LevelDBTxIndex \<Rightarrow> 'db LevelDBTxIndex \<times> nat \<times> err option" where
  "LevelDBTxIndex_PruneOlderThan K rnd idx =
     (if lti_closed idx then (idx, 0, Some ErrNotRunning)
      else let (entries, e) = kv_Iter K batchRoundIdxPrefix (lti_db idx);
               toPrune = List.map_filter (\<lambda>(key, v).
                   if length key < length batchRoundIdxPrefix + 32 \<or> length v < 8 then None
                   else if be_word (take 8 v) \<ge> rnd then None
                   else Some (copy_hash (drop (length batchRoundIdxPrefix) key))) entries
           in case e of
                Some e \<Rightarrow> (idx, 0, Some (kv_fail ''iteration error'' e))
              | None \<Rightarrow> (case lti_prune_loop K toPrune idx of
                    (idx, Some e) \<Rightarrow> (idx, 0, Some e)
                  | (idx, None) \<Rightarrow> (idx, length toPrune, None)))"

definition LevelDBTxIndex_Close :: "'db kv \<Rightarrow> 'db LevelDBTxIndex \<Rightarrow> 'db LevelDBTxIndex \<times> err option" where
  "LevelDBTxIndex_Close K idx =
     (if lti_closed idx then (idx, None)
      else let (db, e) = kv_Close K (lti_db idx)
           in (idx\<lparr>lti_closed := True, lti_db := db\<rparr>, map_option (\<lambda>e. ErrOther (kv_text e)) e))"

definition LevelDBTxIndex_Len :: "'db kv \<Rightarrow> 'db LevelDBTxIndex \<Rightarrow> nat" where
  "LevelDBTxIndex_Len K idx = (if lti_closed idx then 0 else length (fst (kv_Iter K txToBatchPrefix (lti_db idx))))"

section \<open>Keys do not overlap\<close>

lemma tx_prefixes: "txToBatchPrefix = [84, 58]" "batchToTxsPrefix = [84, 66, 58]" "batchRoundIdxPrefix = [84, 82, 58]"
  by code_simp+

lemma tx_keys [simp]:
  "makeTxKey t = makeTxKey u \<longleftrightarrow> t = u" "makeBatchRoundIdxKey b = makeBatchRoundIdxKey c \<longleftrightarrow> b = c"
  "makeBatchTxKey b i = makeBatchTxKey c j \<longleftrightarrow> b = c \<and> i = j"
  "makeTxKey t \<noteq> makeBatchRoundIdxKey b" "makeBatchRoundIdxKey b \<noteq> makeTxKey t"
  "makeTxKey t \<noteq> makeBatchTxKey b i" "makeBatchTxKey b i \<noteq> makeTxKey t"
  "makeBatchRoundIdxKey b \<noteq> makeBatchTxKey c i" "makeBatchTxKey c i \<noteq> makeBatchRoundIdxKey b"
  using be_bytes_inj[of 4 i j]
  by (auto simp: makeTxKey_def makeBatchRoundIdxKey_def makeBatchTxKey_def tx_prefixes)

lemma batch_tx_prefix [simp]:
  "prefix (makeBatchTxPrefix b) (makeBatchTxKey c i) \<longleftrightarrow> b = c"
  "\<not> prefix (makeBatchTxPrefix b) (makeTxKey t)" "\<not> prefix (makeBatchTxPrefix b) (makeBatchRoundIdxKey c)"
proof -
  have "b = c" if "prefix (hash_bytes b) (hash_bytes c @ be_bytes 4 i)"
    using that by (auto simp: prefix_def append_eq_append_conv)
  then show "prefix (makeBatchTxPrefix b) (makeBatchTxKey c i) \<longleftrightarrow> b = c"
    by (auto simp: makeBatchTxPrefix_def makeBatchTxKey_def tx_prefixes)
qed (simp_all add: makeBatchTxPrefix_def makeTxKey_def makeBatchRoundIdxKey_def tx_prefixes)

section \<open>Adding a batch\<close>

lemma put_other: "k \<notin> fst ` set kvs \<Longrightarrow> fmlookup (fold kv_apply (map (\<lambda>(k, v). KvPut k v) kvs) m) k = fmlookup m k"
  by (induction kvs arbitrary: m) auto

lemma put_unique:
  assumes "(k, v) \<in> set kvs" and "\<And>v'. (k, v') \<in> set kvs \<Longrightarrow> v' = v"
  shows "fmlookup (fold kv_apply (map (\<lambda>(k, v). KvPut k v) kvs) m) k = Some v"
  using assms
proof (induction kvs arbitrary: m)
  case (Cons e kvs)
  show ?case
  proof (cases "k \<in> fst ` set kvs")
    case True
    then obtain v' where "(k, v') \<in> set kvs" by force
    then show ?thesis using Cons.IH[of "kv_apply (case e of (k, v) \<Rightarrow> KvPut k v) m"] Cons.prems(2) by simp
  next
    case False
    then have "e = (k, v)" using Cons.prems(1) by (auto simp: image_iff)
    then show ?thesis using put_other[OF False, of "fmupd k v m"] by simp
  qed
qed simp

definition batch_entries :: "crypto \<Rightarrow> Batch \<Rightarrow> (byte list \<times> byte list) list" where
  "batch_entries C b = (makeBatchRoundIdxKey (b_Digest b), be_bytes 8 (b_Round b)) #
     concat (map (\<lambda>(slot, tx). [(makeTxKey (Transaction_Hash C tx), hash_bytes (b_Digest b)),
       (makeBatchTxKey (b_Digest b) (of_nat slot), hash_bytes (Transaction_Hash C tx))]) (enumerate 0 (b_Transactions b)))"

lemma batch_entries_iff:
  "(k, v) \<in> set (batch_entries C b) \<longleftrightarrow>
     k = makeBatchRoundIdxKey (b_Digest b) \<and> v = be_bytes 8 (b_Round b) \<or>
     (\<exists>tx \<in> set (b_Transactions b). k = makeTxKey (Transaction_Hash C tx) \<and> v = hash_bytes (b_Digest b)) \<or>
     (\<exists>i < length (b_Transactions b). k = makeBatchTxKey (b_Digest b) (of_nat i) \<and>
        v = hash_bytes (Transaction_Hash C (b_Transactions b ! i)))"
proof -
  have enum: "set (enumerate 0 xs) = (\<lambda>i. (i, xs ! i)) ` {..<length xs}" for xs :: "transaction list"
    by (auto simp: image_iff in_set_enumerate_eq)
  have ex: "(\<exists>tx \<in> set xs. P tx) \<longleftrightarrow> (\<exists>i < length xs. P (xs ! i))" for P and xs :: "transaction list"
    by (metis in_set_conv_nth)
  show ?thesis unfolding batch_entries_def ex by (auto simp: enum)
qed

definition open_index :: "('db \<Rightarrow> bool) \<Rightarrow> 'db LevelDBTxIndex \<Rightarrow> bool" where
  "open_index opened idx \<longleftrightarrow> \<not> lti_closed idx \<and> opened (lti_db idx)"

lemma open_indexD:
  assumes "open_index opened idx"
  shows "\<not> lti_closed idx" "opened (lti_db idx)"
  using assms by (simp_all add: open_index_def)

lemma AddBatch_cases:
  assumes K: "kv_ok K opened contents" and o: "open_index opened idx"
  shows "open_index opened (fst (LevelDBTxIndex_AddBatch C K b idx))"
    "snd (LevelDBTxIndex_AddBatch C K b idx) = None"
    "map_has (contents (lti_db idx)) (makeBatchRoundIdxKey (b_Digest b)) \<Longrightarrow> LevelDBTxIndex_AddBatch C K b idx = (idx, None)"
    "\<not> map_has (contents (lti_db idx)) (makeBatchRoundIdxKey (b_Digest b)) \<Longrightarrow>
      contents (lti_db (fst (LevelDBTxIndex_AddBatch C K b idx))) =
        fold kv_apply (map (\<lambda>(k, v). KvPut k v) (batch_entries C b)) (contents (lti_db idx))"
proof -
  note op = open_indexD[OF o]
  note kv = kv_okD[OF K op(2)]
  let ?wb = "KvPut (makeBatchRoundIdxKey (b_Digest b)) (be_bytes 8 (b_Round b)) #
    concat (map (\<lambda>(slot, tx). [KvPut (makeTxKey (Transaction_Hash C tx)) (hash_bytes (b_Digest b)),
      KvPut (makeBatchTxKey (b_Digest b) (of_nat slot)) (hash_bytes (Transaction_Hash C tx))]) (enumerate 0 (b_Transactions b)))"
  have wb: "?wb = map (\<lambda>(k, v). KvPut k v) (batch_entries C b)"
    by (simp add: batch_entries_def map_concat comp_def case_prod_unfold)
  let ?m = "contents (lti_db idx)" and ?k = "makeBatchRoundIdxKey (b_Digest b)"
  have yes: "LevelDBTxIndex_AddBatch C K b idx = (idx, None)" if "map_has ?m ?k"
    using op that by (auto simp: LevelDBTxIndex_AddBatch_def Let_def kv(1) map_has_def split: option.split)
  have no: "LevelDBTxIndex_AddBatch C K b idx = (idx\<lparr>lti_db := fst (kv_Write K ?wb (lti_db idx))\<rparr>, None)" if "\<not> map_has ?m ?k"
    using op that kv(4)[of ?wb] by (simp add: LevelDBTxIndex_AddBatch_def Let_def kv(1) map_has_def case_prod_unfold)
  show "map_has ?m ?k \<Longrightarrow> LevelDBTxIndex_AddBatch C K b idx = (idx, None)" by (rule yes)
  show "\<not> map_has ?m ?k \<Longrightarrow> contents (lti_db (fst (LevelDBTxIndex_AddBatch C K b idx))) =
      fold kv_apply (map (\<lambda>(k, v). KvPut k v) (batch_entries C b)) ?m"
    using no kv(5)[of ?wb] wb by simp
  show "open_index opened (fst (LevelDBTxIndex_AddBatch C K b idx))" "snd (LevelDBTxIndex_AddBatch C K b idx) = None"
    using yes no o op kv(3)[of ?wb] by (cases "map_has ?m ?k"; simp add: open_index_def)+
qed

lemma of_nat_inj32:
  assumes "i < 2 ^ 32" and "j < 2 ^ 32" and eq: "(of_nat i :: u32) = of_nat j"
  shows "j = i"
proof -
  have L: "LENGTH(32) = 32" by simp
  have "i mod 2 ^ 32 = j mod 2 ^ 32"
    using arg_cong[OF eq, of unat] unfolding unat_of_nat L .
  then show ?thesis unfolding mod_less[OF assms(1)] mod_less[OF assms(2)] by (rule sym)
qed

lemma AddBatch_new:
  assumes K: "kv_ok K opened contents" and o: "open_index opened idx"
    and new: "\<not> map_has (contents (lti_db idx)) (makeBatchRoundIdxKey (b_Digest b))"
    and len: "length (b_Transactions b) \<le> 2 ^ 32"
    and m': "m' = contents (lti_db (fst (LevelDBTxIndex_AddBatch C K b idx)))"
  shows "fmlookup m' (makeBatchRoundIdxKey (b_Digest b)) = Some (be_bytes 8 (b_Round b))"
    and "tx \<in> set (b_Transactions b) \<Longrightarrow> fmlookup m' (makeTxKey (Transaction_Hash C tx)) = Some (hash_bytes (b_Digest b))"
    and "tx \<in> set (b_Transactions b) \<Longrightarrow> \<exists>i. fmlookup m' (makeBatchTxKey (b_Digest b) i) = Some (hash_bytes (Transaction_Hash C tx))"
proof -
  note eq = m'[unfolded AddBatch_cases(4)[OF K o new]]
  show "fmlookup m' (makeBatchRoundIdxKey (b_Digest b)) = Some (be_bytes 8 (b_Round b))"
    unfolding eq by (rule put_unique) (auto simp: batch_entries_iff)
  show "fmlookup m' (makeTxKey (Transaction_Hash C tx)) = Some (hash_bytes (b_Digest b))" if "tx \<in> set (b_Transactions b)"
    unfolding eq by (rule put_unique) (use that in \<open>auto simp: batch_entries_iff\<close>)
  show "\<exists>i. fmlookup m' (makeBatchTxKey (b_Digest b) i) = Some (hash_bytes (Transaction_Hash C tx))"
    if tx: "tx \<in> set (b_Transactions b)"
  proof -
    obtain i where i: "i < length (b_Transactions b)" "tx = b_Transactions b ! i" using tx by (metis in_set_conv_nth)
    have inj: "j = i" if "j < length (b_Transactions b)" "(of_nat i :: u32) = of_nat j" for j
      by (rule of_nat_inj32[OF less_le_trans[OF i(1) len] less_le_trans[OF that(1) len] that(2)])
    have "fmlookup m' (makeBatchTxKey (b_Digest b) (of_nat i)) = Some (hash_bytes (Transaction_Hash C tx))"
      unfolding eq
    proof (rule put_unique)
      show "(makeBatchTxKey (b_Digest b) (of_nat i), hash_bytes (Transaction_Hash C tx)) \<in> set (batch_entries C b)"
        unfolding batch_entries_iff using i by blast
      fix v'
      assume "(makeBatchTxKey (b_Digest b) (of_nat i), v') \<in> set (batch_entries C b)"
      then obtain j where "j < length (b_Transactions b)" "(of_nat i :: u32) = of_nat j"
          "v' = hash_bytes (Transaction_Hash C (b_Transactions b ! j))"
        unfolding batch_entries_iff by (simp only: tx_keys simp_thms bex_simps) blast
      then show "v' = hash_bytes (Transaction_Hash C tx)" using inj i(2) by blast
    qed
    then show ?thesis by blast
  qed
qed

text \<open>A batch leaves the entries of the other batches alone and forgets no transaction.\<close>

lemma AddBatch_keeps:
  assumes K: "kv_ok K opened contents" and o: "open_index opened idx"
    and m': "m' = contents (lti_db (fst (LevelDBTxIndex_AddBatch C K b idx)))"
  shows "d \<noteq> b_Digest b \<Longrightarrow> fmlookup m' (makeBatchRoundIdxKey d) = fmlookup (contents (lti_db idx)) (makeBatchRoundIdxKey d)"
    and "d \<noteq> b_Digest b \<Longrightarrow> fmlookup m' (makeBatchTxKey d i) = fmlookup (contents (lti_db idx)) (makeBatchTxKey d i)"
proof -
  have keys: "makeBatchRoundIdxKey d \<notin> fst ` set (batch_entries C b)" "makeBatchTxKey d i \<notin> fst ` set (batch_entries C b)"
    if "d \<noteq> b_Digest b" using that by (auto simp: batch_entries_iff)
  show "fmlookup m' (makeBatchRoundIdxKey d) = fmlookup (contents (lti_db idx)) (makeBatchRoundIdxKey d)" if "d \<noteq> b_Digest b"
    using AddBatch_cases(3,4)[OF K o, of b C] put_other[OF keys(1)[OF that]] m' by (metis fst_conv)
  show "fmlookup m' (makeBatchTxKey d i) = fmlookup (contents (lti_db idx)) (makeBatchTxKey d i)" if "d \<noteq> b_Digest b"
    using AddBatch_cases(3,4)[OF K o, of b C] put_other[OF keys(2)[OF that]] m' by (metis fst_conv)
qed

section \<open>Removing batches\<close>

definition removed_keys :: "(byte list, byte list) fmap \<Rightarrow> hash \<Rightarrow> byte list set" where
  "removed_keys m d = {k. k = makeBatchRoundIdxKey d \<or>
     (\<exists>k' v. fmlookup m k' = Some v \<and> prefix (makeBatchTxPrefix d) k' \<and> (k = k' \<or> length v = 32 \<and> k = makeTxKey (copy_hash v)))}"

lemma removeBatch_effect:
  assumes K: "kv_ok K opened contents" and o: "open_index opened idx"
  shows "open_index opened (fst (lti_removeBatchLocked K d idx))" "snd (lti_removeBatchLocked K d idx) = None"
    "fmlookup (contents (lti_db (fst (lti_removeBatchLocked K d idx)))) k =
      (if k \<in> removed_keys (contents (lti_db idx)) d then None else fmlookup (contents (lti_db idx)) k)"
proof -
  note op = open_indexD[OF o]
  note kv = kv_okD[OF K op(2)]
  let ?es = "fst (kv_Iter K (makeBatchTxPrefix d) (lti_db idx))"
  let ?ks = "concat (map (\<lambda>(key, txBytes). (if length txBytes = 32 then [makeTxKey (copy_hash txBytes)] else []) @ [key]) ?es) @
    [makeBatchRoundIdxKey d]"
  let ?wb = "concat (map (\<lambda>(key, txBytes). (if length txBytes = 32 then [KvDelete (makeTxKey (copy_hash txBytes))] else []) @ [KvDelete key]) ?es) @
    [KvDelete (makeBatchRoundIdxKey d)]"
  have wb: "?wb = map KvDelete ?ks" by (simp add: map_concat comp_def case_prod_unfold if_distrib[of "map KvDelete"] cong: if_cong)
  have res: "lti_removeBatchLocked K d idx = (idx\<lparr>lti_db := fst (kv_Write K ?wb (lti_db idx))\<rparr>, None)"
    using kv(4)[of ?wb] kv(6) by (simp add: lti_removeBatchLocked_def Let_def case_prod_unfold)
  have "k \<in> set ?ks \<longleftrightarrow> k \<in> removed_keys (contents (lti_db idx)) d"
  proof -
    have "k \<in> set ?ks \<longleftrightarrow> k = makeBatchRoundIdxKey d \<or> (\<exists>k' v. (k', v) \<in> set ?es \<and> (k = k' \<or> length v = 32 \<and> k = makeTxKey (copy_hash v)))"
      by (auto split: if_splits)
    then show ?thesis unfolding removed_keys_def kv(8) by auto
  qed
  then show "fmlookup (contents (lti_db (fst (lti_removeBatchLocked K d idx)))) k =
      (if k \<in> removed_keys (contents (lti_db idx)) d then None else fmlookup (contents (lti_db idx)) k)"
    using fold_deletes[of ?ks "contents (lti_db idx)" k] kv(5)[of ?wb] unfolding res wb[symmetric] by simp
  show "open_index opened (fst (lti_removeBatchLocked K d idx))" "snd (lti_removeBatchLocked K d idx) = None"
    using op kv(3)[of ?wb] unfolding res by (simp_all add: open_index_def)
qed

lemma put_entry:
  assumes "k \<in> fst ` set kvs"
  shows "(k, the (fmlookup (fold kv_apply (map (\<lambda>(k, v). KvPut k v) kvs) m) k)) \<in> set kvs"
  using assms
proof (induction kvs arbitrary: m)
  case (Cons e kvs)
  show ?case
  proof (cases "k \<in> fst ` set kvs")
    case True
    then show ?thesis using Cons.IH[of "kv_apply (case e of (k, v) \<Rightarrow> KvPut k v) m"] by simp
  next
    case False
    then have "e = (k, snd e)" using Cons.prems by (cases e) auto
    then show ?thesis using put_other[OF False, of "fmupd k (snd e) m"]
      by (metis (mono_tags, lifting) fmupd_lookup fold_simps(2) kv_apply.simps(1) list.set_intros(1) list.simps(9) option.sel prod.simps(2))
  qed
qed simp

lemma tx_key_prefixes:
  "prefix (makeBatchTxPrefix d) k \<Longrightarrow> prefix (makeBatchTxPrefix e) k \<Longrightarrow> d = e"
  "prefix (makeBatchTxPrefix d) k \<Longrightarrow> \<not> prefix batchRoundIdxPrefix k"
  "\<not> prefix batchRoundIdxPrefix (makeTxKey t)" "\<not> prefix batchRoundIdxPrefix (makeBatchTxKey d i)"
  "prefix batchRoundIdxPrefix (makeBatchRoundIdxKey d)"
  by (auto simp: makeBatchTxPrefix_def makeTxKey_def makeBatchTxKey_def makeBatchRoundIdxKey_def tx_prefixes prefix_def)

section \<open>What the index holds\<close>

definition tx_hashes :: "crypto \<Rightarrow> Batch \<Rightarrow> hash set" where
  "tx_hashes C b = Transaction_Hash C ` set (b_Transactions b)"

text \<open>The transaction bytes under a batch.\<close>

definition tx_list :: "(byte list, byte list) fmap \<Rightarrow> hash \<Rightarrow> byte list set" where
  "tx_list m d = {v. \<exists>k. prefix (makeBatchTxPrefix d) k \<and> fmlookup m k = Some v}"

text \<open>The contents after the batches \<open>bs\<close> were added and those with a digest in \<open>P\<close> removed.\<close>

definition index_holds :: "crypto \<Rightarrow> Batch set \<Rightarrow> hash set \<Rightarrow> (byte list, byte list) fmap \<Rightarrow> bool" where
  "index_holds C bs P m \<longleftrightarrow>
     (\<forall>t. map_has m (makeTxKey t) \<longleftrightarrow> (\<exists>b\<in>bs. t \<in> tx_hashes C b) \<and> (\<forall>b\<in>bs. t \<in> tx_hashes C b \<longrightarrow> b_Digest b \<notin> P)) \<and>
     (\<forall>k v. prefix batchRoundIdxPrefix k \<longrightarrow> (fmlookup m k = Some v \<longleftrightarrow>
        (\<exists>b\<in>bs. b_Digest b \<notin> P \<and> k = makeBatchRoundIdxKey (b_Digest b) \<and> v = be_bytes 8 (b_Round b)))) \<and>
     (\<forall>d. tx_list m d = (if d \<in> P then {} else hash_bytes ` \<Union> (tx_hashes C ` {b \<in> bs. b_Digest b = d})))"

lemma index_holdsD:
  assumes "index_holds C bs P m"
  shows "map_has m (makeTxKey t) \<longleftrightarrow> (\<exists>b\<in>bs. t \<in> tx_hashes C b) \<and> (\<forall>b\<in>bs. t \<in> tx_hashes C b \<longrightarrow> b_Digest b \<notin> P)"
    "prefix batchRoundIdxPrefix k \<Longrightarrow> fmlookup m k = Some v \<longleftrightarrow>
       (\<exists>b\<in>bs. b_Digest b \<notin> P \<and> k = makeBatchRoundIdxKey (b_Digest b) \<and> v = be_bytes 8 (b_Round b))"
    "tx_list m d = (if d \<in> P then {} else hash_bytes ` \<Union> (tx_hashes C ` {b \<in> bs. b_Digest b = d}))"
  using assms unfolding index_holds_def by blast+

lemma index_holds_empty: "index_holds C {} {} fmempty"
  by (simp add: index_holds_def tx_list_def)

lemma round_key_indexed:
  assumes "index_holds C bs P m"
  shows "map_has m (makeBatchRoundIdxKey d) \<longleftrightarrow> (\<exists>b\<in>bs. b_Digest b = d) \<and> d \<notin> P"
  using index_holdsD(2)[OF assms tx_key_prefixes(5), of d] by (auto simp: map_has_def)

lemma index_holds_add:
  assumes K: "kv_ok K opened contents" and o: "open_index opened idx" and h: "index_holds C bs {} (contents (lti_db idx))"
    and new: "b_Digest b \<notin> b_Digest ` bs" and len: "length (b_Transactions b) \<le> 2 ^ 32"
  shows "index_holds C (insert b bs) {} (contents (lti_db (fst (LevelDBTxIndex_AddBatch C K b idx))))"
proof -
  let ?m = "contents (lti_db idx)" and ?m' = "contents (lti_db (fst (LevelDBTxIndex_AddBatch C K b idx)))"
  have fresh: "\<not> map_has ?m (makeBatchRoundIdxKey (b_Digest b))" unfolding round_key_indexed[OF h] using new by (auto simp: image_iff)
  note put = AddBatch_cases(4)[OF K o fresh, of C]
  note added = AddBatch_new[where C = C, OF K o fresh len refl]
  have other: "fmlookup ?m' k = fmlookup ?m k" if "k \<notin> fst ` set (batch_entries C b)" for k
    unfolding put by (rule put_other[OF that])
  have tx: "map_has ?m' (makeTxKey t) \<longleftrightarrow> t \<in> tx_hashes C b \<or> map_has ?m (makeTxKey t)" for t
  proof (cases "t \<in> tx_hashes C b")
    case True
    then show ?thesis using added(2) by (auto simp: tx_hashes_def map_has_def)
  next
    case False
    then have "makeTxKey t \<notin> fst ` set (batch_entries C b)" by (auto simp: batch_entries_iff tx_hashes_def)
    then show ?thesis using False other by (simp add: map_has_def)
  qed
  have rk: "fmlookup ?m' k = (if k = makeBatchRoundIdxKey (b_Digest b) then Some (be_bytes 8 (b_Round b)) else fmlookup ?m k)"
    if "prefix batchRoundIdxPrefix k" for k
  proof (cases "k = makeBatchRoundIdxKey (b_Digest b)")
    case False
    then have "k \<notin> fst ` set (batch_entries C b)" using that tx_key_prefixes(3,4) by (auto simp: batch_entries_iff)
    then show ?thesis using False other by simp
  qed (simp add: added(1))
  have old: "tx_list ?m (b_Digest b) = {}" unfolding index_holdsD(3)[OF h] using new by (auto simp: image_iff)
  have tl: "tx_list ?m' d = (if d = b_Digest b then hash_bytes ` tx_hashes C b else tx_list ?m d)" for d
  proof (cases "d = b_Digest b")
    case True
    have "v \<in> hash_bytes ` tx_hashes C b" if v: "prefix (makeBatchTxPrefix d) k" "fmlookup ?m' k = Some v" for k v
    proof (cases "k \<in> fst ` set (batch_entries C b)")
      case k: True
      from put_entry[OF k, of ?m] have "(k, v) \<in> set (batch_entries C b)" using v(2) unfolding put by simp
      then show ?thesis using v(1) by (auto simp: batch_entries_iff tx_hashes_def)
    next
      case False
      then have "fmlookup ?m k = Some v" using other v(2) by simp
      then show ?thesis using old v(1) True by (auto simp: tx_list_def)
    qed
    moreover have "hash_bytes (Transaction_Hash C tx) \<in> tx_list ?m' d" if tx: "tx \<in> set (b_Transactions b)" for tx
    proof -
      obtain i where "fmlookup ?m' (makeBatchTxKey d i) = Some (hash_bytes (Transaction_Hash C tx))" using added(3)[OF tx] True by blast
      then show ?thesis unfolding tx_list_def using batch_tx_prefix(1) by blast
    qed
    ultimately show ?thesis using True by (auto simp: tx_list_def tx_hashes_def)
  next
    case False
    have "fmlookup ?m' k = fmlookup ?m k" if "prefix (makeBatchTxPrefix d) k" for k
      using that False by (intro other) (auto simp: batch_entries_iff)
    then show ?thesis using False by (auto simp: tx_list_def)
  qed
  show ?thesis
    unfolding index_holds_def
  proof (intro conjI allI impI)
    show "map_has ?m' (makeTxKey t) \<longleftrightarrow> (\<exists>b\<in>insert b bs. t \<in> tx_hashes C b) \<and> (\<forall>b\<in>insert b bs. t \<in> tx_hashes C b \<longrightarrow> b_Digest b \<notin> {})" for t
      unfolding tx using index_holdsD(1)[OF h, of t] by auto
    show "fmlookup ?m' k = Some v \<longleftrightarrow> (\<exists>b\<in>insert b bs. b_Digest b \<notin> {} \<and> k = makeBatchRoundIdxKey (b_Digest b) \<and> v = be_bytes 8 (b_Round b))"
      if "prefix batchRoundIdxPrefix k" for k v
      unfolding rk[OF that] using index_holdsD(2)[OF h that, of v] new by auto
    show "tx_list ?m' d = (if d \<in> {} then {} else hash_bytes ` \<Union> (tx_hashes C ` {x \<in> insert b bs. b_Digest x = d}))" for d
    proof (cases "d = b_Digest b")
      case True
      then have "{x \<in> insert b bs. b_Digest x = d} = {b}" using new by (auto simp: image_iff)
      then show ?thesis unfolding tl using True by simp
    next
      case False
      then have "{x \<in> insert b bs. b_Digest x = d} = {b \<in> bs. b_Digest b = d}" by auto
      then show ?thesis unfolding tl index_holdsD(3)[OF h] using False by simp
    qed
  qed
qed

lemma index_holds_remove:
  assumes K: "kv_ok K opened contents" and o: "open_index opened idx" and h: "index_holds C bs P (contents (lti_db idx))"
  shows "index_holds C bs (insert d P) (contents (lti_db (fst (lti_removeBatchLocked K d idx))))"
proof -
  let ?m = "contents (lti_db idx)" and ?m' = "contents (lti_db (fst (lti_removeBatchLocked K d idx)))"
  note m' = removeBatch_effect(3)[OF K o, of d]
  have rm: "k \<in> removed_keys ?m d \<longleftrightarrow> k = makeBatchRoundIdxKey d \<or> map_has ?m k \<and> prefix (makeBatchTxPrefix d) k \<or>
      (\<exists>t. k = makeTxKey t \<and> hash_bytes t \<in> tx_list ?m d)" for k
  proof -
    have "\<exists>t. v = hash_bytes t" if "v \<in> tx_list ?m d" for v using that index_holdsD(3)[OF h, of d] by (auto split: if_splits)
    then have "(\<exists>v. v \<in> tx_list ?m d \<and> length v = 32 \<and> k = makeTxKey (copy_hash v)) \<longleftrightarrow> (\<exists>t. k = makeTxKey t \<and> hash_bytes t \<in> tx_list ?m d)"
      by (metis copy_hash_bytes(2) length_hash_bytes)
    then show ?thesis unfolding removed_keys_def tx_list_def map_has_def by auto
  qed
  have listed: "hash_bytes t \<in> tx_list ?m d \<longleftrightarrow> d \<notin> P \<and> (\<exists>b\<in>bs. b_Digest b = d \<and> t \<in> tx_hashes C b)" for t
    using index_holdsD(3)[OF h, of d] by auto
  show ?thesis
    unfolding index_holds_def
  proof (intro conjI allI impI)
    fix t
    have "map_has ?m' (makeTxKey t) \<longleftrightarrow> map_has ?m (makeTxKey t) \<and> hash_bytes t \<notin> tx_list ?m d"
      unfolding map_has_def m' rm by auto
    then show "map_has ?m' (makeTxKey t) \<longleftrightarrow> (\<exists>b\<in>bs. t \<in> tx_hashes C b) \<and> (\<forall>b\<in>bs. t \<in> tx_hashes C b \<longrightarrow> b_Digest b \<notin> insert d P)"
      unfolding listed index_holdsD(1)[OF h] by auto
  next
    fix k v
    assume k: "prefix batchRoundIdxPrefix k"
    then have "k \<in> removed_keys ?m d \<longleftrightarrow> k = makeBatchRoundIdxKey d" unfolding rm using tx_key_prefixes(2,3) by blast
    then show "fmlookup ?m' k = Some v \<longleftrightarrow>
        (\<exists>b\<in>bs. b_Digest b \<notin> insert d P \<and> k = makeBatchRoundIdxKey (b_Digest b) \<and> v = be_bytes 8 (b_Round b))"
      unfolding m' using index_holdsD(2)[OF h k, of v] by auto
  next
    fix e
    have "fmlookup ?m' k = (if e = d then None else fmlookup ?m k)" if "prefix (makeBatchTxPrefix e) k" for k
      unfolding m' rm using that tx_key_prefixes(1)[OF that, of d] by (auto simp: map_has_def)
    then have "tx_list ?m' e = (if e = d then {} else tx_list ?m e)" unfolding tx_list_def by auto
    then show "tx_list ?m' e = (if e \<in> insert d P then {} else hash_bytes ` \<Union> (tx_hashes C ` {b \<in> bs. b_Digest b = e}))"
      using index_holdsD(3)[OF h, of e] by simp
  qed
qed

section \<open>Pruning\<close>

lemma prune_loop_effect:
  assumes K: "kv_ok K opened contents" and "open_index opened idx" and "index_holds C bs P (contents (lti_db idx))"
  shows "open_index opened (fst (lti_prune_loop K hs idx))" "snd (lti_prune_loop K hs idx) = None"
    "index_holds C bs (P \<union> set hs) (contents (lti_db (fst (lti_prune_loop K hs idx))))"
proof -
  have "open_index opened (fst (lti_prune_loop K hs idx)) \<and> snd (lti_prune_loop K hs idx) = None \<and>
      index_holds C bs (P \<union> set hs) (contents (lti_db (fst (lti_prune_loop K hs idx))))"
    using assms(2,3)
  proof (induction hs arbitrary: idx P)
    case (Cons d hs)
    obtain idx' where r: "lti_removeBatchLocked K d idx = (idx', None)"
      using removeBatch_effect(2)[OF K Cons.prems(1)] by (metis prod.collapse)
    then have "open_index opened idx'" "index_holds C bs (insert d P) (contents (lti_db idx'))"
      using removeBatch_effect(1)[OF K Cons.prems(1), of d] index_holds_remove[OF K Cons.prems, of d] by simp_all
    from Cons.IH[OF this] show ?case by (simp add: r)
  qed simp
  then show "open_index opened (fst (lti_prune_loop K hs idx))" "snd (lti_prune_loop K hs idx) = None"
    "index_holds C bs (P \<union> set hs) (contents (lti_db (fst (lti_prune_loop K hs idx))))" by blast+
qed

lemma AddBatch_run:
  assumes K: "kv_ok K opened contents" and "open_index opened idx" and "index_holds C (set old) {} (contents (lti_db idx))"
    and "distinct (map b_Digest (old @ bs))" and "\<And>b. b \<in> set bs \<Longrightarrow> length (b_Transactions b) \<le> 2 ^ 32"
  shows "open_index opened (fold (\<lambda>b i. fst (LevelDBTxIndex_AddBatch C K b i)) bs idx) \<and>
    index_holds C (set (old @ bs)) {} (contents (lti_db (fold (\<lambda>b i. fst (LevelDBTxIndex_AddBatch C K b i)) bs idx)))"
  using assms(2-5)
proof (induction bs arbitrary: idx old)
  case (Cons b bs)
  let ?idx = "fst (LevelDBTxIndex_AddBatch C K b idx)"
  have "index_holds C (insert b (set old)) {} (contents (lti_db ?idx))"
    by (rule index_holds_add[OF K Cons.prems(1,2)]) (use Cons.prems(3,4) in auto)
  then have "index_holds C (set (old @ [b])) {} (contents (lti_db ?idx))" by simp
  from Cons.IH[OF AddBatch_cases(1)[OF K Cons.prems(1)] this] show ?case using Cons.prems(3,4) by simp
qed simp

text \<open>The batches that a pruning takes, and what it leaves.\<close>

lemma PruneOlderThan_effect:
  assumes K: "kv_ok K opened contents" and o: "open_index opened idx"
    and h: "index_holds C (set bs) {} (contents (lti_db idx))" and d: "distinct (map b_Digest bs)"
    and res: "LevelDBTxIndex_PruneOlderThan K rnd idx = (idx', n, e)"
  shows "open_index opened idx'" "e = None" "n = length (filter (\<lambda>b. b_Round b < rnd) bs)"
    "index_holds C (set bs) (b_Digest ` {b \<in> set bs. b_Round b < rnd}) (contents (lti_db idx'))"
proof -
  note op = open_indexD[OF o]
  note kv = kv_okD[OF K op(2)]
  let ?es = "fst (kv_Iter K batchRoundIdxPrefix (lti_db idx))"
  let ?f = "\<lambda>(key, v). if length key < length batchRoundIdxPrefix + 32 \<or> length v < 8 then None
    else if be_word (take 8 v) \<ge> rnd then None else Some (copy_hash (drop (length batchRoundIdxPrefix) key))"
  let ?tp = "List.map_filter ?f ?es"
  have f: "?f (makeBatchRoundIdxKey x, be_bytes 8 r) = (if r \<ge> rnd then None else Some x)" for x and r :: u64
    by (simp add: makeBatchRoundIdxKey_def)
  have entry: "(k, v) \<in> set ?es \<longleftrightarrow> (\<exists>b\<in>set bs. k = makeBatchRoundIdxKey (b_Digest b) \<and> v = be_bytes 8 (b_Round b))" for k v
    unfolding kv(8) using index_holdsD(2)[OF h, of k v] tx_key_prefixes(5) by auto
  have mem: "x \<in> set ?tp \<longleftrightarrow> x \<in> b_Digest ` {b \<in> set bs. b_Round b < rnd}" for x
  proof -
    have "x \<in> set ?tp \<longleftrightarrow> (\<exists>b\<in>set bs. ?f (makeBatchRoundIdxKey (b_Digest b), be_bytes 8 (b_Round b)) = Some x)"
      unfolding map_filter_entries entry by blast
    also have "\<dots> \<longleftrightarrow> (\<exists>b\<in>set bs. (if b_Round b \<ge> rnd then None else Some (b_Digest b)) = Some x)" unfolding f ..
    also have "\<dots> \<longleftrightarrow> x \<in> b_Digest ` {b \<in> set bs. b_Round b < rnd}" by (force simp: not_le)
    finally show ?thesis .
  qed
  have tp: "set ?tp = b_Digest ` {b \<in> set bs. b_Round b < rnd}" using mem by blast
  have "distinct (map id ?tp)"
  proof (rule distinct_entries[where g = makeBatchRoundIdxKey])
    fix e x
    assume "e \<in> set ?es" and fe: "?f e = Some x"
    then have "(fst e, snd e) \<in> set ?es" by simp
    then obtain b :: Batch where "fst e = makeBatchRoundIdxKey (b_Digest b)" "snd e = be_bytes 8 (b_Round b)" unfolding entry by blast
    then have e: "e = (makeBatchRoundIdxKey (b_Digest b), be_bytes 8 (b_Round b))" by (simp add: prod_eq_iff)
    have "(if b_Round b \<ge> rnd then None else Some (b_Digest b)) = Some x" using fe unfolding e f .
    then show "fst e = makeBatchRoundIdxKey (id x)" by (simp add: e split: if_splits)
  qed (rule kv(7))
  then have "length ?tp = card (b_Digest ` {b \<in> set bs. b_Round b < rnd})"
    using distinct_card[of ?tp] unfolding tp by simp
  also have "\<dots> = length (filter (\<lambda>b. b_Round b < rnd) bs)"
  proof -
    have "distinct (map b_Digest (filter (\<lambda>b. b_Round b < rnd) bs))" by (rule distinct_map_filter[OF d])
    from distinct_card[OF this] show ?thesis by simp
  qed
  finally have len: "length ?tp = length (filter (\<lambda>b. b_Round b < rnd) bs)" .
  note loop = prune_loop_effect[OF K o h, of ?tp]
  have "LevelDBTxIndex_PruneOlderThan K rnd idx = (fst (lti_prune_loop K ?tp idx), length ?tp, None)"
    using op(1) kv(6) loop(2) by (simp add: LevelDBTxIndex_PruneOlderThan_def Let_def case_prod_unfold split: prod.split option.split)
  then have r: "idx' = fst (lti_prune_loop K ?tp idx)" "n = length ?tp" "e = None" using res by simp_all
  show "open_index opened idx'" "e = None" "n = length (filter (\<lambda>b. b_Round b < rnd) bs)"
    using loop(1) r len by simp_all
  show "index_holds C (set bs) (b_Digest ` {b \<in> set bs. b_Round b < rnd}) (contents (lti_db idx'))"
    using loop(3) unfolding r(1) tp by simp
qed

text \<open>
  \<^bold>\<open>C40\<close> What the LevelDB transaction index knows after a pruning. Let batches with different digests be added to a new
  index over a database that works, in any order, and prune at a round. The pruning succeeds and reports the number of
  the batches below the round. Afterwards a transaction is known exactly if some batch contains it and no pruned batch
  does: a transaction that a kept batch contains is forgotten when a pruned batch contained it too. It stays forgotten,
  because adding the kept batch again does nothing.
\<close>

theorem PruneOlderThan_forgets_shared:
  assumes "kv_ok K opened contents"
    and "NewLevelDBTxIndex K path = Inr idx0" and "opened (lti_db idx0)" and "contents (lti_db idx0) = fmempty"
    and "distinct (map b_Digest bs)" and "\<forall>b\<in>set bs. length (b_Transactions b) \<le> 2 ^ 32"
    and "LevelDBTxIndex_PruneOlderThan K rnd (fold (\<lambda>b i. fst (LevelDBTxIndex_AddBatch C K b i)) bs idx0) = (idx', n, e)"
  shows "e = None \<and> n = length (filter (\<lambda>b. b_Round b < rnd) bs) \<and>
    (\<forall>t. LevelDBTxIndex_HasTx K t idx' \<longleftrightarrow>
       (\<exists>b\<in>set bs. t \<in> tx_hashes C b) \<and> \<not> (\<exists>b\<in>set bs. b_Round b < rnd \<and> t \<in> tx_hashes C b)) \<and>
    (\<forall>b\<in>set bs. rnd \<le> b_Round b \<longrightarrow> LevelDBTxIndex_AddBatch C K b idx' = (idx', None))"
proof -
  let ?idx = "fold (\<lambda>b i. fst (LevelDBTxIndex_AddBatch C K b i)) bs idx0" and ?P = "b_Digest ` {b \<in> set bs. b_Round b < rnd}"
  have "open_index opened idx0" using assms(2,3) by (auto simp: open_index_def NewLevelDBTxIndex_def split: sum.splits)
  then have o: "open_index opened ?idx" and h: "index_holds C (set bs) {} (contents (lti_db ?idx))"
    using AddBatch_run[OF assms(1), of idx0 C "[]" bs] index_holds_empty assms(4-6) by simp_all
  note eff = PruneOlderThan_effect[OF assms(1) o h assms(5,7)]
  have P: "b_Digest b \<in> ?P \<longleftrightarrow> b_Round b < rnd" if "b \<in> set bs" for b
    using that assms(5) by (auto simp: distinct_map inj_on_def)
  have "LevelDBTxIndex_HasTx K t idx' \<longleftrightarrow> map_has (contents (lti_db idx')) (makeTxKey t)" for t
    using open_indexD[OF eff(1)] kv_okD(2)[OF assms(1)] by (simp add: LevelDBTxIndex_HasTx_def)
  then have "LevelDBTxIndex_HasTx K t idx' \<longleftrightarrow>
      (\<exists>b\<in>set bs. t \<in> tx_hashes C b) \<and> \<not> (\<exists>b\<in>set bs. b_Round b < rnd \<and> t \<in> tx_hashes C b)" for t
    unfolding index_holdsD(1)[OF eff(4)] using P by blast
  moreover have "LevelDBTxIndex_AddBatch C K b idx' = (idx', None)" if "b \<in> set bs" "rnd \<le> b_Round b" for b
    using AddBatch_cases(3)[OF assms(1) eff(1), of b C] round_key_indexed[OF eff(4), of "b_Digest b"] P[OF that(1)] that by auto
  ultimately show ?thesis using eff(2,3) by blast
qed

definition shared_batch :: "hash \<Rightarrow> u64 \<Rightarrow> Batch" where
  "shared_batch d r = \<lparr>b_WorkerID = 0, b_ValidatorID = 1, b_Round = r, b_Transactions = [[7, 7]], b_Digest = d, b_Timestamp = 0\<rparr>"

text \<open>Two batches with one transaction: pruning the older one forgets the transaction of the newer one.\<close>

theorem PruneOlderThan_forgets_shared_witness:
  "\<exists>idx idx' n e. idx = fold (\<lambda>b i. fst (LevelDBTxIndex_AddBatch demo_crypto mem_kv b i)) [shared_batch 70 2, shared_batch 71 8]
      \<lparr>lti_db = fmempty, lti_closed = False\<rparr> \<and>
    LevelDBTxIndex_HasTx mem_kv (Transaction_Hash demo_crypto [7, 7]) idx \<and>
    LevelDBTxIndex_PruneOlderThan mem_kv 5 idx = (idx', n, e) \<and> n = 1 \<and>
    \<not> LevelDBTxIndex_HasTx mem_kv (Transaction_Hash demo_crypto [7, 7]) idx'"
proof -
  let ?bs = "[shared_batch 70 2, shared_batch 71 8]"
  let ?idx = "fold (\<lambda>b i. fst (LevelDBTxIndex_AddBatch demo_crypto mem_kv b i)) ?bs \<lparr>lti_db = fmempty, lti_closed = False\<rparr>"
  obtain idx' n e where r: "LevelDBTxIndex_PruneOlderThan mem_kv 5 ?idx = (idx', n, e)" by (metis prod_cases3)
  have new: "NewLevelDBTxIndex mem_kv ''txs'' = Inr \<lparr>lti_db = fmempty, lti_closed = False\<rparr>"
    by (simp add: NewLevelDBTxIndex_def mem_kv_def)
  have d: "distinct (map b_Digest ?bs)" "\<forall>b\<in>set ?bs. length (b_Transactions b) \<le> 2 ^ 32"
    "id (lti_db \<lparr>lti_db = fmempty, lti_closed = False\<rparr>) = fmempty" by (simp_all add: shared_batch_def)
  have len: "length (filter (\<lambda>b. b_Round b < 5) ?bs) = 1" by (simp add: shared_batch_def)
  have t: "\<exists>b\<in>set ?bs. b_Round b < 5 \<and> Transaction_Hash demo_crypto [7, 7] \<in> tx_hashes demo_crypto b"
    by (simp add: shared_batch_def tx_hashes_def)
  have "LevelDBTxIndex_HasTx mem_kv (Transaction_Hash demo_crypto [7, 7]) ?idx" by code_simp
  then show ?thesis using PruneOlderThan_forgets_shared[OF mem_kv_ok new _ d(3) d(1,2) r] r len t by blast
qed

end
