(* ===== verification/Text_Keys.thy ===== *)
theory Text_Keys
  imports Primary
begin

text \<open>
  The text form of hashes (\<^verbatim>\<open>types/hash.go\<close>), keys and signatures out of bytes (\<^verbatim>\<open>types/signature.go\<close>) and the
  Ed25519 signer (\<^verbatim>\<open>types/signer.go\<close>). A Go string is the list of its bytes. \<^verbatim>\<open>encoding/hex\<close> is modelled; of
  \<^verbatim>\<open>crypto/ed25519\<close> signing and key generation are arguments.
\<close>

section \<open>Hexadecimal text\<close>

definition hex_digit :: "nat \<Rightarrow> byte" where
  "hex_digit n = (if n < 10 then of_nat (48 + n) else of_nat (87 + n))"

definition hex_EncodeToString :: "byte list \<Rightarrow> byte list" where
  "hex_EncodeToString bs = concat (map (\<lambda>b. [hex_digit (unat b div 16), hex_digit (unat b mod 16)]) bs)"

definition hex_value :: "byte \<Rightarrow> nat option" where
  "hex_value c =
     (if 48 \<le> c \<and> c \<le> 57 then Some (unat c - 48)
      else if 97 \<le> c \<and> c \<le> 102 then Some (unat c - 87)
      else if 65 \<le> c \<and> c \<le> 70 then Some (unat c - 55)
      else None)"

datatype hex_error = HexInvalidByte byte | HexLength

fun hex_DecodeString :: "byte list \<Rightarrow> hex_error + byte list" where
  "hex_DecodeString [] = Inr []"
| "hex_DecodeString [c] = (case hex_value c of None \<Rightarrow> Inl (HexInvalidByte c) | Some _ \<Rightarrow> Inl HexLength)"
| "hex_DecodeString (p # q # rest) =
     (case hex_value p of
        None \<Rightarrow> Inl (HexInvalidByte p)
      | Some a \<Rightarrow> (case hex_value q of
          None \<Rightarrow> Inl (HexInvalidByte q)
        | Some b \<Rightarrow> (case hex_DecodeString rest of Inl e \<Rightarrow> Inl e | Inr bs \<Rightarrow> Inr (of_nat (16 * a + b) # bs))))"

section \<open>Hashes, signatures and keys\<close>

definition Hash_String :: "hash \<Rightarrow> byte list" where
  "Hash_String h = hex_EncodeToString (hash_bytes h)"

definition Hash_MarshalText :: "hash \<Rightarrow> byte list result" where
  "Hash_MarshalText h = Inr (Hash_String h)"

definition Hash_UnmarshalText :: "byte list \<Rightarrow> hash \<Rightarrow> hash \<times> err option" where
  "Hash_UnmarshalText txt h =
     (case hex_DecodeString txt of
        Inl _ \<Rightarrow> (h, Some (ErrOther ''invalid hash hex''))
      | Inr decoded \<Rightarrow>
          if length decoded \<noteq> 32 then (h, Some (ErrOther ''invalid hash length''))
          else (be_word decoded, None))"

definition HashFromHex :: "byte list \<Rightarrow> hash result" where
  "HashFromHex s =
     (case hex_DecodeString s of
        Inl _ \<Rightarrow> Inl (ErrOther ''invalid hash hex'')
      | Inr decoded \<Rightarrow> HashFromBytes decoded)"

definition SignatureFromBytes :: "byte list \<Rightarrow> signature result" where
  "SignatureFromBytes b = (if length b \<noteq> 64 then Inl (ErrOther ''invalid signature length'') else Inr (be_word b))"

definition Signature_String :: "signature \<Rightarrow> byte list" where
  "Signature_String s = hex_EncodeToString (be_bytes 64 s)"

definition PublicKey_String :: "pubkey \<Rightarrow> byte list" where
  "PublicKey_String pk = hex_EncodeToString (be_bytes 32 pk)"

definition PublicKeyFromBytes :: "byte list \<Rightarrow> pubkey result" where
  "PublicKeyFromBytes b = (if length b \<noteq> 32 then Inl (ErrOther ''invalid public key length'') else Inr (be_word b))"

section \<open>The Ed25519 signer\<close>

record ed25519 =
  ed_Sign :: "byte list \<Rightarrow> byte list \<Rightarrow> byte list"
  ed_GenerateKey :: "byte list option"

record Ed25519Signer =
  es_privateKey :: "byte list"
  es_publicKey :: pubkey
  es_validatorIndex :: u16

text \<open>\<^verbatim>\<open>copy\<close> into an array of \<open>n\<close> zero bytes.\<close>

definition copy_array :: "nat \<Rightarrow> byte list \<Rightarrow> byte list" where
  "copy_array n bs = take n bs @ replicate (n - length bs) 0"

text \<open>The public key is the second half of the private key.\<close>

definition NewEd25519Signer :: "byte list \<Rightarrow> u16 \<Rightarrow> Ed25519Signer result" where
  "NewEd25519Signer privateKey validatorIndex =
     (if length privateKey \<noteq> 64 then Inl (ErrOther ''invalid private key size'')
      else let pub = drop 32 privateKey
           in Inr \<lparr>es_privateKey = privateKey, es_publicKey = be_word (copy_array 32 pub), es_validatorIndex = validatorIndex\<rparr>)"

definition Ed25519Signer_Sign :: "ed25519 \<Rightarrow> Ed25519Signer \<Rightarrow> hash \<Rightarrow> signature result" where
  "Ed25519Signer_Sign E s digest =
     (let sigBytes = ed_Sign E (es_privateKey s) (hash_bytes digest)
      in Inr (be_word (copy_array 64 sigBytes)))"

definition GenerateEd25519Signer :: "ed25519 \<Rightarrow> u16 \<Rightarrow> Ed25519Signer result" where
  "GenerateEd25519Signer E validatorIndex =
     (case ed_GenerateKey E of
        None \<Rightarrow> Inl (ErrOther ''generating key'')
      | Some privateKey \<Rightarrow> NewEd25519Signer privateKey validatorIndex)"

text \<open>The signer as a value of the interface.\<close>

definition ed_signer :: "ed25519 \<Rightarrow> Ed25519Signer \<Rightarrow> signer" where
  "ed_signer E s = \<lparr>sg_Sign = Ed25519Signer_Sign E s, sg_PublicKey = es_publicKey s, sg_ValidatorIndex = es_validatorIndex s\<rparr>"

section \<open>Text and back\<close>

text \<open>A digit as the encoder writes it.\<close>

definition hex_lower :: "byte \<Rightarrow> byte" where
  "hex_lower c = (if 65 \<le> c \<and> c \<le> 70 then c + 32 else c)"

lemma hex_value_digit: "hex_value c = Some x \<longleftrightarrow> x < 16 \<and> hex_lower c = hex_digit x"
proof -
  have all: "list_all (\<lambda>c. list_all (\<lambda>x. (hex_value c = Some x) = (hex_lower c = hex_digit x)) [0..<16]) (map of_nat [0..<256])"
    by code_simp
  have "c = of_nat (unat c)" "unat c < 256" using unsigned_less[where ?'b = 8 and w = c and ?'a = nat] by simp_all
  then have c: "c \<in> set (map of_nat [0..<256])" by (metis atLeastLessThan_iff image_eqI le0 set_map set_upt)
  have small: "x < 16" if "hex_value c = Some x"
    using that by (auto simp: hex_value_def word_le_nat_alt split: if_splits)
  show ?thesis
  proof (cases "x < 16")
    case True
    then have "x \<in> set [0..<16]" by simp
    then show ?thesis using all c True unfolding list_all_iff by blast
  qed (use small in blast)
qed

lemma byte_digits:
  fixes b :: byte
  shows "unat b div 16 < 16" "b = of_nat (16 * (unat b div 16) + unat b mod 16)"
    "a < 16 \<Longrightarrow> d < 16 \<Longrightarrow> unat (of_nat (16 * a + d) :: byte) = 16 * a + d"
proof -
  have "unat b < 256" using unsigned_less[where ?'b = 8 and w = b and ?'a = nat] by simp
  then show "unat b div 16 < 16" by simp
  show "b = of_nat (16 * (unat b div 16) + unat b mod 16)" by simp
  show "unat (of_nat (16 * a + d) :: byte) = 16 * a + d" if "a < 16" "d < 16"
    using that by (simp add: unat_of_nat del: of_nat_add of_nat_mult)
qed

lemma hex_decode_iff: "hex_DecodeString s = Inr bs \<longleftrightarrow> map hex_lower s = hex_EncodeToString bs"
proof (induction s arbitrary: bs rule: hex_DecodeString.induct)
  case 1
  then show ?case by (cases bs) (auto simp: hex_EncodeToString_def)
next
  case (2 c)
  then show ?case by (cases bs) (auto simp: hex_EncodeToString_def split: option.split)
next
  case (3 p q rest)
  show ?case
  proof (cases bs)
    case Nil
    then show ?thesis by (auto simp: hex_EncodeToString_def split: option.split sum.split)
  next
    case (Cons b bs')
    have "hex_DecodeString (p # q # rest) = Inr bs \<longleftrightarrow>
        (\<exists>x y. hex_value p = Some x \<and> hex_value q = Some y \<and> of_nat (16 * x + y) = b \<and> hex_DecodeString rest = Inr bs')"
      using Cons by (auto split: option.split sum.split)
    also have "\<dots> \<longleftrightarrow> hex_value p = Some (unat b div 16) \<and> hex_value q = Some (unat b mod 16) \<and> hex_DecodeString rest = Inr bs'"
    proof -
      have "x = unat b div 16 \<and> y = unat b mod 16" if "hex_value p = Some x" "hex_value q = Some y" "of_nat (16 * x + y) = b" for x y
        using that(1,2) byte_digits(3)[of x y] unfolding hex_value_digit that(3)[symmetric] by auto
      then show ?thesis using byte_digits(2)[of b] by metis
    qed
    also have "\<dots> \<longleftrightarrow> hex_lower p = hex_digit (unat b div 16) \<and> hex_lower q = hex_digit (unat b mod 16) \<and>
        map hex_lower rest = hex_EncodeToString bs'"
    proof (cases "hex_value p = Some (unat b div 16) \<and> hex_value q = Some (unat b mod 16)")
      case True
      then obtain x y where "hex_value p = Some x" "hex_value q = Some y" by blast
      then show ?thesis using True "3.IH" unfolding hex_value_digit by blast
    qed (auto simp: hex_value_digit byte_digits(1))
    finally show ?thesis using Cons by (simp add: hex_EncodeToString_def)
  qed
qed

lemma hex_lower_digit: "x < 16 \<Longrightarrow> hex_lower (hex_digit x) = hex_digit x"
proof -
  have "list_all (\<lambda>x. hex_lower (hex_digit x) = hex_digit x) [0..<16]" by code_simp
  then show "x < 16 \<Longrightarrow> hex_lower (hex_digit x) = hex_digit x" by (simp add: list_all_iff)
qed

lemma hex_lower_String: "map hex_lower (Hash_String h) = Hash_String h"
  by (simp add: Hash_String_def hex_EncodeToString_def map_concat comp_def hex_lower_digit byte_digits(1))

text \<open>
  \<^bold>\<open>C38\<close>: the text form of a hash is exact. \<^verbatim>\<open>HashFromHex\<close> accepts exactly the texts that are, up to the case of the letters, the
  text of a hash, and returns that hash. \<^verbatim>\<open>UnmarshalText\<close> sets the hash to it in this case and otherwise returns an error and
  leaves the hash alone, and what \<^verbatim>\<open>MarshalText\<close> writes is read back.
\<close>

theorem hash_text_roundtrip:
  "(HashFromHex s = Inr h \<longleftrightarrow> map hex_lower s = Hash_String h) \<and>
   (Hash_UnmarshalText s h0 = (case HashFromHex s of Inl e \<Rightarrow> (h0, Some e) | Inr x \<Rightarrow> (x, None))) \<and>
   (\<exists>t. Hash_MarshalText h = Inr t \<and> HashFromHex t = Inr h)"
proof -
  have inv: "hash_bytes (be_word bs) = bs" if "length bs = 32" for bs
    unfolding hash_bytes_def by (rule be_bytes_be_word) (simp_all add: that)
  have "HashFromHex s = Inr h \<longleftrightarrow> hex_DecodeString s = Inr (hash_bytes h)" for s
    using HashFromBytes_roundtrip[of h] inv
    by (auto simp: HashFromHex_def HashFromBytes_def split: sum.split if_splits)
  then have dec: "HashFromHex s = Inr h \<longleftrightarrow> map hex_lower s = Hash_String h" for s
    by (simp add: hex_decode_iff Hash_String_def)
  show ?thesis
    using dec by (auto simp: Hash_UnmarshalText_def HashFromHex_def HashFromBytes_def Hash_MarshalText_def hex_lower_String split: sum.split)
qed

section \<open>The signer of a node\<close>

text \<open>
  What the signer relies on: signatures made with a private key verify under its public half, and have 64 bytes. With it a signer made
  from the key of validator \<open>i\<close> meets the condition that the node's theorems put on its signer.
\<close>

definition ed25519_ok :: "crypto \<Rightarrow> ed25519 \<Rightarrow> bool" where
  "ed25519_ok C E \<longleftrightarrow>
     (\<forall>key d. length key = 64 \<longrightarrow> length (ed_Sign E key (hash_bytes d)) = 64 \<and>
        EdVerify C (be_word (drop 32 key)) d (be_word (ed_Sign E key (hash_bytes d))))"

lemma copy_array_full [simp]: "length bs = n \<Longrightarrow> copy_array n bs = bs"
  by (simp add: copy_array_def)

lemma ed_signer_ok:
  assumes "ed25519_ok C E" "NewEd25519Signer key i = Inr s"
    and "ValidatorSet_GetByIndex vs i = Some a" "val_PublicKey a = es_publicKey s"
  shows "signer_ok C vs i (ed_signer E s)" "sg_ValidatorIndex (ed_signer E s) = i"
    "\<exists>sig. sg_Sign (ed_signer E s) d = Inr sig"
  using assms unfolding signer_ok_def ed25519_ok_def
  by (auto simp: ed_signer_def Ed25519Signer_Sign_def NewEd25519Signer_def PublicKey_Verify_def Let_def split: if_splits)

end
