(* ===== verification/Spec2Isabelle.thy ===== *)
theory Spec2Isabelle
  imports Certificates Vote_Tracker Worker_Pool Dag_Properties Flow_Control Primary Gc_Manager Sync_Manager
    Cluster Leveldb_Batch Leveldb_Cert Leveldb_Tx_Index Text_Keys
begin

text \<open>
  A verification of looseberry, a mempool that orders transactions in a DAG of certificates (in the style of Narwhal).

  \<^bold>\<open>The program.\<close> Workers (\<^verbatim>\<open>worker\<close>) collect transactions into batches; a batch is broadcast, stored and
  acknowledged by the other validators. The primary (\<^verbatim>\<open>primary\<close>) puts batches that a quorum has acknowledged into a header,
  signs and broadcasts it, votes for the headers of others and turns a quorum of votes into a certificate. The DAG (\<^verbatim>\<open>dag\<close>)
  holds the certificates by round and author, computes causal histories and delivers certificates in order. Garbage
  collection and flow control (\<^verbatim>\<open>gc\<close>) follow the commits of the application. Sync (\<^verbatim>\<open>network/sync.go\<close>) fetches missing
  rounds. The node (\<^verbatim>\<open>looseberry.go\<close>) owns the stores (\<^verbatim>\<open>store\<close>), connects the components by callbacks, handles the
  messages of the network (\<^verbatim>\<open>network\<close>) and offers the mempool interface to the application.

  \<^bold>\<open>Theories and sources.\<close> Definitions keep the names of the code: \<open>T_f\<close> is the method \<^verbatim>\<open>f\<close> of the type \<^verbatim>\<open>T\<close>, a record has
  the fields of the struct with a short prefix.

  \<^item> \<open>Prelude\<close>: Go types and maps, big-endian bytes, shared lemmas.
  \<^item> \<open>Wire_Types\<close>, \<open>Bit_Set\<close>, \<open>Certificates\<close>, \<open>Validators\<close>, \<open>Text_Keys\<close>: package \<^verbatim>\<open>types\<close>. What digests bind and
    where the header digest is ambiguous, what \<^verbatim>\<open>Certificate.Verify\<close> accepts, intersection of quorums and uniqueness of
    certificates, the text form of hashes, the Ed25519 signer.
  \<^item> \<open>Stores\<close>: \<^verbatim>\<open>store/store.go\<close> as the locales \<open>digest_store\<close>, \<open>cert_store\<close>, \<open>tx_index\<close> and the memory stores as their
    interpretations.
  \<^item> \<open>Leveldb_Kv\<close>, \<open>Leveldb_Batch\<close>, \<open>Leveldb_Cert\<close>, \<open>Leveldb_Tx_Index\<close>: the persistent stores \<^verbatim>\<open>store/leveldb_*.go\<close>, their
    keys byte for byte. Refinement to the memory stores, and the inputs on which they differ from them.
  \<^item> \<open>Ack_Tracker\<close>, \<open>Pending_Heap\<close>, \<open>Workers\<close>, \<open>Worker_Pool\<close>, \<open>Scaler\<close>: package \<^verbatim>\<open>worker\<close>. Counting of
    acknowledgments, the heap as a priority queue (locale \<open>priority_queue\<close>), consistency of the pending transactions,
    which batch is made, scaling without loss.
  \<^item> \<open>Vote_Tracker\<close>, \<open>Batch_Fetcher\<close>, \<open>Primary\<close>: package \<^verbatim>\<open>primary\<close>. Formation of certificates, delivery of headers whose
    batches have arrived, what headers cite and when the primary votes.
  \<^item> \<open>Dag\<close>, \<open>Dag_Runs\<close>, \<open>Dag_History\<close>, \<open>Dag_Properties\<close>: \<^verbatim>\<open>dag/dag.go\<close>. The invariant of all runs, causal
    histories with and without cache, ordered delivery.
  \<^item> \<open>Flow_Control\<close>, \<open>Gc_Manager\<close>: package \<^verbatim>\<open>gc\<close>. Refinement of the pause decision to unbounded integers, what a
    collection deletes and recovers.
  \<^item> \<open>Messages\<close>, \<open>Sync_Manager\<close>, \<open>Mock_Network\<close>: package \<^verbatim>\<open>network\<close>. Answers to sync requests, wrap-around of the range
    computation, refinement of the mock network to message queues.
  \<^item> \<open>Node_Config\<close>, \<open>Node\<close>, \<open>Node_Lifecycle\<close>: \<^verbatim>\<open>config.go\<close> and \<^verbatim>\<open>looseberry.go\<close>. \<open>Node_Runs\<close>, \<open>Pool_Safety\<close>,
    \<open>Node_Safety\<close>, \<open>Reap\<close>, \<open>Node_Stores\<close>, \<open>Orphans\<close> and \<open>Node_Properties\<close> prove what holds in every run of a node: its
    certificates verify, its headers cite available batches, its stores are well formed, replaying orphans ends, and what
    \<^verbatim>\<open>ReapCertifiedBatches\<close> returns.
  \<^item> \<open>Cluster\<close>: nodes joined by mock networks, among members that send what they like. A message that names a node as its
    sender comes from that node.

  \<^bold>\<open>How the code is represented.\<close>

  \<^item> \<^verbatim>\<open>uint16\<close>, \<^verbatim>\<open>uint32\<close> and \<^verbatim>\<open>uint64\<close> are words and wrap around; hashes, keys and signatures are words of their width;
    \<^verbatim>\<open>int\<close> and times are integers; \<^verbatim>\<open>float64\<close> is a rational rounded to 53 bits after every operation.
  \<^item> A method takes the state and returns the new state. Errors are values (\<open>err option\<close>, \<open>'a result\<close>). The text of an
    error is kept without its formatted arguments.
  \<^item> A Go map is a finite map. Where the order of a \<^verbatim>\<open>range\<close> loop matters it is an argument, and the theorems hold for
    every order that lists the keys. The clock is the argument \<open>now\<close>.
  \<^item> Callbacks and calls of the network are outputs in the order in which the code makes them. Stores shared by reference
    are held once by the node and passed to the components; mock networks, which refer to each other, live in a heap.
  \<^item> A loop that runs in a goroutine is one step per event (\<open>node_step\<close>); a run (\<open>node_run\<close>, \<open>cluster_run\<close>) is any sequence
    of steps. Work handed to a goroutine happens where it is dispatched.
  \<^item> SHA-256 and Ed25519 (record \<open>crypto\<close>, \<open>ed25519\<close>), the database (\<open>kv\<close>) and the codec of the persistent stores (\<open>codec\<close>)
    are arguments. What a theorem needs of them is a hypothesis of it: no collision among the byte strings it speaks of,
    \<open>signer_ok\<close>, \<open>kv_ok\<close>, \<open>codec_ok\<close>. Witnesses instantiate them, the database by \<open>mem_kv\<close>.

  \<^bold>\<open>Bounds and termination.\<close> No fuel is used. Loops are structural recursion or have a termination proof (bit
  count, heap, fallback scan of the collector, replay of orphans). The depth of a causal search is the bound of the code,
  \<^verbatim>\<open>MaxHistoryDepth\<close>. The loops over a range of rounds do not end for the upper round 2^64-1, because the counter wraps:
  they are partial functions, \<open>None\<close> means that the loop does not return, and the theorems about ordered delivery and sync
  prove that it returns for all other bounds.

  \<^bold>\<open>Not modelled.\<close> Locks and the interleaving inside a handler: a handler is one step, so deadlocks and data races are
  outside of the model. Logging. The recovery from panics in callbacks (\<^verbatim>\<open>recoverCallback\<close>), since callbacks do not panic in the
  model. \<^verbatim>\<open>Clone\<close> and the accessors that return a field: values have no aliases. Channels without a buffer in the mock network.
  The inside of goleveldb, cramberry, SHA-256 and Ed25519. In the node a persistent store is represented by the memory store
  with its contents; the theories \<open>Leveldb_*\<close> show for which inputs batch and certificate store answer alike. The loop
  \<^verbatim>\<open>SyncManager.handleMessages\<close> only passes messages to the two handlers that the node calls as well.
\<close>

end
